(* ===== verification/Sandook_Prelude.thy ===== *)
theory Sandook_Prelude
  imports Complex_Main "HOL-Library.Word"
begin

text \<open>
  Shared vocabulary of the development: the machine integers the sources use, the
  \<open>Status<T>\<close> results of \<open>sandook/base/error.h\<close> extended with the ways a C++ call can stop
  without returning (an exception or a failed \<open>assert\<close>), bounds-checked access to
  \<open>std::array\<close> and \<open>std::vector\<close>, and the list and word lemmas the components share.
\<close>

named_theorems status_simps \<open>case analysis of calls that may fail\<close>
named_theorems unfold_ops \<open>unfolding of straight-line operations\<close>

section \<open>Machine integers\<close>

type_synonym u64 = "64 word"
type_synonym u32 = "32 word"

text \<open>Unsigned values that the sources keep in 32 bits and the model keeps as natural
  numbers are reduced where the sources convert or increment them.\<close>

definition to_u32 :: "nat \<Rightarrow> nat" where
  "to_u32 n = n mod 2 ^ 32"

definition to_u64 :: "nat \<Rightarrow> nat" where
  "to_u64 n = n mod 2 ^ 64"

lemma to_u32_less [simp]: "to_u32 n < 2 ^ 32"
  by (simp add: to_u32_def)

lemma to_u64_less [simp]: "to_u64 n < 2 ^ 64"
  by (simp add: to_u64_def)

lemma to_u32_id: "n < 2 ^ 32 \<Longrightarrow> to_u32 n = n"
  by (simp add: to_u32_def)

lemma to_u64_id: "n < 2 ^ 64 \<Longrightarrow> to_u64 n = n"
  by (simp add: to_u64_def)

text \<open>Subtraction of \<open>uint64_t\<close> values.\<close>

definition usub64 :: "nat \<Rightarrow> nat \<Rightarrow> nat" where
  "usub64 a b = to_u64 (a + 2 ^ 64 - b)"

lemma usub64_ge: "b \<le> a \<Longrightarrow> a < 2 ^ 64 \<Longrightarrow> usub64 a b = a - b"
proof -
  assume "b \<le> a" "a < 2 ^ 64"
  then have "a + 2 ^ 64 - b = (a - b) + 2 ^ 64" "a - b < 2 ^ 64" by linarith+
  then show ?thesis by (simp only: usub64_def to_u64_def mod_add_self2 mod_less)
qed

section \<open>Results of calls\<close>

text \<open>
  \<open>Errno\<close> is the \<open>Error\<close> object of \<open>std::expected<T, Error>\<close> with its Linux code.
  \<open>Runtime_error\<close> and \<open>Out_of_range\<close> are exceptions (the second one thrown by \<open>at\<close>), and
  \<open>Assertion\<close> is a failed \<open>assert\<close>: the call does not return. \<open>Null_pointer\<close> stands for the
  undefined behaviour of using an empty \<open>std::unique_ptr\<close>.
\<close>

datatype fail = Errno int | Runtime_error | Out_of_range | Assertion | Null_pointer

type_synonym 'a status = "fail + 'a"

definition MakeError :: "int \<Rightarrow> 'a status" where
  "MakeError code = Inl (if 0 \<le> code \<and> code \<le> 121 then Errno code else Assertion)"

abbreviation (input) EEOF :: int where "EEOF \<equiv> 0"
abbreviation (input) ENOENT :: int where "ENOENT \<equiv> 2"
abbreviation (input) EAGAIN :: int where "EAGAIN \<equiv> 11"
abbreviation (input) EBUSY :: int where "EBUSY \<equiv> 16"
abbreviation (input) EINVAL :: int where "EINVAL \<equiv> 22"
abbreviation (input) EROFS :: int where "EROFS \<equiv> 30"
abbreviation (input) ENOTSUP :: int where "ENOTSUP \<equiv> 95"
abbreviation (input) EALREADY :: int where "EALREADY \<equiv> 114"

lemma MakeError_known [simp]:
  "0 \<le> code \<Longrightarrow> code \<le> 121 \<Longrightarrow> MakeError code = Inl (Errno code)"
  by (simp add: MakeError_def)

lemma MakeError_not_Inr [simp]: "MakeError code \<noteq> Inr x" "Inr x \<noteq> MakeError code"
  by (simp_all add: MakeError_def)

definition bindS :: "'a status \<Rightarrow> ('a \<Rightarrow> 'b status) \<Rightarrow> 'b status" where
  "bindS m f = (case m of Inl e \<Rightarrow> Inl e | Inr x \<Rightarrow> f x)"

lemma bindS_simps [simp]:
  "bindS (Inl e) f = Inl e"
  "bindS (Inr x) f = f x"
  by (simp_all add: bindS_def)

lemma bindS_eq_Inr [status_simps]:
  "bindS m f = Inr y \<longleftrightarrow> (\<exists>x. m = Inr x \<and> f x = Inr y)"
  by (cases m) simp_all

definition assertS :: "bool \<Rightarrow> 'b status \<Rightarrow> 'b status" where
  "assertS c k = (if c then k else Inl Assertion)"

lemma assertS_eq_Inr [status_simps]: "assertS c k = Inr y \<longleftrightarrow> c \<and> k = Inr y"
  by (simp add: assertS_def)

lemma assertS_True [simp]: "assertS True k = k"
  by (simp add: assertS_def)

lemma assertS_pos [simp]: "c \<Longrightarrow> assertS c k = k"
  by (simp add: assertS_def)

text \<open>
  A caller that tests a \<open>Status<T>\<close> sees an error object as an absent value, while everything else
  stops the caller too.
\<close>

definition expected :: "'a status \<Rightarrow> 'a option status" where
  "expected m = (case m of Inr x \<Rightarrow> Inr (Some x) | Inl (Errno _) \<Rightarrow> Inr None | Inl e \<Rightarrow> Inl e)"

lemma expected_simps [simp]:
  "expected (Inr x) = Inr (Some x)" "expected (Inl (Errno c)) = Inr None"
  "expected (Inl Runtime_error) = Inl Runtime_error" "expected (Inl Out_of_range) = Inl Out_of_range"
  "expected (Inl Assertion) = Inl Assertion" "expected (Inl Null_pointer) = Inl Null_pointer"
  by (simp_all add: expected_def)

lemma expected_eq_Inr:
  "expected m = Inr v \<longleftrightarrow> (\<exists>x. m = Inr x \<and> v = Some x) \<or> (\<exists>c. m = Inl (Errno c) \<and> v = None)"
  by (auto simp: expected_def split: sum.splits fail.splits)

text \<open>Dereferencing a \<open>std::unique_ptr\<close>.\<close>

definition deref :: "'a option \<Rightarrow> 'a status" where
  "deref p = (case p of None \<Rightarrow> Inl Null_pointer | Some x \<Rightarrow> Inr x)"

lemma deref_eq_Inr [status_simps]: "deref p = Inr x \<longleftrightarrow> p = Some x"
  by (auto simp: deref_def split: option.splits)

lemma deref_Some [simp]: "deref (Some x) = Inr x"
  by (simp add: deref_def)

definition is_ok :: "'a status \<Rightarrow> bool" where
  "is_ok m = (case m of Inl _ \<Rightarrow> False | Inr _ \<Rightarrow> True)"

lemma is_ok_simps [simp]: "is_ok (Inr x)" "\<not> is_ok (Inl e)"
  by (simp_all add: is_ok_def)

lemma is_ok_iff: "is_ok m \<longleftrightarrow> (\<exists>x. m = Inr x)"
  by (cases m) simp_all

section \<open>Arrays with checked access\<close>

definition get_at :: "'a list \<Rightarrow> nat \<Rightarrow> 'a status" where
  "get_at xs i = (if i < length xs then Inr (xs ! i) else Inl Out_of_range)"

definition put_at :: "'a list \<Rightarrow> nat \<Rightarrow> 'a \<Rightarrow> 'a list status" where
  "put_at xs i v = (if i < length xs then Inr (xs[i := v]) else Inl Out_of_range)"

lemma get_at_Inr [simp]: "i < length xs \<Longrightarrow> get_at xs i = Inr (xs ! i)"
  by (simp add: get_at_def)

lemma put_at_Inr [simp]: "i < length xs \<Longrightarrow> put_at xs i v = Inr (xs[i := v])"
  by (simp add: put_at_def)

lemma get_at_eq_Inr [status_simps]: "get_at xs i = Inr v \<longleftrightarrow> i < length xs \<and> v = xs ! i"
  by (auto simp: get_at_def)

lemma put_at_eq_Inr [status_simps]:
  "put_at xs i v = Inr ys \<longleftrightarrow> i < length xs \<and> ys = xs[i := v]"
  by (auto simp: put_at_def)

section \<open>Lists\<close>

fun foldS :: "('a \<Rightarrow> 's \<Rightarrow> 's status) \<Rightarrow> 'a list \<Rightarrow> 's \<Rightarrow> 's status" where
  "foldS f [] s = Inr s"
| "foldS f (x # xs) s = bindS (f x s) (foldS f xs)"

text \<open>An invariant kept by every successful step is kept by the whole loop.\<close>

lemma foldS_invariant:
  assumes "foldS f xs s = Inr s'" and "P s"
    and "\<And>x t t'. x \<in> set xs \<Longrightarrow> P t \<Longrightarrow> f x t = Inr t' \<Longrightarrow> P t'"
  shows "P s'"
  using assms
proof (induction xs arbitrary: s)
  case Nil
  then show ?case by simp
next
  case (Cons x xs)
  then obtain t where t: "f x s = Inr t" "foldS f xs t = Inr s'"
    by (auto simp: bindS_eq_Inr)
  with Cons.prems(2,3) have "P t" by auto
  with Cons.IH [OF t(2)] Cons.prems(3) show ?case by auto
qed

lemma foldS_total:
  assumes "P s" and "\<And>x t. x \<in> set xs \<Longrightarrow> P t \<Longrightarrow> \<exists>t'. f x t = Inr t' \<and> P t'"
  shows "\<exists>s'. foldS f xs s = Inr s' \<and> P s'"
  using assms
proof (induction xs arbitrary: s)
  case Nil
  then show ?case by simp
next
  case (Cons x xs)
  then obtain t where "f x s = Inr t" "P t" by (meson list.set_intros(1))
  moreover have "\<exists>s'. foldS f xs t = Inr s' \<and> P s'"
    by (rule Cons.IH [OF \<open>P t\<close>]) (use Cons.prems(2) in auto)
  ultimately show ?case by simp
qed

lemma foldS_Inl:
  "foldS f xs s = Inl e \<Longrightarrow> \<exists>x t. x \<in> set xs \<and> f x t = Inl e"
proof (induction xs arbitrary: s)
  case Nil
  then show ?case by simp
next
  case (Cons x xs)
  then show ?case by (cases "f x s") (fastforce+)
qed

lemma bindS_eq_Inl:
  "bindS m f = Inl e \<longleftrightarrow> m = Inl e \<or> (\<exists>x. m = Inr x \<and> f x = Inl e)"
  by (cases m) auto

lemma get_at_put_at_Inl [simp]:
  "get_at xs i \<noteq> Inl (Errno c)" "put_at xs i v \<noteq> Inl (Errno c)"
  "get_at xs i \<noteq> Inl Runtime_error" "put_at xs i v \<noteq> Inl Runtime_error"
  by (simp_all add: get_at_def put_at_def)

lemma foldS_append:
  "foldS f (xs @ ys) s = bindS (foldS f xs s) (foldS f ys)"
proof (induction xs arbitrary: s)
  case Nil
  then show ?case by simp
next
  case (Cons x xs)
  then show ?case by (cases "f x s") simp_all
qed

lemma sum_list_map_le_nat:
  "(\<And>x. x \<in> set xs \<Longrightarrow> f x \<le> g x) \<Longrightarrow> sum_list (map f xs) \<le> (sum_list (map g xs) :: nat)"
  by (rule sum_list_mono)

lemma two_members_length: "x \<in> set xs \<Longrightarrow> y \<in> set xs \<Longrightarrow> x \<noteq> y \<Longrightarrow> 2 \<le> length xs"
  by (cases xs; cases "tl xs") auto

lemma nth_list_update_distinct:
  "i < length xs \<Longrightarrow> xs[i := v] ! j = (if i = j then v else xs ! j)"
  by (simp add: nth_list_update)

section \<open>Words\<close>

lemma unat_add_no_wrap:
  fixes a b :: "'a::len word"
  assumes "unat a + unat b < 2 ^ LENGTH('a)"
  shows "unat (a + b) = unat a + unat b"
  using assms by (simp add: unat_word_ariths)

lemma unat_of_nat_no_wrap: "n < 2 ^ LENGTH('a) \<Longrightarrow> unat (of_nat n :: 'a::len word) = n"
  by (simp add: unat_of_nat)

end
