(* ===== verification/Double_Rounding.thy ===== *)
theory Double_Rounding
  imports Sandook_Prelude
begin

text \<open>
  The sources compute weights, ratios and rate limits in \<open>double\<close>. Every operation of the
  model that the sources perform on doubles is the exact real operation followed by a rounding
  function \<open>rnd\<close>, an argument of the definitions that use it. The locale \<open>fp_rounding\<close> states
  what the theorems use of the rounding, and \<open>rnd64\<close> (round to nearest, ties to even, 53 bits of
  mantissa) is shown to satisfy it. Exponents are unbounded, so overflow, underflow and NaN do
  not arise in an operation; where the sources can divide by zero, the model says so at that place.
  Statements about exact arithmetic take the identity for \<open>rnd\<close>.
\<close>

section \<open>Operations on doubles\<close>

definition fadd :: "(real \<Rightarrow> real) \<Rightarrow> real \<Rightarrow> real \<Rightarrow> real" where
  "fadd rnd x y = rnd (x + y)"

definition fsub :: "(real \<Rightarrow> real) \<Rightarrow> real \<Rightarrow> real \<Rightarrow> real" where
  "fsub rnd x y = rnd (x - y)"

definition fmul :: "(real \<Rightarrow> real) \<Rightarrow> real \<Rightarrow> real \<Rightarrow> real" where
  "fmul rnd x y = rnd (x * y)"

definition fdiv :: "(real \<Rightarrow> real) \<Rightarrow> real \<Rightarrow> real \<Rightarrow> real" where
  "fdiv rnd x y = rnd (x / y)"

text \<open>\<open>static_cast<double>\<close> of an unsigned integer, and \<open>static_cast<uint64_t>\<close> of a double
  (truncation; the model reduces a value outside the range modulo \<open>2 ^ 64\<close>).\<close>

definition fof_nat :: "(real \<Rightarrow> real) \<Rightarrow> nat \<Rightarrow> real" where
  "fof_nat rnd n = rnd (real n)"

definition ftou64 :: "real \<Rightarrow> nat" where
  "ftou64 x = to_u64 (nat \<lfloor>x\<rfloor>)"

lemma ftou64_le: "0 \<le> x \<Longrightarrow> real (ftou64 x) \<le> x"
proof -
  assume "0 \<le> x"
  then have "real (nat \<lfloor>x\<rfloor>) \<le> x" by simp
  moreover have "to_u64 (nat \<lfloor>x\<rfloor>) \<le> nat \<lfloor>x\<rfloor>" by (simp add: to_u64_def)
  ultimately show ?thesis unfolding ftou64_def by linarith
qed

lemma ftou64_of_nat [simp]: "n < 2 ^ 64 \<Longrightarrow> ftou64 (real n) = n"
  by (simp add: ftou64_def to_u64_id)

section \<open>The rounding interface\<close>

locale fp_rounding =
  fixes rnd :: "real \<Rightarrow> real"
  assumes rnd_mono: "x \<le> y \<Longrightarrow> rnd x \<le> rnd y"
    and rnd_idem: "rnd (rnd x) = rnd x"
    and rnd_err: "\<bar>rnd x - x\<bar> \<le> \<bar>x\<bar> / 2 ^ 53"
    and rnd_nat: "n \<le> 2 ^ 53 \<Longrightarrow> rnd (real n) = real n"
begin

lemma rnd_0: "rnd 0 = 0"
  using rnd_nat [of 0] by simp

lemma rnd_1: "rnd 1 = 1"
  using rnd_nat [of 1] by simp

lemma rnd_nonneg: "0 \<le> x \<Longrightarrow> 0 \<le> rnd x"
  using rnd_mono [of 0 x] by (simp add: rnd_0)

lemma rnd_nonpos: "x \<le> 0 \<Longrightarrow> rnd x \<le> 0"
  using rnd_mono [of x 0] by (simp add: rnd_0)

lemma rnd_le_1: "x \<le> 1 \<Longrightarrow> rnd x \<le> 1"
  using rnd_mono [of x 1] by (simp add: rnd_1)

lemma rnd_lower: "0 \<le> x \<Longrightarrow> x - x / 2 ^ 53 \<le> rnd x"
proof -
  assume "0 \<le> x"
  have "x - rnd x \<le> \<bar>x\<bar> / 2 ^ 53" by (rule order_trans [OF _ rnd_err]) linarith
  with \<open>0 \<le> x\<close> show ?thesis by simp
qed

lemma rnd_half: "0 \<le> x \<Longrightarrow> x * (1 / 2) \<le> rnd x"
proof -
  assume "0 \<le> x"
  have "x / 2 ^ 53 \<le> x / 2" by (rule divide_left_mono) (use \<open>0 \<le> x\<close> in simp_all)
  with rnd_lower [OF \<open>0 \<le> x\<close>] show ?thesis by linarith
qed

lemma rnd_upper: "0 \<le> x \<Longrightarrow> rnd x \<le> x + x / 2 ^ 53"
proof -
  assume "0 \<le> x"
  have "rnd x - x \<le> \<bar>x\<bar> / 2 ^ 53" by (rule order_trans [OF _ rnd_err]) linarith
  with \<open>0 \<le> x\<close> show ?thesis by simp
qed

lemma rnd_pos: "0 < x \<Longrightarrow> 0 < rnd x"
proof -
  assume "0 < x"
  then have "x - x / 2 ^ 53 \<le> rnd x" by (intro rnd_lower) simp
  moreover have "0 < x - x / 2 ^ 53" using \<open>0 < x\<close> by (simp add: field_simps)
  ultimately show "0 < rnd x" by linarith
qed

lemma rnd_add_ge: "rnd x = x \<Longrightarrow> 0 \<le> y \<Longrightarrow> x \<le> rnd (x + y)"
  using rnd_mono [of x "x + y"] by simp

lemma rnd_mult_le: "rnd x = x \<Longrightarrow> 0 \<le> x \<Longrightarrow> y \<le> 1 \<Longrightarrow> rnd (x * y) \<le> x"
proof -
  assume x: "rnd x = x" "0 \<le> x" and y: "y \<le> 1"
  have "x * y \<le> x" using mult_left_mono [OF y x(2)] by simp
  then have "rnd (x * y) \<le> rnd x" by (rule rnd_mono)
  then show ?thesis using x(1) by simp
qed

text \<open>Adding the double nearest to 0.05 makes progress below 1.\<close>

lemma rnd_add_twentieth:
  assumes "0 \<le> b" "b < 1"
  shows "b + 1 / 25 \<le> rnd (b + rnd 0.05)"
proof -
  have eps: "(x::real) / 2 ^ 53 \<le> x / 1000" if "0 \<le> x" for x
    using that by (intro divide_left_mono) simp_all
  have "49 / 1000 \<le> rnd 0.05" "rnd 0.05 \<le> 1"
    using rnd_lower [of "0.05"] eps [of "0.05"] rnd_le_1 [of "0.05"] by simp_all
  then obtain r where r: "r = rnd 0.05" "49 / 1000 \<le> r" "r \<le> 1" by simp
  have "(b + r) - (b + r) / 2 ^ 53 \<le> rnd (b + r)" using assms r by (intro rnd_lower) simp
  moreover have "(b + r) - (b + r) / 1000 \<le> (b + r) - (b + r) / 2 ^ 53"
    by (rule diff_left_mono, rule eps) (use assms r in simp)
  ultimately have "(b + r) - (b + r) / 1000 \<le> rnd (b + r)" by (rule order_trans [rotated])
  then have "b + 1 / 25 \<le> rnd (b + r)" using assms r(2,3) by (simp add: field_simps)
  then show ?thesis unfolding r(1) .
qed

end

section \<open>Round to nearest, ties to even\<close>

definition rne :: "real \<Rightarrow> int" where
  "rne y = (if y - \<lfloor>y\<rfloor> < 1 / 2 \<or> (y - \<lfloor>y\<rfloor> = 1 / 2 \<and> even \<lfloor>y\<rfloor>) then \<lfloor>y\<rfloor> else \<lfloor>y\<rfloor> + 1)"

lemma rne_cases: "rne y = \<lfloor>y\<rfloor> \<or> rne y = \<lfloor>y\<rfloor> + 1"
  by (simp add: rne_def)

lemma rne_of_int [simp]: "rne (of_int n) = n"
  by (simp add: rne_def)

lemma rne_mono: "x \<le> y \<Longrightarrow> rne x \<le> rne y"
proof -
  assume xy: "x \<le> y"
  show ?thesis
  proof (cases "\<lfloor>x\<rfloor> = \<lfloor>y\<rfloor>")
    case True
    with xy show ?thesis by (auto simp: rne_def)
  next
    case False
    moreover have "\<lfloor>x\<rfloor> \<le> \<lfloor>y\<rfloor>" using xy by (rule floor_mono)
    ultimately have "\<lfloor>x\<rfloor> + 1 \<le> \<lfloor>y\<rfloor>" by linarith
    then show ?thesis using rne_cases [of x] rne_cases [of y] by linarith
  qed
qed

lemma rne_err: "\<bar>of_int (rne y) - y\<bar> \<le> 1 / 2"
proof -
  have "of_int \<lfloor>y\<rfloor> \<le> y" "y < of_int \<lfloor>y\<rfloor> + 1" by linarith+
  then show ?thesis by (auto simp: rne_def abs_le_iff)
qed

definition expo :: "real \<Rightarrow> int" where
  "expo x = \<lfloor>log 2 \<bar>x\<bar>\<rfloor>"

definition ulp :: "real \<Rightarrow> real" where
  "ulp x = 2 powr of_int (expo x - 52)"

definition rnd64 :: "real \<Rightarrow> real" where
  "rnd64 x = (if x = 0 then 0 else of_int (rne (x / ulp x)) * ulp x)"

lemma ulp_pos [simp]: "0 < ulp x" "0 \<le> ulp x" "ulp x \<noteq> 0" "\<bar>ulp x\<bar> = ulp x"
  by (simp_all add: ulp_def)

lemma expo_bounds:
  assumes "x \<noteq> 0"
  shows "2 powr of_int (expo x) \<le> \<bar>x\<bar>" and "\<bar>x\<bar> < 2 powr of_int (expo x + 1)"
proof -
  have p: "0 < \<bar>x\<bar>" using assms by simp
  have "of_int (expo x) \<le> log 2 \<bar>x\<bar>" by (simp add: expo_def)
  then show "2 powr of_int (expo x) \<le> \<bar>x\<bar>" using p by (simp add: le_log_iff)
  have "log 2 \<bar>x\<bar> < of_int (expo x + 1)" by (simp add: expo_def)
  then show "\<bar>x\<bar> < 2 powr of_int (expo x + 1)" using p by (simp only: log_less_iff)
qed

lemma ulp_scale:
  "2 ^ 52 * ulp x = 2 powr of_int (expo x)" "2 ^ 53 * ulp x = 2 powr of_int (expo x + 1)"
proof -
  have "2 ^ 52 * ulp x = 2 powr 52 * 2 powr of_int (expo x - 52)"
    by (simp add: ulp_def)
  also have "\<dots> = 2 powr (52 + of_int (expo x - 52))" by (rule powr_add [symmetric])
  finally show "2 ^ 52 * ulp x = 2 powr of_int (expo x)" by simp
  have "2 ^ 53 * ulp x = 2 powr 53 * 2 powr of_int (expo x - 52)"
    by (simp add: ulp_def)
  also have "\<dots> = 2 powr (53 + of_int (expo x - 52))" by (rule powr_add [symmetric])
  finally show "2 ^ 53 * ulp x = 2 powr of_int (expo x + 1)" by (simp add: add.commute)
qed

lemma mantissa_bounds:
  assumes "x \<noteq> 0"
  shows "2 ^ 52 \<le> \<bar>x / ulp x\<bar>" and "\<bar>x / ulp x\<bar> \<le> 2 ^ 53"
proof -
  have "2 ^ 52 * ulp x \<le> \<bar>x\<bar>" using expo_bounds(1) [OF assms] by (simp only: ulp_scale)
  then show "2 ^ 52 \<le> \<bar>x / ulp x\<bar>" by (simp add: abs_divide pos_le_divide_eq)
  have "\<bar>x\<bar> \<le> 2 ^ 53 * ulp x"
    using expo_bounds(2) [OF assms] by (simp only: ulp_scale less_imp_le)
  then show "\<bar>x / ulp x\<bar> \<le> 2 ^ 53" by (simp add: abs_divide pos_divide_le_eq)
qed

lemma rnd64_err: "\<bar>rnd64 x - x\<bar> \<le> \<bar>x\<bar> / 2 ^ 53"
proof (cases "x = 0")
  case False
  have "rnd64 x - x = (of_int (rne (x / ulp x)) - x / ulp x) * ulp x"
    using False by (simp add: rnd64_def left_diff_distrib)
  then have "\<bar>rnd64 x - x\<bar> = \<bar>of_int (rne (x / ulp x)) - x / ulp x\<bar> * ulp x"
    using ulp_pos [of x] by (simp add: abs_mult)
  also have "\<dots> \<le> 1 / 2 * ulp x"
    by (rule mult_right_mono [OF rne_err]) (simp add: less_imp_le)
  also have "\<dots> = 2 powr of_int (expo x) / 2 ^ 53"
    using ulp_scale(1) [of x] by (simp add: field_simps)
  also have "\<dots> \<le> \<bar>x\<bar> / 2 ^ 53"
    by (rule divide_right_mono [OF expo_bounds(1) [OF False]]) simp
  finally show ?thesis .
qed (simp add: rnd64_def)

lemma rnd64_binade_pos:
  assumes "0 < x"
  shows "2 powr of_int (expo x) \<le> rnd64 x" and "rnd64 x \<le> 2 powr of_int (expo x + 1)"
proof -
  let ?u = "ulp x"
  have "2 ^ 52 \<le> x / ?u" using mantissa_bounds(1) [of x] assms by simp
  then have "rne (of_int (2 ^ 52)) \<le> rne (x / ?u)" by (intro rne_mono) simp
  then have "(2 ^ 52 :: real) \<le> of_int (rne (x / ?u))"
    by (simp only: rne_of_int) (metis of_int_le_iff of_int_numeral of_int_power)
  then have "2 ^ 52 * ?u \<le> rnd64 x" using assms by (simp add: rnd64_def mult_right_mono)
  then show "2 powr of_int (expo x) \<le> rnd64 x" by (simp only: ulp_scale)
  have "x / ?u \<le> 2 ^ 53" using mantissa_bounds(2) [of x] assms by simp
  then have "rne (x / ?u) \<le> rne (of_int (2 ^ 53))" by (intro rne_mono) simp
  then have "of_int (rne (x / ?u)) \<le> (2 ^ 53 :: real)"
    by (simp only: rne_of_int) (metis of_int_le_iff of_int_numeral of_int_power)
  then have "rnd64 x \<le> 2 ^ 53 * ?u" using assms by (simp add: rnd64_def mult_right_mono)
  then show "rnd64 x \<le> 2 powr of_int (expo x + 1)" by (simp only: ulp_scale)
qed

lemma rnd64_binade_neg:
  assumes "x < 0"
  shows "rnd64 x \<le> - (2 powr of_int (expo x))" and "- (2 powr of_int (expo x + 1)) \<le> rnd64 x"
proof -
  let ?u = "ulp x"
  have neg: "x / ?u \<le> 0" using assms by (simp add: divide_le_0_iff)
  have "x / ?u \<le> - (2 ^ 52)"
    using mantissa_bounds(1) [of x] assms by (simp only: abs_of_nonpos [OF neg]) simp
  then have "rne (x / ?u) \<le> rne (of_int (- (2 ^ 52)))" by (intro rne_mono) simp
  then have "of_int (rne (x / ?u)) \<le> (of_int (- (2 ^ 52)) :: real)"
    by (simp only: rne_of_int of_int_le_iff)
  then have "of_int (rne (x / ?u)) * ?u \<le> - (2 ^ 52) * ?u" by (intro mult_right_mono) (auto simp: less_imp_le)
  then show "rnd64 x \<le> - (2 powr of_int (expo x))"
    using assms by (simp add: rnd64_def ulp_scale [symmetric])
  have "- (2 ^ 53) \<le> x / ?u"
    using mantissa_bounds(2) [of x] assms by (simp only: abs_of_nonpos [OF neg]) simp
  then have "rne (of_int (- (2 ^ 53))) \<le> rne (x / ?u)" by (intro rne_mono) simp
  then have "(of_int (- (2 ^ 53)) :: real) \<le> of_int (rne (x / ?u))"
    by (simp only: rne_of_int of_int_le_iff)
  then have "- (2 ^ 53) * ?u \<le> of_int (rne (x / ?u)) * ?u" by (intro mult_right_mono) (auto simp: less_imp_le)
  then show "- (2 powr of_int (expo x + 1)) \<le> rnd64 x"
    using assms by (simp only: rnd64_def ulp_scale mult_minus_left) simp
qed

lemma rnd64_sign: "0 \<le> x \<Longrightarrow> 0 \<le> rnd64 x" "x \<le> 0 \<Longrightarrow> rnd64 x \<le> 0"
proof -
  show "0 \<le> rnd64 x" if "0 \<le> x"
  proof (cases "x = 0")
    case False
    with that have "0 < x" by simp
    from rnd64_binade_pos(1) [OF this] show ?thesis by (rule order_trans [rotated]) simp
  qed (simp add: rnd64_def)
  show "rnd64 x \<le> 0" if "x \<le> 0"
  proof (cases "x = 0")
    case False
    with that have "x < 0" by simp
    from rnd64_binade_neg(1) [OF this] show ?thesis by (rule order_trans) simp
  qed (simp add: rnd64_def)
qed

lemma rnd64_mono_same:
  assumes "x \<le> y" "x \<noteq> 0" "y \<noteq> 0" "expo x = expo y"
  shows "rnd64 x \<le> rnd64 y"
proof -
  have u: "ulp x = ulp y" using assms(4) by (simp add: ulp_def)
  have "rne (x / ulp x) \<le> rne (y / ulp x)"
    by (intro rne_mono divide_right_mono) (use assms(1) in \<open>auto simp: less_imp_le\<close>)
  then show ?thesis using assms u by (simp add: rnd64_def mult_right_mono less_imp_le)
qed

lemma expo_mono: "0 < \<bar>x\<bar> \<Longrightarrow> \<bar>x\<bar> \<le> \<bar>y\<bar> \<Longrightarrow> expo x \<le> expo y"
  unfolding expo_def by (intro floor_mono) simp

lemma rnd64_mono: "x \<le> y \<Longrightarrow> rnd64 x \<le> rnd64 y"
proof -
  assume xy: "x \<le> y"
  have powr_le: "2 powr of_int a \<le> (2 powr of_int b :: real)" if "a \<le> b" for a b :: int
    using that by simp
  consider "x \<le> 0 \<and> 0 \<le> y" | "0 < x" | "y < 0" by linarith
  then show ?thesis
  proof cases
    case 1
    then show ?thesis using rnd64_sign(1) [of y] rnd64_sign(2) [of x] by linarith
  next
    case 2
    with xy have e: "expo x \<le> expo y" by (intro expo_mono) auto
    show ?thesis
    proof (cases "expo x = expo y")
      case True
      with 2 xy show ?thesis by (intro rnd64_mono_same) auto
    next
      case False
      with e have "expo x + 1 \<le> expo y" by simp
      from powr_le [OF this] show ?thesis
        using rnd64_binade_pos(2) [OF 2] rnd64_binade_pos(1) [of y] 2 xy by linarith
    qed
  next
    case 3
    with xy have e: "expo y \<le> expo x" by (intro expo_mono) auto
    show ?thesis
    proof (cases "expo x = expo y")
      case True
      with 3 xy show ?thesis by (intro rnd64_mono_same) auto
    next
      case False
      with e have "expo y + 1 \<le> expo x" by simp
      from powr_le [OF this] show ?thesis
        using rnd64_binade_neg(1) [of x] rnd64_binade_neg(2) [OF 3] 3 xy by linarith
    qed
  qed
qed

lemma rnd64_representable:
  assumes "x = of_int m * 2 powr of_int k" and "\<bar>m\<bar> \<le> 2 ^ 53"
  shows "rnd64 x = x"
proof (cases "x = 0")
  case False
  let ?u = "ulp x"
  have "\<exists>n. x / ?u = of_int n"
  proof (cases "expo x - 52 \<le> k")
    case True
    define d where "d = nat (k - (expo x - 52))"
    have "2 powr of_int k = 2 powr (of_int (int d) + of_int (expo x - 52) :: real)"
      using True by (simp add: d_def)
    also have "\<dots> = 2 ^ d * ?u" by (simp add: ulp_def powr_add powr_realpow)
    finally have "x = of_int (m * 2 ^ d) * ?u" using assms(1) by simp
    then have "x / ?u = of_int (m * 2 ^ d)" by (metis nonzero_mult_div_cancel_right ulp_pos(3))
    then show ?thesis by blast
  next
    case False
    have "2 powr of_int (expo x) \<le> \<bar>real_of_int m\<bar> * 2 powr of_int k"
      using expo_bounds(1) [OF \<open>x \<noteq> 0\<close>] assms(1) by (simp add: abs_mult)
    also have "\<dots> \<le> 2 ^ 53 * 2 powr of_int k"
      by (rule mult_right_mono) (use assms(2) in \<open>simp_all flip: of_int_abs\<close>)
    also have "\<dots> = 2 powr of_int (53 + k)" by (simp add: powr_add)
    finally have "expo x = k + 53" using False by simp
    then have u: "?u = 2 * 2 powr of_int k" by (simp add: ulp_def powr_add)
    have "2 ^ 53 * 2 powr of_int k \<le> \<bar>real_of_int m\<bar> * 2 powr of_int k"
      using expo_bounds(1) [OF \<open>x \<noteq> 0\<close>] assms(1) \<open>expo x = k + 53\<close>
      by (simp add: abs_mult powr_add)
    then have "2 ^ 53 \<le> \<bar>of_int m :: real\<bar>" by simp
    then have "\<bar>m\<bar> = 2 ^ 53" using assms(2) by (simp flip: of_int_abs)
    then have "even \<bar>m\<bar>" by simp
    then have "even m" by simp
    then obtain n where "m = 2 * n" by blast
    then have "x / ?u = of_int n" using assms(1) u by simp
    then show ?thesis by blast
  qed
  then obtain n where n: "x / ?u = of_int n" by blast
  then have "x = of_int n * ?u" by (simp add: field_simps)
  then show ?thesis using False n by (simp add: rnd64_def)
qed (simp add: rnd64_def)

lemma rnd64_nat: "n \<le> 2 ^ 53 \<Longrightarrow> rnd64 (real n) = real n"
  by (rule rnd64_representable [of _ "int n" 0]) simp_all

lemma rnd64_mantissa:
  assumes "x \<noteq> 0"
  shows "\<bar>rne (x / ulp x)\<bar> \<le> 2 ^ 53"
proof -
  have "x / ulp x \<le> of_int (2 ^ 53)" "of_int (- (2 ^ 53)) \<le> x / ulp x"
    using mantissa_bounds(2) [OF assms] by (simp_all only: abs_le_iff) simp_all
  from this [THEN rne_mono] show ?thesis unfolding rne_of_int by (simp add: abs_le_iff)
qed

lemma rnd64_idem: "rnd64 (rnd64 x) = rnd64 x"
proof (cases "x = 0")
  case False
  then have "rnd64 x = of_int (rne (x / ulp x)) * 2 powr of_int (expo x - 52)"
    by (simp add: rnd64_def ulp_def)
  then show ?thesis by (rule rnd64_representable) (rule rnd64_mantissa [OF False])
qed (simp add: rnd64_def)

text \<open>Binary64 rounding and exact arithmetic both satisfy the interface.\<close>

interpretation r64: fp_rounding rnd64
  by unfold_locales (rule rnd64_mono rnd64_idem rnd64_err rnd64_nat; assumption?)+

interpretation exact: fp_rounding "\<lambda>x. x"
  by unfold_locales auto

end
