(* ===== verification/Sandook_Types.thy ===== *)
theory Sandook_Types
  imports Double_Rounding
begin

unbundle bit_operations_syntax

text \<open>
  The data model the components share: the constants of \<open>sandook/base/constants.h\<close>, the block
  and allocation types of \<open>types.h\<close>, the statistics a disk server reports (\<open>server_stats.h\<close>)
  and the I/O descriptor (\<open>io_desc.h\<close>). A \<open>ServerID\<close> is a \<open>uint32_t\<close> used as an array index, kept
  as a natural number; block addresses and sector numbers keep their 64 bits.
\<close>

section \<open>Constants\<close>

definition kNumMaxServers :: nat where "kNumMaxServers = 20"
definition kNumMaxVolumes :: nat where "kNumMaxVolumes = 16"
definition kNumReplicas :: nat where "kNumReplicas = 2"
definition kAllocationBatch :: nat where "kAllocationBatch = 2048"
definition kDiscardBatch :: nat where "kDiscardBatch = 2048"
definition kSectorShift :: nat where "kSectorShift = 12"
definition kLinuxSectorShift :: nat where "kLinuxSectorShift = 9"
definition kNumLinuxSectorsPerSandookSector :: nat where
  "kNumLinuxSectorsPerSandookSector = 2 ^ (kSectorShift - kLinuxSectorShift)"
definition kDeviceAlignment :: nat where "kDeviceAlignment = 2 ^ kSectorShift"
definition kMillion :: nat where "kMillion = 1000 * 1000"
definition kOneMicroSecond :: nat where "kOneMicroSecond = 1"
definition kOneMilliSecond :: nat where "kOneMilliSecond = 1000 * kOneMicroSecond"
definition kOneSecond :: nat where "kOneSecond = 1000 * kOneMilliSecond"
definition kDiskServerStatsUpdateIntervalUs :: nat where
  "kDiskServerStatsUpdateIntervalUs = 100 * kOneMicroSecond"
definition kModeSwitchIntervalUs :: nat where
  "kModeSwitchIntervalUs = 300 * kOneMilliSecond"
definition kDiskServerModeSwitchGracePeriodUs :: nat where
  "kDiskServerModeSwitchGracePeriodUs = 1 * kOneMilliSecond"
definition kCongestionControlWindowUs :: nat where
  "kCongestionControlWindowUs = 50 * kOneMilliSecond"

definition kPeakWriteIOPSPerSSD :: "(real \<Rightarrow> real) \<Rightarrow> real" where
  "kPeakWriteIOPSPerSSD rnd = fmul rnd (rnd 0.20) (real kMillion)"
definition kPeakReadIOPSPerSSD :: "(real \<Rightarrow> real) \<Rightarrow> real" where
  "kPeakReadIOPSPerSSD rnd = fmul rnd (rnd 0.6) (real kMillion)"

lemmas k_defs = kNumMaxServers_def kNumMaxVolumes_def kNumReplicas_def kAllocationBatch_def
  kDiscardBatch_def kSectorShift_def kLinuxSectorShift_def kNumLinuxSectorsPerSandookSector_def
  kDeviceAlignment_def kMillion_def kOneMicroSecond_def kOneMilliSecond_def kOneSecond_def
  kDiskServerStatsUpdateIntervalUs_def kModeSwitchIntervalUs_def
  kDiskServerModeSwitchGracePeriodUs_def kCongestionControlWindowUs_def

section \<open>Identifiers and block addresses\<close>

type_synonym ServerID = nat
type_synonym VolumeID = nat
type_synonym VolumeBlockAddr = nat
type_synonym ServerBlockAddr = u64

abbreviation (input) kInvalidServerID :: ServerID where "kInvalidServerID \<equiv> 0"
abbreviation (input) kInvalidVolumeID :: VolumeID where "kInvalidVolumeID \<equiv> 0"

record ServerBlockInfo =
  sbi_server_id :: ServerID
  sbi_block_addr :: ServerBlockAddr

text \<open>A replica entry pairs the block with its dirty bit; the list has \<open>kNumReplicas\<close> entries.\<close>

type_synonym ServerReplicaBlockInfo = "ServerBlockInfo \<times> bool"
type_synonym ServerReplicaBlockInfoList = "ServerReplicaBlockInfo list"

text \<open>\<open>(is_traffic, n_read_servers, n_write_servers)\<close> and \<open>(read IOPS, write IOPS)\<close>.\<close>

type_synonym ServerAllocation = "bool \<times> nat \<times> nat"
type_synonym SystemLoad = "nat \<times> nat"

datatype ServerCongestionState =
  State_kInvalid | State_kUnCongested | State_kCongested | State_kCongestedUnstable
| State_kCongestedStable

section \<open>Server statistics\<close>

datatype ServerMode = Mode_kMix | Mode_kRead | Mode_kWrite

record ServerStats =
  server_id :: ServerID
  mode :: ServerMode
  committed_mode :: ServerMode
  read_mops :: real
  write_mops :: real
  read_weight :: real
  write_weight :: real
  inflight_reads :: nat
  inflight_writes :: nat
  completed_reads :: nat
  pure_reads :: nat
  impure_reads :: nat
  completed_writes :: nat
  rejected_reads :: nat
  rejected_writes :: nat
  median_read_latency :: nat
  median_write_latency :: nat
  signal_read_latency :: nat
  signal_write_latency :: nat
  is_rejecting_requests :: bool
  congestion_state :: ServerCongestionState

type_synonym ServerStatsList = "ServerStats list"
type_synonym ServerModes = "ServerMode list"
type_synonym ServerWeights = "real list"

text \<open>The value-initialised struct (\<open>ServerStats stats{}\<close>): every field is zero.\<close>

definition zero_stats :: ServerStats where
  "zero_stats = \<lparr>server_id = 0, mode = Mode_kMix, committed_mode = Mode_kMix,
     read_mops = 0, write_mops = 0, read_weight = 0, write_weight = 0,
     inflight_reads = 0, inflight_writes = 0, completed_reads = 0, pure_reads = 0,
     impure_reads = 0, completed_writes = 0, rejected_reads = 0, rejected_writes = 0,
     median_read_latency = 0, median_write_latency = 0, signal_read_latency = 0,
     signal_write_latency = 0, is_rejecting_requests = False,
     congestion_state = State_kInvalid\<rparr>"

definition kDefaultServerWeight :: real where "kDefaultServerWeight = 1"

text \<open>\<open>std::numeric_limits<double>::min()\<close>, the smallest positive normal double,
  is two to the power of minus \<open>dbl_min_exponent\<close>.\<close>

definition dbl_min_exponent :: nat where "dbl_min_exponent = 1022"

definition kInvalidServerWeight :: real where
  "kInvalidServerWeight = 1 / 2 ^ dbl_min_exponent"

definition InitServerWeights :: "ServerWeights \<Rightarrow> ServerWeights" where
  "InitServerWeights weights = map (\<lambda>_. kInvalidServerWeight) weights"

lemma length_InitServerWeights [simp]: "length (InitServerWeights ws) = length ws"
  by (simp add: InitServerWeights_def)

lemma nth_InitServerWeights [simp]:
  "i < length ws \<Longrightarrow> InitServerWeights ws ! i = kInvalidServerWeight"
  by (simp add: InitServerWeights_def)

lemma kInvalidServerWeight_bounds: "0 < kInvalidServerWeight" "kInvalidServerWeight < 1 / 10 ^ 6"
proof -
  show "0 < kInvalidServerWeight" by (simp add: kInvalidServerWeight_def)
  have "(20::nat) \<le> dbl_min_exponent" by (simp add: dbl_min_exponent_def)
  then have "(2::real) ^ 20 \<le> 2 ^ dbl_min_exponent" by (rule power_increasing) simp
  moreover have "(10::real) ^ 6 < 2 ^ 20" by simp
  ultimately have "(10::real) ^ 6 < 2 ^ dbl_min_exponent" by linarith
  then show "kInvalidServerWeight < 1 / 10 ^ 6"
    unfolding kInvalidServerWeight_def by (intro divide_strict_left_mono) simp_all
qed

section \<open>I/O descriptors\<close>

datatype OpType =
  Op_kRead | Op_kWrite | Op_kFlush | Op_kDiscard | Op_kWriteSame | Op_kWriteZeroes | Op_kAllocate
| Op_unknown nat

definition op_code :: "OpType \<Rightarrow> nat" where
  "op_code op = (case op of Op_kRead \<Rightarrow> 0 | Op_kWrite \<Rightarrow> 1 | Op_kFlush \<Rightarrow> 2 | Op_kDiscard \<Rightarrow> 3
     | Op_kWriteSame \<Rightarrow> 4 | Op_kWriteZeroes \<Rightarrow> 5 | Op_kAllocate \<Rightarrow> 6 | Op_unknown c \<Rightarrow> c)"

definition op_of_code :: "nat \<Rightarrow> OpType" where
  "op_of_code c = (if c = 0 then Op_kRead else if c = 1 then Op_kWrite else if c = 2 then Op_kFlush
     else if c = 3 then Op_kDiscard else if c = 4 then Op_kWriteSame
     else if c = 5 then Op_kWriteZeroes else if c = 6 then Op_kAllocate else Op_unknown c)"

record IODesc =
  op_flags :: u32
  num_sectors :: u32
  start_sector :: u64
  addr :: u64
  callback_args :: u64
  callback :: u64

definition get_op :: "IODesc \<Rightarrow> OpType" where
  "get_op iod = op_of_code (unat (op_flags iod AND 0xff))"

definition get_flags :: "IODesc \<Rightarrow> u32" where
  "get_flags iod = drop_bit 8 (op_flags iod)"

text \<open>The callers build \<open>op_flags\<close> as \<open>static_cast<uint32_t>(op)\<close>.\<close>

definition op_flags_of :: "OpType \<Rightarrow> u32" where
  "op_flags_of op = of_nat (op_code op)"

definition known_op :: "OpType \<Rightarrow> bool" where
  "known_op op = (case op of Op_unknown _ \<Rightarrow> False | _ \<Rightarrow> True)"

lemma get_op_of_flags:
  "known_op op \<Longrightarrow> get_op (iod\<lparr>op_flags := op_flags_of op\<rparr>) = op"
  by (cases op) (simp_all add: get_op_def op_flags_of_def op_code_def op_of_code_def known_op_def)

lemma get_op_cong [simp]:
  "get_op (iod\<lparr>num_sectors := n\<rparr>) = get_op iod"
  "get_op (iod\<lparr>start_sector := s\<rparr>) = get_op iod"
  "get_op (iod\<lparr>addr := a\<rparr>) = get_op iod"
  by (simp_all add: get_op_def)

end
