(* ===== verification/Disk_Model.thy ===== *)
theory Disk_Model
  imports Sandook_Types
begin

text \<open>
  The load/latency profiles of an SSD (\<open>sandook/disk_model/disk_model.h\<close>): lookup with linear
  interpolation, the peak load below saturation, and the choice of a mixed read/write profile.
  The contents of the model files are a parameter (\<open>LoadModel\<close>, which fails where opening the file
  throws); the doubles are rounded by \<open>rnd\<close>.
\<close>

section \<open>State\<close>

type_synonym LoadValues = "nat list"
type_synonym LatencyValues = "nat list"
type_synonym LoadLatency = "LoadValues \<times> LatencyValues"

record MixModel =
  write_ratio_bucket :: real
  mm_load :: LoadValues
  mm_latency :: LatencyValues

record DiskModel =
  load_read :: LoadValues
  latency_read :: LatencyValues
  load_write :: LoadValues
  latency_write :: LatencyValues
  mix_models :: "MixModel list"

definition kSaturationLatencyUs :: nat where "kSaturationLatencyUs = 1000"

definition kSaturationLatencyPenaltyUs :: "(real \<Rightarrow> real) \<Rightarrow> nat" where
  "kSaturationLatencyPenaltyUs rnd = ftou64 (fmul rnd (real kSaturationLatencyUs) (rnd 1.05))"

definition kPeakLoadDampeningFactor :: "(real \<Rightarrow> real) \<Rightarrow> real" where
  "kPeakLoadDampeningFactor rnd = rnd 0.95"

section \<open>Latency of a load\<close>

definition curve_ok :: "LoadValues \<Rightarrow> LatencyValues \<Rightarrow> bool" where
  "curve_ok load latency \<longleftrightarrow> load \<noteq> [] \<and> latency \<noteq> [] \<and> length load = length latency"

definition load_index :: "nat \<Rightarrow> LoadValues \<Rightarrow> nat" where
  "load_index cur_load load =
     (case find (\<lambda>i. load ! i \<ge> cur_load) [0..<length load] of
        None \<Rightarrow> length load | Some i \<Rightarrow> i)"

definition interpolate ::
  "(real \<Rightarrow> real) \<Rightarrow> nat \<Rightarrow> nat \<Rightarrow> nat \<Rightarrow> nat \<Rightarrow> nat \<Rightarrow> nat" where
  "interpolate rnd start_load end_load start_latency end_latency cur_load =
     (let load_range = fof_nat rnd (usub64 end_load start_load);
          cur_load_diff = fof_nat rnd (usub64 cur_load start_load);
          cur_pct = fdiv rnd cur_load_diff load_range;
          latency_range = fof_nat rnd (usub64 end_latency start_latency);
          latency_delta = ftou64 (fmul rnd latency_range cur_pct)
      in to_u64 (start_latency + latency_delta))"

definition unclamped_latency ::
  "(real \<Rightarrow> real) \<Rightarrow> nat \<Rightarrow> LoadValues \<Rightarrow> LatencyValues \<Rightarrow> nat" where
  "unclamped_latency rnd cur_load load latency =
     (let idx = load_index cur_load load
      in if idx = length load then kSaturationLatencyPenaltyUs rnd
         else if idx = 0 then latency ! idx
         else interpolate rnd (load ! (idx - 1)) (load ! idx)
                (latency ! (idx - 1)) (latency ! idx) cur_load)"

definition curve_latency ::
  "(real \<Rightarrow> real) \<Rightarrow> nat \<Rightarrow> LoadValues \<Rightarrow> LatencyValues \<Rightarrow> nat status" where
  "curve_latency rnd cur_load load latency =
     assertS (curve_ok load latency)
       (Inr (min (unclamped_latency rnd cur_load load latency) (kSaturationLatencyPenaltyUs rnd)))"

section \<open>Peak load\<close>

text \<open>The largest load before the first saturated point.\<close>

definition unsaturated_load :: "LoadValues \<Rightarrow> LatencyValues \<Rightarrow> nat" where
  "unsaturated_load load latency =
     (case find (\<lambda>i. latency ! i \<ge> kSaturationLatencyUs) [0..<length load] of
        None \<Rightarrow> last load | Some i \<Rightarrow> if i = 0 then 0 else load ! (i - 1))"

definition curve_peak :: "(real \<Rightarrow> real) \<Rightarrow> LoadValues \<Rightarrow> LatencyValues \<Rightarrow> nat status" where
  "curve_peak rnd load latency =
     assertS (curve_ok load latency)
       (Inr (ftou64 (fmul rnd (fof_nat rnd (unsaturated_load load latency))
                              (kPeakLoadDampeningFactor rnd))))"

section \<open>Choice of a profile\<close>

definition clamp_ratio :: "real \<Rightarrow> real" where
  "clamp_ratio write_ratio =
     (let w = if write_ratio < 0 then 0 else write_ratio in if w > 1 then 1 else w)"

definition SelectMixModel :: "MixModel list \<Rightarrow> real \<Rightarrow> MixModel status" where
  "SelectMixModel models write_ratio =
     (if models = [] then Inl Runtime_error
      else case find (\<lambda>m. clamp_ratio write_ratio \<le> write_ratio_bucket m) models of
             Some m \<Rightarrow> Inr m | None \<Rightarrow> Inr (last models))"

definition DiskModel_GetLatency ::
  "(real \<Rightarrow> real) \<Rightarrow> DiskModel \<Rightarrow> nat \<Rightarrow> OpType \<Rightarrow> ServerMode \<Rightarrow> real \<Rightarrow> nat status" where
  "DiskModel_GetLatency rnd dm cur_load op m write_ratio =
     (if op = Op_kRead \<and> m = Mode_kRead then curve_latency rnd cur_load (load_read dm) (latency_read dm)
      else if op = Op_kWrite \<and> m = Mode_kWrite
      then curve_latency rnd cur_load (load_write dm) (latency_write dm)
      else bindS (SelectMixModel (mix_models dm) write_ratio)
             (\<lambda>mix. curve_latency rnd cur_load (mm_load mix) (mm_latency mix)))"

definition DiskModel_GetPeakIOPS ::
  "(real \<Rightarrow> real) \<Rightarrow> DiskModel \<Rightarrow> ServerMode \<Rightarrow> real \<Rightarrow> nat status" where
  "DiskModel_GetPeakIOPS rnd dm m write_ratio =
     (case m of
        Mode_kRead \<Rightarrow> curve_peak rnd (load_read dm) (latency_read dm)
      | Mode_kWrite \<Rightarrow> curve_peak rnd (load_write dm) (latency_write dm)
      | Mode_kMix \<Rightarrow> bindS (SelectMixModel (mix_models dm) write_ratio)
          (\<lambda>mix. curve_peak rnd (mm_load mix) (mm_latency mix)))"

section \<open>Loading\<close>

definition kReadOnlyModelSuffix :: string where "kReadOnlyModelSuffix = ''_100r.model''"
definition kWriteOnlyModelSuffix :: string where "kWriteOnlyModelSuffix = ''_1000w.model''"

definition kMixCandidates :: "(real \<Rightarrow> real) \<Rightarrow> (real \<times> string) list" where
  "kMixCandidates rnd =
     [(rnd 0.10, ''_100w.model''), (rnd 0.20, ''_200w.model''), (rnd 0.25, ''_250w.model''),
      (rnd 0.30, ''_300w.model''), (rnd 0.40, ''_400w.model''), (rnd 0.50, ''_500w.model''),
      (rnd 0.60, ''_600w.model''), (rnd 0.70, ''_700w.model''), (rnd 0.75, ''_750w.model'')]"

fun load_mix_models ::
  "(string \<Rightarrow> LoadLatency option) \<Rightarrow> string \<Rightarrow> (real \<times> string) list \<Rightarrow> MixModel list" where
  "load_mix_models LoadModel name [] = []"
| "load_mix_models LoadModel name ((bucket, suffix) # cs) =
     (case LoadModel (name @ suffix) of
        None \<Rightarrow> load_mix_models LoadModel name cs
      | Some (load, latency) \<Rightarrow>
          \<lparr>write_ratio_bucket = bucket, mm_load = load, mm_latency = latency\<rparr>
          # load_mix_models LoadModel name cs)"

definition LoadModels ::
  "(real \<Rightarrow> real) \<Rightarrow> (string \<Rightarrow> LoadLatency option) \<Rightarrow> string \<Rightarrow> DiskModel status" where
  "LoadModels rnd LoadModel name =
     (case LoadModel (name @ kReadOnlyModelSuffix) of
        None \<Rightarrow> MakeError EINVAL
      | Some (lr, tr) \<Rightarrow>
          (case LoadModel (name @ kWriteOnlyModelSuffix) of
             None \<Rightarrow> MakeError EINVAL
           | Some (lw, tw) \<Rightarrow>
               (let mix = load_mix_models LoadModel name (kMixCandidates rnd)
                in if mix = [] then MakeError EINVAL
                   else Inr \<lparr>load_read = lr, latency_read = tr, load_write = lw, latency_write = tw,
                              mix_models = mix\<rparr>)))"

text \<open>The constructor throws when the models cannot be loaded.\<close>

definition DiskModel_new ::
  "(real \<Rightarrow> real) \<Rightarrow> (string \<Rightarrow> LoadLatency option) \<Rightarrow> string \<Rightarrow> DiskModel status" where
  "DiskModel_new rnd LoadModel name =
     (case LoadModels rnd LoadModel name of Inl _ \<Rightarrow> Inl Runtime_error | Inr dm \<Rightarrow> Inr dm)"

definition DiskModel_default :: DiskModel where
  "DiskModel_default = \<lparr>load_read = [], latency_read = [], load_write = [], latency_write = [],
     mix_models = []\<rparr>"

section \<open>Searching a list\<close>

lemma find_upt_Some:
  assumes "find P [0..<n] = Some i"
  shows "i < n" "P i" "\<And>j. j < i \<Longrightarrow> \<not> P j"
  using assms by (auto simp: find_Some_iff)

lemma find_upt_None: "find P [0..<n] = None \<longleftrightarrow> (\<forall>j < n. \<not> P j)"
  by (auto simp: find_None_iff)

lemma load_index_le: "load_index x load \<le> length load"
  using find_upt_Some(1) by (fastforce simp: load_index_def split: option.splits)

lemma load_index_hit:
  "load_index x load < length load \<Longrightarrow> x \<le> load ! load_index x load"
  using find_upt_Some(2) by (fastforce simp: load_index_def split: option.splits)

lemma load_index_before:
  "j < load_index x load \<Longrightarrow> load ! j < x"
  unfolding load_index_def
  by (auto simp: find_upt_None not_le split: option.splits dest: find_upt_Some(3))

lemma load_index_mono:
  assumes "x \<le> y" shows "load_index x load \<le> load_index y load"
proof (rule ccontr)
  assume "\<not> ?thesis"
  then have "load_index y load < load_index x load" by simp
  with load_index_before [OF this] load_index_hit [of y load] load_index_le [of x load] assms
  show False by simp
qed

section \<open>Interpolation under rounding\<close>

text \<open>A well-formed profile: 64-bit loads and latencies in order, latencies that a double holds.\<close>

definition curve_sorted :: "LoadValues \<Rightarrow> LatencyValues \<Rightarrow> bool" where
  "curve_sorted load latency \<longleftrightarrow> sorted load \<and> sorted latency \<and>
     (\<forall>l \<in> set load. l < 2 ^ 53) \<and> (\<forall>t \<in> set latency. t \<le> 2 ^ 53)"

context fp_rounding
begin

definition pct :: "nat \<Rightarrow> nat \<Rightarrow> nat \<Rightarrow> real" where
  "pct a b x = fdiv rnd (fof_nat rnd (x - a)) (fof_nat rnd (b - a))"

lemma pct_bounds:
  assumes "a < b" "x \<le> b" shows "0 \<le> pct a b x" "pct a b x \<le> 1"
proof -
  have pos: "0 < rnd (real (b - a))" using assms(1) by (intro rnd_pos) simp
  have le: "rnd (real (x - a)) \<le> rnd (real (b - a))" using assms(2) by (intro rnd_mono) simp
  show "0 \<le> pct a b x" unfolding pct_def fdiv_def fof_nat_def
    by (intro rnd_nonneg divide_nonneg_pos pos) simp_all
  show "pct a b x \<le> 1" unfolding pct_def fdiv_def fof_nat_def
    by (rule rnd_le_1) (use pos le in simp)
qed

lemma pct_mono: "a < b \<Longrightarrow> x \<le> y \<Longrightarrow> pct a b x \<le> pct a b y"
  unfolding pct_def fdiv_def fof_nat_def
  by (intro rnd_mono divide_right_mono rnd_nonneg) simp_all

definition delta :: "nat \<Rightarrow> real \<Rightarrow> nat" where
  "delta r p = nat \<lfloor>rnd (real r * p)\<rfloor>"

lemma delta_le:
  assumes "r \<le> 2 ^ 53" "p \<le> 1" shows "delta r p \<le> r"
proof -
  have "rnd (real r * p) \<le> real r" by (rule rnd_mult_le) (use assms rnd_nat in simp_all)
  then show ?thesis unfolding delta_def by (simp add: nat_le_iff) linarith
qed

lemma delta_mono: "p \<le> q \<Longrightarrow> delta r p \<le> delta r q"
  unfolding delta_def by (intro nat_mono floor_mono rnd_mono mult_left_mono) simp_all

lemma interpolate_eq:
  assumes "a < x" "x \<le> b" "b < 2 ^ 53" "s \<le> e" "e \<le> 2 ^ 53"
  shows "interpolate rnd a b s e x = s + delta (e - s) (pct a b x)"
proof -
  have d: "delta (e - s) (pct a b x) \<le> e - s"
    using assms by (intro delta_le pct_bounds(2)) simp_all
  have big: "n < 2 ^ 64" if "n \<le> 2 ^ 53" for n :: nat using that by simp
  have "interpolate rnd a b s e x = to_u64 (s + to_u64 (delta (e - s) (pct a b x)))"
    using assms
    by (simp add: interpolate_def usub64_ge ftou64_def fmul_def fof_nat_def rnd_nat pct_def
        delta_def Let_def del: of_nat_diff)
  also have "to_u64 (delta (e - s) (pct a b x)) = delta (e - s) (pct a b x)"
    by (rule to_u64_id, rule big) (use d assms(5) in linarith)
  also have "to_u64 (s + delta (e - s) (pct a b x)) = s + delta (e - s) (pct a b x)"
    by (rule to_u64_id, rule big) (use d assms(4,5) in linarith)
  finally show ?thesis .
qed

lemma interpolate_bounds:
  assumes "a < x" "x \<le> b" "b < 2 ^ 53" "s \<le> e" "e \<le> 2 ^ 53"
  shows "s \<le> interpolate rnd a b s e x" "interpolate rnd a b s e x \<le> e"
proof -
  have "delta (e - s) (pct a b x) \<le> e - s"
    using assms by (intro delta_le pct_bounds(2)) simp_all
  then show "s \<le> interpolate rnd a b s e x" "interpolate rnd a b s e x \<le> e"
    unfolding interpolate_eq [OF assms] using assms(4) by linarith+
qed

lemma interpolate_mono:
  assumes "a < x" "x \<le> y" "y \<le> b" "b < 2 ^ 53" "s \<le> e" "e \<le> 2 ^ 53"
  shows "interpolate rnd a b s e x \<le> interpolate rnd a b s e y"
  using assms interpolate_eq [of a x b s e] interpolate_eq [of a y b s e] pct_mono [of a b x y]
    delta_mono [of "pct a b x" "pct a b y" "e - s"] by simp

lemma unclamped_bounds:
  assumes "curve_ok load latency" "curve_sorted load latency" "load_index x load < length load"
  shows "unclamped_latency rnd x load latency \<le> latency ! load_index x load"
    and "0 < load_index x load \<Longrightarrow>
      latency ! (load_index x load - 1) \<le> unclamped_latency rnd x load latency"
proof -
  let ?i = "load_index x load"
  have len: "length latency = length load" using assms(1) by (simp add: curve_ok_def)
  note i = assms(3) load_index_hit [OF assms(3)]
  have seg: "latency ! (?i - 1) \<le> interpolate rnd (load ! (?i - 1)) (load ! ?i)
        (latency ! (?i - 1)) (latency ! ?i) x \<and> interpolate rnd (load ! (?i - 1)) (load ! ?i)
        (latency ! (?i - 1)) (latency ! ?i) x \<le> latency ! ?i" if "0 < ?i"
  proof (rule conjI [OF interpolate_bounds(1) interpolate_bounds(2)])
    show "load ! (?i - 1) < x" by (rule load_index_before) (use that in simp)
    show "x \<le> load ! ?i" by (rule i(2))
    show "load ! ?i < 2 ^ 53" using assms(2) i(1) by (simp add: curve_sorted_def)
    show "latency ! (?i - 1) \<le> latency ! ?i"
      using assms(2) i(1) len by (intro sorted_nth_mono) (simp_all add: curve_sorted_def)
    show "latency ! ?i \<le> 2 ^ 53" using assms(2) i(1) len by (simp add: curve_sorted_def)
  qed (use load_index_before [of "?i - 1" x load] that i assms(2) len in
      \<open>simp_all add: curve_sorted_def sorted_nth_mono\<close>)
  show "unclamped_latency rnd x load latency \<le> latency ! ?i"
    using seg i(1) by (simp add: unclamped_latency_def Let_def)
  show "latency ! (?i - 1) \<le> unclamped_latency rnd x load latency" if "0 < ?i"
    using seg that i(1) by (simp add: unclamped_latency_def Let_def)
qed

lemma unclamped_mono:
  assumes "curve_ok load latency" "curve_sorted load latency" "x \<le> y"
    and "load_index y load < length load"
  shows "unclamped_latency rnd x load latency \<le> unclamped_latency rnd y load latency"
proof -
  let ?i = "load_index x load" and ?j = "load_index y load"
  have len: "length latency = length load" using assms(1) by (simp add: curve_ok_def)
  have le: "?i \<le> ?j" by (rule load_index_mono [OF assms(3)])
  show ?thesis
  proof (cases "?i = ?j")
    case True
    have "interpolate rnd (load ! (?j - 1)) (load ! ?j) (latency ! (?j - 1)) (latency ! ?j) x
      \<le> interpolate rnd (load ! (?j - 1)) (load ! ?j) (latency ! (?j - 1)) (latency ! ?j) y"
      if "0 < ?j"
      using that True assms(2-4) len load_index_before [of "?j - 1" x load]
        load_index_hit [of y load]
      by (intro interpolate_mono) (simp_all add: curve_sorted_def sorted_nth_mono)
    then show ?thesis using True by (simp add: unclamped_latency_def Let_def)
  next
    case False
    with le assms(4) have lt: "?i < ?j" "?i < length load" by simp_all
    have "unclamped_latency rnd x load latency \<le> latency ! ?i"
      by (rule unclamped_bounds(1) [OF assms(1,2) lt(2)])
    also have "\<dots> \<le> latency ! (?j - 1)"
      using assms(2,4) lt len by (intro sorted_nth_mono) (simp_all add: curve_sorted_def)
    also have "\<dots> \<le> unclamped_latency rnd y load latency"
      using unclamped_bounds(2) [OF assms(1,2,4)] lt by simp
    finally show ?thesis .
  qed
qed

lemma latency_mono:
  assumes "curve_ok load latency" "curve_sorted load latency" "x \<le> y"
    and "curve_latency rnd x load latency = Inr l" "curve_latency rnd y load latency = Inr k"
  shows "l \<le> k"
proof (cases "load_index y load < length load")
  case True
  then show ?thesis using unclamped_mono [OF assms(1-3) True] assms(4,5)
    by (auto simp: curve_latency_def status_simps min_def split: if_splits)
next
  case False
  then have "load_index y load = length load" using load_index_le [of y load] by simp
  then have "unclamped_latency rnd y load latency = kSaturationLatencyPenaltyUs rnd"
    by (simp add: unclamped_latency_def)
  then show ?thesis using assms(4,5) by (auto simp: curve_latency_def status_simps)
qed

lemma peak_le: "l < 2 ^ 53 \<Longrightarrow>
    ftou64 (fmul rnd (fof_nat rnd l) (kPeakLoadDampeningFactor rnd)) \<le> l"
proof -
  assume l: "l < 2 ^ 53"
  have "0 \<le> rnd 0.95" "rnd 0.95 \<le> 1" by (rule rnd_nonneg, simp, rule rnd_le_1, simp)
  then have "0 \<le> rnd (real l * rnd 0.95)" "rnd (real l * rnd 0.95) \<le> real l"
    using l by (auto intro!: rnd_nonneg rnd_mult_le simp: rnd_nat)
  then have "real (ftou64 (rnd (real l * rnd 0.95))) \<le> real l"
    using ftou64_le order_trans by blast
  then show ?thesis
    using l by (simp add: fmul_def fof_nat_def kPeakLoadDampeningFactor_def rnd_nat)
qed

lemma unsaturated_point:
  assumes "curve_ok load latency" "curve_sorted load latency" "hd latency < kSaturationLatencyUs"
  shows "\<exists>j < length load. unsaturated_load load latency = load ! j \<and>
    latency ! j < kSaturationLatencyUs"
proof (cases "find (\<lambda>i. latency ! i \<ge> kSaturationLatencyUs) [0..<length load]")
  case None
  then have "\<forall>j < length load. latency ! j < kSaturationLatencyUs" by (simp add: find_upt_None not_le)
  then show ?thesis using None assms(1)
    by (intro exI [of _ "length load - 1"]) (simp add: unsaturated_load_def curve_ok_def last_conv_nth)
next
  case (Some i)
  note f = find_upt_Some [OF Some]
  have "i \<noteq> 0" using f(2) assms(1,3) by (cases i) (auto simp: curve_ok_def hd_conv_nth)
  then show ?thesis using Some f(1) f(3) [of "i - 1"]
    by (intro exI [of _ "i - 1"]) (simp add: unsaturated_load_def not_le)
qed

lemma latency_at_point:
  assumes "curve_ok load latency" "curve_sorted load latency" "j < length load"
  shows "unclamped_latency rnd (load ! j) load latency \<le> latency ! j"
proof -
  let ?i = "load_index (load ! j) load"
  have le: "?i \<le> j" using load_index_before [of j "load ! j" load] by (meson not_le order_less_irrefl)
  then have i: "?i < length load" using assms(3) by simp
  have "unclamped_latency rnd (load ! j) load latency \<le> latency ! ?i"
    by (rule unclamped_bounds(1) [OF assms(1,2) i])
  also have "\<dots> \<le> latency ! j"
    using le assms by (intro sorted_nth_mono) (simp_all add: curve_sorted_def curve_ok_def)
  finally show ?thesis .
qed

lemma peak_unsaturated:
  assumes "curve_ok load latency" "curve_sorted load latency" "hd latency < kSaturationLatencyUs"
  shows "\<exists>p l. curve_peak rnd load latency = Inr p \<and> p \<le> unsaturated_load load latency \<and>
    curve_latency rnd p load latency = Inr l \<and> l < kSaturationLatencyUs"
proof -
  obtain j where j: "j < length load" "unsaturated_load load latency = load ! j"
    "latency ! j < kSaturationLatencyUs" using unsaturated_point [OF assms] by blast
  let ?p = "ftou64 (fmul rnd (fof_nat rnd (load ! j)) (kPeakLoadDampeningFactor rnd))"
  have p: "?p \<le> load ! j" using assms(2) j(1) by (intro peak_le) (simp add: curve_sorted_def)
  have lt: "load_index (load ! j) load < length load"
    using load_index_before [of j "load ! j" load] j(1) by (meson not_le order_less_irrefl order_le_less_trans)
  have "unclamped_latency rnd ?p load latency \<le> unclamped_latency rnd (load ! j) load latency"
    by (rule unclamped_mono [OF assms(1,2) p lt])
  also have "\<dots> \<le> latency ! j" by (rule latency_at_point [OF assms(1,2) j(1)])
  finally have "unclamped_latency rnd ?p load latency < kSaturationLatencyUs" using j(3) by simp
  then show ?thesis using assms(1) p by (simp add: curve_peak_def curve_latency_def j(2))
qed

lemma kMixCandidates_sorted: "sorted (map fst (kMixCandidates rnd))"
  by (simp add: kMixCandidates_def rnd_mono)

end

section \<open>Choice of the mixed profile\<close>

lemma load_mix_models_buckets:
  "m \<in> set (load_mix_models LM name cs) \<Longrightarrow> write_ratio_bucket m \<in> fst ` set cs"
proof (induction cs)
  case Nil
  then show ?case by simp
next
  case (Cons c cs)
  then show ?case by (cases c) (auto split: option.splits)
qed

lemma load_mix_models_sorted:
  "sorted (map fst cs) \<Longrightarrow> sorted (map write_ratio_bucket (load_mix_models LM name cs))"
proof (induction cs)
  case Nil
  then show ?case by simp
next
  case (Cons c cs)
  have "fst c \<le> write_ratio_bucket m" if "m \<in> set (load_mix_models LM name cs)" for m
    using load_mix_models_buckets [OF that] Cons.prems by auto
  with Cons show ?case by (cases c) (auto split: option.splits)
qed

lemma find_sorted:
  assumes "sorted (map f xs)" "find (\<lambda>x. w \<le> f x) xs = Some x" "y \<in> set xs" "w \<le> f y"
  shows "f x \<le> (f y :: real)"
  using assms by (induction xs) (auto split: if_splits)

lemma last_sorted: "sorted (map f xs) \<Longrightarrow> y \<in> set xs \<Longrightarrow> (f y :: real) \<le> f (last xs)"
  by (induction xs) auto

section \<open>Properties\<close>

definition model_sorted :: "DiskModel \<Rightarrow> bool" where
  "model_sorted dm \<longleftrightarrow>
     curve_ok (load_read dm) (latency_read dm) \<and> curve_sorted (load_read dm) (latency_read dm) \<and>
     curve_ok (load_write dm) (latency_write dm) \<and> curve_sorted (load_write dm) (latency_write dm) \<and>
     mix_models dm \<noteq> [] \<and>
     (\<forall>m \<in> set (mix_models dm). curve_ok (mm_load m) (mm_latency m) \<and>
        curve_sorted (mm_load m) (mm_latency m))"

lemma SelectMixModel_mem:
  "models \<noteq> [] \<Longrightarrow> \<exists>m \<in> set models. SelectMixModel models w = Inr m"
  by (auto simp: SelectMixModel_def find_Some_iff split: option.splits)

text \<open>The profile a query of the model uses.\<close>

lemma GetLatency_curve:
  assumes "model_sorted dm"
  shows "\<exists>load latency. curve_ok load latency \<and> curve_sorted load latency \<and>
    (\<forall>x. DiskModel_GetLatency rnd dm x op m w = curve_latency rnd x load latency)"
proof -
  obtain mix where "mix \<in> set (mix_models dm)" "SelectMixModel (mix_models dm) w = Inr mix"
    using SelectMixModel_mem assms by (metis model_sorted_def)
  then show ?thesis using assms
    by (cases "op = Op_kRead \<and> m = Mode_kRead"; cases "op = Op_kWrite \<and> m = Mode_kWrite")
      (fastforce simp: DiskModel_GetLatency_def model_sorted_def)+
qed

text \<open>
  C38. The latency of a disk model is a monotone control signal under any floating point rounding
  of the assumed kind: for a model with ordered profiles every query succeeds, a higher load never
  gets a lower latency, and no latency exceeds the saturation clamp.
\<close>

theorem GetLatency_monotone:
  assumes "fp_rounding rnd" "model_sorted dm" "x \<le> y"
  shows "\<exists>l k. DiskModel_GetLatency rnd dm x op m w = Inr l \<and>
    DiskModel_GetLatency rnd dm y op m w = Inr k \<and> l \<le> k \<and> k \<le> kSaturationLatencyPenaltyUs rnd"
proof -
  obtain load latency where c: "curve_ok load latency" "curve_sorted load latency"
    "\<And>x. DiskModel_GetLatency rnd dm x op m w = curve_latency rnd x load latency"
    using GetLatency_curve [OF assms(2)] by blast
  obtain l k where lk: "curve_latency rnd x load latency = Inr l"
    "curve_latency rnd y load latency = Inr k" "k \<le> kSaturationLatencyPenaltyUs rnd"
    using c(1) by (simp add: curve_latency_def)
  with fp_rounding.latency_mono [OF assms(1) c(1,2) assms(3) lk(1,2)] c(3) show ?thesis by auto
qed

text \<open>A small profile for the examples, the shape of the files under \<open>data/ssd_models\<close>.\<close>

definition example_model :: DiskModel where
  "example_model = \<lparr>load_read = [100, 200, 300], latency_read = [80, 90, 1200],
     load_write = [50, 100], latency_write = [20, 900],
     mix_models = [\<lparr>write_ratio_bucket = 1 / 4, mm_load = [100, 150], mm_latency = [100, 700]\<rparr>]\<rparr>"

lemma example_model_sorted: "model_sorted example_model"
  by (simp add: model_sorted_def example_model_def curve_ok_def curve_sorted_def)

theorem GetLatency_monotone_witness:
  "\<exists>l k. DiskModel_GetLatency rnd64 example_model 120 Op_kRead Mode_kRead 0 = Inr l \<and>
    DiskModel_GetLatency rnd64 example_model 170 Op_kRead Mode_kRead 0 = Inr k \<and> l \<le> k"
  using GetLatency_monotone [OF r64.fp_rounding_axioms example_model_sorted, of 120 170 Op_kRead
      Mode_kRead 0] by auto



text \<open>
  C39. The mixed profile is chosen conservatively: whatever model files exist for a disk, the
  profile selected for a write ratio is the one with the least bucket at or above the clamped
  ratio, and the one with the greatest bucket when the ratio is above them all.
\<close>

theorem SelectMixModel_rounds_up:
  assumes "fp_rounding rnd" "LoadModels rnd LoadModel name = Inr dm"
  shows "\<exists>m \<in> set (mix_models dm). SelectMixModel (mix_models dm) w = Inr m \<and>
    (if \<exists>c \<in> set (mix_models dm). clamp_ratio w \<le> write_ratio_bucket c
     then clamp_ratio w \<le> write_ratio_bucket m \<and>
       (\<forall>c \<in> set (mix_models dm). clamp_ratio w \<le> write_ratio_bucket c \<longrightarrow>
          write_ratio_bucket m \<le> write_ratio_bucket c)
     else \<forall>c \<in> set (mix_models dm). write_ratio_bucket c \<le> write_ratio_bucket m)"
proof -
  let ?ms = "mix_models dm" and ?P = "\<lambda>m. clamp_ratio w \<le> write_ratio_bucket m"
  have ms: "?ms = load_mix_models LoadModel name (kMixCandidates rnd)" "?ms \<noteq> []"
    using assms(2) by (auto simp: LoadModels_def Let_def split: option.splits if_splits)
  have srt: "sorted (map write_ratio_bucket ?ms)"
    unfolding ms(1) by (rule load_mix_models_sorted [OF fp_rounding.kMixCandidates_sorted [OF assms(1)]])
  show ?thesis
  proof (cases "find ?P ?ms")
    case None
    then have "SelectMixModel ?ms w = Inr (last ?ms)" using ms(2) by (simp add: SelectMixModel_def)
    moreover have "\<not> (\<exists>c \<in> set ?ms. ?P c)" using None by (simp add: find_None_iff)
    ultimately show ?thesis using ms(2) last_sorted [OF srt] by auto
  next
    case (Some m)
    then have m: "m \<in> set ?ms" "?P m" by (auto simp: find_Some_iff)
    then show ?thesis using Some ms(2) find_sorted [OF srt Some]
      by (intro bexI [of _ m]) (auto simp: SelectMixModel_def)
  qed
qed

theorem SelectMixModel_rounds_up_witness:
  "\<exists>dm. LoadModels rnd64 (\<lambda>_. Some ([1], [2])) ''ssd'' = Inr dm \<and>
    (\<exists>m \<in> set (mix_models dm). SelectMixModel (mix_models dm) (1 / 3) = Inr m)"
proof -
  obtain dm where dm: "LoadModels rnd64 (\<lambda>_. Some ([1], [2])) ''ssd'' = Inr dm"
    by (simp add: LoadModels_def kMixCandidates_def Let_def)
  from SelectMixModel_rounds_up [OF r64.fp_rounding_axioms dm, of "1 / 3"] dm show ?thesis by blast
qed

lemma kSaturationLatencyPenaltyUs_exact: "kSaturationLatencyPenaltyUs (\<lambda>x. x) = 1050"
  by (simp add: kSaturationLatencyPenaltyUs_def ftou64_def fmul_def kSaturationLatencyUs_def to_u64_def)

lemma GetLatency_le_penalty:
  "DiskModel_GetLatency rnd dm x op m w = Inr l \<Longrightarrow> l \<le> kSaturationLatencyPenaltyUs rnd"
  by (auto simp: DiskModel_GetLatency_def curve_latency_def status_simps split: if_splits)

text \<open>
  A profile whose latencies are not ordered makes the unsigned difference of the interpolation
  wrap: between two points of latency 734 and 700 the model answers the saturation clamp 1050.
  \<open>data/ssd_models/test_500w.model\<close> has these two points.
\<close>

theorem interpolation_wraps:
  "curve_latency (\<lambda>x. x) 504702 [504464, 504940] [734, 700] = Inr 1050"
proof -
  have "load_index 504702 [504464, 504940] = 1" by (simp add: load_index_def upt_conv_Cons)
  moreover note kSaturationLatencyPenaltyUs_exact
  moreover have "1050 \<le> interpolate (\<lambda>x. x) 504464 504940 734 700 504702"
    by (simp add: interpolate_def usub64_def to_u64_def fof_nat_def fdiv_def fmul_def ftou64_def)
  ultimately show ?thesis by (simp add: curve_latency_def curve_ok_def unclamped_latency_def Let_def)
qed

end
