(* ===== verification/Counter.thy ===== *)
theory Counter
  imports Sandook_Prelude
begin

text \<open>
  The statistics counter of \<open>sandook/base/counter.h\<close> and \<open>counter.cc\<close>: one count per core, changed
  with preemption disabled, and an offset that a reset moves instead of clearing the counts. The
  core is an argument of the operations. The counts are \<open>int64_t\<close>; the model keeps them as integers.
\<close>

section \<open>The per-core counter\<close>

record ThreadSafeCounter =
  cnts :: "int list"
  tsc_delta :: int

definition ThreadSafeCounter_init :: "nat \<Rightarrow> ThreadSafeCounter" where
  "ThreadSafeCounter_init ncores = \<lparr>cnts = replicate ncores 0, tsc_delta = 0\<rparr>"

definition inc_local :: "nat \<Rightarrow> int \<Rightarrow> ThreadSafeCounter \<Rightarrow> ThreadSafeCounter" where
  "inc_local cpu d c = c\<lparr>cnts := (cnts c)[cpu := cnts c ! cpu + d]\<rparr>"

definition dec_local :: "nat \<Rightarrow> int \<Rightarrow> ThreadSafeCounter \<Rightarrow> ThreadSafeCounter" where
  "dec_local cpu d c = c\<lparr>cnts := (cnts c)[cpu := cnts c ! cpu - d]\<rparr>"

definition get_sum :: "ThreadSafeCounter \<Rightarrow> int" where
  "get_sum c = fold (\<lambda>x s. s + x) (cnts c) 0 + tsc_delta c"

definition get_sum_and_reset :: "ThreadSafeCounter \<Rightarrow> int \<times> ThreadSafeCounter" where
  "get_sum_and_reset c = (let s = get_sum c in (s, c\<lparr>tsc_delta := tsc_delta c + - s\<rparr>))"

lemma fold_plus_int: "fold (\<lambda>x s. s + x) xs a = a + sum_list (xs :: int list)"
  by (induction xs arbitrary: a) simp_all

lemma get_sum_eq: "get_sum c = sum_list (cnts c) + tsc_delta c"
  by (simp add: get_sum_def fold_plus_int)

lemma sum_list_update_int:
  "i < length xs \<Longrightarrow> sum_list (xs[i := v]) = sum_list xs - xs ! i + (v :: int)"
proof (induction xs arbitrary: i)
  case (Cons x xs)
  then show ?case by (cases i) auto
qed simp

section \<open>The interface\<close>

text \<open>Increments and reports of a counter; \<open>ok cpu c\<close> says that the core may use the counter.\<close>

locale event_counter =
  fixes inc :: "nat \<Rightarrow> int \<Rightarrow> 'c \<Rightarrow> 'c" and total :: "'c \<Rightarrow> int" and reset :: "'c \<Rightarrow> int \<times> 'c"
    and ok :: "nat \<Rightarrow> 'c \<Rightarrow> bool"
  assumes total_inc: "ok cpu c \<Longrightarrow> total (inc cpu d c) = total c + d"
    and ok_inc: "ok cpu' (inc cpu d c) = ok cpu' c"
    and reset_value: "fst (reset c) = total c"
    and reset_total: "total (snd (reset c)) = 0"
    and ok_reset: "ok cpu (snd (reset c)) = ok cpu c"
begin

text \<open>\<open>run (cpu, Some d)\<close> adds \<open>d\<close> on a core, \<open>run (cpu, None)\<close> collects the sum.\<close>

fun run :: "(nat \<times> int option) list \<Rightarrow> 'c \<Rightarrow> int list \<times> 'c" where
  "run [] c = ([], c)"
| "run ((cpu, Some d) # es) c = run es (inc cpu d c)"
| "run ((cpu, None) # es) c =
     (let (s, c') = reset c; (ss, c'') = run es c' in (s # ss, c''))"

lemma run_conserves:
  assumes "\<forall>(cpu, e) \<in> set es. ok cpu c"
  shows "sum_list (fst (run es c)) + total (snd (run es c)) =
    total c + sum_list (List.map_filter snd es)"
  using assms
proof (induction es c rule: run.induct)
  case (1 c)
  then show ?case by (simp add: List.map_filter_def)
next
  case (2 cpu d es c)
  then show ?case using total_inc [of cpu c d] by (auto simp: List.map_filter_def ok_inc)
next
  case (3 cpu es c)
  obtain s c' where r: "reset c = (s, c')" by fastforce
  then have s: "s = total c" "total c' = 0" using reset_value [of c] reset_total [of c] by simp_all
  have "\<forall>(cpu, e) \<in> set es. ok cpu c'" using "3.prems" r ok_reset [of _ c] by fastforce
  from "3.IH" [OF r [symmetric] refl this] show ?case
    using r s by (auto simp: List.map_filter_def split: prod.splits)
qed

end

definition on_core :: "nat \<Rightarrow> ThreadSafeCounter \<Rightarrow> bool" where
  "on_core cpu c \<longleftrightarrow> cpu < length (cnts c)"

interpretation tsc: event_counter inc_local get_sum get_sum_and_reset on_core
  by unfold_locales
    (simp_all add: inc_local_def get_sum_eq get_sum_and_reset_def on_core_def Let_def
      sum_list_update_int)

lemma get_sum_init [simp]: "get_sum (ThreadSafeCounter_init n) = 0"
  by (simp add: get_sum_eq ThreadSafeCounter_init_def sum_list_replicate)

lemma on_core_init [simp]: "on_core cpu (ThreadSafeCounter_init n) \<longleftrightarrow> cpu < n"
  by (simp add: on_core_def ThreadSafeCounter_init_def)

lemma dec_local_inc: "dec_local cpu d c = inc_local cpu (- d) c"
  by (simp add: dec_local_def inc_local_def)

lemmas counter_simps [simp] =
  tsc.total_inc tsc.ok_inc tsc.reset_value tsc.reset_total tsc.ok_reset dec_local_inc

section \<open>Properties\<close>

text \<open>The events of a counter: \<open>Some d\<close> adds on a core, \<open>None\<close> collects and resets.\<close>

fun counter_run ::
  "(nat \<times> int option) list \<Rightarrow> ThreadSafeCounter \<Rightarrow> int list \<times> ThreadSafeCounter" where
  "counter_run [] c = ([], c)"
| "counter_run ((cpu, Some d) # es) c = counter_run es (inc_local cpu d c)"
| "counter_run ((cpu, None) # es) c =
     (let (s, c') = get_sum_and_reset c; (ss, c'') = counter_run es c' in (s # ss, c''))"

lemma counter_run_eq: "counter_run es c = tsc.run es c"
  by (induction es c rule: counter_run.induct) (auto split: prod.splits)



end
