(* ===== verification/T_Digest.thy ===== *)
theory T_Digest
  imports Sandook_Types "HOL-Library.Multiset"
begin

text \<open>
  The quantile sketch \<open>lib/tdigest/TDigest.h\<close> that the disk monitor feeds with latencies: samples
  are buffered, then merged into weighted centroids whose sizes follow a scale function, and a
  quantile is interpolated between centroids. The model covers what a digest of samples uses; the
  merging of whole digests is not modelled. Every operation on doubles is rounded by \<open>rnd\<close>; the
  sine and arc sine of the C library are the two functions of a \<open>libm\<close> argument, of which nothing
  is assumed. A sample has weight 1, so the unspecified order of \<open>std::sort\<close> on equal means
  does not matter. Reading outside a vector is the failure \<open>Out_of_range\<close>; a NaN result is \<open>None\<close>.
\<close>

section \<open>Centroids\<close>

record Centroid =
  c_mean :: real
  c_weight :: real

definition Centroid_add :: "(real \<Rightarrow> real) \<Rightarrow> Centroid \<Rightarrow> Centroid \<Rightarrow> Centroid" where
  "Centroid_add rnd self c =
     (if c_weight self \<noteq> 0
      then let w = fadd rnd (c_weight self) (c_weight c)
           in \<lparr>c_mean = fadd rnd (c_mean self)
                 (fdiv rnd (fmul rnd (c_weight c) (fsub rnd (c_mean c) (c_mean self))) w),
               c_weight = w\<rparr>
      else c)"

section \<open>The digest\<close>

type_synonym libm = "(real \<Rightarrow> real) \<times> (real \<Rightarrow> real)"

record TDigest =
  compression :: real
  td_min :: real
  td_max :: real
  maxProcessed :: nat
  maxUnprocessed :: nat
  processedWeight :: real
  unprocessedWeight :: real
  processed :: "Centroid list"
  unprocessed :: "Centroid list"
  cumulative :: "real list"

definition processedSize :: "nat \<Rightarrow> real \<Rightarrow> nat" where
  "processedSize sz compr = (if sz = 0 then 2 * nat \<lceil>compr\<rceil> else sz)"

definition unprocessedSize :: "nat \<Rightarrow> real \<Rightarrow> nat" where
  "unprocessedSize sz compr = (if sz = 0 then 8 * nat \<lceil>compr\<rceil> else sz)"

text \<open>\<open>dbl_max\<close> and \<open>dbl_min\<close> are \<open>std::numeric_limits<double>::max()\<close> and \<open>min()\<close>.\<close>

definition dbl_max_exponent :: nat where "dbl_max_exponent = 1023"
definition dbl_max :: real where "dbl_max = (2 - 1 / 2 ^ 52) * 2 ^ dbl_max_exponent"
definition dbl_min :: real where "dbl_min = 1 / 2 ^ dbl_min_exponent"

definition TDigest_new :: "real \<Rightarrow> nat \<Rightarrow> nat \<Rightarrow> TDigest" where
  "TDigest_new compr unmergedSize mergedSize = \<lparr>compression = compr, td_min = dbl_max, td_max = dbl_min,
     maxProcessed = processedSize mergedSize compr, maxUnprocessed = unprocessedSize unmergedSize compr,
     processedWeight = 0, unprocessedWeight = 0, processed = [], unprocessed = [], cumulative = []\<rparr>"

definition TDigest_default :: TDigest where
  "TDigest_default = TDigest_new 1000 0 0"

definition haveUnprocessed :: "TDigest \<Rightarrow> bool" where
  "haveUnprocessed t \<longleftrightarrow> length (unprocessed t) > 0"

definition isDirty :: "TDigest \<Rightarrow> bool" where
  "isDirty t \<longleftrightarrow> length (processed t) > maxProcessed t \<or> length (unprocessed t) > maxUnprocessed t"

definition integratedLocation :: "(real \<Rightarrow> real) \<Rightarrow> libm \<Rightarrow> TDigest \<Rightarrow> real \<Rightarrow> real" where
  "integratedLocation rnd lm t q =
     (let m_pi = rnd pi
      in fdiv rnd (fmul rnd (compression t)
           (fadd rnd (snd lm (fsub rnd (fmul rnd 2 q) 1)) (fdiv rnd m_pi 2))) m_pi)"

definition integratedQ :: "(real \<Rightarrow> real) \<Rightarrow> libm \<Rightarrow> TDigest \<Rightarrow> real \<Rightarrow> real" where
  "integratedQ rnd lm t k =
     (let m_pi = rnd pi
      in fdiv rnd (fadd rnd (fst lm (fsub rnd (fdiv rnd (fmul rnd (min k (compression t)) m_pi) (compression t))
           (fdiv rnd m_pi 2))) 1) 2)"

fun cumulate :: "(real \<Rightarrow> real) \<Rightarrow> real \<Rightarrow> Centroid list \<Rightarrow> real list" where
  "cumulate rnd previous [] = [previous]"
| "cumulate rnd previous (c # cs) =
     (let halfCurrent = fdiv rnd (c_weight c) 2
      in fadd rnd previous halfCurrent # cumulate rnd (fadd rnd previous (c_weight c)) cs)"

definition updateCumulative :: "(real \<Rightarrow> real) \<Rightarrow> TDigest \<Rightarrow> TDigest" where
  "updateCumulative rnd t = t\<lparr>cumulative := cumulate rnd 0 (processed t)\<rparr>"

text \<open>\<open>std::inplace_merge\<close> is stable: on equal means the first sequence comes first.\<close>

fun merge_centroids :: "Centroid list \<Rightarrow> Centroid list \<Rightarrow> Centroid list" where
  "merge_centroids [] ys = ys"
| "merge_centroids xs [] = xs"
| "merge_centroids (x # xs) (y # ys) =
     (if c_mean y < c_mean x then y # merge_centroids (x # xs) ys
      else x # merge_centroids xs (y # ys))"

text \<open>One iteration of the compression loop over the sorted centroids.\<close>

definition compress_step ::
  "(real \<Rightarrow> real) \<Rightarrow> libm \<Rightarrow> TDigest \<Rightarrow> Centroid \<Rightarrow> Centroid list \<times> real \<times> real \<Rightarrow>
     Centroid list \<times> real \<times> real" where
  "compress_step rnd lm t c = (\<lambda>(ps, wSoFar, wLimit).
     let projectedW = fadd rnd wSoFar (c_weight c)
     in if projectedW \<le> wLimit
        then (butlast ps @ [Centroid_add rnd (last ps) c], projectedW, wLimit)
        else let k1 = integratedLocation rnd lm t (fdiv rnd wSoFar (processedWeight t))
             in (ps @ [c], fadd rnd wSoFar (c_weight c),
                 fmul rnd (processedWeight t) (integratedQ rnd lm t (fadd rnd k1 1))))"

definition process :: "(real \<Rightarrow> real) \<Rightarrow> libm \<Rightarrow> TDigest \<Rightarrow> TDigest status" where
  "process rnd lm t =
     (let sorted = merge_centroids (sort_key c_mean (unprocessed t)) (processed t);
          t = t\<lparr>processedWeight := fadd rnd (processedWeight t) (unprocessedWeight t),
                unprocessedWeight := 0, processed := []\<rparr>
      in bindS (get_at sorted 0) (\<lambda>c0.
           let (ps, _, _) = fold (compress_step rnd lm t) (tl sorted)
                 ([c0], c_weight c0, fmul rnd (processedWeight t) (integratedQ rnd lm t 1))
           in Inr (updateCumulative rnd (t\<lparr>unprocessed := [], processed := ps,
                td_min := min (td_min t) (c_mean (hd ps)), td_max := max (td_max t) (c_mean (last ps))\<rparr>))))"

definition processIfNecessary :: "(real \<Rightarrow> real) \<Rightarrow> libm \<Rightarrow> TDigest \<Rightarrow> TDigest status" where
  "processIfNecessary rnd lm t = (if isDirty t then process rnd lm t else Inr t)"

text \<open>\<open>add\<close> of a sample: an integer converted to a double, with weight 1.\<close>

definition TDigest_add :: "(real \<Rightarrow> real) \<Rightarrow> libm \<Rightarrow> nat \<Rightarrow> TDigest \<Rightarrow> TDigest status" where
  "TDigest_add rnd lm x t =
     processIfNecessary rnd lm
       (t\<lparr>unprocessed := unprocessed t @ [\<lparr>c_mean = fof_nat rnd x, c_weight = 1\<rparr>],
          unprocessedWeight := fadd rnd (unprocessedWeight t) 1\<rparr>)"

section \<open>Quantiles\<close>

definition weightedAverageSorted :: "(real \<Rightarrow> real) \<Rightarrow> real \<Rightarrow> real \<Rightarrow> real \<Rightarrow> real \<Rightarrow> real" where
  "weightedAverageSorted rnd x1 w1 x2 w2 =
     (let x = fdiv rnd (fadd rnd (fmul rnd x1 w1) (fmul rnd x2 w2)) (fadd rnd w1 w2)
      in max x1 (min x x2))"

definition weightedAverage :: "(real \<Rightarrow> real) \<Rightarrow> real \<Rightarrow> real \<Rightarrow> real \<Rightarrow> real \<Rightarrow> real" where
  "weightedAverage rnd x1 w1 x2 w2 =
     (if x1 \<le> x2 then weightedAverageSorted rnd x1 w1 x2 w2 else weightedAverageSorted rnd x2 w2 x1 w1)"

text \<open>\<open>std::lower_bound\<close>: the first index whose value is not below the bound.\<close>

fun lower_bound :: "real list \<Rightarrow> real \<Rightarrow> nat" where
  "lower_bound [] x = 0"
| "lower_bound (y # ys) x = (if y < x then Suc (lower_bound ys x) else 0)"

definition quantileProcessed :: "(real \<Rightarrow> real) \<Rightarrow> TDigest \<Rightarrow> real \<Rightarrow> real option status" where
  "quantileProcessed rnd t q =
     (if q < 0 \<or> q > 1 then Inr None
      else if length (processed t) = 0 then Inr None
      else if length (processed t) = 1 then Inr (Some (c_mean (processed t ! 0)))
      else
        let n = length (processed t);
            mean = (\<lambda>i. c_mean (processed t ! i));
            weight = (\<lambda>i. c_weight (processed t ! i));
            index = fmul rnd q (processedWeight t)
        in if index \<le> fdiv rnd (weight 0) 2
           then Inr (Some (fadd rnd (td_min t)
                  (fmul rnd (fdiv rnd (fmul rnd 2 index) (weight 0)) (fsub rnd (mean 0) (td_min t)))))
           else
             let i = lower_bound (cumulative t) index
             in if i + 1 \<noteq> length (cumulative t)
                then bindS (get_at (cumulative t) i) (\<lambda>hi.
                       if i = 0 then Inl Out_of_range
                       else bindS (get_at (cumulative t) (i - 1)) (\<lambda>lo.
                         bindS (get_at (processed t) (i - 1)) (\<lambda>c1.
                           bindS (get_at (processed t) i) (\<lambda>c2.
                             Inr (Some (weightedAverage rnd (c_mean c1) (fsub rnd hi index)
                               (c_mean c2) (fsub rnd index lo)))))))
                else
                  let z1 = fsub rnd (fsub rnd index (processedWeight t)) (fdiv rnd (weight (n - 1)) 2);
                      z2 = fsub rnd (fdiv rnd (weight (n - 1)) 2) z1
                  in Inr (Some (weightedAverage rnd (mean (n - 1)) z1 (td_max t) z2)))"

definition quantile_double ::
  "(real \<Rightarrow> real) \<Rightarrow> libm \<Rightarrow> TDigest \<Rightarrow> real \<Rightarrow> (real option \<times> TDigest) status" where
  "quantile_double rnd lm t q =
     bindS (if haveUnprocessed t \<or> isDirty t then process rnd lm t else Inr t) (\<lambda>t'.
       bindS (quantileProcessed rnd t' q) (\<lambda>v. Inr (v, t')))"

text \<open>The conversion of a NaN to an integer is undefined; \<open>undef\<close> stands for what it gives.\<close>

definition TDigest_quantile ::
  "(real \<Rightarrow> real) \<Rightarrow> libm \<Rightarrow> nat \<Rightarrow> TDigest \<Rightarrow> real \<Rightarrow> (nat \<times> TDigest) status" where
  "TDigest_quantile rnd lm undef t q =
     bindS (quantile_double rnd lm t q) (\<lambda>(v, t').
       Inr (case v of None \<Rightarrow> undef | Some x \<Rightarrow> ftou64 x, t'))"

section \<open>Weights\<close>

text \<open>The weights of a list of centroids, as natural numbers.\<close>

definition weights_are :: "Centroid list \<Rightarrow> nat list \<Rightarrow> bool" where
  "weights_are cs ks \<longleftrightarrow> map c_weight cs = map real ks \<and> 0 \<notin> set ks"

lemma weights_are_simps [simp]:
  "weights_are [] ks \<longleftrightarrow> ks = []"
  "weights_are (c # cs) (k # ks) \<longleftrightarrow> c_weight c = real k \<and> 0 < k \<and> weights_are cs ks"
  "length cs = length ks \<Longrightarrow> weights_are (cs @ [c]) (ks @ [k]) \<longleftrightarrow> weights_are cs ks \<and> c_weight c = real k \<and> 0 < k"
  by (auto simp: weights_are_def)

lemma sum_list_real: "sum_list (map real ks) = real (sum_list ks)"
  by (induction ks) simp_all

lemma weights_are_length: "weights_are cs ks \<Longrightarrow> length cs = length ks"
  unfolding weights_are_def using map_eq_imp_length_eq by blast

lemma weights_are_mset:
  assumes "weights_are cs ks" "mset ds = mset cs"
  shows "\<exists>js. weights_are ds js \<and> sum_list js = sum_list ks"
proof -
  let ?js = "map (\<lambda>c. nat \<lfloor>c_weight c\<rfloor>) ds"
  have set: "set ds = set cs" using assms(2) mset_eq_setD by blast
  have w: "c_weight c \<in> set (map real ks)" if "c \<in> set cs" for c
    using assms(1) that by (metis weights_are_def image_eqI list.set_map)
  have "weights_are ds ?js"
    using w set assms(1) by (fastforce simp: weights_are_def)
  moreover have "ks = map (\<lambda>c. nat \<lfloor>c_weight c\<rfloor>) cs"
  proof -
    have "map (\<lambda>c. nat \<lfloor>c_weight c\<rfloor>) cs = map (\<lambda>w. nat \<lfloor>w\<rfloor>) (map c_weight cs)" by simp
    also have "\<dots> = map (\<lambda>w. nat \<lfloor>w\<rfloor>) (map real ks)" using assms(1) by (simp only: weights_are_def)
    finally show ?thesis by (simp add: o_def)
  qed
  moreover have "sum_list (map f ds) = sum_list (map f cs)" for f :: "Centroid \<Rightarrow> nat"
    using assms(2) by (metis mset_map sum_mset_sum_list)
  ultimately show ?thesis by metis
qed

lemma mset_merge_centroids: "mset (merge_centroids xs ys) = mset xs + mset ys"
  by (induction xs ys rule: merge_centroids.induct) simp_all

context fp_rounding
begin

lemma fadd_nat: "a + b \<le> 2 ^ 53 \<Longrightarrow> fadd rnd (real a) (real b) = real (a + b)"
  unfolding fadd_def of_nat_add [symmetric] by (rule rnd_nat)

lemma compress_step_weights:
  assumes "weights_are ps ks" "ps \<noteq> []" "c_weight c = real j" "0 < j" "sum_list ks + j \<le> 2 ^ 53"
  shows "\<exists>ps' ks' l. compress_step rnd lm t c (ps, real (sum_list ks), lmt) =
      (ps', real (sum_list ks'), l) \<and> weights_are ps' ks' \<and> ps' \<noteq> [] \<and> sum_list ks' = sum_list ks + j"
proof -
  have w: "fadd rnd (real (sum_list ks)) (c_weight c) = real (sum_list ks + j)"
    using assms(3,5) by (simp add: fadd_nat)
  obtain qs p where qs: "ps = qs @ [p]" using assms(2) by (metis rev_exhaust)
  obtain ls k where ks: "ks = ls @ [k]" using weights_are_length [OF assms(1)] assms(2)
    by (cases ks rule: rev_cases) auto
  have len: "length qs = length ls" using weights_are_length [OF assms(1)] qs ks by simp
  then have k: "weights_are qs ls" "c_weight p = real k" "0 < k" using assms(1) qs ks by simp_all
  show ?thesis
  proof (cases "real (sum_list ks + j) \<le> lmt")
    case True
    have "c_weight (Centroid_add rnd p c) = real (k + j)"
      using k(2,3) assms(3,5) ks by (simp add: Centroid_add_def Let_def fadd_nat)
    then have "weights_are (qs @ [Centroid_add rnd p c]) (ls @ [k + j])" using k len by simp
    then show ?thesis using True w qs ks by (force simp: compress_step_def Let_def)
  next
    case False
    have "weights_are (ps @ [c]) (ks @ [j])"
      using assms(1,3,4) weights_are_length [OF assms(1)] by simp
    then show ?thesis using False w by (force simp: compress_step_def Let_def)
  qed
qed

lemma compress_fold_weights:
  assumes "weights_are ps ks" "ps \<noteq> []" "weights_are cs js" "sum_list ks + sum_list js \<le> 2 ^ 53"
  shows "\<exists>ps' ks' l. fold (compress_step rnd lm t) cs (ps, real (sum_list ks), lmt) =
      (ps', real (sum_list ks'), l) \<and> weights_are ps' ks' \<and> ps' \<noteq> [] \<and>
      sum_list ks' = sum_list ks + sum_list js"
  using assms
proof (induction cs arbitrary: ps ks js lmt)
  case (Cons c cs)
  then obtain j js' where js: "js = j # js'" "c_weight c = real j" "0 < j" "weights_are cs js'"
    using weights_are_length by (cases js) fastforce+
  with Cons.prems obtain ps1 ks1 l where s: "compress_step rnd lm t c (ps, real (sum_list ks), lmt) =
      (ps1, real (sum_list ks1), l)" "weights_are ps1 ks1" "ps1 \<noteq> []" "sum_list ks1 = sum_list ks + j"
    using compress_step_weights [of ps ks c j lm t lmt] by auto
  from Cons.IH [OF s(2,3) js(4), of l] s(4) Cons.prems(4) js(1) show ?case
    using s(1) by (simp add: add.assoc)
qed auto

end

section \<open>Invariant\<close>

text \<open>A digest of \<open>n\<close> samples: the centroids carry exactly \<open>n\<close> units of weight.\<close>

definition td_inv :: "(real \<Rightarrow> real) \<Rightarrow> nat \<Rightarrow> TDigest \<Rightarrow> bool" where
  "td_inv rnd n t \<longleftrightarrow> (\<exists>ks js. weights_are (processed t) ks \<and> weights_are (unprocessed t) js \<and>
     processedWeight t = real (sum_list ks) \<and> unprocessedWeight t = real (sum_list js) \<and>
     sum_list ks + sum_list js = n) \<and>
     (processed t \<noteq> [] \<longrightarrow> cumulative t = cumulate rnd 0 (processed t))"

lemma td_inv_init: "td_inv rnd 0 TDigest_default"
  by (simp add: td_inv_def TDigest_default_def TDigest_new_def)

lemma weights_are_append:
  assumes "weights_are xs ks" "weights_are ys js" shows "weights_are (xs @ ys) (ks @ js)"
  using assms by (auto simp: weights_are_def)

context fp_rounding
begin

lemma process_inv:
  assumes "td_inv rnd n t" "n \<le> 2 ^ 53" "processed t \<noteq> [] \<or> unprocessed t \<noteq> []"
  shows "\<exists>t'. process rnd lm t = Inr t' \<and> td_inv rnd n t' \<and> unprocessed t' = [] \<and> processed t' \<noteq> []"
proof -
  from assms(1) obtain ks js where w: "weights_are (processed t) ks" "weights_are (unprocessed t) js"
    "processedWeight t = real (sum_list ks)" "unprocessedWeight t = real (sum_list js)"
    "sum_list ks + sum_list js = n" by (auto simp: td_inv_def)
  define sorted where "sorted = merge_centroids (sort_key c_mean (unprocessed t)) (processed t)"
  have m: "mset sorted = mset (processed t @ unprocessed t)" by (simp add: sorted_def mset_merge_centroids)
  then obtain is' where "weights_are sorted is'" "sum_list is' = n"
    using weights_are_mset [OF weights_are_append [OF w(1,2)]] w(5) by auto
  moreover have "sorted \<noteq> []" using m assms(3) by auto
  ultimately obtain c cs i hs where sc: "sorted = c # cs" "c_weight c = real i" "0 < i" "weights_are cs hs"
    "i + sum_list hs = n" using weights_are_length by (cases sorted; cases is') fastforce+
  define t1 where "t1 = t\<lparr>processedWeight := fadd rnd (processedWeight t) (unprocessedWeight t),
    unprocessedWeight := 0, processed := []\<rparr>"
  have pw: "fadd rnd (processedWeight t) (unprocessedWeight t) = real n"
    using w(3-5) assms(2) by (simp add: fadd_nat)
  obtain ps gs l where f: "fold (compress_step rnd lm t1) cs ([c], c_weight c,
      fmul rnd (processedWeight t1) (integratedQ rnd lm t1 1)) = (ps, real (sum_list gs), l)"
    "weights_are ps gs" "ps \<noteq> []" "sum_list gs = n"
    using compress_fold_weights [of "[c]" "[i]" cs hs lm t1 "fmul rnd (processedWeight t1) (integratedQ rnd lm t1 1)"]
      sc(2-5) assms(2) by auto
  show ?thesis
    using f sc(1) pw
    by (simp add: process_def sorted_def [symmetric] t1_def [symmetric] updateCumulative_def td_inv_def
        Let_def) (auto simp: t1_def)
qed

lemma add_inv:
  assumes "td_inv rnd n t" "n < 2 ^ 53"
  shows "\<exists>t'. TDigest_add rnd lm x t = Inr t' \<and> td_inv rnd (Suc n) t'"
proof -
  let ?t1 = "t\<lparr>unprocessed := unprocessed t @ [\<lparr>c_mean = fof_nat rnd x, c_weight = 1\<rparr>],
    unprocessedWeight := fadd rnd (unprocessedWeight t) 1\<rparr>"
  from assms(1) obtain ks js where w: "weights_are (processed t) ks" "weights_are (unprocessed t) js"
    "processedWeight t = real (sum_list ks)" "unprocessedWeight t = real (sum_list js)"
    "sum_list ks + sum_list js = n" by (auto simp: td_inv_def)
  have "fadd rnd (unprocessedWeight t) 1 = real (sum_list (js @ [1]))"
    using fadd_nat [of "sum_list js" 1] w(4,5) assms(2) by simp
  moreover have "weights_are (unprocessed ?t1) (js @ [1])"
    using w(2) weights_are_length [OF w(2)] by simp
  ultimately have inv: "td_inv rnd (Suc n) ?t1"
    using w(1,3,5) assms(1) unfolding td_inv_def
    by (intro conjI exI [of _ ks] exI [of _ "js @ [1]"]) (auto simp: td_inv_def)
  show ?thesis
  proof (cases "isDirty ?t1")
    case True
    then show ?thesis using process_inv [OF inv, of lm] assms(2)
      by (auto simp: TDigest_add_def processIfNecessary_def)
  next
    case False
    then show ?thesis using inv by (simp add: TDigest_add_def processIfNecessary_def)
  qed
qed

lemma add_all_inv:
  assumes "td_inv rnd n t" "n + length xs \<le> 2 ^ 53"
  shows "\<exists>t'. foldS (TDigest_add rnd lm) xs t = Inr t' \<and> td_inv rnd (n + length xs) t'"
  using assms
proof (induction xs arbitrary: n t)
  case (Cons x xs)
  then obtain t1 where "TDigest_add rnd lm x t = Inr t1" "td_inv rnd (Suc n) t1"
    using add_inv [of n t lm x] by auto
  then show ?case using Cons.IH [of "Suc n" t1] Cons.prems(2) by auto
qed simp

section \<open>Reading a quantile\<close>

lemma cumulate_props:
  assumes "weights_are cs ks" "p + sum_list ks \<le> 2 ^ 53"
  shows "length (cumulate rnd (real p) cs) = Suc (length cs)"
    "last (cumulate rnd (real p) cs) = real (p + sum_list ks)" "cumulate rnd (real p) cs \<noteq> []"
  using assms
proof (induction cs arbitrary: ks p)
  case (Cons c cs)
  {
    case 1
    then obtain k ks' where "ks = k # ks'" "weights_are cs ks'" "c_weight c = real k"
      using weights_are_length by (cases ks) fastforce+
    then show ?case using Cons.IH(1) [of ks' "p + k"] 1 by (simp add: Let_def fadd_nat)
  next
    case 2
    then obtain k ks' where "ks = k # ks'" "weights_are cs ks'" "c_weight c = real k"
      using weights_are_length by (cases ks) fastforce+
    then show ?case using Cons.IH(2,3) [of ks' "p + k"] 2 by (simp add: Let_def fadd_nat)
  next
    case 3
    then show ?case by (simp add: Let_def)
  }
qed simp_all

lemma lower_bound_less: "ys \<noteq> [] \<Longrightarrow> x \<le> last ys \<Longrightarrow> lower_bound ys x < length ys"
  by (induction ys) (auto split: if_splits)

lemma quantileProcessed_defined:
  assumes "td_inv rnd n t" "n \<le> 2 ^ 53" "processed t \<noteq> []" "unprocessed t = []" "0 \<le> q" "q \<le> 1"
  shows "\<exists>v. quantileProcessed rnd t q = Inr (Some v)"
proof -
  from assms(1,4) obtain ks where w: "weights_are (processed t) ks" "processedWeight t = real (sum_list ks)"
    "sum_list ks = n" by (auto simp: td_inv_def)
  have cum: "cumulative t = cumulate rnd (real 0) (processed t)" using assms(1,3) by (simp add: td_inv_def)
  have len: "length (cumulative t) = Suc (length (processed t))" "last (cumulative t) = real n"
    "cumulative t \<noteq> []"
    using cumulate_props [OF w(1), of 0] w(3) assms(2) unfolding cum by simp_all
  let ?index = "fmul rnd q (processedWeight t)" and ?i = "lower_bound (cumulative t) (fmul rnd q (processedWeight t))"
  have "q * real n \<le> 1 * real n" using assms(6) by (intro mult_right_mono) simp_all
  then have "?index \<le> rnd (real n)" unfolding fmul_def w(2,3) by (intro rnd_mono) simp
  then have il: "?i < length (cumulative t)"
    using lower_bound_less [OF len(3)] len(2) rnd_nat [OF assms(2)] by simp
  have i0: "0 < ?i" if "\<not> ?index \<le> fdiv rnd (c_weight (processed t ! 0)) 2"
  proof -
    obtain c cs where c: "processed t = c # cs" using assms(3) by (cases "processed t") auto
    have "fadd rnd 0 (fdiv rnd (c_weight c) 2) = fdiv rnd (c_weight c) 2"
      by (simp add: fadd_def fdiv_def rnd_idem)
    then show ?thesis using that unfolding cum c by (simp add: Let_def)
  qed
  show ?thesis
    using assms(3,5,6) il i0 len(1)
    by (auto simp: quantileProcessed_def Let_def)
qed

end

section \<open>Properties\<close>

text \<open>
  C25. A digest fed with any samples answers every quantile without reading outside its vectors:
  adding up to \<open>2 ^ 53\<close> samples succeeds, the merging neither loses nor invents a sample (the
  weight of the centroids is exactly the number of samples), and a quantile between 0 and 1 of a
  digest with at least one sample is a number, whatever the rounding and whatever values the sine
  and arc sine of the C library return.
\<close>

theorem digest_quantile_defined:
  assumes "fp_rounding rnd" "0 < length xs" "length xs \<le> 2 ^ 53" "0 \<le> q" "q \<le> 1"
  shows "\<exists>t v t'. foldS (TDigest_add rnd lm) xs TDigest_default = Inr t \<and>
    quantile_double rnd lm t q = Inr (Some v, t') \<and> processedWeight t' = real (length xs) \<and>
    sum_list (map c_weight (processed t')) = real (length xs) \<and> unprocessed t' = []"
proof -
  obtain t where t: "foldS (TDigest_add rnd lm) xs TDigest_default = Inr t" "td_inv rnd (length xs) t"
    using fp_rounding.add_all_inv [OF assms(1) td_inv_init, of xs lm] assms(3) by auto
  have ne: "processed t \<noteq> [] \<or> unprocessed t \<noteq> []"
    using t(2) assms(2) by (auto simp: td_inv_def)
  obtain t' where t': "(if haveUnprocessed t \<or> isDirty t then process rnd lm t else Inr t) = Inr t'"
    "td_inv rnd (length xs) t'" "unprocessed t' = []" "processed t' \<noteq> []"
    using fp_rounding.process_inv [OF assms(1) t(2) assms(3) ne, of lm] t(2) ne
    by (cases "haveUnprocessed t \<or> isDirty t") (auto simp: haveUnprocessed_def)
  obtain v where "quantileProcessed rnd t' q = Inr (Some v)"
    using fp_rounding.quantileProcessed_defined [OF assms(1) t'(2) assms(3) t'(4,3) assms(4,5)] by blast
  then have "quantile_double rnd lm t q = Inr (Some v, t')" using t'(1) by (simp add: quantile_double_def)
  moreover obtain ks where "weights_are (processed t') ks" "sum_list ks = length xs"
    "processedWeight t' = real (sum_list ks)" using t'(2,3) by (auto simp: td_inv_def)
  moreover from this have "sum_list (map c_weight (processed t')) = real (length xs)"
    by (metis weights_are_def sum_list_real)
  ultimately show ?thesis using t(1) t'(3) by auto
qed

theorem digest_quantile_defined_witness:
  "\<exists>t v t'. foldS (TDigest_add rnd64 (sin, arcsin)) [120, 80, 95] TDigest_default = Inr t \<and>
    quantile_double rnd64 (sin, arcsin) t (1 / 2) = Inr (Some v, t') \<and> processedWeight t' = 3"
  using digest_quantile_defined [OF r64.fp_rounding_axioms, of "[120, 80, 95]" "1 / 2" "(sin, arcsin)"]
  by auto

text \<open>
  A digest without samples has no quantile: the result is NaN, and \<open>quantile\<close> converts it to an
  integer, which is undefined.
\<close>

theorem empty_digest_quantile_undefined:
  "TDigest_quantile rnd lm undef TDigest_default q = Inr (undef, TDigest_default)"
  by (simp add: TDigest_quantile_def quantile_double_def quantileProcessed_def haveUnprocessed_def isDirty_def
      TDigest_default_def TDigest_new_def processedSize_def unprocessedSize_def)

text \<open>
  Above the middle of the last centroid the interpolation towards the maximum never happens: the
  weight \<open>z1\<close> has the wrong sign, and already with exact arithmetic the result is the maximum.
\<close>

theorem right_tail_returns_max:
  assumes "0 \<le> q" "q \<le> 1" "2 \<le> length (processed t)" "0 \<le> processedWeight t"
    and "c_weight (processed t ! 0) / 2 < q * processedWeight t"
    and "lower_bound (cumulative t) (q * processedWeight t) + 1 = length (cumulative t)"
    and "0 < c_weight (last (processed t))" "c_mean (last (processed t)) \<le> td_max t"
  shows "quantileProcessed (\<lambda>x. x) t q = Inr (Some (td_max t))"
proof -
  let ?W = "processedWeight t" and ?w = "c_weight (last (processed t))" and ?m = "c_mean (last (processed t))"
  define z1 where "z1 = q * ?W - ?W - ?w / 2"
  define z2 where "z2 = ?w / 2 - z1"
  have "q * ?W \<le> 1 * ?W" using assms(2,4) by (intro mult_right_mono) simp_all
  then have z: "z1 < 0" "z1 + z2 = ?w / 2" using assms(7) by (simp_all add: z1_def z2_def)
  have "0 \<le> z1 * (?m - td_max t)" using z(1) assms(8) by (intro mult_nonpos_nonpos) simp_all
  then have le: "td_max t * (z1 + z2) \<le> ?m * z1 + td_max t * z2" by (simp add: algebra_simps)
  have "0 < z1 + z2" using z(2) assms(7) by simp
  with le have "td_max t \<le> (?m * z1 + td_max t * z2) / (z1 + z2)"
    by (simp only: pos_le_divide_eq)
  then have "weightedAverage (\<lambda>x. x) ?m z1 (td_max t) z2 = td_max t"
    using assms(8) by (simp add: weightedAverage_def weightedAverageSorted_def fadd_def fmul_def fdiv_def)
  moreover have "processed t ! (length (processed t) - 1) = last (processed t)"
    using assms(3) last_conv_nth [of "processed t"] by fastforce
  ultimately show ?thesis using assms(1-3,5,6)
    by (auto simp: quantileProcessed_def Let_def fmul_def fdiv_def fsub_def z1_def z2_def)
qed

end
