(* ===== verification/Disk_Monitor.thy ===== *)
theory Disk_Monitor
  imports Disk_Model Counter T_Digest
begin

text \<open>
  The monitor of a disk server (\<open>sandook/disk_server/disk_monitor.h\<close>): counts of the operations,
  double-buffered latency samples that a flusher turns into percentiles, the offered load, and the
  congestion state machine that compares the observed tail latencies with the disk model.

  A method is atomic, the background threads (\<open>Flusher\<close>, \<open>LoadCalculator\<close>) are the events
  \<open>FlushAndUpdate\<close> and \<open>Monitor_CalculateLoad\<close>, and logging is left out. The cores, the values of \<open>MicroTime\<close>
  and what the undefined conversion of a NaN gives (\<open>undef\<close>) are arguments. The counters and
  percentiles of reads and of writes have the same fields, so they share a record type.
\<close>

section \<open>State\<close>

definition kMaxBufferEntries :: nat where "kMaxBufferEntries = 2 ^ 22"
definition kCongestionLatencyThresholdUs :: nat where "kCongestionLatencyThresholdUs = 2500"
definition kCongestionSignalRatioThreshold :: "(real \<Rightarrow> real) \<Rightarrow> real" where
  "kCongestionSignalRatioThreshold rnd = rnd 2.5"
definition kMinExpectedLatencyUs :: nat where "kMinExpectedLatencyUs = 1"
definition kCongestedUnstableFactor :: "(real \<Rightarrow> real) \<Rightarrow> real" where
  "kCongestedUnstableFactor rnd = rnd 0.7"
definition kCongestedStableFactor :: "(real \<Rightarrow> real) \<Rightarrow> real" where
  "kCongestedStableFactor rnd = rnd 0.9"
definition kMonitorLoadIntervalUs :: nat where "kMonitorLoadIntervalUs = 5 * kOneMilliSecond"
definition kMonitorLoadScaleFactor :: "(real \<Rightarrow> real) \<Rightarrow> real" where
  "kMonitorLoadScaleFactor rnd = fdiv rnd (fof_nat rnd kOneSecond) (fof_nat rnd kMonitorLoadIntervalUs)"

text \<open>The buffers have \<open>kMaxBufferEntries\<close> entries, zero at first; a buffer is a function of the index.\<close>

record LatencyBuffer =
  buf_idx :: nat
  buf_active :: "nat \<Rightarrow> nat"
  buf_inactive :: "nat \<Rightarrow> nat"

record OpCounters =
  pure_ops :: ThreadSafeCounter
  impure_ops :: ThreadSafeCounter
  mixed_ops :: ThreadSafeCounter
  total_failed :: ThreadSafeCounter
  inflight :: ThreadSafeCounter
  completed :: ThreadSafeCounter
  rejected :: ThreadSafeCounter
  failed :: ThreadSafeCounter
  disk_ops :: ThreadSafeCounter

record OpLatency =
  median_latency :: nat
  p90_latency :: nat
  p99_latency :: nat
  signal_latency :: nat
  op_digest :: TDigest

record DiskMonitor =
  m_server_id :: ServerID
  m_name :: string
  is_rejections_enabled :: bool
  m_model :: DiskModel
  r_buf :: LatencyBuffer
  w_buf :: LatencyBuffer
  peak_iops :: "nat \<times> nat \<times> nat"
  reads :: OpCounters
  writes :: OpCounters
  tot_pure_reads :: ThreadSafeCounter
  tot_impure_reads :: ThreadSafeCounter
  m_mode :: ServerMode
  mode_switch_time_us :: nat
  m_read_weight :: real
  m_write_weight :: real
  reported :: ServerStats
  read_load_ops :: nat
  write_load_ops :: nat
  total_load_ops :: nat
  load_write_ratio :: real
  m_congestion_state :: ServerCongestionState
  r_lat :: OpLatency
  w_lat :: OpLatency
  signal_ratio :: real
  state_transition_ratio :: real
  last_stats_us :: nat

definition LatencyBuffer_init :: LatencyBuffer where
  "LatencyBuffer_init = \<lparr>buf_idx = 0, buf_active = (\<lambda>_. 0), buf_inactive = (\<lambda>_. 0)\<rparr>"

definition OpCounters_init :: "nat \<Rightarrow> OpCounters" where
  "OpCounters_init ncores = (let z = ThreadSafeCounter_init ncores in
     \<lparr>pure_ops = z, impure_ops = z, mixed_ops = z, total_failed = z, inflight = z, completed = z,
      rejected = z, failed = z, disk_ops = z\<rparr>)"

definition OpLatency_init :: OpLatency where
  "OpLatency_init = \<lparr>median_latency = 0, p90_latency = 0, p99_latency = 0, signal_latency = 0,
     op_digest = TDigest_default\<rparr>"

definition DiskMonitor_init :: "nat \<Rightarrow> DiskMonitor" where
  "DiskMonitor_init ncores = \<lparr>m_server_id = kInvalidServerID, m_name = [],
     is_rejections_enabled = False, m_model = DiskModel_default,
     r_buf = LatencyBuffer_init, w_buf = LatencyBuffer_init,
     peak_iops = (2 ^ 64 - 1, 2 ^ 64 - 1, 2 ^ 64 - 1),
     reads = OpCounters_init ncores, writes = OpCounters_init ncores,
     tot_pure_reads = ThreadSafeCounter_init ncores, tot_impure_reads = ThreadSafeCounter_init ncores,
     m_mode = Mode_kMix, mode_switch_time_us = 0, m_read_weight = 0, m_write_weight = 0,
     reported = zero_stats, read_load_ops = 0, write_load_ops = 0, total_load_ops = 0,
     load_write_ratio = 0, m_congestion_state = State_kUnCongested,
     r_lat = OpLatency_init, w_lat = OpLatency_init, signal_ratio = 0, state_transition_ratio = 0,
     last_stats_us = 0\<rparr>"

section \<open>Setters\<close>

definition SetServerID :: "DiskMonitor \<Rightarrow> ServerID \<Rightarrow> DiskMonitor" where
  "SetServerID m sid = m\<lparr>m_server_id := sid\<rparr>"

definition SetServerName :: "DiskMonitor \<Rightarrow> string \<Rightarrow> DiskMonitor" where
  "SetServerName m name = m\<lparr>m_name := name\<rparr>"

definition SetIsRejectionsEnabled ::
  "(real \<Rightarrow> real) \<Rightarrow> (string \<Rightarrow> LoadLatency option) \<Rightarrow> DiskMonitor \<Rightarrow> bool \<Rightarrow> DiskMonitor status" where
  "SetIsRejectionsEnabled rnd LoadModel m enabled =
     assertS (m_name m \<noteq> [])
       (bindS (DiskModel_new rnd LoadModel (m_name m)) (\<lambda>dm.
          Inr (m\<lparr>is_rejections_enabled := enabled, m_model := dm\<rparr>)))"

definition SetDiskPeakIOPS :: "DiskMonitor \<Rightarrow> nat \<Rightarrow> nat \<Rightarrow> nat \<Rightarrow> DiskMonitor" where
  "SetDiskPeakIOPS m read_iops write_iops mix_iops = m\<lparr>peak_iops := (read_iops, write_iops, mix_iops)\<rparr>"

definition SetModeAndWeights ::
  "DiskMonitor \<Rightarrow> ServerMode \<Rightarrow> real \<Rightarrow> real \<Rightarrow> nat \<Rightarrow> DiskMonitor" where
  "SetModeAndWeights m md rw ww now =
     (let m1 = if md \<noteq> m_mode m then m\<lparr>mode_switch_time_us := now\<rparr> else m
      in m1\<lparr>m_mode := md, m_read_weight := rw, m_write_weight := ww\<rparr>)"

definition IsModeSwitchGracePeriod :: "DiskMonitor \<Rightarrow> nat \<Rightarrow> bool" where
  "IsModeSwitchGracePeriod m now \<longleftrightarrow>
     usub64 now (mode_switch_time_us m) \<le> kDiskServerModeSwitchGracePeriodUs"

definition IsCongested :: "DiskMonitor \<Rightarrow> bool" where
  "IsCongested m \<longleftrightarrow> m_congestion_state m = State_kCongested"

definition IsAllowingWrites :: "DiskMonitor \<Rightarrow> nat \<Rightarrow> bool" where
  "IsAllowingWrites m now \<longleftrightarrow> m_mode m \<noteq> Mode_kRead \<or> IsModeSwitchGracePeriod m now"

section \<open>Counting operations\<close>

definition ReadStarted :: "nat \<Rightarrow> DiskMonitor \<Rightarrow> nat \<Rightarrow> nat \<times> DiskMonitor" where
  "ReadStarted cpu m now = (now, m\<lparr>reads := (reads m)\<lparr>inflight := inc_local cpu 1 (inflight (reads m))\<rparr>\<rparr>)"

definition WriteStarted :: "nat \<Rightarrow> DiskMonitor \<Rightarrow> nat \<Rightarrow> nat \<times> DiskMonitor" where
  "WriteStarted cpu m now = (now, m\<lparr>writes := (writes m)\<lparr>inflight := inc_local cpu 1 (inflight (writes m))\<rparr>\<rparr>)"

text \<open>The counters at a completion; \<open>own\<close> is the mode in which the operation is pure and \<open>other\<close>
  the one in which it is impure.\<close>

definition count_completion ::
  "nat \<Rightarrow> ServerMode \<Rightarrow> ServerMode \<Rightarrow> ServerMode \<Rightarrow> bool \<Rightarrow> OpCounters \<Rightarrow> OpCounters" where
  "count_completion cpu md own other success c =
     (let c = c\<lparr>inflight := dec_local cpu 1 (inflight c), disk_ops := inc_local cpu 1 (disk_ops c)\<rparr>
      in if success
         then let c = c\<lparr>completed := inc_local cpu 1 (completed c)\<rparr>
              in if md = own then c\<lparr>pure_ops := inc_local cpu 1 (pure_ops c)\<rparr>
                 else if md = other then c\<lparr>impure_ops := inc_local cpu 1 (impure_ops c)\<rparr>
                 else c\<lparr>mixed_ops := inc_local cpu 1 (mixed_ops c)\<rparr>
         else c\<lparr>total_failed := inc_local cpu 1 (total_failed c), failed := inc_local cpu 1 (failed c)\<rparr>)"

definition buffer_latency :: "nat \<Rightarrow> LatencyBuffer \<Rightarrow> LatencyBuffer" where
  "buffer_latency duration_us b =
     (let idx = buf_idx b; b = b\<lparr>buf_idx := to_u64 (idx + 1)\<rparr>
      in if idx \<ge> kMaxBufferEntries then b else b\<lparr>buf_active := (buf_active b)(idx := duration_us)\<rparr>)"

definition ReadCompleted :: "nat \<Rightarrow> DiskMonitor \<Rightarrow> nat \<Rightarrow> nat \<Rightarrow> bool \<Rightarrow> DiskMonitor" where
  "ReadCompleted cpu m now start_time success =
     m\<lparr>reads := count_completion cpu (m_mode m) Mode_kRead Mode_kWrite success (reads m),
       r_buf := buffer_latency (usub64 now start_time) (r_buf m)\<rparr>"

definition WriteCompleted :: "nat \<Rightarrow> DiskMonitor \<Rightarrow> nat \<Rightarrow> nat \<Rightarrow> bool \<Rightarrow> DiskMonitor" where
  "WriteCompleted cpu m now start_time success =
     m\<lparr>writes := count_completion cpu (m_mode m) Mode_kWrite Mode_kRead success (writes m),
       w_buf := buffer_latency (usub64 now start_time) (w_buf m)\<rparr>"

definition ReadRejected :: "nat \<Rightarrow> DiskMonitor \<Rightarrow> DiskMonitor" where
  "ReadRejected cpu m = m\<lparr>reads := (reads m)\<lparr>rejected := inc_local cpu 1 (rejected (reads m))\<rparr>\<rparr>"

definition WriteRejected :: "nat \<Rightarrow> DiskMonitor \<Rightarrow> DiskMonitor" where
  "WriteRejected cpu m = m\<lparr>writes := (writes m)\<lparr>rejected := inc_local cpu 1 (rejected (writes m))\<rparr>\<rparr>"

section \<open>Reports\<close>

text \<open>Conversion of an \<open>int64_t\<close> sum to \<open>uint32_t\<close> and to \<open>uint64_t\<close>.\<close>

definition int_u32 :: "int \<Rightarrow> nat" where "int_u32 x = nat (x mod 2 ^ 32)"
definition int_u64 :: "int \<Rightarrow> nat" where "int_u64 x = nat (x mod 2 ^ 64)"

text \<open>\<open>now\<close> and \<open>now'\<close> are the two readings of the clock. A report in the same microsecond as the last one
  divides by zero, which is an infinite rate in the code and 0 here.\<close>

definition UpdateStats :: "(real \<Rightarrow> real) \<Rightarrow> nat \<Rightarrow> DiskMonitor \<Rightarrow> nat \<Rightarrow> nat \<Rightarrow> DiskMonitor" where
  "UpdateStats rnd cpu m now now' =
     (let elapsed_us = usub64 now (last_stats_us m);
          r = reads m; w = writes m;
          (cr, r_completed) = get_sum_and_reset (completed r);
          (cw, w_completed) = get_sum_and_reset (completed w);
          (pr, r_pure) = get_sum_and_reset (pure_ops r);
          (ir, r_impure) = get_sum_and_reset (impure_ops r);
          (rr, r_rejected) = get_sum_and_reset (rejected r);
          (rw, w_rejected) = get_sum_and_reset (rejected w)
      in m\<lparr>reads := r\<lparr>completed := r_completed, pure_ops := r_pure, impure_ops := r_impure,
              rejected := r_rejected\<rparr>,
           writes := w\<lparr>completed := w_completed, rejected := w_rejected\<rparr>,
           tot_pure_reads := inc_local cpu (int (int_u32 pr)) (tot_pure_reads m),
           tot_impure_reads := inc_local cpu (int (int_u32 ir)) (tot_impure_reads m),
           reported := (reported m)\<lparr>
             completed_reads := int_u32 cr, completed_writes := int_u32 cw,
             pure_reads := int_u32 pr, impure_reads := int_u32 ir,
             inflight_reads := int_u32 (get_sum (inflight r)),
             inflight_writes := int_u32 (get_sum (inflight w)),
             rejected_reads := int_u32 rr, rejected_writes := int_u32 rw,
             read_mops := fdiv rnd (fof_nat rnd (int_u32 cr)) (fof_nat rnd elapsed_us),
             write_mops := fdiv rnd (fof_nat rnd (int_u32 cw)) (fof_nat rnd elapsed_us)\<rparr>,
           last_stats_us := now'\<rparr>)"

text \<open>The initialiser does not name \<open>committed_mode\<close>, so it is zero.\<close>

definition GetServerStats :: "DiskMonitor \<Rightarrow> ServerStats" where
  "GetServerStats m = (reported m)\<lparr>server_id := m_server_id m, mode := m_mode m,
     committed_mode := Mode_kMix, read_weight := m_read_weight m, write_weight := m_write_weight m,
     median_read_latency := median_latency (r_lat m), median_write_latency := median_latency (w_lat m),
     signal_read_latency := signal_latency (r_lat m), signal_write_latency := signal_latency (w_lat m),
     is_rejecting_requests := False, congestion_state := m_congestion_state m\<rparr>"

definition UpdateAndGetServerStats ::
  "(real \<Rightarrow> real) \<Rightarrow> nat \<Rightarrow> DiskMonitor \<Rightarrow> nat \<Rightarrow> nat \<Rightarrow> ServerStats \<times> DiskMonitor" where
  "UpdateAndGetServerStats rnd cpu m now now' =
     (let m1 = UpdateStats rnd cpu m now now' in (GetServerStats m1, m1))"

section \<open>Background work\<close>

text \<open>The percentiles of the latencies taken out of a buffer.\<close>

definition digest_latencies ::
  "(real \<Rightarrow> real) \<Rightarrow> libm \<Rightarrow> nat \<Rightarrow> nat list \<Rightarrow> OpLatency status" where
  "digest_latencies rnd lm undef lats =
     bindS (foldS (TDigest_add rnd lm) lats TDigest_default) (\<lambda>td.
       bindS (TDigest_quantile rnd lm undef td (rnd 0.50)) (\<lambda>(p50, td).
         bindS (TDigest_quantile rnd lm undef td (rnd 0.90)) (\<lambda>(p90, td).
           bindS (TDigest_quantile rnd lm undef td (rnd 0.99)) (\<lambda>(p99, td).
             Inr \<lparr>median_latency = p50, p90_latency = p90, p99_latency = p99, signal_latency = p99,
                  op_digest = td\<rparr>))))"

text \<open>The number of entries to flush, and the buffer after the exchange and the swap.\<close>

definition swap_buffers :: "LatencyBuffer \<Rightarrow> nat \<times> LatencyBuffer" where
  "swap_buffers b =
     (min (buf_idx b) kMaxBufferEntries,
      b\<lparr>buf_idx := 0, buf_active := buf_inactive b, buf_inactive := buf_active b\<rparr>)"

definition FlushReads :: "(real \<Rightarrow> real) \<Rightarrow> libm \<Rightarrow> nat \<Rightarrow> DiskMonitor \<Rightarrow> DiskMonitor status" where
  "FlushReads rnd lm undef m =
     (let (n, b) = swap_buffers (r_buf m)
      in bindS (digest_latencies rnd lm undef (map (buf_inactive b) [0..<n])) (\<lambda>l.
           Inr (m\<lparr>r_buf := b, r_lat := l\<rparr>)))"

definition FlushWrites :: "(real \<Rightarrow> real) \<Rightarrow> libm \<Rightarrow> nat \<Rightarrow> DiskMonitor \<Rightarrow> DiskMonitor status" where
  "FlushWrites rnd lm undef m =
     (let (n, b) = swap_buffers (w_buf m)
      in bindS (digest_latencies rnd lm undef (map (buf_inactive b) [0..<n])) (\<lambda>l.
           Inr (m\<lparr>w_buf := b, w_lat := l\<rparr>)))"

definition Flush :: "(real \<Rightarrow> real) \<Rightarrow> libm \<Rightarrow> nat \<Rightarrow> DiskMonitor \<Rightarrow> DiskMonitor status" where
  "Flush rnd lm undef m = bindS (FlushReads rnd lm undef m) (FlushWrites rnd lm undef)"

definition Monitor_CalculateLoad :: "(real \<Rightarrow> real) \<Rightarrow> DiskMonitor \<Rightarrow> DiskMonitor" where
  "Monitor_CalculateLoad rnd m =
     (let (dr, r_disk) = get_sum_and_reset (disk_ops (reads m));
          (dw, w_disk) = get_sum_and_reset (disk_ops (writes m));
          rl = ftou64 (fmul rnd (fof_nat rnd (int_u64 dr)) (kMonitorLoadScaleFactor rnd));
          wl = ftou64 (fmul rnd (fof_nat rnd (int_u64 dw)) (kMonitorLoadScaleFactor rnd));
          total = to_u64 (rl + wl)
      in m\<lparr>reads := (reads m)\<lparr>disk_ops := r_disk\<rparr>, writes := (writes m)\<lparr>disk_ops := w_disk\<rparr>,
           read_load_ops := rl, write_load_ops := wl, total_load_ops := total,
           load_write_ratio := (if total > 0 then fdiv rnd (fof_nat rnd wl) (fof_nat rnd total) else 0)\<rparr>)"

section \<open>The congestion state machine\<close>

definition is_congested_abs :: "DiskMonitor \<Rightarrow> bool" where
  "is_congested_abs m \<longleftrightarrow> signal_latency (r_lat m) > kCongestionLatencyThresholdUs \<or>
     signal_latency (w_lat m) > kCongestionLatencyThresholdUs"

text \<open>The larger ratio of observed to expected tail latency.\<close>

definition congestion_signal :: "(real \<Rightarrow> real) \<Rightarrow> DiskMonitor \<Rightarrow> real status" where
  "congestion_signal rnd m =
     bindS (DiskModel_GetLatency rnd (m_model m) (total_load_ops m) Op_kRead (m_mode m) (load_write_ratio m)) (\<lambda>er.
       bindS (DiskModel_GetLatency rnd (m_model m) (total_load_ops m) Op_kWrite (m_mode m) (load_write_ratio m)) (\<lambda>ew.
         let exp_read_lat = fof_nat rnd (max er kMinExpectedLatencyUs);
             exp_write_lat = fof_nat rnd (max ew kMinExpectedLatencyUs);
             obs_read_sig = fof_nat rnd (if m_mode m = Mode_kRead then p99_latency (r_lat m) else p90_latency (r_lat m));
             obs_write_sig = fof_nat rnd (if m_mode m = Mode_kWrite then p99_latency (w_lat m) else p90_latency (w_lat m))
         in Inr (max (fdiv rnd obs_read_sig exp_read_lat) (fdiv rnd obs_write_sig exp_write_lat))))"

text \<open>The transition once neither threshold is exceeded.\<close>

definition settle :: "(real \<Rightarrow> real) \<Rightarrow> DiskMonitor \<Rightarrow> DiskMonitor" where
  "settle rnd m =
     (if m_congestion_state m = State_kCongested
      then m\<lparr>m_congestion_state := State_kCongestedUnstable,
             state_transition_ratio := kCongestedUnstableFactor rnd\<rparr>
      else if m_congestion_state m = State_kCongestedUnstable
      then if signal_ratio m > state_transition_ratio m
           then m\<lparr>m_congestion_state := State_kCongestedStable,
                  state_transition_ratio := kCongestedStableFactor rnd\<rparr>
           else m
      else if m_congestion_state m = State_kCongestedStable
      then if signal_ratio m < state_transition_ratio m
           then m\<lparr>m_congestion_state := State_kUnCongested\<rparr> else m
      else m)"

definition UpdateCongestionState :: "(real \<Rightarrow> real) \<Rightarrow> DiskMonitor \<Rightarrow> nat \<Rightarrow> DiskMonitor status" where
  "UpdateCongestionState rnd m now =
     (if \<not> is_rejections_enabled m then Inr m
      else if IsModeSwitchGracePeriod m now then Inr (m\<lparr>m_congestion_state := State_kUnCongested\<rparr>)
      else bindS (congestion_signal rnd m) (\<lambda>ratio.
        let m = m\<lparr>signal_ratio := ratio\<rparr>
        in if is_congested_abs m \<or> ratio > kCongestionSignalRatioThreshold rnd
           then Inr (m\<lparr>m_congestion_state := State_kCongested\<rparr>)
           else Inr (settle rnd m)))"

text \<open>One round of the flusher thread.\<close>

definition FlushAndUpdate ::
  "(real \<Rightarrow> real) \<Rightarrow> libm \<Rightarrow> nat \<Rightarrow> DiskMonitor \<Rightarrow> nat \<Rightarrow> DiskMonitor status" where
  "FlushAndUpdate rnd lm undef m now =
     bindS (Flush rnd lm undef m) (\<lambda>m1. UpdateCongestionState rnd m1 now)"

section \<open>Runs\<close>

text \<open>The calls a disk server and the background threads make, with core and clock values.\<close>

datatype monitor_event =
  Ev_ReadStarted nat nat
| Ev_ReadCompleted nat nat nat bool
| Ev_WriteStarted nat nat
| Ev_WriteCompleted nat nat nat bool
| Ev_ReadRejected nat
| Ev_WriteRejected nat
| Ev_SetMode ServerMode real real nat
| Ev_Flush nat
| Ev_Load
| Ev_Stats nat nat nat

fun monitor_step ::
  "(real \<Rightarrow> real) \<Rightarrow> libm \<Rightarrow> nat \<Rightarrow> monitor_event \<Rightarrow> DiskMonitor \<Rightarrow> (ServerStats option \<times> DiskMonitor) status" where
  "monitor_step rnd lm undef (Ev_ReadStarted cpu now) m = Inr (None, snd (ReadStarted cpu m now))"
| "monitor_step rnd lm undef (Ev_ReadCompleted cpu now st ok) m = Inr (None, ReadCompleted cpu m now st ok)"
| "monitor_step rnd lm undef (Ev_WriteStarted cpu now) m = Inr (None, snd (WriteStarted cpu m now))"
| "monitor_step rnd lm undef (Ev_WriteCompleted cpu now st ok) m = Inr (None, WriteCompleted cpu m now st ok)"
| "monitor_step rnd lm undef (Ev_ReadRejected cpu) m = Inr (None, ReadRejected cpu m)"
| "monitor_step rnd lm undef (Ev_WriteRejected cpu) m = Inr (None, WriteRejected cpu m)"
| "monitor_step rnd lm undef (Ev_SetMode md rw ww now) m = Inr (None, SetModeAndWeights m md rw ww now)"
| "monitor_step rnd lm undef (Ev_Flush now) m = bindS (FlushAndUpdate rnd lm undef m now) (\<lambda>m'. Inr (None, m'))"
| "monitor_step rnd lm undef Ev_Load m = Inr (None, Monitor_CalculateLoad rnd m)"
| "monitor_step rnd lm undef (Ev_Stats cpu now now') m =
     (let (st, m') = UpdateAndGetServerStats rnd cpu m now now' in Inr (Some st, m'))"

fun monitor_run ::
  "(real \<Rightarrow> real) \<Rightarrow> libm \<Rightarrow> nat \<Rightarrow> monitor_event list \<Rightarrow> DiskMonitor \<Rightarrow> (ServerStats list \<times> DiskMonitor) status" where
  "monitor_run rnd lm undef [] m = Inr ([], m)"
| "monitor_run rnd lm undef (e # es) m =
     bindS (monitor_step rnd lm undef e m) (\<lambda>(r, m1).
       bindS (monitor_run rnd lm undef es m1) (\<lambda>(rs, m2). Inr (case r of None \<Rightarrow> rs | Some st \<Rightarrow> st # rs, m2)))"

fun event_cpu :: "monitor_event \<Rightarrow> nat option" where
  "event_cpu (Ev_ReadStarted cpu _) = Some cpu"
| "event_cpu (Ev_ReadCompleted cpu _ _ _) = Some cpu"
| "event_cpu (Ev_WriteStarted cpu _) = Some cpu"
| "event_cpu (Ev_WriteCompleted cpu _ _ _) = Some cpu"
| "event_cpu (Ev_ReadRejected cpu) = Some cpu"
| "event_cpu (Ev_WriteRejected cpu) = Some cpu"
| "event_cpu (Ev_Stats cpu _ _) = Some cpu"
| "event_cpu _ = None"

fun reads_done :: "monitor_event \<Rightarrow> int" where
  "reads_done (Ev_ReadCompleted _ _ _ True) = 1" | "reads_done _ = 0"

fun reads_begun :: "monitor_event \<Rightarrow> int" where
  "reads_begun (Ev_ReadStarted _ _) = 1" | "reads_begun (Ev_ReadCompleted _ _ _ _) = - 1" | "reads_begun _ = 0"

fun writes_done :: "monitor_event \<Rightarrow> int" where
  "writes_done (Ev_WriteCompleted _ _ _ True) = 1" | "writes_done _ = 0"

fun writes_begun :: "monitor_event \<Rightarrow> int" where
  "writes_begun (Ev_WriteStarted _ _) = 1" | "writes_begun (Ev_WriteCompleted _ _ _ _) = - 1" | "writes_begun _ = 0"

text \<open>The counters have a slot for each core.\<close>

definition ops_ok :: "nat \<Rightarrow> OpCounters \<Rightarrow> bool" where
  "ops_ok n c \<longleftrightarrow> (\<forall>cpu < n. on_core cpu (inflight c) \<and> on_core cpu (completed c))"

lemma int_u32_id: "0 \<le> x \<Longrightarrow> x < 2 ^ 32 \<Longrightarrow> int (int_u32 x) = x"
  by (simp add: int_u32_def)

lemma count_completion_sums:
  assumes "ops_ok n c" "cpu < n"
  shows "get_sum (inflight (count_completion cpu md own other ok c)) = get_sum (inflight c) - 1"
    "get_sum (completed (count_completion cpu md own other ok c)) = get_sum (completed c) + (if ok then 1 else 0)"
    "ops_ok n (count_completion cpu md own other ok c)"
  using assms by (auto simp: count_completion_def ops_ok_def Let_def)

lemma FlushReads_eq:
  assumes "FlushReads rnd lm undef m = Inr m'"
  obtains l where "m' = m\<lparr>r_buf := snd (swap_buffers (r_buf m)), r_lat := l\<rparr>"
    "digest_latencies rnd lm undef (map (buf_active (r_buf m)) [0..<min (buf_idx (r_buf m)) kMaxBufferEntries]) = Inr l"
  using assms by (auto simp: FlushReads_def swap_buffers_def status_simps)

lemma FlushWrites_eq:
  assumes "FlushWrites rnd lm undef m = Inr m'"
  obtains l where "m' = m\<lparr>w_buf := snd (swap_buffers (w_buf m)), w_lat := l\<rparr>"
    "digest_latencies rnd lm undef (map (buf_active (w_buf m)) [0..<min (buf_idx (w_buf m)) kMaxBufferEntries]) = Inr l"
  using assms by (auto simp: FlushWrites_def swap_buffers_def status_simps)

lemma settle_counts [simp]: "reads (settle rnd m) = reads m" "writes (settle rnd m) = writes m"
  by (simp_all add: settle_def)

lemma UpdateCongestionState_counts:
  assumes "UpdateCongestionState rnd m now = Inr m'"
  shows "reads m' = reads m" "writes m' = writes m"
  using assms by (auto simp: UpdateCongestionState_def bindS_eq_Inr Let_def split: if_splits)

lemma FlushAndUpdate_counts:
  assumes "FlushAndUpdate rnd lm undef m now = Inr m'"
  shows "reads m' = reads m" "writes m' = writes m"
proof -
  from assms obtain m1 m2 where m: "FlushReads rnd lm undef m = Inr m1" "FlushWrites rnd lm undef m1 = Inr m2"
    "UpdateCongestionState rnd m2 now = Inr m'" by (auto simp: FlushAndUpdate_def Flush_def bindS_eq_Inr)
  from m(1) obtain l1 where "m1 = m\<lparr>r_buf := snd (swap_buffers (r_buf m)), r_lat := l1\<rparr>" by (rule FlushReads_eq)
  moreover from m(2) obtain l2 where "m2 = m1\<lparr>w_buf := snd (swap_buffers (w_buf m1)), w_lat := l2\<rparr>" by (rule FlushWrites_eq)
  ultimately show "reads m' = reads m" "writes m' = writes m"
    using UpdateCongestionState_counts [OF m(3)] by simp_all
qed

text \<open>One step of the accounting, for reads and for writes.\<close>

definition report_of :: "(ServerStats \<Rightarrow> nat) \<Rightarrow> ServerStats option \<Rightarrow> int" where
  "report_of f r = (case r of None \<Rightarrow> 0 | Some st \<Rightarrow> int (f st))"

definition small_counts :: "DiskMonitor \<Rightarrow> bool" where
  "small_counts m \<longleftrightarrow> 0 \<le> get_sum (completed (reads m)) \<and> get_sum (completed (reads m)) < 2 ^ 32 \<and>
     0 \<le> get_sum (completed (writes m)) \<and> get_sum (completed (writes m)) < 2 ^ 32"

lemma UpdateStats_counts:
  "get_sum (completed (reads (UpdateStats rnd cpu m now now'))) = 0"
  "get_sum (completed (writes (UpdateStats rnd cpu m now now'))) = 0"
  "inflight (reads (UpdateStats rnd cpu m now now')) = inflight (reads m)"
  "inflight (writes (UpdateStats rnd cpu m now now')) = inflight (writes m)"
  "ops_ok n (reads (UpdateStats rnd cpu m now now')) = ops_ok n (reads m)"
  "ops_ok n (writes (UpdateStats rnd cpu m now now')) = ops_ok n (writes m)"
  "completed_reads (GetServerStats (UpdateStats rnd cpu m now now')) = int_u32 (get_sum (completed (reads m)))"
  "completed_writes (GetServerStats (UpdateStats rnd cpu m now now')) = int_u32 (get_sum (completed (writes m)))"
  by (simp_all add: UpdateStats_def GetServerStats_def get_sum_and_reset_def Let_def ops_ok_def on_core_def get_sum_def)

lemma SetModeAndWeights_counts [simp]:
  "reads (SetModeAndWeights m md rw ww now) = reads m" "writes (SetModeAndWeights m md rw ww now) = writes m"
  by (simp_all add: SetModeAndWeights_def Let_def)

lemma CalculateLoad_counts [simp]:
  "completed (reads (Monitor_CalculateLoad rnd m)) = completed (reads m)"
  "completed (writes (Monitor_CalculateLoad rnd m)) = completed (writes m)"
  "inflight (reads (Monitor_CalculateLoad rnd m)) = inflight (reads m)"
  "inflight (writes (Monitor_CalculateLoad rnd m)) = inflight (writes m)"
  by (simp_all add: Monitor_CalculateLoad_def Let_def split: prod.split)

lemma monitor_step_counts:
  assumes "monitor_step rnd lm undef e m = Inr (r, m')" "ops_ok n (reads m)" "ops_ok n (writes m)"
    "\<forall>cpu. event_cpu e = Some cpu \<longrightarrow> cpu < n" "small_counts m"
  shows "report_of completed_reads r + get_sum (completed (reads m')) = get_sum (completed (reads m)) + reads_done e \<and>
    report_of completed_writes r + get_sum (completed (writes m')) = get_sum (completed (writes m)) + writes_done e \<and>
    get_sum (inflight (reads m')) = get_sum (inflight (reads m)) + reads_begun e \<and>
    get_sum (inflight (writes m')) = get_sum (inflight (writes m)) + writes_begun e \<and>
    ops_ok n (reads m') \<and> ops_ok n (writes m') \<and>
    0 \<le> get_sum (completed (reads m')) \<and> 0 \<le> get_sum (completed (writes m'))"
proof (cases e)
  case (Ev_ReadStarted cpu now)
  then show ?thesis using assms by (auto simp: ReadStarted_def report_of_def ops_ok_def small_counts_def)
next
  case (Ev_ReadCompleted cpu now st ok)
  then show ?thesis using assms count_completion_sums [OF assms(2)]
    by (cases ok) (auto simp: ReadCompleted_def report_of_def small_counts_def)
next
  case (Ev_WriteStarted cpu now)
  then show ?thesis using assms by (auto simp: WriteStarted_def report_of_def ops_ok_def small_counts_def)
next
  case (Ev_WriteCompleted cpu now st ok)
  then show ?thesis using assms count_completion_sums [OF assms(3)]
    by (cases ok) (auto simp: WriteCompleted_def report_of_def small_counts_def)
next
  case (Ev_Flush now)
  then obtain m1 where "FlushAndUpdate rnd lm undef m now = Inr m1" "r = None" "m' = m1"
    using assms(1) by (auto simp: bindS_eq_Inr)
  then show ?thesis using FlushAndUpdate_counts assms(2,3,5) Ev_Flush by (simp add: report_of_def small_counts_def)
next
  case (Ev_Stats cpu now now')
  then have "r = Some (GetServerStats (UpdateStats rnd cpu m now now'))" "m' = UpdateStats rnd cpu m now now'"
    using assms(1) by (auto simp: UpdateAndGetServerStats_def Let_def)
  then show ?thesis using assms(2,3,5) Ev_Stats
    by (simp add: report_of_def UpdateStats_counts small_counts_def int_u32_id)
qed (use assms in \<open>auto simp: ReadRejected_def WriteRejected_def report_of_def ops_ok_def small_counts_def\<close>)

lemma reads_done_bounds: "0 \<le> reads_done e \<and> reads_done e \<le> 1"
  by (induction e rule: reads_done.induct) simp_all

lemma writes_done_bounds: "0 \<le> writes_done e \<and> writes_done e \<le> 1"
  by (induction e rule: writes_done.induct) simp_all

lemma monitor_run_counts:
  assumes "monitor_run rnd lm undef es m = Inr (rs, m')" "ops_ok n (reads m)" "ops_ok n (writes m)"
    "\<forall>e \<in> set es. \<forall>cpu. event_cpu e = Some cpu \<longrightarrow> cpu < n"
    "0 \<le> get_sum (completed (reads m))" "get_sum (completed (reads m)) + int (length es) < 2 ^ 32"
    "0 \<le> get_sum (completed (writes m))" "get_sum (completed (writes m)) + int (length es) < 2 ^ 32"
  shows "sum_list (map (\<lambda>st. int (completed_reads st)) rs) + get_sum (completed (reads m')) =
      get_sum (completed (reads m)) + sum_list (map reads_done es) \<and>
    sum_list (map (\<lambda>st. int (completed_writes st)) rs) + get_sum (completed (writes m')) =
      get_sum (completed (writes m)) + sum_list (map writes_done es) \<and>
    get_sum (inflight (reads m')) = get_sum (inflight (reads m)) + sum_list (map reads_begun es) \<and>
    get_sum (inflight (writes m')) = get_sum (inflight (writes m)) + sum_list (map writes_begun es)"
  using assms
proof (induction es arbitrary: m rs)
  case (Cons e es)
  from Cons.prems(1) obtain r m1 rs1 where s: "monitor_step rnd lm undef e m = Inr (r, m1)"
    "monitor_run rnd lm undef es m1 = Inr (rs1, m')" "rs = (case r of None \<Rightarrow> rs1 | Some st \<Rightarrow> st # rs1)"
    by (auto simp: bindS_eq_Inr)
  have "small_counts m" using Cons.prems(5-8) by (simp add: small_counts_def)
  note step = monitor_step_counts [OF s(1) Cons.prems(2,3) _ this]
  have c: "report_of completed_reads r + get_sum (completed (reads m1)) = get_sum (completed (reads m)) + reads_done e"
    "report_of completed_writes r + get_sum (completed (writes m1)) = get_sum (completed (writes m)) + writes_done e"
    "get_sum (inflight (reads m1)) = get_sum (inflight (reads m)) + reads_begun e"
    "get_sum (inflight (writes m1)) = get_sum (inflight (writes m)) + writes_begun e"
    "ops_ok n (reads m1)" "ops_ok n (writes m1)"
    "0 \<le> get_sum (completed (reads m1))" "0 \<le> get_sum (completed (writes m1))"
    using step Cons.prems(4) by auto
  have pos: "0 \<le> get_sum (completed (reads m1)) \<and> get_sum (completed (reads m1)) \<le> get_sum (completed (reads m)) + 1"
    "0 \<le> get_sum (completed (writes m1)) \<and> get_sum (completed (writes m1)) \<le> get_sum (completed (writes m)) + 1"
    using c(1,2,7,8) reads_done_bounds [of e] writes_done_bounds [of e]
    by (auto simp: report_of_def split: option.splits)
  from Cons.IH [OF s(2) c(5,6)] Cons.prems(4-8) pos have "sum_list (map (\<lambda>st. int (completed_reads st)) rs1) + get_sum (completed (reads m')) =
      get_sum (completed (reads m1)) + sum_list (map reads_done es) \<and>
    sum_list (map (\<lambda>st. int (completed_writes st)) rs1) + get_sum (completed (writes m')) =
      get_sum (completed (writes m1)) + sum_list (map writes_done es) \<and>
    get_sum (inflight (reads m')) = get_sum (inflight (reads m1)) + sum_list (map reads_begun es) \<and>
    get_sum (inflight (writes m')) = get_sum (inflight (writes m1)) + sum_list (map writes_begun es)" by simp
  then show ?case using c(1-4) s(3) by (cases r) (simp_all add: report_of_def)
qed simp

section \<open>Flushing\<close>

context fp_rounding
begin

lemma td_inv_0:
  assumes "td_inv rnd 0 t" shows "processed t = []" "unprocessed t = []"
proof -
  from assms obtain ks js where w: "weights_are (processed t) ks" "weights_are (unprocessed t) js"
    "sum_list ks + sum_list js = 0" by (auto simp: td_inv_def)
  have "ks = []" using w by (cases ks) (auto simp: weights_are_def)
  moreover have "js = []" using w by (cases js) (auto simp: weights_are_def)
  ultimately show "processed t = []" "unprocessed t = []" using w(1,2) by (auto simp: weights_are_def)
qed

lemma TDigest_quantile_total:
  assumes "td_inv rnd n t" "n \<le> 2 ^ 53" "0 \<le> q" "q \<le> 1"
  shows "\<exists>v t'. TDigest_quantile rnd lm undef t q = Inr (v, t') \<and> td_inv rnd n t'"
proof (cases "n = 0")
  case True
  then show ?thesis using assms td_inv_0 [of t]
    by (auto simp: TDigest_quantile_def quantile_double_def haveUnprocessed_def isDirty_def quantileProcessed_def)
next
  case False
  then have ne: "processed t \<noteq> [] \<or> unprocessed t \<noteq> []" using assms(1) by (auto simp: td_inv_def)
  obtain t' where t': "(if haveUnprocessed t \<or> isDirty t then process rnd lm t else Inr t) = Inr t'"
    "td_inv rnd n t'" "unprocessed t' = []" "processed t' \<noteq> []"
    using process_inv [OF assms(1,2) ne, of lm] assms(1) ne
    by (cases "haveUnprocessed t \<or> isDirty t") (auto simp: haveUnprocessed_def)
  obtain v where "quantileProcessed rnd t' q = Inr (Some v)"
    using quantileProcessed_defined [OF t'(2) assms(2) t'(4,3) assms(3,4)] by blast
  then show ?thesis using t'(1,2) by (simp add: TDigest_quantile_def quantile_double_def)
qed

lemma digest_latencies_total:
  assumes "length ls \<le> 2 ^ 53"
  shows "\<exists>l. digest_latencies rnd lm undef ls = Inr l"
proof -
  obtain t where t: "foldS (TDigest_add rnd lm) ls TDigest_default = Inr t" "td_inv rnd (length ls) t"
    using add_all_inv [OF td_inv_init, of ls lm] assms by auto
  have q: "0 \<le> rnd 0.5" "rnd 0.5 \<le> 1" "0 \<le> rnd 0.9" "rnd 0.9 \<le> 1" "0 \<le> rnd 0.99" "rnd 0.99 \<le> 1"
    by (auto intro: rnd_nonneg rnd_le_1)
  obtain v1 t1 where t1: "TDigest_quantile rnd lm undef t (rnd 0.5) = Inr (v1, t1)" "td_inv rnd (length ls) t1"
    using TDigest_quantile_total [OF t(2) assms q(1,2)] by blast
  obtain v2 t2 where t2: "TDigest_quantile rnd lm undef t1 (rnd 0.9) = Inr (v2, t2)" "td_inv rnd (length ls) t2"
    using TDigest_quantile_total [OF t1(2) assms q(3,4)] by blast
  obtain v3 t3 where t3: "TDigest_quantile rnd lm undef t2 (rnd 0.99) = Inr (v3, t3)"
    using TDigest_quantile_total [OF t2(2) assms q(5,6)] by blast
  show ?thesis using t(1) t1(1) t2(1) t3 unfolding digest_latencies_def by simp
qed

end

text \<open>A batch of completions and what it leaves in the buffer.\<close>

definition complete_reads :: "(nat \<times> nat \<times> nat \<times> bool) list \<Rightarrow> DiskMonitor \<Rightarrow> DiskMonitor" where
  "complete_reads cs m = fold (\<lambda>(cpu, now, st, ok) m. ReadCompleted cpu m now st ok) cs m"

lemma kMaxBufferEntries_u64: "kMaxBufferEntries < 2 ^ 64" "kMaxBufferEntries \<le> 2 ^ 53"
  by (simp_all add: kMaxBufferEntries_def)

lemma complete_reads_buffer:
  assumes "buf_idx (r_buf m) + length cs \<le> kMaxBufferEntries"
  shows "buf_idx (r_buf (complete_reads cs m)) = buf_idx (r_buf m) + length cs \<and>
    map (buf_active (r_buf (complete_reads cs m))) [0..<buf_idx (r_buf m) + length cs] =
      map (buf_active (r_buf m)) [0..<buf_idx (r_buf m)] @ map (\<lambda>(_, now, st, _). usub64 now st) cs"
  using assms
proof (induction cs arbitrary: m)
  case (Cons c cs)
  obtain cpu now st ok where c: "c = (cpu, now, st, ok)" by (cases c)
  let ?m1 = "ReadCompleted cpu m now st ok"
  have lt: "buf_idx (r_buf m) < kMaxBufferEntries" using Cons.prems by simp
  then have "to_u64 (Suc (buf_idx (r_buf m))) = Suc (buf_idx (r_buf m))"
    using kMaxBufferEntries_u64(1) by (simp add: to_u64_id)
  then have m1: "r_buf ?m1 = (r_buf m)\<lparr>buf_idx := Suc (buf_idx (r_buf m)),
      buf_active := (buf_active (r_buf m))(buf_idx (r_buf m) := usub64 now st)\<rparr>"
    using lt by (simp add: ReadCompleted_def buffer_latency_def Let_def)
  have "complete_reads (c # cs) m = complete_reads cs ?m1" by (simp add: complete_reads_def c)
  moreover have "buf_idx (r_buf ?m1) + length cs \<le> kMaxBufferEntries" using Cons.prems m1 by simp
  note Cons.IH [OF this]
  ultimately show ?case using m1 c by simp
qed (simp add: complete_reads_def)

section \<open>Reachable states of the congestion machine\<close>

inductive monitor_reachable ::
  "(real \<Rightarrow> real) \<Rightarrow> libm \<Rightarrow> nat \<Rightarrow> (string \<Rightarrow> LoadLatency option) \<Rightarrow> nat \<Rightarrow> DiskMonitor \<Rightarrow> bool"
  for rnd lm undef LoadModel ncores where
  start: "monitor_reachable rnd lm undef LoadModel ncores (DiskMonitor_init ncores)"
| name: "monitor_reachable rnd lm undef LoadModel ncores m \<Longrightarrow>
    monitor_reachable rnd lm undef LoadModel ncores (SetServerName m nm)"
| enable: "monitor_reachable rnd lm undef LoadModel ncores m \<Longrightarrow>
    SetIsRejectionsEnabled rnd LoadModel m en = Inr m' \<Longrightarrow>
    monitor_reachable rnd lm undef LoadModel ncores m'"
| step: "monitor_reachable rnd lm undef LoadModel ncores m \<Longrightarrow> monitor_step rnd lm undef e m = Inr (r, m') \<Longrightarrow>
    monitor_reachable rnd lm undef LoadModel ncores m'"

text \<open>The stored ratio is the one that belongs to the state.\<close>

definition thresholds_ok :: "(real \<Rightarrow> real) \<Rightarrow> DiskMonitor \<Rightarrow> bool" where
  "thresholds_ok rnd m \<longleftrightarrow> m_congestion_state m \<noteq> State_kInvalid \<and>
     (m_congestion_state m = State_kCongestedUnstable \<longrightarrow> state_transition_ratio m = kCongestedUnstableFactor rnd) \<and>
     (m_congestion_state m = State_kCongestedStable \<longrightarrow> state_transition_ratio m = kCongestedStableFactor rnd)"

lemma settle_thresholds: "thresholds_ok rnd m \<Longrightarrow> thresholds_ok rnd (settle rnd m)"
  by (cases "m_congestion_state m") (simp_all add: thresholds_ok_def settle_def)

lemma thresholds_reset:
  "st \<in> {State_kUnCongested, State_kCongested} \<Longrightarrow> thresholds_ok rnd (m\<lparr>m_congestion_state := st\<rparr>)"
  by (auto simp: thresholds_ok_def)

lemma UpdateCongestionState_cases:
  assumes "UpdateCongestionState rnd m now = Inr m'"
  obtains (off) "\<not> is_rejections_enabled m" "m' = m"
  | (grace) "is_rejections_enabled m" "IsModeSwitchGracePeriod m now" "m' = m\<lparr>m_congestion_state := State_kUnCongested\<rparr>"
  | (over) x where "is_rejections_enabled m" "\<not> IsModeSwitchGracePeriod m now" "congestion_signal rnd m = Inr x"
      "is_congested_abs m \<or> x > kCongestionSignalRatioThreshold rnd"
      "m' = m\<lparr>signal_ratio := x, m_congestion_state := State_kCongested\<rparr>"
  | (settled) x where "is_rejections_enabled m" "\<not> IsModeSwitchGracePeriod m now" "congestion_signal rnd m = Inr x"
      "\<not> (is_congested_abs m \<or> x > kCongestionSignalRatioThreshold rnd)"
      "m' = settle rnd (m\<lparr>signal_ratio := x\<rparr>)"
proof -
  have abs: "is_congested_abs (m\<lparr>signal_ratio := x\<rparr>) = is_congested_abs m" for x by (simp add: is_congested_abs_def)
  consider "\<not> is_rejections_enabled m" | "is_rejections_enabled m" "IsModeSwitchGracePeriod m now"
    | "is_rejections_enabled m" "\<not> IsModeSwitchGracePeriod m now" by blast
  then show thesis
  proof cases
    case 1
    show ?thesis by (rule off [OF 1]) (use assms 1 in \<open>simp add: UpdateCongestionState_def\<close>)
  next
    case 2
    show ?thesis by (rule grace [OF 2]) (use assms 2 in \<open>simp add: UpdateCongestionState_def\<close>)
  next
    case 3
    then obtain x where x: "congestion_signal rnd m = Inr x"
      using assms by (cases "congestion_signal rnd m") (simp_all add: UpdateCongestionState_def)
    show ?thesis
    proof (cases "is_congested_abs m \<or> x > kCongestionSignalRatioThreshold rnd")
      case True
      show ?thesis by (rule over [OF 3 x True]) (use assms 3 x True in \<open>simp add: UpdateCongestionState_def Let_def abs\<close>)
    next
      case False
      show ?thesis by (rule settled [OF 3 x False])
          (use assms 3 x False in \<open>simp add: UpdateCongestionState_def Let_def abs\<close>)
    qed
  qed
qed

lemma UpdateCongestionState_thresholds:
  assumes "UpdateCongestionState rnd m now = Inr m'" "thresholds_ok rnd m" shows "thresholds_ok rnd m'"
  using assms(1)
proof (cases rule: UpdateCongestionState_cases)
  case (settled x)
  have "thresholds_ok rnd (m\<lparr>signal_ratio := x\<rparr>)" using assms(2) by (simp add: thresholds_ok_def)
  then show ?thesis using settle_thresholds settled(5) by simp
qed (use assms(2) thresholds_reset in auto)

lemma thresholds_ok_cong:
  "m_congestion_state m' = m_congestion_state m \<Longrightarrow> state_transition_ratio m' = state_transition_ratio m \<Longrightarrow>
    thresholds_ok rnd m' = thresholds_ok rnd m"
  by (simp add: thresholds_ok_def)

lemma monitor_step_thresholds:
  assumes "monitor_step rnd lm undef e m = Inr (r, m')" "thresholds_ok rnd m" shows "thresholds_ok rnd m'"
proof (cases e)
  case (Ev_Flush now)
  then have "FlushAndUpdate rnd lm undef m now = Inr m'" using assms(1) by (auto simp: bindS_eq_Inr)
  then obtain m1 m2 where m: "FlushReads rnd lm undef m = Inr m1" "FlushWrites rnd lm undef m1 = Inr m2"
    "UpdateCongestionState rnd m2 now = Inr m'" by (auto simp: FlushAndUpdate_def Flush_def bindS_eq_Inr)
  from m(1) obtain l1 where m1: "m1 = m\<lparr>r_buf := snd (swap_buffers (r_buf m)), r_lat := l1\<rparr>" by (rule FlushReads_eq)
  from m(2) obtain l2 where m2: "m2 = m1\<lparr>w_buf := snd (swap_buffers (w_buf m1)), w_lat := l2\<rparr>" by (rule FlushWrites_eq)
  have "thresholds_ok rnd m2 = thresholds_ok rnd m" by (rule thresholds_ok_cong) (simp_all add: m1 m2)
  then show ?thesis using UpdateCongestionState_thresholds [OF m(3)] assms(2) by simp
qed (use assms in \<open>auto simp: ReadStarted_def WriteStarted_def ReadCompleted_def WriteCompleted_def ReadRejected_def
      WriteRejected_def SetModeAndWeights_def Monitor_CalculateLoad_def UpdateAndGetServerStats_def UpdateStats_def
      thresholds_ok_def Let_def split: prod.splits if_splits\<close>)

lemma monitor_reachable_thresholds:
  "monitor_reachable rnd lm undef LoadModel ncores m \<Longrightarrow> thresholds_ok rnd m"
proof (induction rule: monitor_reachable.induct)
  case start
  then show ?case by (simp add: thresholds_ok_def DiskMonitor_init_def)
next
  case (enable m en m')
  then show ?case by (auto simp: SetIsRejectionsEnabled_def status_simps thresholds_ok_def)
next
  case (step m e r m')
  then show ?case using monitor_step_thresholds by blast
qed (simp add: thresholds_ok_def SetServerName_def)

text \<open>The machine the code is meant to be: it has no stored ratio, only the signal it sees.\<close>

datatype congestion_input = Grace | Overload | Ratio real

inductive congestion_next ::
  "(real \<Rightarrow> real) \<Rightarrow> congestion_input \<Rightarrow> ServerCongestionState \<Rightarrow> ServerCongestionState \<Rightarrow> bool" for rnd where
  grace: "congestion_next rnd Grace s State_kUnCongested"
| overload: "congestion_next rnd Overload s State_kCongested"
| relax: "congestion_next rnd (Ratio x) State_kCongested State_kCongestedUnstable"
| probe: "x \<le> rnd 0.7 \<Longrightarrow> congestion_next rnd (Ratio x) State_kCongestedUnstable State_kCongestedUnstable"
| stable: "x > rnd 0.7 \<Longrightarrow> congestion_next rnd (Ratio x) State_kCongestedUnstable State_kCongestedStable"
| hold: "x \<ge> rnd 0.9 \<Longrightarrow> congestion_next rnd (Ratio x) State_kCongestedStable State_kCongestedStable"
| recover: "x < rnd 0.9 \<Longrightarrow> congestion_next rnd (Ratio x) State_kCongestedStable State_kUnCongested"
| calm: "congestion_next rnd (Ratio x) State_kUnCongested State_kUnCongested"

inductive_simps congestion_next_simps [simp]:
  "congestion_next rnd Grace s s'" "congestion_next rnd Overload s s'"
  "congestion_next rnd (Ratio x) State_kCongested s'" "congestion_next rnd (Ratio x) State_kCongestedUnstable s'"
  "congestion_next rnd (Ratio x) State_kCongestedStable s'" "congestion_next rnd (Ratio x) State_kUnCongested s'"

definition congestion_input_of :: "(real \<Rightarrow> real) \<Rightarrow> DiskMonitor \<Rightarrow> nat \<Rightarrow> congestion_input status" where
  "congestion_input_of rnd m now =
     (if IsModeSwitchGracePeriod m now then Inr Grace
      else bindS (congestion_signal rnd m) (\<lambda>x.
        Inr (if is_congested_abs m \<or> x > rnd 2.5 then Overload else Ratio x)))"

section \<open>Properties\<close>





text \<open>
  C23. The congestion state follows the machine it is meant to follow: in every reachable state of an
  enabled monitor, an update moves the state by exactly the transition that the observed
  signal calls for (mode-switch grace, a latency or ratio over its threshold, or the ratio against
  0.7 in the unstable and 0.9 in the stable congested state); in particular the stored
  threshold is always the one of the current state, and \<open>kCongestedStable\<close> is only left to
  \<open>kCongested\<close> or \<open>kUnCongested\<close>.
\<close>

theorem congestion_state_refines:
  assumes "monitor_reachable rnd lm undef LoadModel ncores m" "is_rejections_enabled m"
    and "UpdateCongestionState rnd m now = Inr m'"
  shows "\<exists>inp. congestion_input_of rnd m now = Inr inp \<and>
    congestion_next rnd inp (m_congestion_state m) (m_congestion_state m')"
  using assms(3)
proof (cases rule: UpdateCongestionState_cases)
  case off
  then show ?thesis using assms(2) by simp
next
  case grace
  then show ?thesis by (simp add: congestion_input_of_def)
next
  case (over x)
  then show ?thesis by (simp add: congestion_input_of_def kCongestionSignalRatioThreshold_def)
next
  case (settled x)
  have "thresholds_ok rnd m" by (rule monitor_reachable_thresholds [OF assms(1)])
  then have "congestion_next rnd (Ratio x) (m_congestion_state m) (m_congestion_state m')"
    unfolding settled(5)
    by (cases "m_congestion_state m") (auto simp: settle_def thresholds_ok_def
        kCongestedUnstableFactor_def kCongestedStableFactor_def)
  then show ?thesis using settled by (simp add: congestion_input_of_def kCongestionSignalRatioThreshold_def)
qed

theorem congestion_state_refines_witness:
  "\<exists>m m' inp. SetIsRejectionsEnabled (\<lambda>x. x) (\<lambda>_. Some ([100], [50])) (SetServerName (DiskMonitor_init 2) ''d'') True = Inr m \<and>
    UpdateCongestionState (\<lambda>x. x) m 1000000 = Inr m' \<and> congestion_input_of (\<lambda>x. x) m 1000000 = Inr inp \<and>
    congestion_next (\<lambda>x. x) inp (m_congestion_state m) (m_congestion_state m')"
proof -
  obtain m where m: "SetIsRejectionsEnabled (\<lambda>x. x) (\<lambda>_. Some ([100], [50])) (SetServerName (DiskMonitor_init 2) ''d'') True = Inr m"
    "is_rejections_enabled m" "m_mode m = Mode_kMix" "mode_switch_time_us m = 0" "total_load_ops m = 0"
    "load_write_ratio m = 0" "mix_models (m_model m) = load_mix_models (\<lambda>_. Some ([100], [50])) ''d'' (kMixCandidates (\<lambda>x. x))"
    by (simp add: SetIsRejectionsEnabled_def SetServerName_def DiskMonitor_init_def DiskModel_new_def LoadModels_def
        kMixCandidates_def)
  have r: "monitor_reachable (\<lambda>x. x) (sin, arcsin) 0 (\<lambda>_. Some ([100], [50])) 2 m"
    by (rule monitor_reachable.enable [OF monitor_reachable.name [OF monitor_reachable.start] m(1)])
  have "SelectMixModel (mix_models (m_model m)) 0 =
      Inr \<lparr>write_ratio_bucket = 1 / 10, mm_load = [100], mm_latency = [50]\<rparr>"
    unfolding m(7) by (simp add: kMixCandidates_def SelectMixModel_def clamp_ratio_def)
  then have lat: "DiskModel_GetLatency (\<lambda>x. x) (m_model m) 0 op Mode_kMix 0 = Inr 50" for op
    by (simp add: DiskModel_GetLatency_def curve_latency_def curve_ok_def unclamped_latency_def load_index_def
        kSaturationLatencyPenaltyUs_def kSaturationLatencyUs_def fmul_def ftou64_def to_u64_def)
  have "\<exists>x. congestion_signal (\<lambda>x. x) m = Inr x" using m(3,5,6) lat by (simp add: congestion_signal_def Let_def)
  then obtain m' where "UpdateCongestionState (\<lambda>x. x) m 1000000 = Inr m'"
    using m(2) unfolding UpdateCongestionState_def Let_def
    by (cases "IsModeSwitchGracePeriod m 1000000") (auto simp: if_distrib [symmetric])
  with congestion_state_refines [OF r m(2) this] m(1) show ?thesis by blast
qed

text \<open>
  An interval without reads has no read latency: the percentile is a converted NaN. If the
  conversion gives a large number, as the hardware instruction does, the idle interval makes
  the disk congested.
\<close>

theorem idle_interval_congests:
  assumes "buf_idx (r_buf m) = 0" "undef > kCongestionLatencyThresholdUs" "Flush rnd lm undef m = Inr m1"
    and "is_rejections_enabled m1" "\<not> IsModeSwitchGracePeriod m1 now" "congestion_signal rnd m1 = Inr x"
  shows "\<exists>m2. UpdateCongestionState rnd m1 now = Inr m2 \<and> IsCongested m2"
proof -
  obtain m0 where m0: "FlushReads rnd lm undef m = Inr m0" "FlushWrites rnd lm undef m0 = Inr m1"
    using assms(3) by (auto simp: Flush_def bindS_eq_Inr)
  from m0(1) obtain l where l: "m0 = m\<lparr>r_buf := snd (swap_buffers (r_buf m)), r_lat := l\<rparr>"
    "digest_latencies rnd lm undef [] = Inr l"
    by (rule FlushReads_eq) (use assms(1) in simp)
  have "signal_latency l = undef"
    using l(2) empty_digest_quantile_undefined by (auto simp: digest_latencies_def)
  moreover have "r_lat m1 = l" using m0(2) by (rule FlushWrites_eq) (simp add: l(1))
  ultimately have "is_congested_abs m1" using assms(2) by (simp add: is_congested_abs_def)
  moreover have "is_congested_abs (m1\<lparr>signal_ratio := x\<rparr>) = is_congested_abs m1" by (simp add: is_congested_abs_def)
  ultimately show ?thesis using assms(4-6) by (simp add: UpdateCongestionState_def Let_def IsCongested_def)
qed

end
