(* ===== verification/Msg.thy ===== *)
theory Msg
  imports Sandook_Types
begin

text \<open>
  The messages of \<open>sandook/base/msg.h\<close> as the bytes that go over a connection. A message is a
  header, a C++ struct in its memory layout (little endian, with the padding of the x86-64 ABI) and
  an optional payload. \<open>put_X\<close> writes a struct, \<open>take_X\<close> reads it and returns the bytes behind it;
  reading past the end of the bytes is the failure \<open>Out_of_range\<close>. The buffers are allocated without
  initialisation, so every byte no field covers is a byte of an arbitrary memory \<open>junk\<close>, indexed
  by its offset in the buffer. A \<open>double\<close> is written by its bit pattern, given by a
  pair of functions \<open>dc\<close>.

  The locale \<open>wire_struct\<close> is the contract of such a pair of operations: a fixed size, and reading
  back what was written. It is interpreted for every struct, and gives the round trip of arrays and
  of whole messages.
\<close>

section \<open>Memory images of scalars\<close>

type_synonym byte = "8 word"
type_synonym memory = "nat \<Rightarrow> byte"
type_synonym dbl_codec = "(real \<Rightarrow> nat) \<times> (nat \<Rightarrow> real)"

primrec put_le :: "nat \<Rightarrow> nat \<Rightarrow> byte list" where
  "put_le 0 n = []"
| "put_le (Suc k) n = of_nat n # put_le k (n div 256)"

primrec take_le :: "nat \<Rightarrow> byte list \<Rightarrow> (nat \<times> byte list) status" where
  "take_le 0 bs = Inr (0, bs)"
| "take_le (Suc k) bs = (case bs of [] \<Rightarrow> Inl Out_of_range
     | b # bs' \<Rightarrow> bindS (take_le k bs') (\<lambda>(n, r). Inr (unat b + 256 * n, r)))"

lemma length_put_le [simp]: "length (put_le k n) = k"
  by (induction k arbitrary: n) simp_all

lemma take_put_le [simp]: "n < 256 ^ k \<Longrightarrow> take_le k (put_le k n @ bs) = Inr (n, bs)"
proof (induction k arbitrary: n)
  case 0
  then show ?case by simp
next
  case (Suc k)
  have "n div 256 < 256 ^ k" using Suc.prems by (simp add: less_mult_imp_div_less mult.commute)
  moreover have "unat (of_nat n :: byte) = n mod 256" by (simp add: unat_of_nat)
  ultimately show ?case using Suc.IH by simp
qed

definition put_u32 :: "nat \<Rightarrow> byte list" where "put_u32 n = put_le 4 n"
definition put_u64 :: "nat \<Rightarrow> byte list" where "put_u64 n = put_le 8 n"
definition put_i32 :: "int \<Rightarrow> byte list" where "put_i32 i = put_le 4 (nat (i mod 2 ^ 32))"
definition put_bool :: "bool \<Rightarrow> byte list" where "put_bool b = [if b then 1 else 0]"
definition put_double :: "dbl_codec \<Rightarrow> real \<Rightarrow> byte list" where "put_double dc x = put_le 8 (fst dc x)"

definition take_u32 :: "byte list \<Rightarrow> (nat \<times> byte list) status" where "take_u32 bs = take_le 4 bs"
definition take_u64 :: "byte list \<Rightarrow> (nat \<times> byte list) status" where "take_u64 bs = take_le 8 bs"
definition take_i32 :: "byte list \<Rightarrow> (int \<times> byte list) status" where
  "take_i32 bs = bindS (take_le 4 bs) (\<lambda>(n, r). Inr (if n < 2 ^ 31 then int n else int n - 2 ^ 32, r))"
definition take_bool :: "byte list \<Rightarrow> (bool \<times> byte list) status" where
  "take_bool bs = bindS (take_le 1 bs) (\<lambda>(n, r). Inr (n \<noteq> 0, r))"
definition take_double :: "dbl_codec \<Rightarrow> byte list \<Rightarrow> (real \<times> byte list) status" where
  "take_double dc bs = bindS (take_le 8 bs) (\<lambda>(n, r). Inr (snd dc n, r))"

text \<open>The values a field of each width can hold; a double has to be representable.\<close>

definition is_u32 :: "nat \<Rightarrow> bool" where "is_u32 n \<longleftrightarrow> n < 2 ^ 32"
definition is_u64 :: "nat \<Rightarrow> bool" where "is_u64 n \<longleftrightarrow> n < 2 ^ 64"
definition is_i32 :: "int \<Rightarrow> bool" where "is_i32 i \<longleftrightarrow> - (2 ^ 31) \<le> i \<and> i < 2 ^ 31"
definition is_dbl :: "dbl_codec \<Rightarrow> real \<Rightarrow> bool" where
  "is_dbl dc x \<longleftrightarrow> fst dc x < 2 ^ 64 \<and> snd dc (fst dc x) = x"

lemma length_put_scalar [simp]:
  "length (put_u32 n) = 4" "length (put_u64 n) = 8" "length (put_i32 i) = 4"
  "length (put_bool b) = 1" "length (put_double dc x) = 8"
  by (simp_all add: put_u32_def put_u64_def put_i32_def put_bool_def put_double_def)

lemma take_put_u32 [simp]: "is_u32 n \<Longrightarrow> take_u32 (put_u32 n @ bs) = Inr (n, bs)"
  by (simp add: is_u32_def put_u32_def take_u32_def)

lemma take_put_u64 [simp]: "is_u64 n \<Longrightarrow> take_u64 (put_u64 n @ bs) = Inr (n, bs)"
  by (simp add: is_u64_def put_u64_def take_u64_def)

lemma take_put_i32 [simp]: "is_i32 i \<Longrightarrow> take_i32 (put_i32 i @ bs) = Inr (i, bs)"
proof -
  assume i: "is_i32 i"
  have "nat (i mod 2 ^ 32) < 256 ^ 4" by simp
  moreover have "i mod 2 ^ 32 = (if 0 \<le> i then i else i + 2 ^ 32)"
    using i mod_pos_pos_trivial [of "i + 2 ^ 32" "2 ^ 32"] by (auto simp: is_i32_def)
  ultimately show ?thesis using i by (auto simp: put_i32_def take_i32_def is_i32_def)
qed

lemma take_put_bool [simp]: "take_bool (put_bool b @ bs) = Inr (b, bs)"
  by (simp add: take_bool_def put_bool_def)

lemma take_put_double [simp]: "is_dbl dc x \<Longrightarrow> take_double dc (put_double dc x @ bs) = Inr (x, bs)"
  by (simp add: is_dbl_def put_double_def take_double_def)

lemma unat_is_scalar [simp]: "is_u32 (unat (w :: u32))" "is_u64 (unat (v :: u64))"
proof -
  have "unat w < 2 ^ 32" "unat v < 2 ^ 64" using unsigned_less [of w] unsigned_less [of v] by simp_all
  then show "is_u32 (unat w)" "is_u64 (unat v)" by (simp_all add: is_u32_def is_u64_def)
qed

text \<open>Bytes that no field covers: written as whatever the memory held, skipped when read.\<close>

definition pad :: "memory \<Rightarrow> nat \<Rightarrow> nat \<Rightarrow> byte list" where
  "pad junk off n = map junk [off..<off + n]"

definition take_bytes :: "nat \<Rightarrow> byte list \<Rightarrow> (byte list \<times> byte list) status" where
  "take_bytes n bs = (if n \<le> length bs then Inr (take n bs, drop n bs) else Inl Out_of_range)"

lemma length_pad [simp]: "length (pad junk off n) = n"
  by (simp add: pad_def)

lemma take_bytes_append [simp]: "length xs = n \<Longrightarrow> take_bytes n (xs @ bs) = Inr (xs, bs)"
  by (simp add: take_bytes_def)

section \<open>The contract of a struct\<close>

primrec put_array :: "(nat \<Rightarrow> 'a \<Rightarrow> byte list) \<Rightarrow> nat \<Rightarrow> nat \<Rightarrow> 'a list \<Rightarrow> byte list" where
  "put_array put sz off [] = []"
| "put_array put sz off (x # xs) = put off x @ put_array put sz (off + sz) xs"

primrec take_array :: "(byte list \<Rightarrow> ('a \<times> byte list) status) \<Rightarrow> nat \<Rightarrow> byte list \<Rightarrow>
    ('a list \<times> byte list) status" where
  "take_array tk 0 bs = Inr ([], bs)"
| "take_array tk (Suc n) bs = bindS (tk bs) (\<lambda>(x, r). bindS (take_array tk n r) (\<lambda>(xs, r'). Inr (x # xs, r')))"

text \<open>An array of \<open>cap\<close> elements of which only the first ones have been written.\<close>

definition put_partial :: "(memory \<Rightarrow> nat \<Rightarrow> 'a \<Rightarrow> byte list) \<Rightarrow> nat \<Rightarrow> nat \<Rightarrow> memory \<Rightarrow> nat \<Rightarrow> 'a list \<Rightarrow> byte list" where
  "put_partial put sz cap junk off xs = put_array (put junk) sz off xs @
     pad junk (off + length xs * sz) ((cap - length xs) * sz)"

locale wire_struct =
  fixes wput :: "memory \<Rightarrow> nat \<Rightarrow> 'a \<Rightarrow> byte list"
    and wtake :: "byte list \<Rightarrow> ('a \<times> byte list) status"
    and wsize :: nat
    and wok :: "'a \<Rightarrow> bool"
  assumes wput_size: "wok x \<Longrightarrow> length (wput junk off x) = wsize"
    and wtake_wput: "wok x \<Longrightarrow> wtake (wput junk off x @ bs) = Inr (x, bs)"
begin

lemma array_size: "list_all wok xs \<Longrightarrow> length (put_array (wput junk) sz off xs) = length xs * wsize"
  by (induction xs arbitrary: off) (simp_all add: wput_size)

lemma array_roundtrip:
  "list_all wok xs \<Longrightarrow> length xs = n \<Longrightarrow>
   take_array wtake n (put_array (wput junk) sz off xs @ bs) = Inr (xs, bs)"
  by (induction xs arbitrary: off n) (auto simp: wtake_wput)

lemma partial_size:
  "list_all wok xs \<Longrightarrow> length xs \<le> cap \<Longrightarrow> length (put_partial wput wsize cap junk off xs) = cap * wsize"
  by (simp add: put_partial_def array_size add_mult_distrib [symmetric])

lemma partial_roundtrip:
  "list_all wok xs \<Longrightarrow> length xs = n \<Longrightarrow>
   \<exists>r. take_array wtake n (put_partial wput wsize cap junk off xs) = Inr (xs, r)"
  by (simp add: put_partial_def array_roundtrip)

lemma whole_roundtrip: "wok x \<Longrightarrow> wtake (wput junk off x) = Inr (x, [])"
  using wtake_wput [of x junk off "[]"] by simp

lemma array_nth_size: "list_all wok xs \<Longrightarrow> i < length xs \<Longrightarrow> length (wput junk off (xs ! i)) = wsize"
  by (simp add: list_all_length wput_size)

end

section \<open>Header\<close>

datatype MsgType =
  Msg_kStorageOp | Msg_kStorageOpReply | Msg_kAllocateBlocks | Msg_kAllocateBlocksReply
| Msg_kDiscardBlocks | Msg_kRegisterServer | Msg_kRegisterServerReply | Msg_kRegisterVolume
| Msg_kRegisterVolumeReply | Msg_kUpdateServerStats | Msg_kUpdateServerStatsReply
| Msg_kCommitServerMode | Msg_kGetServerStats | Msg_kGetServerStatsReply | Msg_kGetControllerTime
| Msg_kGetControllerTimeReply | Msg_unknown nat

definition msg_types :: "MsgType list" where
  "msg_types = [Msg_kStorageOp, Msg_kStorageOpReply, Msg_kAllocateBlocks, Msg_kAllocateBlocksReply,
     Msg_kDiscardBlocks, Msg_kRegisterServer, Msg_kRegisterServerReply, Msg_kRegisterVolume,
     Msg_kRegisterVolumeReply, Msg_kUpdateServerStats, Msg_kUpdateServerStatsReply,
     Msg_kCommitServerMode, Msg_kGetServerStats, Msg_kGetServerStatsReply, Msg_kGetControllerTime,
     Msg_kGetControllerTimeReply]"

definition msg_type_of_code :: "nat \<Rightarrow> MsgType" where
  "msg_type_of_code c = (if c < length msg_types then msg_types ! c else Msg_unknown c)"

definition msg_type_code :: "MsgType \<Rightarrow> nat" where
  "msg_type_code t = (case t of Msg_kStorageOp \<Rightarrow> 0 | Msg_kStorageOpReply \<Rightarrow> 1
     | Msg_kAllocateBlocks \<Rightarrow> 2 | Msg_kAllocateBlocksReply \<Rightarrow> 3 | Msg_kDiscardBlocks \<Rightarrow> 4
     | Msg_kRegisterServer \<Rightarrow> 5 | Msg_kRegisterServerReply \<Rightarrow> 6 | Msg_kRegisterVolume \<Rightarrow> 7
     | Msg_kRegisterVolumeReply \<Rightarrow> 8 | Msg_kUpdateServerStats \<Rightarrow> 9 | Msg_kUpdateServerStatsReply \<Rightarrow> 10
     | Msg_kCommitServerMode \<Rightarrow> 11 | Msg_kGetServerStats \<Rightarrow> 12 | Msg_kGetServerStatsReply \<Rightarrow> 13
     | Msg_kGetControllerTime \<Rightarrow> 14 | Msg_kGetControllerTimeReply \<Rightarrow> 15 | Msg_unknown c \<Rightarrow> c)"

definition is_msg_type :: "MsgType \<Rightarrow> bool" where
  "is_msg_type t = (case t of Msg_unknown c \<Rightarrow> 16 \<le> c \<and> is_u32 c | _ \<Rightarrow> True)"

lemma msg_type_codec:
  "is_msg_type t \<Longrightarrow> msg_type_of_code (msg_type_code t) = t \<and> is_u32 (msg_type_code t)"
  by (cases t) (simp_all add: is_msg_type_def msg_type_code_def msg_type_of_code_def msg_types_def is_u32_def)

record MsgHeader =
  len :: nat
  payload_size :: nat
  type :: MsgType

abbreviation (input) sizeof_MsgHeader :: nat where "sizeof_MsgHeader \<equiv> 16"

definition put_MsgHeader :: "memory \<Rightarrow> nat \<Rightarrow> MsgHeader \<Rightarrow> byte list" where
  "put_MsgHeader junk off h = put_u64 (len h) @ put_u32 (payload_size h) @ put_u32 (msg_type_code (type h))"

definition take_MsgHeader :: "byte list \<Rightarrow> (MsgHeader \<times> byte list) status" where
  "take_MsgHeader bs = bindS (take_u64 bs) (\<lambda>(l, bs). bindS (take_u32 bs) (\<lambda>(p, bs).
     bindS (take_u32 bs) (\<lambda>(t, bs).
       Inr (\<lparr>len = l, payload_size = p, type = msg_type_of_code t\<rparr>, bs))))"

definition ok_MsgHeader :: "MsgHeader \<Rightarrow> bool" where
  "ok_MsgHeader h \<longleftrightarrow> is_u64 (len h) \<and> is_u32 (payload_size h) \<and> is_msg_type (type h)"

interpretation header: wire_struct put_MsgHeader take_MsgHeader sizeof_MsgHeader ok_MsgHeader
  by unfold_locales (simp_all add: put_MsgHeader_def take_MsgHeader_def ok_MsgHeader_def msg_type_codec)

text \<open>\<open>GetMsgSize\<close> reads the size out of the buffer.\<close>

definition GetMsgSize :: "byte list \<Rightarrow> nat status" where
  "GetMsgSize base = bindS (take_MsgHeader base) (\<lambda>(h, _). Inr (to_u64 (len h + sizeof_MsgHeader)))"

text \<open>A message without payload behind it: the header announces the size of the struct.\<close>

definition create_msg :: "MsgType \<Rightarrow> nat \<Rightarrow> byte list \<Rightarrow> byte list" where
  "create_msg t sz body = put_MsgHeader (\<lambda>_. 0) 0 \<lparr>len = sz, payload_size = 0, type = t\<rparr> @ body"

lemma create_msg_header:
  "is_u64 sz \<Longrightarrow> is_msg_type t \<Longrightarrow>
   take_MsgHeader (create_msg t sz body) = Inr (\<lparr>len = sz, payload_size = 0, type = t\<rparr>, body)"
  by (simp add: create_msg_def header.wtake_wput ok_MsgHeader_def is_u32_def)

lemma length_create_msg [simp]: "is_u64 sz \<Longrightarrow> is_msg_type t \<Longrightarrow> length (create_msg t sz body) = 16 + length body"
  by (simp add: create_msg_def header.wput_size ok_MsgHeader_def is_u32_def)

lemma create_msg_size:
  "sz + 16 < 2 ^ 64 \<Longrightarrow> is_msg_type t \<Longrightarrow> GetMsgSize (create_msg t sz body) = Inr (sz + 16)"
  using create_msg_header [of sz t body] by (simp add: GetMsgSize_def to_u64_def is_u64_def)

section \<open>I/O requests\<close>

definition put_IODesc :: "memory \<Rightarrow> nat \<Rightarrow> IODesc \<Rightarrow> byte list" where
  "put_IODesc junk off iod = put_u32 (unat (op_flags iod)) @ put_u32 (unat (num_sectors iod)) @
     put_u64 (unat (start_sector iod)) @ put_u64 (unat (addr iod)) @ put_u64 (unat (callback_args iod)) @
     put_u64 (unat (callback iod))"

definition take_IODesc :: "byte list \<Rightarrow> (IODesc \<times> byte list) status" where
  "take_IODesc bs = bindS (take_u32 bs) (\<lambda>(f, bs). bindS (take_u32 bs) (\<lambda>(n, bs).
     bindS (take_u64 bs) (\<lambda>(s, bs). bindS (take_u64 bs) (\<lambda>(a, bs). bindS (take_u64 bs) (\<lambda>(ca, bs).
     bindS (take_u64 bs) (\<lambda>(c, bs).
       Inr (\<lparr>op_flags = of_nat f, num_sectors = of_nat n, start_sector = of_nat s, addr = of_nat a,
         callback_args = of_nat ca, callback = of_nat c\<rparr>, bs)))))))"

interpretation iodesc: wire_struct put_IODesc take_IODesc 40 "\<lambda>_. True"
  by unfold_locales (simp_all add: put_IODesc_def take_IODesc_def)

record StorageOpMsg =
  so_iod :: IODesc
  so_req_id :: nat
  so_affinity :: ServerID

abbreviation (input) sizeof_StorageOpMsg :: nat where "sizeof_StorageOpMsg \<equiv> 56"

definition put_StorageOpMsg :: "memory \<Rightarrow> nat \<Rightarrow> StorageOpMsg \<Rightarrow> byte list" where
  "put_StorageOpMsg junk off m = put_IODesc junk off (so_iod m) @ put_u64 (so_req_id m) @
     put_u32 (so_affinity m) @ pad junk (off + 52) 4"

definition take_StorageOpMsg :: "byte list \<Rightarrow> (StorageOpMsg \<times> byte list) status" where
  "take_StorageOpMsg bs = bindS (take_IODesc bs) (\<lambda>(iod, bs). bindS (take_u64 bs) (\<lambda>(r, bs).
     bindS (take_u32 bs) (\<lambda>(a, bs). bindS (take_bytes 4 bs) (\<lambda>(_, bs).
       Inr (\<lparr>so_iod = iod, so_req_id = r, so_affinity = a\<rparr>, bs)))))"

definition ok_StorageOpMsg :: "StorageOpMsg \<Rightarrow> bool" where
  "ok_StorageOpMsg m \<longleftrightarrow> is_u64 (so_req_id m) \<and> is_u32 (so_affinity m)"

interpretation storage_op: wire_struct put_StorageOpMsg take_StorageOpMsg sizeof_StorageOpMsg ok_StorageOpMsg
  by unfold_locales (simp_all add: put_StorageOpMsg_def take_StorageOpMsg_def ok_StorageOpMsg_def
    iodesc.wtake_wput iodesc.wput_size)

text \<open>The payload follows the struct; the buffer has room for it and the caller copies it there.\<close>

definition CreateStorageOpMsg :: "memory \<Rightarrow> IODesc \<Rightarrow> nat \<Rightarrow> ServerID \<Rightarrow> byte list \<Rightarrow> byte list" where
  "CreateStorageOpMsg junk iod req_id affinity data =
     put_MsgHeader junk 0 \<lparr>len = sizeof_StorageOpMsg + length data, payload_size = length data,
       type = Msg_kStorageOp\<rparr> @
     put_StorageOpMsg junk 16 \<lparr>so_iod = iod, so_req_id = req_id, so_affinity = affinity\<rparr> @ data"

datatype StorageOpReplyCode =
  Code_kSuccess | Code_kFailure | Code_kRejectModeMismatch | Code_kRejectDeviceBusy
| Code_kSuccessCongested | Code_unknown nat

definition reply_code :: "StorageOpReplyCode \<Rightarrow> nat" where
  "reply_code c = (case c of Code_kSuccess \<Rightarrow> 0 | Code_kFailure \<Rightarrow> 1 | Code_kRejectModeMismatch \<Rightarrow> 2
     | Code_kRejectDeviceBusy \<Rightarrow> 3 | Code_kSuccessCongested \<Rightarrow> 4 | Code_unknown n \<Rightarrow> n)"

definition reply_of_code :: "nat \<Rightarrow> StorageOpReplyCode" where
  "reply_of_code n = (if n = 0 then Code_kSuccess else if n = 1 then Code_kFailure
     else if n = 2 then Code_kRejectModeMismatch else if n = 3 then Code_kRejectDeviceBusy
     else if n = 4 then Code_kSuccessCongested else Code_unknown n)"

record StorageOpReplyMsg =
  sr_iod :: IODesc
  sr_req_id :: nat
  sr_code :: StorageOpReplyCode
  sr_res :: int

abbreviation (input) sizeof_StorageOpReplyMsg :: nat where "sizeof_StorageOpReplyMsg \<equiv> 56"

definition put_StorageOpReplyMsg :: "memory \<Rightarrow> nat \<Rightarrow> StorageOpReplyMsg \<Rightarrow> byte list" where
  "put_StorageOpReplyMsg junk off m = put_IODesc junk off (sr_iod m) @ put_u64 (sr_req_id m) @
     put_u32 (reply_code (sr_code m)) @ put_i32 (sr_res m)"

definition take_StorageOpReplyMsg :: "byte list \<Rightarrow> (StorageOpReplyMsg \<times> byte list) status" where
  "take_StorageOpReplyMsg bs = bindS (take_IODesc bs) (\<lambda>(iod, bs). bindS (take_u64 bs) (\<lambda>(r, bs).
     bindS (take_u32 bs) (\<lambda>(c, bs). bindS (take_i32 bs) (\<lambda>(res, bs).
       Inr (\<lparr>sr_iod = iod, sr_req_id = r, sr_code = reply_of_code c, sr_res = res\<rparr>, bs)))))"

definition ok_StorageOpReplyMsg :: "StorageOpReplyMsg \<Rightarrow> bool" where
  "ok_StorageOpReplyMsg m \<longleftrightarrow> is_u64 (sr_req_id m) \<and> is_i32 (sr_res m) \<and>
     (case sr_code m of Code_unknown n \<Rightarrow> 5 \<le> n \<and> is_u32 n | _ \<Rightarrow> True)"

lemma reply_codec:
  "(case c of Code_unknown n \<Rightarrow> 5 \<le> n \<and> is_u32 n | _ \<Rightarrow> True) \<Longrightarrow>
   is_u32 (reply_code c) \<and> reply_of_code (reply_code c) = c"
  by (cases c) (simp_all add: reply_code_def reply_of_code_def is_u32_def)

interpretation storage_reply: wire_struct put_StorageOpReplyMsg take_StorageOpReplyMsg
    sizeof_StorageOpReplyMsg ok_StorageOpReplyMsg
  by unfold_locales (simp_all add: put_StorageOpReplyMsg_def take_StorageOpReplyMsg_def
    ok_StorageOpReplyMsg_def iodesc.wtake_wput iodesc.wput_size reply_codec)

text \<open>The header of a reply announces no payload, although \<open>len\<close> counts the bytes that follow.\<close>

definition CreateStorageOpReplyMsg ::
    "memory \<Rightarrow> IODesc \<Rightarrow> nat \<Rightarrow> byte list \<Rightarrow> int \<Rightarrow> StorageOpReplyCode \<Rightarrow> byte list" where
  "CreateStorageOpReplyMsg junk iod req_id data res code =
     put_MsgHeader junk 0 \<lparr>len = sizeof_StorageOpReplyMsg + length data, payload_size = 0,
       type = Msg_kStorageOpReply\<rparr> @
     put_StorageOpReplyMsg junk 16 \<lparr>sr_iod = iod, sr_req_id = req_id, sr_code = code, sr_res = res\<rparr> @ data"

section \<open>Allocation and discarding of blocks\<close>

record AllocateBlocksMsg =
  ab_vol_id :: VolumeID
  ab_server_id :: ServerID

abbreviation (input) sizeof_AllocateBlocksMsg :: nat where "sizeof_AllocateBlocksMsg \<equiv> 8"

definition put_AllocateBlocksMsg :: "memory \<Rightarrow> nat \<Rightarrow> AllocateBlocksMsg \<Rightarrow> byte list" where
  "put_AllocateBlocksMsg junk off m = put_u32 (ab_vol_id m) @ put_u32 (ab_server_id m)"

definition take_AllocateBlocksMsg :: "byte list \<Rightarrow> (AllocateBlocksMsg \<times> byte list) status" where
  "take_AllocateBlocksMsg bs = bindS (take_u32 bs) (\<lambda>(v, bs). bindS (take_u32 bs) (\<lambda>(s, bs).
     Inr (\<lparr>ab_vol_id = v, ab_server_id = s\<rparr>, bs)))"

definition ok_AllocateBlocksMsg :: "AllocateBlocksMsg \<Rightarrow> bool" where
  "ok_AllocateBlocksMsg m \<longleftrightarrow> is_u32 (ab_vol_id m) \<and> is_u32 (ab_server_id m)"

interpretation allocate: wire_struct put_AllocateBlocksMsg take_AllocateBlocksMsg
    sizeof_AllocateBlocksMsg ok_AllocateBlocksMsg
  by unfold_locales (simp_all add: put_AllocateBlocksMsg_def take_AllocateBlocksMsg_def ok_AllocateBlocksMsg_def)

definition CreateAllocateBlocksMsg :: "memory \<Rightarrow> VolumeID \<Rightarrow> ServerID \<Rightarrow> byte list" where
  "CreateAllocateBlocksMsg junk vol_id sid = create_msg Msg_kAllocateBlocks sizeof_AllocateBlocksMsg
     (put_AllocateBlocksMsg junk 16 \<lparr>ab_vol_id = vol_id, ab_server_id = sid\<rparr>)"

definition put_ServerBlockInfo :: "memory \<Rightarrow> nat \<Rightarrow> ServerBlockInfo \<Rightarrow> byte list" where
  "put_ServerBlockInfo junk off b = put_u32 (sbi_server_id b) @ pad junk (off + 4) 4 @
     put_u64 (unat (sbi_block_addr b))"

definition take_ServerBlockInfo :: "byte list \<Rightarrow> (ServerBlockInfo \<times> byte list) status" where
  "take_ServerBlockInfo bs = bindS (take_u32 bs) (\<lambda>(s, bs). bindS (take_bytes 4 bs) (\<lambda>(_, bs).
     bindS (take_u64 bs) (\<lambda>(a, bs). Inr (\<lparr>sbi_server_id = s, sbi_block_addr = of_nat a\<rparr>, bs))))"

definition ok_ServerBlockInfo :: "ServerBlockInfo \<Rightarrow> bool" where
  "ok_ServerBlockInfo b \<longleftrightarrow> is_u32 (sbi_server_id b)"

interpretation block_info: wire_struct put_ServerBlockInfo take_ServerBlockInfo 16 ok_ServerBlockInfo
  by unfold_locales (simp_all add: put_ServerBlockInfo_def take_ServerBlockInfo_def ok_ServerBlockInfo_def)

text \<open>The reply is the array of \<open>kAllocationBatch\<close> blocks.\<close>

abbreviation (input) sizeof_AllocateBlocksReplyMsg :: nat where
  "sizeof_AllocateBlocksReplyMsg \<equiv> kAllocationBatch * 16"

definition put_AllocateBlocksReplyMsg :: "memory \<Rightarrow> nat \<Rightarrow> ServerBlockInfo list \<Rightarrow> byte list" where
  "put_AllocateBlocksReplyMsg junk off bs = put_array (put_ServerBlockInfo junk) 16 off bs"

definition take_AllocateBlocksReplyMsg :: "byte list \<Rightarrow> (ServerBlockInfo list \<times> byte list) status" where
  "take_AllocateBlocksReplyMsg bs = take_array take_ServerBlockInfo kAllocationBatch bs"

definition ok_AllocateBlocksReplyMsg :: "ServerBlockInfo list \<Rightarrow> bool" where
  "ok_AllocateBlocksReplyMsg bs \<longleftrightarrow> length bs = kAllocationBatch \<and> list_all ok_ServerBlockInfo bs"

interpretation allocate_reply: wire_struct put_AllocateBlocksReplyMsg take_AllocateBlocksReplyMsg
    sizeof_AllocateBlocksReplyMsg ok_AllocateBlocksReplyMsg
  by unfold_locales (simp_all add: put_AllocateBlocksReplyMsg_def take_AllocateBlocksReplyMsg_def
    ok_AllocateBlocksReplyMsg_def block_info.array_size block_info.array_roundtrip)

definition CreateAllocateBlocksReplyMsg :: "memory \<Rightarrow> ServerBlockInfo list \<Rightarrow> byte list" where
  "CreateAllocateBlocksReplyMsg junk bs = create_msg Msg_kAllocateBlocksReply
     sizeof_AllocateBlocksReplyMsg (put_AllocateBlocksReplyMsg junk 16 bs)"

record DiscardBlocksMsg =
  db_blocks :: "ServerBlockAddr list"
  db_num_blocks :: nat

abbreviation (input) sizeof_DiscardBlocksMsg :: nat where "sizeof_DiscardBlocksMsg \<equiv> kDiscardBatch * 8 + 8"

definition put_DiscardBlocksMsg :: "memory \<Rightarrow> nat \<Rightarrow> DiscardBlocksMsg \<Rightarrow> byte list" where
  "put_DiscardBlocksMsg junk off m =
     put_array (\<lambda>_ a. put_u64 (unat a)) 8 off (db_blocks m) @ put_u64 (db_num_blocks m)"

definition take_addr :: "byte list \<Rightarrow> (ServerBlockAddr \<times> byte list) status" where
  "take_addr bs = bindS (take_u64 bs) (\<lambda>(a, r). Inr (of_nat a, r))"

definition take_DiscardBlocksMsg :: "byte list \<Rightarrow> (DiscardBlocksMsg \<times> byte list) status" where
  "take_DiscardBlocksMsg bs = bindS (take_array take_addr kDiscardBatch bs) (\<lambda>(as, bs).
     bindS (take_u64 bs) (\<lambda>(n, bs). Inr (\<lparr>db_blocks = as, db_num_blocks = n\<rparr>, bs)))"

definition ok_DiscardBlocksMsg :: "DiscardBlocksMsg \<Rightarrow> bool" where
  "ok_DiscardBlocksMsg m \<longleftrightarrow> length (db_blocks m) = kDiscardBatch \<and> is_u64 (db_num_blocks m)"

interpretation block_addr: wire_struct "\<lambda>_ _ a. put_u64 (unat a)" take_addr 8 "\<lambda>_ :: ServerBlockAddr. True"
  by unfold_locales (simp_all add: take_addr_def)

lemma all_addrs [simp]: "list_all (\<lambda>_. True) xs"
  by (simp add: list_all_iff)

interpretation discard: wire_struct put_DiscardBlocksMsg take_DiscardBlocksMsg sizeof_DiscardBlocksMsg ok_DiscardBlocksMsg
  by unfold_locales (simp_all add: put_DiscardBlocksMsg_def take_DiscardBlocksMsg_def
    ok_DiscardBlocksMsg_def block_addr.array_size block_addr.array_roundtrip)

definition CreateDiscardBlocksMsg :: "memory \<Rightarrow> ServerBlockAddr list \<Rightarrow> nat \<Rightarrow> byte list status" where
  "CreateDiscardBlocksMsg junk blocks n = assertS (n \<le> kDiscardBatch)
     (Inr (create_msg Msg_kDiscardBlocks sizeof_DiscardBlocksMsg
        (put_DiscardBlocksMsg junk 16 \<lparr>db_blocks = blocks, db_num_blocks = n\<rparr>)))"

section \<open>Registration\<close>

definition kIPAddrStrLen :: nat where "kIPAddrStrLen = 16"
definition kNameStrLen :: nat where "kNameStrLen = 20"

text \<open>
  \<open>strncpy (dst, s, s.size ())\<close> writes exactly the characters of the string, so the rest of the
  array keeps its bytes. A C string that is read goes up to the first zero byte, wherever that is.
\<close>

definition bytes_of :: "string \<Rightarrow> byte list" where "bytes_of s = map (\<lambda>c. of_nat (of_char c)) s"
definition string_of :: "byte list \<Rightarrow> string" where "string_of bs = map (\<lambda>b. char_of (unat b)) bs"

definition strncpy :: "byte list \<Rightarrow> string \<Rightarrow> byte list" where
  "strncpy dst s = (let t = takeWhile (\<lambda>b. b \<noteq> 0) (bytes_of s)
     in t @ replicate (length s - length t) 0 @ drop (length s) dst)"

definition c_str :: "byte list \<Rightarrow> string status" where
  "c_str bs = (if 0 \<in> set bs then Inr (string_of (takeWhile (\<lambda>b. b \<noteq> 0) bs)) else Inl Out_of_range)"

record RegisterServerMsg =
  rs_ip :: "byte list"
  rs_port :: int
  rs_name :: "byte list"
  rs_nsectors :: nat

abbreviation (input) sizeof_RegisterServerMsg :: nat where "sizeof_RegisterServerMsg \<equiv> 48"

definition put_RegisterServerMsg :: "memory \<Rightarrow> nat \<Rightarrow> RegisterServerMsg \<Rightarrow> byte list" where
  "put_RegisterServerMsg junk off m = rs_ip m @ put_i32 (rs_port m) @ rs_name m @ put_u64 (rs_nsectors m)"

definition take_RegisterServerMsg :: "byte list \<Rightarrow> (RegisterServerMsg \<times> byte list) status" where
  "take_RegisterServerMsg bs = bindS (take_bytes kIPAddrStrLen bs) (\<lambda>(ip, bs). bindS (take_i32 bs) (\<lambda>(p, bs).
     bindS (take_bytes kNameStrLen bs) (\<lambda>(nm, bs). bindS (take_u64 bs) (\<lambda>(n, bs).
       Inr (\<lparr>rs_ip = ip, rs_port = p, rs_name = nm, rs_nsectors = n\<rparr>, bs)))))"

definition ok_RegisterServerMsg :: "RegisterServerMsg \<Rightarrow> bool" where
  "ok_RegisterServerMsg m \<longleftrightarrow> length (rs_ip m) = kIPAddrStrLen \<and> is_i32 (rs_port m) \<and>
     length (rs_name m) = kNameStrLen \<and> is_u64 (rs_nsectors m)"

interpretation register_server: wire_struct put_RegisterServerMsg take_RegisterServerMsg
    sizeof_RegisterServerMsg ok_RegisterServerMsg
  by unfold_locales (simp_all add: put_RegisterServerMsg_def take_RegisterServerMsg_def
    ok_RegisterServerMsg_def, simp add: kIPAddrStrLen_def kNameStrLen_def)

definition CreateRegisterServerMsg :: "memory \<Rightarrow> string \<Rightarrow> int \<Rightarrow> string \<Rightarrow> nat \<Rightarrow> byte list status" where
  "CreateRegisterServerMsg junk ip port name n =
     assertS (length name \<le> kNameStrLen) (assertS (length ip \<le> kIPAddrStrLen)
     (Inr (create_msg Msg_kRegisterServer sizeof_RegisterServerMsg
        (put_RegisterServerMsg junk 16
           \<lparr>rs_ip = strncpy (pad junk 16 kIPAddrStrLen) ip, rs_port = port,
            rs_name = strncpy (replicate kNameStrLen 0) name, rs_nsectors = n\<rparr>))))"

record RegisterServerReplyMsg =
  rr_server_id :: ServerID
  rr_is_rejections_enabled :: bool

abbreviation (input) sizeof_RegisterServerReplyMsg :: nat where "sizeof_RegisterServerReplyMsg \<equiv> 8"

definition put_RegisterServerReplyMsg :: "memory \<Rightarrow> nat \<Rightarrow> RegisterServerReplyMsg \<Rightarrow> byte list" where
  "put_RegisterServerReplyMsg junk off m = put_u32 (rr_server_id m) @
     put_bool (rr_is_rejections_enabled m) @ pad junk (off + 5) 3"

definition take_RegisterServerReplyMsg :: "byte list \<Rightarrow> (RegisterServerReplyMsg \<times> byte list) status" where
  "take_RegisterServerReplyMsg bs = bindS (take_u32 bs) (\<lambda>(s, bs). bindS (take_bool bs) (\<lambda>(r, bs).
     bindS (take_bytes 3 bs) (\<lambda>(_, bs).
       Inr (\<lparr>rr_server_id = s, rr_is_rejections_enabled = r\<rparr>, bs))))"

definition ok_RegisterServerReplyMsg :: "RegisterServerReplyMsg \<Rightarrow> bool" where
  "ok_RegisterServerReplyMsg m \<longleftrightarrow> is_u32 (rr_server_id m)"

interpretation register_server_reply: wire_struct put_RegisterServerReplyMsg take_RegisterServerReplyMsg
    sizeof_RegisterServerReplyMsg ok_RegisterServerReplyMsg
  by unfold_locales (simp_all add: put_RegisterServerReplyMsg_def take_RegisterServerReplyMsg_def
    ok_RegisterServerReplyMsg_def)

definition CreateRegisterServerReplyMsg :: "memory \<Rightarrow> ServerID \<Rightarrow> bool \<Rightarrow> byte list" where
  "CreateRegisterServerReplyMsg junk sid rej = create_msg Msg_kRegisterServerReply
     sizeof_RegisterServerReplyMsg
     (put_RegisterServerReplyMsg junk 16 \<lparr>rr_server_id = sid, rr_is_rejections_enabled = rej\<rparr>)"

record RegisterVolumeMsg =
  rv_ip :: "byte list"
  rv_port :: int
  rv_nsectors :: nat

abbreviation (input) sizeof_RegisterVolumeMsg :: nat where "sizeof_RegisterVolumeMsg \<equiv> 32"

definition put_RegisterVolumeMsg :: "memory \<Rightarrow> nat \<Rightarrow> RegisterVolumeMsg \<Rightarrow> byte list" where
  "put_RegisterVolumeMsg junk off m = rv_ip m @ put_i32 (rv_port m) @ pad junk (off + 20) 4 @
     put_u64 (rv_nsectors m)"

definition take_RegisterVolumeMsg :: "byte list \<Rightarrow> (RegisterVolumeMsg \<times> byte list) status" where
  "take_RegisterVolumeMsg bs = bindS (take_bytes kIPAddrStrLen bs) (\<lambda>(ip, bs). bindS (take_i32 bs) (\<lambda>(p, bs).
     bindS (take_bytes 4 bs) (\<lambda>(_, bs). bindS (take_u64 bs) (\<lambda>(n, bs).
       Inr (\<lparr>rv_ip = ip, rv_port = p, rv_nsectors = n\<rparr>, bs)))))"

definition ok_RegisterVolumeMsg :: "RegisterVolumeMsg \<Rightarrow> bool" where
  "ok_RegisterVolumeMsg m \<longleftrightarrow> length (rv_ip m) = kIPAddrStrLen \<and> is_i32 (rv_port m) \<and> is_u64 (rv_nsectors m)"

interpretation register_volume: wire_struct put_RegisterVolumeMsg take_RegisterVolumeMsg
    sizeof_RegisterVolumeMsg ok_RegisterVolumeMsg
  by unfold_locales (simp_all add: put_RegisterVolumeMsg_def take_RegisterVolumeMsg_def
    ok_RegisterVolumeMsg_def, simp add: kIPAddrStrLen_def)

definition CreateRegisterVolumeMsg :: "memory \<Rightarrow> string \<Rightarrow> int \<Rightarrow> nat \<Rightarrow> byte list status" where
  "CreateRegisterVolumeMsg junk ip port n = assertS (length ip \<le> kIPAddrStrLen)
     (Inr (create_msg Msg_kRegisterVolume sizeof_RegisterVolumeMsg
        (put_RegisterVolumeMsg junk 16
           \<lparr>rv_ip = strncpy (pad junk 16 kIPAddrStrLen) ip, rv_port = port, rv_nsectors = n\<rparr>)))"

record ServerInfo =
  si_ip :: "byte list"
  si_port :: int
  si_name :: "byte list"
  si_id :: ServerID

definition put_ServerInfo :: "memory \<Rightarrow> nat \<Rightarrow> ServerInfo \<Rightarrow> byte list" where
  "put_ServerInfo junk off m = si_ip m @ put_i32 (si_port m) @ si_name m @ put_u32 (si_id m)"

definition take_ServerInfo :: "byte list \<Rightarrow> (ServerInfo \<times> byte list) status" where
  "take_ServerInfo bs = bindS (take_bytes kIPAddrStrLen bs) (\<lambda>(ip, bs). bindS (take_i32 bs) (\<lambda>(p, bs).
     bindS (take_bytes kNameStrLen bs) (\<lambda>(nm, bs). bindS (take_u32 bs) (\<lambda>(i, bs).
       Inr (\<lparr>si_ip = ip, si_port = p, si_name = nm, si_id = i\<rparr>, bs)))))"

definition ok_ServerInfo :: "ServerInfo \<Rightarrow> bool" where
  "ok_ServerInfo m \<longleftrightarrow> length (si_ip m) = kIPAddrStrLen \<and> is_i32 (si_port m) \<and>
     length (si_name m) = kNameStrLen \<and> is_u32 (si_id m)"

interpretation server_info: wire_struct put_ServerInfo take_ServerInfo 44 ok_ServerInfo
  by unfold_locales (simp_all add: put_ServerInfo_def take_ServerInfo_def ok_ServerInfo_def,
    simp add: kIPAddrStrLen_def kNameStrLen_def)

text \<open>
  The arrays of the two list replies are filled from the front: \<open>num_servers\<close> is the number of
  entries written, and the entries behind them are uninitialised memory that the readers skip. The
  scheduler type is kept by its code.
\<close>

record RegisterVolumeReplyMsg =
  rvr_servers :: "ServerInfo list"
  rvr_vol_id :: VolumeID
  rvr_sched_type :: nat

abbreviation (input) sizeof_RegisterVolumeReplyMsg :: nat where
  "sizeof_RegisterVolumeReplyMsg \<equiv> kNumMaxServers * 44 + 12"

definition put_RegisterVolumeReplyMsg :: "memory \<Rightarrow> nat \<Rightarrow> RegisterVolumeReplyMsg \<Rightarrow> byte list" where
  "put_RegisterVolumeReplyMsg junk off m =
     put_partial put_ServerInfo 44 kNumMaxServers junk off (rvr_servers m) @ put_i32 (int (length (rvr_servers m))) @ put_u32 (rvr_vol_id m) @ put_u32 (rvr_sched_type m)"

definition take_RegisterVolumeReplyMsg :: "byte list \<Rightarrow> (RegisterVolumeReplyMsg \<times> byte list) status" where
  "take_RegisterVolumeReplyMsg bs = bindS (take_bytes (kNumMaxServers * 44) bs) (\<lambda>(arr, bs).
     bindS (take_i32 bs) (\<lambda>(n, bs). bindS (take_u32 bs) (\<lambda>(v, bs). bindS (take_u32 bs) (\<lambda>(t, bs).
     bindS (take_array take_ServerInfo (nat n) arr) (\<lambda>(servers, _).
       Inr (\<lparr>rvr_servers = servers, rvr_vol_id = v, rvr_sched_type = t\<rparr>, bs))))))"

definition ok_RegisterVolumeReplyMsg :: "RegisterVolumeReplyMsg \<Rightarrow> bool" where
  "ok_RegisterVolumeReplyMsg m \<longleftrightarrow> length (rvr_servers m) \<le> kNumMaxServers \<and>
     list_all ok_ServerInfo (rvr_servers m) \<and> is_u32 (rvr_vol_id m) \<and> is_u32 (rvr_sched_type m)"

lemma is_i32_num_servers: "n \<le> kNumMaxServers \<Longrightarrow> is_i32 (int n)"
  by (simp add: is_i32_def k_defs)

interpretation register_volume_reply: wire_struct put_RegisterVolumeReplyMsg take_RegisterVolumeReplyMsg
    sizeof_RegisterVolumeReplyMsg ok_RegisterVolumeReplyMsg
proof
  fix m :: RegisterVolumeReplyMsg and junk :: memory and off bs
  assume ok: "ok_RegisterVolumeReplyMsg m"
  then show "length (put_RegisterVolumeReplyMsg junk off m) = sizeof_RegisterVolumeReplyMsg"
    by (simp add: put_RegisterVolumeReplyMsg_def ok_RegisterVolumeReplyMsg_def server_info.partial_size)
  obtain r where "take_array take_ServerInfo (length (rvr_servers m))
      (put_partial put_ServerInfo 44 kNumMaxServers junk off (rvr_servers m)) = Inr (rvr_servers m, r)"
    using ok server_info.partial_roundtrip by (fastforce simp: ok_RegisterVolumeReplyMsg_def)
  then show "take_RegisterVolumeReplyMsg (put_RegisterVolumeReplyMsg junk off m @ bs) = Inr (m, bs)"
    using ok by (simp add: put_RegisterVolumeReplyMsg_def take_RegisterVolumeReplyMsg_def
      ok_RegisterVolumeReplyMsg_def server_info.partial_size is_i32_num_servers)
qed

definition AddServer :: "ServerInfo \<Rightarrow> RegisterVolumeReplyMsg \<Rightarrow> RegisterVolumeReplyMsg status" where
  "AddServer info m = assertS (length (rvr_servers m) < kNumMaxServers)
     (Inr (m\<lparr>rvr_servers := rvr_servers m @ [info]\<rparr>))"

definition CreateRegisterVolumeReplyMsg :: "VolumeID \<Rightarrow> nat \<Rightarrow> RegisterVolumeReplyMsg" where
  "CreateRegisterVolumeReplyMsg v t = \<lparr>rvr_servers = [], rvr_vol_id = v, rvr_sched_type = t\<rparr>"

section \<open>Statistics and modes\<close>

text \<open>An enumerator that no declaration names cannot be stored in the enumeration.\<close>

definition mode_code :: "ServerMode \<Rightarrow> nat" where
  "mode_code m = (case m of Mode_kMix \<Rightarrow> 0 | Mode_kRead \<Rightarrow> 1 | Mode_kWrite \<Rightarrow> 2)"

definition take_mode :: "byte list \<Rightarrow> (ServerMode \<times> byte list) status" where
  "take_mode bs = bindS (take_u32 bs) (\<lambda>(c, r). if c < 3
     then Inr ([Mode_kMix, Mode_kRead, Mode_kWrite] ! c, r) else Inl Out_of_range)"

definition congestion_code :: "ServerCongestionState \<Rightarrow> nat" where
  "congestion_code c = (case c of State_kInvalid \<Rightarrow> 0 | State_kUnCongested \<Rightarrow> 1 | State_kCongested \<Rightarrow> 2
     | State_kCongestedUnstable \<Rightarrow> 3 | State_kCongestedStable \<Rightarrow> 4)"

definition take_congestion :: "byte list \<Rightarrow> (ServerCongestionState \<times> byte list) status" where
  "take_congestion bs = bindS (take_u32 bs) (\<lambda>(c, r). if c < 5
     then Inr ([State_kInvalid, State_kUnCongested, State_kCongested, State_kCongestedUnstable,
       State_kCongestedStable] ! c, r) else Inl Out_of_range)"

lemma take_put_mode [simp]: "take_mode (put_u32 (mode_code m) @ bs) = Inr (m, bs)"
proof -
  have "is_u32 (mode_code m)" by (cases m) (simp_all add: mode_code_def is_u32_def)
  then show ?thesis by (cases m) (simp_all add: take_mode_def mode_code_def)
qed

lemma take_put_congestion [simp]: "take_congestion (put_u32 (congestion_code c) @ bs) = Inr (c, bs)"
proof -
  have "is_u32 (congestion_code c)" by (cases c) (simp_all add: congestion_code_def is_u32_def)
  then show ?thesis by (cases c) (simp_all add: take_congestion_def congestion_code_def)
qed

definition put_ServerStats :: "dbl_codec \<Rightarrow> memory \<Rightarrow> nat \<Rightarrow> ServerStats \<Rightarrow> byte list" where
  "put_ServerStats dc junk off s = put_u32 (server_id s) @ put_u32 (mode_code (mode s)) @
     put_u32 (mode_code (committed_mode s)) @ pad junk (off + 12) 4 @
     put_double dc (read_mops s) @ put_double dc (write_mops s) @
     put_double dc (read_weight s) @ put_double dc (write_weight s) @
     put_u32 (inflight_reads s) @ put_u32 (inflight_writes s) @
     put_u32 (completed_reads s) @ put_u32 (pure_reads s) @ put_u32 (impure_reads s) @
     put_u32 (completed_writes s) @ put_u32 (rejected_reads s) @ put_u32 (rejected_writes s) @
     put_u64 (median_read_latency s) @ put_u64 (median_write_latency s) @
     put_u64 (signal_read_latency s) @ put_u64 (signal_write_latency s) @
     put_bool (is_rejecting_requests s) @ pad junk (off + 113) 3 @
     put_u32 (congestion_code (congestion_state s))"

definition take_ServerStats :: "dbl_codec \<Rightarrow> byte list \<Rightarrow> (ServerStats \<times> byte list) status" where
  "take_ServerStats dc bs = bindS (take_u32 bs) (\<lambda>(sid, bs). bindS (take_mode bs) (\<lambda>(m, bs).
     bindS (take_mode bs) (\<lambda>(cm, bs). bindS (take_bytes 4 bs) (\<lambda>(_, bs).
     bindS (take_double dc bs) (\<lambda>(rm, bs). bindS (take_double dc bs) (\<lambda>(wm, bs).
     bindS (take_double dc bs) (\<lambda>(rw, bs). bindS (take_double dc bs) (\<lambda>(ww, bs).
     bindS (take_u32 bs) (\<lambda>(ir, bs). bindS (take_u32 bs) (\<lambda>(iw, bs).
     bindS (take_u32 bs) (\<lambda>(cr, bs). bindS (take_u32 bs) (\<lambda>(pr, bs). bindS (take_u32 bs) (\<lambda>(imr, bs).
     bindS (take_u32 bs) (\<lambda>(cw, bs). bindS (take_u32 bs) (\<lambda>(rr, bs). bindS (take_u32 bs) (\<lambda>(rjw, bs).
     bindS (take_u64 bs) (\<lambda>(mr, bs). bindS (take_u64 bs) (\<lambda>(mw, bs).
     bindS (take_u64 bs) (\<lambda>(sr, bs). bindS (take_u64 bs) (\<lambda>(sw, bs).
     bindS (take_bool bs) (\<lambda>(rej, bs). bindS (take_bytes 3 bs) (\<lambda>(_, bs).
     bindS (take_congestion bs) (\<lambda>(cs, bs).
       Inr (\<lparr>server_id = sid, mode = m, committed_mode = cm, read_mops = rm, write_mops = wm,
         read_weight = rw, write_weight = ww, inflight_reads = ir, inflight_writes = iw,
         completed_reads = cr, pure_reads = pr, impure_reads = imr, completed_writes = cw,
         rejected_reads = rr, rejected_writes = rjw, median_read_latency = mr,
         median_write_latency = mw, signal_read_latency = sr, signal_write_latency = sw,
         is_rejecting_requests = rej, congestion_state = cs\<rparr>, bs))))))))))))))))))))))))"

definition ok_ServerStats :: "dbl_codec \<Rightarrow> ServerStats \<Rightarrow> bool" where
  "ok_ServerStats dc s \<longleftrightarrow> is_u32 (server_id s) \<and> is_dbl dc (read_mops s) \<and> is_dbl dc (write_mops s) \<and>
     is_dbl dc (read_weight s) \<and> is_dbl dc (write_weight s) \<and>
     list_all is_u32 [inflight_reads s, inflight_writes s, completed_reads s, pure_reads s,
       impure_reads s, completed_writes s, rejected_reads s, rejected_writes s] \<and>
     list_all is_u64 [median_read_latency s, median_write_latency s, signal_read_latency s,
       signal_write_latency s]"

interpretation stats: wire_struct "put_ServerStats dc" "take_ServerStats dc" 120 "ok_ServerStats dc" for dc
  by unfold_locales (simp_all add: put_ServerStats_def take_ServerStats_def ok_ServerStats_def)

record UpdateServerStatsMsg =
  us_server_id :: ServerID
  us_stats :: ServerStats

abbreviation (input) sizeof_UpdateServerStatsMsg :: nat where "sizeof_UpdateServerStatsMsg \<equiv> 128"

definition put_UpdateServerStatsMsg :: "dbl_codec \<Rightarrow> memory \<Rightarrow> nat \<Rightarrow> UpdateServerStatsMsg \<Rightarrow> byte list" where
  "put_UpdateServerStatsMsg dc junk off m = put_u32 (us_server_id m) @ pad junk (off + 4) 4 @
     put_ServerStats dc junk (off + 8) (us_stats m)"

definition take_UpdateServerStatsMsg :: "dbl_codec \<Rightarrow> byte list \<Rightarrow> (UpdateServerStatsMsg \<times> byte list) status" where
  "take_UpdateServerStatsMsg dc bs = bindS (take_u32 bs) (\<lambda>(s, bs). bindS (take_bytes 4 bs) (\<lambda>(_, bs).
     bindS (take_ServerStats dc bs) (\<lambda>(st, bs). Inr (\<lparr>us_server_id = s, us_stats = st\<rparr>, bs))))"

definition ok_UpdateServerStatsMsg :: "dbl_codec \<Rightarrow> UpdateServerStatsMsg \<Rightarrow> bool" where
  "ok_UpdateServerStatsMsg dc m \<longleftrightarrow> is_u32 (us_server_id m) \<and> ok_ServerStats dc (us_stats m)"

interpretation update_stats: wire_struct "put_UpdateServerStatsMsg dc" "take_UpdateServerStatsMsg dc"
    sizeof_UpdateServerStatsMsg "ok_UpdateServerStatsMsg dc" for dc
  by unfold_locales (simp_all add: put_UpdateServerStatsMsg_def take_UpdateServerStatsMsg_def
    ok_UpdateServerStatsMsg_def stats.wput_size stats.wtake_wput)

text \<open>The id of the sender overrides the one in the statistics.\<close>

definition CreateUpdateServerStatsMsg :: "dbl_codec \<Rightarrow> memory \<Rightarrow> ServerID \<Rightarrow> ServerStats \<Rightarrow> byte list" where
  "CreateUpdateServerStatsMsg dc junk sid st = create_msg Msg_kUpdateServerStats
     sizeof_UpdateServerStatsMsg (put_UpdateServerStatsMsg dc junk 16
       \<lparr>us_server_id = sid, us_stats = st\<lparr>server_id := sid\<rparr>\<rparr>)"

record UpdateServerStatsReplyMsg =
  ur_server_id :: ServerID
  ur_mode :: ServerMode
  ur_congestion_state :: ServerCongestionState
  ur_read_weight :: real
  ur_write_weight :: real

abbreviation (input) sizeof_UpdateServerStatsReplyMsg :: nat where "sizeof_UpdateServerStatsReplyMsg \<equiv> 32"

definition put_UpdateServerStatsReplyMsg ::
    "dbl_codec \<Rightarrow> memory \<Rightarrow> nat \<Rightarrow> UpdateServerStatsReplyMsg \<Rightarrow> byte list" where
  "put_UpdateServerStatsReplyMsg dc junk off m = put_u32 (ur_server_id m) @
     put_u32 (mode_code (ur_mode m)) @ put_u32 (congestion_code (ur_congestion_state m)) @
     pad junk (off + 12) 4 @ put_double dc (ur_read_weight m) @ put_double dc (ur_write_weight m)"

definition take_UpdateServerStatsReplyMsg ::
    "dbl_codec \<Rightarrow> byte list \<Rightarrow> (UpdateServerStatsReplyMsg \<times> byte list) status" where
  "take_UpdateServerStatsReplyMsg dc bs = bindS (take_u32 bs) (\<lambda>(s, bs). bindS (take_mode bs) (\<lambda>(m, bs).
     bindS (take_congestion bs) (\<lambda>(c, bs). bindS (take_bytes 4 bs) (\<lambda>(_, bs).
     bindS (take_double dc bs) (\<lambda>(rw, bs). bindS (take_double dc bs) (\<lambda>(ww, bs).
       Inr (\<lparr>ur_server_id = s, ur_mode = m, ur_congestion_state = c, ur_read_weight = rw,
         ur_write_weight = ww\<rparr>, bs)))))))"

definition ok_UpdateServerStatsReplyMsg :: "dbl_codec \<Rightarrow> UpdateServerStatsReplyMsg \<Rightarrow> bool" where
  "ok_UpdateServerStatsReplyMsg dc m \<longleftrightarrow> is_u32 (ur_server_id m) \<and> is_dbl dc (ur_read_weight m) \<and>
     is_dbl dc (ur_write_weight m)"

interpretation update_stats_reply: wire_struct "put_UpdateServerStatsReplyMsg dc"
    "take_UpdateServerStatsReplyMsg dc" sizeof_UpdateServerStatsReplyMsg "ok_UpdateServerStatsReplyMsg dc" for dc
  by unfold_locales (simp_all add: put_UpdateServerStatsReplyMsg_def take_UpdateServerStatsReplyMsg_def
    ok_UpdateServerStatsReplyMsg_def)

definition CreateUpdateServerStatsReplyMsg :: "dbl_codec \<Rightarrow> memory \<Rightarrow> ServerID \<Rightarrow> ServerMode \<Rightarrow>
    ServerCongestionState \<Rightarrow> real \<Rightarrow> real \<Rightarrow> byte list" where
  "CreateUpdateServerStatsReplyMsg dc junk sid m c rw ww = create_msg Msg_kUpdateServerStatsReply
     sizeof_UpdateServerStatsReplyMsg (put_UpdateServerStatsReplyMsg dc junk 16
       \<lparr>ur_server_id = sid, ur_mode = m, ur_congestion_state = c, ur_read_weight = rw, ur_write_weight = ww\<rparr>)"

record CommitServerModeMsg =
  cm_server_id :: ServerID
  cm_mode :: ServerMode

abbreviation (input) sizeof_CommitServerModeMsg :: nat where "sizeof_CommitServerModeMsg \<equiv> 8"

definition put_CommitServerModeMsg :: "memory \<Rightarrow> nat \<Rightarrow> CommitServerModeMsg \<Rightarrow> byte list" where
  "put_CommitServerModeMsg junk off m = put_u32 (cm_server_id m) @ put_u32 (mode_code (cm_mode m))"

definition take_CommitServerModeMsg :: "byte list \<Rightarrow> (CommitServerModeMsg \<times> byte list) status" where
  "take_CommitServerModeMsg bs = bindS (take_u32 bs) (\<lambda>(s, bs). bindS (take_mode bs) (\<lambda>(m, bs).
     Inr (\<lparr>cm_server_id = s, cm_mode = m\<rparr>, bs)))"

definition ok_CommitServerModeMsg :: "CommitServerModeMsg \<Rightarrow> bool" where
  "ok_CommitServerModeMsg m \<longleftrightarrow> is_u32 (cm_server_id m)"

interpretation commit_mode: wire_struct put_CommitServerModeMsg take_CommitServerModeMsg
    sizeof_CommitServerModeMsg ok_CommitServerModeMsg
  by unfold_locales (simp_all add: put_CommitServerModeMsg_def take_CommitServerModeMsg_def ok_CommitServerModeMsg_def)

definition CreateCommitServerModeMsg :: "memory \<Rightarrow> ServerID \<Rightarrow> ServerMode \<Rightarrow> byte list" where
  "CreateCommitServerModeMsg junk sid m = create_msg Msg_kCommitServerMode sizeof_CommitServerModeMsg
     (put_CommitServerModeMsg junk 16 \<lparr>cm_server_id = sid, cm_mode = m\<rparr>)"

abbreviation (input) sizeof_GetServerStatsMsg :: nat where "sizeof_GetServerStatsMsg \<equiv> 4"

definition CreateGetServerStatsMsg :: "VolumeID \<Rightarrow> byte list" where
  "CreateGetServerStatsMsg vol_id = create_msg Msg_kGetServerStats sizeof_GetServerStatsMsg (put_u32 vol_id)"

record GetServerStatsReplyMsg =
  gr_vol_id :: VolumeID
  gr_servers :: "ServerStats list"

abbreviation (input) sizeof_GetServerStatsReplyMsg :: nat where
  "sizeof_GetServerStatsReplyMsg \<equiv> kNumMaxServers * 120 + 8"

definition put_GetServerStatsReplyMsg :: "dbl_codec \<Rightarrow> memory \<Rightarrow> nat \<Rightarrow> GetServerStatsReplyMsg \<Rightarrow> byte list" where
  "put_GetServerStatsReplyMsg dc junk off m = put_u32 (gr_vol_id m) @ put_i32 (int (length (gr_servers m))) @
     put_partial (put_ServerStats dc) 120 kNumMaxServers junk (off + 8) (gr_servers m)"

text \<open>The reader copies the entries up to \<open>num_servers\<close>, after asserting that they fit.\<close>

definition take_GetServerStatsReplyMsg :: "dbl_codec \<Rightarrow> byte list \<Rightarrow> (GetServerStatsReplyMsg \<times> byte list) status" where
  "take_GetServerStatsReplyMsg dc bs = bindS (take_u32 bs) (\<lambda>(v, bs). bindS (take_i32 bs) (\<lambda>(n, bs).
     bindS (take_bytes (kNumMaxServers * 120) bs) (\<lambda>(arr, bs).
     assertS (n \<le> int kNumMaxServers) (bindS (take_array (take_ServerStats dc) (nat n) arr) (\<lambda>(servers, _).
       Inr (\<lparr>gr_vol_id = v, gr_servers = servers\<rparr>, bs))))))"

definition ok_GetServerStatsReplyMsg :: "dbl_codec \<Rightarrow> GetServerStatsReplyMsg \<Rightarrow> bool" where
  "ok_GetServerStatsReplyMsg dc m \<longleftrightarrow> is_u32 (gr_vol_id m) \<and> length (gr_servers m) \<le> kNumMaxServers \<and>
     list_all (ok_ServerStats dc) (gr_servers m)"

interpretation get_stats_reply: wire_struct "put_GetServerStatsReplyMsg dc" "take_GetServerStatsReplyMsg dc"
    sizeof_GetServerStatsReplyMsg "ok_GetServerStatsReplyMsg dc" for dc
proof
  fix m :: GetServerStatsReplyMsg and junk :: memory and off bs
  assume ok: "ok_GetServerStatsReplyMsg dc m"
  then show "length (put_GetServerStatsReplyMsg dc junk off m) = sizeof_GetServerStatsReplyMsg"
    by (simp add: put_GetServerStatsReplyMsg_def ok_GetServerStatsReplyMsg_def stats.partial_size)
  obtain r where "take_array (take_ServerStats dc) (length (gr_servers m))
      (put_partial (put_ServerStats dc) 120 kNumMaxServers junk (off + 8) (gr_servers m)) = Inr (gr_servers m, r)"
    using ok stats.partial_roundtrip by (fastforce simp: ok_GetServerStatsReplyMsg_def)
  then show "take_GetServerStatsReplyMsg dc (put_GetServerStatsReplyMsg dc junk off m @ bs) = Inr (m, bs)"
    using ok by (simp add: put_GetServerStatsReplyMsg_def take_GetServerStatsReplyMsg_def
      ok_GetServerStatsReplyMsg_def stats.partial_size is_i32_num_servers)
qed

definition AddServerStats :: "ServerStats \<Rightarrow> GetServerStatsReplyMsg \<Rightarrow> GetServerStatsReplyMsg status" where
  "AddServerStats st m = assertS (length (gr_servers m) < kNumMaxServers)
     (Inr (m\<lparr>gr_servers := gr_servers m @ [st]\<rparr>))"

definition CreateGetServerStatsReplyMsg :: "VolumeID \<Rightarrow> GetServerStatsReplyMsg" where
  "CreateGetServerStatsReplyMsg v = \<lparr>gr_vol_id = v, gr_servers = []\<rparr>"

section \<open>Controller time\<close>

text \<open>The request is an empty struct, which the alignment pads to four bytes.\<close>

abbreviation (input) sizeof_GetControllerTimeMsg :: nat where "sizeof_GetControllerTimeMsg \<equiv> 4"
abbreviation (input) sizeof_GetControllerTimeReplyMsg :: nat where "sizeof_GetControllerTimeReplyMsg \<equiv> 8"

definition CreateGetControllerTimeMsg :: "memory \<Rightarrow> byte list" where
  "CreateGetControllerTimeMsg junk = create_msg Msg_kGetControllerTime sizeof_GetControllerTimeMsg (pad junk 16 4)"

definition CreateGetControllerTimeReplyMsg :: "nat \<Rightarrow> byte list" where
  "CreateGetControllerTimeReplyMsg t = create_msg Msg_kGetControllerTimeReply
     sizeof_GetControllerTimeReplyMsg (put_u64 t)"

section \<open>Round trips of whole messages\<close>

lemma string_of_bytes [simp]: "string_of (bytes_of s) = s"
proof -
  have "char_of (unat (of_nat (of_char c) :: byte)) = c" for c by (simp add: unat_of_nat)
  then show ?thesis by (simp add: string_of_def bytes_of_def comp_def)
qed

lemma length_bytes_of [simp]: "length (bytes_of s) = length s"
  by (simp add: bytes_of_def)

text \<open>A string without zero characters is copied as it is.\<close>

definition no_nul :: "string \<Rightarrow> bool" where "no_nul s \<longleftrightarrow> list_all (\<lambda>b. b \<noteq> 0) (bytes_of s)"

lemma takeWhile_nonzero: "list_all (\<lambda>b. b \<noteq> 0) bs \<Longrightarrow> takeWhile (\<lambda>b. b \<noteq> 0) (bs @ r) = bs @ takeWhile (\<lambda>b. b \<noteq> 0) (r :: byte list)"
  by (induction bs) simp_all

lemma strncpy_plain: "no_nul s \<Longrightarrow> strncpy dst s = bytes_of s @ drop (length s) dst"
proof -
  assume "no_nul s"
  then have "takeWhile (\<lambda>b. b \<noteq> 0) (bytes_of s) = bytes_of s" by (simp add: no_nul_def list_all_iff)
  then show ?thesis unfolding strncpy_def Let_def by (simp only: length_bytes_of) simp
qed

lemma c_str_terminated: "no_nul s \<Longrightarrow> c_str (bytes_of s @ 0 # r) = Inr s"
  by (simp add: c_str_def no_nul_def takeWhile_nonzero)

lemma c_str_length: "c_str bs = Inr s \<Longrightarrow> length s = length (takeWhile (\<lambda>b. b \<noteq> 0) bs)"
  by (auto simp: c_str_def string_of_def split: if_splits)

lemma length_strncpy [simp]: "length s \<le> length dst \<Longrightarrow> length (strncpy dst s) = length dst"
proof -
  have "length (takeWhile (\<lambda>b. b \<noteq> 0) (bytes_of s)) \<le> length s"
    using length_takeWhile_le [of "\<lambda>b. b \<noteq> 0" "bytes_of s"] by simp
  then show "length s \<le> length dst \<Longrightarrow> ?thesis" by (simp add: strncpy_def Let_def)
qed

text \<open>
  C27. A storage request and its reply arrive as they were sent: the size that the sender takes from
  the header is the size of the buffer, and the receiver finds in it the message type, the size of
  the payload, the I/O descriptor with the identifiers, code and result, and the data
  behind the struct.
\<close>

theorem storage_message_roundtrip:
  assumes "is_u64 req" "is_u32 aff" "length data + 16 + 56 < 2 ^ 32" "is_i32 res"
    and "code \<in> {Code_kSuccess, Code_kFailure, Code_kRejectModeMismatch, Code_kRejectDeviceBusy, Code_kSuccessCongested}"
  shows "let m = CreateStorageOpMsg junk iod req aff data; r = CreateStorageOpReplyMsg junk iod req data res code in
    GetMsgSize m = Inr (length m) \<and> GetMsgSize r = Inr (length r) \<and>
    bindS (take_MsgHeader m) (\<lambda>(h, b). bindS (take_StorageOpMsg b) (\<lambda>(x, d). Inr (type h, payload_size h, x, d))) =
      Inr (Msg_kStorageOp, length data, \<lparr>so_iod = iod, so_req_id = req, so_affinity = aff\<rparr>, data) \<and>
    bindS (take_MsgHeader r) (\<lambda>(h, b). bindS (take_StorageOpReplyMsg b) (\<lambda>(x, d). Inr (type h, x, d))) =
      Inr (Msg_kStorageOpReply, \<lparr>sr_iod = iod, sr_req_id = req, sr_code = code, sr_res = res\<rparr>, data)"
proof -
  let ?q = "\<lparr>so_iod = iod, so_req_id = req, so_affinity = aff\<rparr>"
  let ?r = "\<lparr>sr_iod = iod, sr_req_id = req, sr_code = code, sr_res = res\<rparr>"
  let ?hq = "\<lparr>len = 56 + length data, payload_size = length data, type = Msg_kStorageOp\<rparr>"
  let ?hr = "\<lparr>len = 56 + length data, payload_size = 0, type = Msg_kStorageOpReply\<rparr>"
  have ok: "ok_StorageOpMsg ?q" "ok_StorageOpReplyMsg ?r" "ok_MsgHeader ?hq" "ok_MsgHeader ?hr"
    "56 + length data + 16 < 2 ^ 64"
    using assms by (auto simp: ok_StorageOpMsg_def ok_StorageOpReplyMsg_def ok_MsgHeader_def is_u32_def
      is_u64_def is_msg_type_def)
  then show ?thesis
    by (simp add: CreateStorageOpMsg_def CreateStorageOpReplyMsg_def GetMsgSize_def header.wtake_wput
      header.wput_size storage_op.wtake_wput storage_op.wput_size storage_reply.wtake_wput
      storage_reply.wput_size to_u64_def Let_def)
qed

theorem storage_message_roundtrip_witness:
  "let iod = \<lparr>op_flags = 1, num_sectors = 1, start_sector = 7, addr = 4096, callback_args = 0, callback = 0\<rparr>;
     m = CreateStorageOpMsg (\<lambda>_. 255) iod 3 2 [1, 2, 3] in GetMsgSize m = Inr (length m) \<and>
    bindS (take_MsgHeader m) (\<lambda>(h, b). bindS (take_StorageOpMsg b) (\<lambda>(x, d). Inr (so_iod x, d))) = Inr (iod, [1, 2, 3])"
  using storage_message_roundtrip [of 3 2 "[1, 2, 3]" 4096 Code_kSuccess "\<lambda>_. 255"
    "\<lparr>op_flags = 1, num_sectors = 1, start_sector = 7, addr = 4096, callback_args = 0, callback = 0\<rparr>"]
  by (auto simp: is_u64_def is_u32_def is_i32_def Let_def status_simps split: prod.splits)

text \<open>
  The name, the port and the size of a disk server survive its registration message, whatever
  the uninitialised buffer held, when the name leaves room for its terminator.
\<close>

theorem registration_name_roundtrip:
  assumes "length name < kNameStrLen" "no_nul name" "length ip \<le> kIPAddrStrLen" "is_i32 port" "is_u64 n"
  shows "\<exists>msg body m. CreateRegisterServerMsg junk ip port name n = Inr msg \<and>
    take_MsgHeader msg = Inr (\<lparr>len = length body, payload_size = 0, type = Msg_kRegisterServer\<rparr>, body) \<and>
    take_RegisterServerMsg body = Inr (m, []) \<and> rs_port m = port \<and> rs_nsectors m = n \<and>
    c_str (drop 20 body) = Inr name"
proof -
  let ?m = "\<lparr>rs_ip = strncpy (pad junk 16 kIPAddrStrLen) ip, rs_port = port,
            rs_name = strncpy (replicate kNameStrLen 0) name, rs_nsectors = n\<rparr>"
  let ?b = "put_RegisterServerMsg junk 16 ?m"
  have ok: "ok_RegisterServerMsg ?m" using assms by (simp add: ok_RegisterServerMsg_def)
  have "drop (length name) (replicate kNameStrLen (0::byte)) = 0 # replicate (kNameStrLen - length name - 1) 0"
    using assms(1) by (cases "kNameStrLen - length name") (simp_all add: kNameStrLen_def)
  then have nm: "strncpy (replicate kNameStrLen 0) name = bytes_of name @ 0 # replicate (kNameStrLen - length name - 1) 0"
    using assms(2) by (simp add: strncpy_plain)
  have "drop 20 ?b = rs_name ?m @ put_u64 n"
    using assms(3) by (simp add: put_RegisterServerMsg_def kIPAddrStrLen_def)
  then have "c_str (drop 20 ?b) = Inr name" using assms(2) by (simp add: nm c_str_terminated)
  moreover have "CreateRegisterServerMsg junk ip port name n = Inr (create_msg Msg_kRegisterServer 48 ?b)"
    using assms(1,3) by (simp add: CreateRegisterServerMsg_def)
  ultimately show ?thesis using ok create_msg_header [of 48 Msg_kRegisterServer ?b]
    by (auto simp: register_server.wput_size register_server.whole_roundtrip is_u64_def is_msg_type_def)
qed

theorem registration_name_roundtrip_witness:
  "\<exists>msg body m. CreateRegisterServerMsg (\<lambda>_. 120) ''10.0.0.1'' 5000 ''S3EWNX'' 1000 = Inr msg \<and>
    take_MsgHeader msg = Inr (\<lparr>len = length body, payload_size = 0, type = Msg_kRegisterServer\<rparr>, body) \<and>
    take_RegisterServerMsg body = Inr (m, []) \<and> rs_nsectors m = 1000 \<and> c_str (drop 20 body) = Inr ''S3EWNX''"
  using registration_name_roundtrip [of "''S3EWNX''" "''10.0.0.1''" 5000 1000 "\<lambda>_. 120"]
  by (auto simp: kNameStrLen_def kIPAddrStrLen_def no_nul_def bytes_of_def is_i32_def is_u64_def of_char_def)

text \<open>
  The address has no such protection: its array is not cleared and \<open>strncpy\<close> does not write the
  terminator, so a leftover byte of the buffer becomes part of the address that is received.
\<close>

theorem registration_address_not_terminated:
  assumes "length name \<le> kNameStrLen" "length ip < kIPAddrStrLen" "no_nul ip" "junk (16 + length ip) \<noteq> 0"
    and "CreateRegisterServerMsg junk ip port name n = Inr msg"
  shows "\<exists>h body. take_MsgHeader msg = Inr (h, body) \<and> c_str body \<noteq> Inr ip"
proof -
  let ?m = "\<lparr>rs_ip = strncpy (pad junk 16 kIPAddrStrLen) ip, rs_port = port,
            rs_name = strncpy (replicate kNameStrLen 0) name, rs_nsectors = n\<rparr>"
  let ?b = "put_RegisterServerMsg junk 16 ?m"
  have "msg = create_msg Msg_kRegisterServer 48 ?b"
    using assms(5) by (auto simp: CreateRegisterServerMsg_def status_simps)
  then have "take_MsgHeader msg = Inr (\<lparr>len = 48, payload_size = 0, type = Msg_kRegisterServer\<rparr>, ?b)"
    by (simp add: create_msg_header is_u64_def is_msg_type_def)
  moreover have "[16..<16 + kIPAddrStrLen] = [16..<16 + length ip] @ (16 + length ip) # [Suc (16 + length ip)..<16 + kIPAddrStrLen]"
    using assms(2) upt_add_eq_append [of 16 "16 + length ip" "kIPAddrStrLen - length ip"]
      upt_conv_Cons [of "16 + length ip" "16 + kIPAddrStrLen"] by simp
  then obtain r where "?b = (bytes_of ip @ [junk (16 + length ip)]) @ r"
    using assms(3) by (simp add: put_RegisterServerMsg_def strncpy_plain pad_def)
  then have "length (takeWhile (\<lambda>b. b \<noteq> 0) ?b) > length ip"
    using assms(3,4) takeWhile_nonzero [of "bytes_of ip @ [junk (16 + length ip)]" r] by (simp add: no_nul_def)
  then have "c_str ?b \<noteq> Inr ip" using c_str_length by fastforce
  ultimately show ?thesis by blast
qed

end
