(* ===== verification/Vector_IO.thy ===== *)
theory Vector_IO
  imports Msg
begin

text \<open>
  Transfers of whole buffers over file descriptors and TCP connections: the loops of
  \<open>sandook/base/io.h\<close>, \<open>io.cc\<close> and \<open>sandook/bindings/net.h\<close>. The operating system and the
  TCP stack are arguments: a reader takes its state and a size and returns \<open>Inl code\<close> (a negative
  return value) or the bytes it stored, a writer the number of bytes it took. What a loop needs of
  them, that they never transfer more than they were given room for and that they make
  progress, is stated where it is used.
\<close>

section \<open>Contiguous buffers\<close>

type_synonym 'w reader = "'w \<Rightarrow> nat \<Rightarrow> (nat + byte list) \<times> 'w"
type_synonym 'w writer = "'w \<Rightarrow> byte list \<Rightarrow> (nat + nat) \<times> 'w"

text \<open>
  The loop \<open>while (n < sz)\<close>: \<open>acc\<close> holds the bytes read so far and \<open>n\<close> is their number.
  The result is the errno code of a failed call, or the bytes when the loop ends.
\<close>

function read_loop :: "'w reader \<Rightarrow> nat \<Rightarrow> byte list \<Rightarrow> 'w \<Rightarrow> (nat + byte list) \<times> 'w" where
  "read_loop rd sz acc w =
     (if length acc < sz
      then case rd w (sz - length acc) of
             (Inl code, w') \<Rightarrow> (Inl code, w')
           | (Inr [], w') \<Rightarrow> (Inr acc, w')
           | (Inr (b # bs), w') \<Rightarrow> read_loop rd sz (acc @ b # bs) w'
      else (Inr acc, w))"
  by pat_completeness auto
termination by (relation "measure (\<lambda>(rd, sz, acc, w). sz - length acc)") auto

function write_loop :: "'w writer \<Rightarrow> byte list \<Rightarrow> nat \<Rightarrow> 'w \<Rightarrow> (nat + nat) \<times> 'w" where
  "write_loop wr buf n w =
     (if n < length buf
      then case wr w (drop n buf) of
             (Inl code, w') \<Rightarrow> (Inl code, w')
           | (Inr 0, w') \<Rightarrow> (Inr n, w')
           | (Inr (Suc k), w') \<Rightarrow> write_loop wr buf (n + Suc k) w'
      else (Inr n, w))"
  by pat_completeness auto
termination by (relation "measure (\<lambda>(wr, buf, n, w). length buf - n)") auto

declare read_loop.simps [simp del] write_loop.simps [simp del]

text \<open>\<open>ReadFull\<close> and \<open>WriteFull\<close> on a file descriptor.\<close>

definition fd_ReadFull :: "'w reader \<Rightarrow> nat \<Rightarrow> 'w \<Rightarrow> byte list status \<times> 'w" where
  "fd_ReadFull rd sz w = (case read_loop rd sz [] w of
     (Inl code, w') \<Rightarrow> (MakeError (int code), w')
   | (Inr buf, w') \<Rightarrow> (if length buf \<noteq> sz then MakeError EINVAL else Inr buf, w'))"

definition fd_WriteFull :: "'w writer \<Rightarrow> byte list \<Rightarrow> 'w \<Rightarrow> unit status \<times> 'w" where
  "fd_WriteFull wr buf w = (case write_loop wr buf 0 w of
     (Inl code, w') \<Rightarrow> (MakeError (int code), w')
   | (Inr n, w') \<Rightarrow> (if n \<noteq> length buf then MakeError EINVAL else Inr (), w'))"

text \<open>A TCP connection; a read that finds the stream closed is \<open>EEOF\<close>.\<close>

definition TCPConn_Read :: "'w reader \<Rightarrow> nat \<Rightarrow> 'w \<Rightarrow> byte list status \<times> 'w" where
  "TCPConn_Read tcp_read sz w = (case tcp_read w sz of
     (Inl code, w') \<Rightarrow> (MakeError (int code), w')
   | (Inr bs, w') \<Rightarrow> (if bs = [] then MakeError EEOF else Inr bs, w'))"

definition TCPConn_ReadFull :: "'w reader \<Rightarrow> nat \<Rightarrow> 'w \<Rightarrow> byte list status \<times> 'w" where
  "TCPConn_ReadFull tcp_read sz w = (case read_loop tcp_read sz [] w of
     (Inl code, w') \<Rightarrow> (MakeError (int code), w')
   | (Inr buf, w') \<Rightarrow> (if length buf \<noteq> sz then (if buf = [] then MakeError EEOF else MakeError EINVAL)
                      else Inr buf, w'))"

definition TCPConn_Write :: "'w writer \<Rightarrow> byte list \<Rightarrow> 'w \<Rightarrow> nat status \<times> 'w" where
  "TCPConn_Write tcp_write buf w = (case tcp_write w buf of
     (Inl code, w') \<Rightarrow> (MakeError (int code), w') | (Inr n, w') \<Rightarrow> (Inr n, w'))"

definition TCPConn_WriteFull :: "'w writer \<Rightarrow> byte list \<Rightarrow> 'w \<Rightarrow> unit status \<times> 'w" where
  "TCPConn_WriteFull tcp_write buf w = fd_WriteFull tcp_write buf w"

section \<open>Scattered buffers\<close>

record iovec =
  iov_base :: nat
  iov_len :: nat

text \<open>The bytes a vector refers to, in the memory \<open>mem\<close>.\<close>

definition gather :: "memory \<Rightarrow> iovec list \<Rightarrow> byte list" where
  "gather mem iov = concat (map (\<lambda>v. pad mem (iov_base v) (iov_len v)) iov)"

definition SumIOV :: "iovec list \<Rightarrow> nat" where
  "SumIOV iov = foldl (\<lambda>len e. to_u64 (len + iov_len e)) 0 iov"

text \<open>Drops \<open>n\<close> bytes from the front of the vector, in place; the entry it stops in is shortened.\<close>

fun PullIOV :: "iovec list \<Rightarrow> nat \<Rightarrow> iovec list status" where
  "PullIOV [] n = assertS (n = 0) (Inr [])"
| "PullIOV (v # iov) n =
     (if n < iov_len v then Inr (v\<lparr>iov_base := iov_base v + n, iov_len := iov_len v - n\<rparr> # iov)
      else PullIOV iov (n - iov_len v))"

text \<open>\<open>func\<close> is \<open>Readv\<close> or \<open>Writev\<close> of the connection. The loop may not end, when the call keeps transferring nothing.\<close>

type_synonym 'w vector_io = "'w \<Rightarrow> iovec list \<Rightarrow> nat status \<times> 'w"

partial_function (option) full_loop :: "'w vector_io \<Rightarrow> iovec list \<Rightarrow> nat \<Rightarrow> 'w \<Rightarrow> (unit status \<times> 'w) option" where
  "full_loop func s ret w =
     (case PullIOV s ret of
        Inl e \<Rightarrow> Some (Inl e, w)
      | Inr s' \<Rightarrow> if s' = [] then Some (Inr (), w)
          else (case func w s' of (Inl e, w') \<Rightarrow> Some (Inl e, w')
                | (Inr ret', w') \<Rightarrow> full_loop func s' ret' w'))"

definition DoFull :: "'w vector_io \<Rightarrow> iovec list \<Rightarrow> 'w \<Rightarrow> (unit status \<times> 'w) option" where
  "DoFull func iov w = (case func w iov of
     (Inl e, w') \<Rightarrow> Some (Inl e, w')
   | (Inr ret, w') \<Rightarrow> if ret = SumIOV iov then Some (Inr (), w') else full_loop func iov ret w')"

definition TCPConn_Writev :: "('w \<Rightarrow> iovec list \<Rightarrow> (nat + nat) \<times> 'w) \<Rightarrow> 'w vector_io" where
  "TCPConn_Writev tcp_writev w iov = (case tcp_writev w iov of
     (Inl code, w') \<Rightarrow> (MakeError (int code), w') | (Inr n, w') \<Rightarrow> (Inr n, w'))"

definition TCPConn_Readv :: "('w \<Rightarrow> iovec list \<Rightarrow> (nat + nat) \<times> 'w) \<Rightarrow> 'w vector_io" where
  "TCPConn_Readv tcp_readv w iov = (case tcp_readv w iov of
     (Inl code, w') \<Rightarrow> (MakeError (int code), w')
   | (Inr n, w') \<Rightarrow> (if n = 0 then MakeError EEOF else Inr n, w'))"

definition WritevFull :: "('w \<Rightarrow> iovec list \<Rightarrow> (nat + nat) \<times> 'w) \<Rightarrow> iovec list \<Rightarrow> 'w \<Rightarrow> (unit status \<times> 'w) option" where
  "WritevFull tcp_writev iov w = DoFull (TCPConn_Writev tcp_writev) iov w"

definition ReadvFull :: "('w \<Rightarrow> iovec list \<Rightarrow> (nat + nat) \<times> 'w) \<Rightarrow> iovec list \<Rightarrow> 'w \<Rightarrow> (unit status \<times> 'w) option" where
  "ReadvFull tcp_readv iov w = DoFull (TCPConn_Readv tcp_readv) iov w"

section \<open>Buffers arrive whole\<close>

text \<open>A stream that holds the bytes \<open>s\<close> and hands them out in chunks of any size.\<close>

definition reads_stream :: "'w reader \<Rightarrow> ('w \<Rightarrow> byte list) \<Rightarrow> bool" where
  "reads_stream rd str \<longleftrightarrow> (\<forall>w n. 0 < n \<longrightarrow> (\<exists>bs w'. rd w n = (Inr bs, w') \<and> length bs \<le> n \<and>
     str w = bs @ str w' \<and> (str w \<noteq> [] \<longrightarrow> bs \<noteq> [])))"

lemma read_loop_stream:
  assumes "reads_stream rd str" "sz \<le> length acc + length (str w)" "length acc \<le> sz"
  shows "\<exists>w'. read_loop rd sz acc w = (Inr (acc @ take (sz - length acc) (str w)), w') \<and>
    str w' = drop (sz - length acc) (str w)"
  using assms(2,3)
proof (induction "sz - length acc" arbitrary: acc w rule: less_induct)
  case less
  show ?case
  proof (cases "length acc < sz")
    case False
    then show ?thesis using less.prems by (simp add: read_loop.simps)
  next
    case True
    let ?n = "sz - length acc"
    obtain bs w1 where r: "rd w ?n = (Inr bs, w1)" "length bs \<le> ?n" "str w = bs @ str w1" "str w \<noteq> [] \<longrightarrow> bs \<noteq> []"
      using assms(1) True unfolding reads_stream_def by (meson zero_less_diff)
    have "str w \<noteq> []" using less.prems True by auto
    with r(4) obtain c cs where bs: "bs = c # cs" by (cases bs) auto
    have step: "read_loop rd sz acc w = read_loop rd sz (acc @ bs) w1"
      using True r(1) bs by (simp add: read_loop.simps [of rd sz acc w])
    have "\<exists>w'. read_loop rd sz (acc @ bs) w1 = (Inr ((acc @ bs) @ take (sz - length (acc @ bs)) (str w1)), w') \<and>
        str w' = drop (sz - length (acc @ bs)) (str w1)"
      by (rule less.hyps) (use True r(2,3) bs less.prems in auto)
    moreover have "take ?n (str w) = bs @ take (sz - length (acc @ bs)) (str w1)"
      "drop ?n (str w) = drop (sz - length (acc @ bs)) (str w1)" using r(2,3) by simp_all
    ultimately show ?thesis using step by simp
  qed
qed

lemma ReadFull_stream:
  assumes "reads_stream tcp_read str" "n \<le> length (str w)"
  shows "\<exists>w'. TCPConn_ReadFull tcp_read n w = (Inr (take n (str w)), w') \<and> str w' = drop n (str w)"
  using read_loop_stream [OF assms(1), of n "[]" w] assms(2) by (auto simp: TCPConn_ReadFull_def)

text \<open>A read at the end of the stream reports it.\<close>

lemma ReadFull_closed:
  assumes "reads_stream tcp_read str" "str w = []" "0 < n"
  shows "\<exists>w'. TCPConn_ReadFull tcp_read n w = (MakeError EEOF, w')"
proof -
  obtain bs w' where r: "tcp_read w n = (Inr bs, w')" "str w = bs @ str w'"
    using assms(1,3) unfolding reads_stream_def by (meson zero_less_diff)
  then have "bs = []" using assms(2) by simp
  then show ?thesis using r(1) assms(3) by (simp add: TCPConn_ReadFull_def read_loop.simps)
qed

lemma length_gather: "length (gather mem iov) = sum_list (map iov_len iov)"
  by (induction iov) (simp_all add: gather_def)

lemma SumIOV_eq: "sum_list (map iov_len iov) < 2 ^ 64 \<Longrightarrow> SumIOV iov = sum_list (map iov_len iov)"
proof -
  have "foldl (\<lambda>len e. to_u64 (len + iov_len e)) n iov = n + sum_list (map iov_len iov)"
    if "n + sum_list (map iov_len iov) < 2 ^ 64" for n
    using that by (induction iov arbitrary: n) (simp_all add: to_u64_id)
  from this [of 0] show "sum_list (map iov_len iov) < 2 ^ 64 \<Longrightarrow> ?thesis" by (simp add: SumIOV_def)
qed

lemma pad_drop: "n \<le> k \<Longrightarrow> drop n (pad mem b k) = pad mem (b + n) (k - n)"
  by (simp add: pad_def drop_map)

text \<open>Pulling drops exactly the bytes that were transferred, and nothing is left only at the end.\<close>

lemma PullIOV_gather:
  assumes "n \<le> sum_list (map iov_len s)"
  shows "\<exists>s'. PullIOV s n = Inr s' \<and> gather mem s' = drop n (gather mem s) \<and>
    (s' = [] \<longleftrightarrow> n = sum_list (map iov_len s))"
  using assms
proof (induction s arbitrary: n)
  case Nil
  then show ?case by (simp add: gather_def)
next
  case (Cons v s)
  show ?case
  proof (cases "n < iov_len v")
    case True
    then show ?thesis by (simp add: gather_def pad_drop)
  next
    case False
    then have "n - iov_len v \<le> sum_list (map iov_len s)" using Cons.prems by simp
    from Cons.IH [OF this] False show ?thesis by (auto simp: gather_def)
  qed
qed

text \<open>
  What is assumed of \<open>tcp_writev\<close>: it takes some bytes from the front of a non-empty vector
  and appends them to the stream.
\<close>

definition writes_stream :: "('w \<Rightarrow> iovec list \<Rightarrow> (nat + nat) \<times> 'w) \<Rightarrow> memory \<Rightarrow> ('w \<Rightarrow> byte list) \<Rightarrow> bool" where
  "writes_stream tcp_writev mem sent \<longleftrightarrow> (\<forall>w iov. \<exists>n w'. tcp_writev w iov = (Inr n, w') \<and>
     n \<le> sum_list (map iov_len iov) \<and> (n = 0 \<longrightarrow> sum_list (map iov_len iov) = 0) \<and>
     sent w' = sent w @ take n (gather mem iov))"

lemma writes_streamD:
  assumes "writes_stream tcp_writev mem sent"
  obtains n w' where "TCPConn_Writev tcp_writev w iov = (Inr n, w')" "n \<le> sum_list (map iov_len iov)"
    "n = 0 \<longrightarrow> sum_list (map iov_len iov) = 0" "sent w' = sent w @ take n (gather mem iov)"
proof -
  obtain n w' where "tcp_writev w iov = (Inr n, w')" "n \<le> sum_list (map iov_len iov)"
    "n = 0 \<longrightarrow> sum_list (map iov_len iov) = 0" "sent w' = sent w @ take n (gather mem iov)"
    using assms unfolding writes_stream_def by blast
  then show thesis using that by (simp add: TCPConn_Writev_def)
qed

lemma full_loop_delivers:
  assumes "writes_stream tcp_writev mem sent" "ret \<le> sum_list (map iov_len s)"
  shows "\<exists>w'. full_loop (TCPConn_Writev tcp_writev) s ret w = Some (Inr (), w') \<and>
    sent w' = sent w @ drop ret (gather mem s)"
  using assms(2)
proof (induction "sum_list (map iov_len s) - ret" arbitrary: s ret w rule: less_induct)
  case less
  obtain s' where s': "PullIOV s ret = Inr s'" "gather mem s' = drop ret (gather mem s)"
    "s' = [] \<longleftrightarrow> ret = sum_list (map iov_len s)" using PullIOV_gather [OF less.prems] by blast
  show ?case
  proof (cases "s' = []")
    case True
    then show ?thesis using s' less.prems by (simp add: full_loop.simps length_gather)
  next
    case False
    have tot: "sum_list (map iov_len s') = sum_list (map iov_len s) - ret" "0 < sum_list (map iov_len s')"
      using arg_cong [OF s'(2), of length] False s'(3) less.prems by (simp_all add: length_gather)
    obtain n w1 where w1: "TCPConn_Writev tcp_writev w s' = (Inr n, w1)" "n \<le> sum_list (map iov_len s')"
      "n \<noteq> 0" "sent w1 = sent w @ take n (gather mem s')"
      using writes_streamD [OF assms(1), of w s'] tot(2) by (metis less_numeral_extra(3))
    have "\<exists>w'. full_loop (TCPConn_Writev tcp_writev) s' n w1 = Some (Inr (), w') \<and>
        sent w' = sent w1 @ drop n (gather mem s')"
      by (rule less.hyps) (use tot w1(2,3) in auto)
    then obtain w' where w': "full_loop (TCPConn_Writev tcp_writev) s' n w1 = Some (Inr (), w')"
      "sent w' = sent w @ gather mem s'" using w1(4) by auto
    have "full_loop (TCPConn_Writev tcp_writev) s ret w = full_loop (TCPConn_Writev tcp_writev) s' n w1"
      using s'(1) False w1(1) by (simp add: full_loop.simps [of _ s ret w])
    then show ?thesis using w' s'(2) by simp
  qed
qed

section \<open>Properties\<close>

text \<open>
  C26. \<open>WritevFull\<close> ends and sends everything: however the connection splits the transfer, as long
  as each call takes at least one byte, the loop returns success, and the bytes appended to the
  stream are exactly those of the vector, in order and without loss or repetition.
\<close>

theorem WritevFull_delivers:
  assumes "writes_stream tcp_writev mem sent" "sum_list (map iov_len iov) < 2 ^ 64"
  shows "\<exists>w'. WritevFull tcp_writev iov w = Some (Inr (), w') \<and> sent w' = sent w @ gather mem iov"
proof -
  obtain n w1 where w1: "TCPConn_Writev tcp_writev w iov = (Inr n, w1)" "n \<le> sum_list (map iov_len iov)"
    "sent w1 = sent w @ take n (gather mem iov)" using writes_streamD [OF assms(1)] by metis
  show ?thesis
  proof (cases "n = sum_list (map iov_len iov)")
    case True
    then show ?thesis using w1 assms(2) by (simp add: WritevFull_def DoFull_def SumIOV_eq length_gather)
  next
    case False
    obtain w' where "full_loop (TCPConn_Writev tcp_writev) iov n w1 = Some (Inr (), w')"
      "sent w' = sent w1 @ drop n (gather mem iov)" using full_loop_delivers [OF assms(1) w1(2)] by blast
    then show ?thesis using w1 False assms(2) by (simp add: WritevFull_def DoFull_def SumIOV_eq)
  qed
qed

text \<open>A connection that takes at most two bytes of the first entries at a time.\<close>

definition two_bytes :: "memory \<Rightarrow> byte list \<Rightarrow> iovec list \<Rightarrow> (nat + nat) \<times> byte list" where
  "two_bytes mem w iov = (Inr (length (take 2 (gather mem iov))), w @ take 2 (gather mem iov))"

theorem WritevFull_delivers_witness:
  "\<exists>w'. WritevFull (two_bytes (\<lambda>i. of_nat i)) [\<lparr>iov_base = 10, iov_len = 3\<rparr>, \<lparr>iov_base = 50, iov_len = 2\<rparr>] [] =
     Some (Inr (), w') \<and> w' = [10, 11, 12, 50, 51]"
proof -
  have "writes_stream (two_bytes (\<lambda>i. of_nat i)) (\<lambda>i. of_nat i) (\<lambda>w. w)"
    unfolding writes_stream_def two_bytes_def
    by (simp add: length_gather [of "\<lambda>i. of_nat i", symmetric] min_def del: sum_list_eq_0_iff)
  from WritevFull_delivers [OF this, of "[\<lparr>iov_base = 10, iov_len = 3\<rparr>, \<lparr>iov_base = 50, iov_len = 2\<rparr>]" "[]"]
  show ?thesis by (simp add: gather_def pad_def upt_rec)
qed

end
