(* ===== verification/Disk_Server.thy ===== *)
theory Disk_Server
  imports Disk_Monitor Vector_IO
begin

text \<open>
  The disk server: the part common to all backends (\<open>sandook/disk_server/storage_server.cc\<close>),
  the in-memory, POSIX and SPDK backends (\<open>mem_server.cc\<close>, \<open>blk_server.cc\<close>,
  \<open>spdk_server.cc\<close>) and the handler that decodes requests (\<open>disk_conn_handler.cc\<close>). The
  system calls and the SPDK runtime are arguments. The clock readings and the core of a request are
  given with it as a \<open>tick\<close>. The locale \<open>block_store\<close> is what the handler needs of a backend:
  writes are read back and change nothing else.
\<close>

section \<open>Common part\<close>

record StorageServer =
  ss_name :: string
  ss_server_id :: ServerID
  mon :: DiskMonitor

record tick =
  t_cpu :: nat
  t_arrive :: nat
  t_start :: nat
  t_end :: nat

text \<open>\<open>payload.last (n)\<close>.\<close>

definition last_bytes :: "nat \<Rightarrow> byte list \<Rightarrow> byte list status" where
  "last_bytes n payload = (if n \<le> length payload then Inr (drop (length payload - n) payload) else Inl Out_of_range)"

definition HandleUpdateServerStatsReply :: "dbl_codec \<Rightarrow> nat \<Rightarrow> StorageServer \<Rightarrow> byte list \<Rightarrow> StorageServer status" where
  "HandleUpdateServerStatsReply dc now s payload =
     (if length payload < sizeof_UpdateServerStatsReplyMsg then MakeError EINVAL
      else bindS (last_bytes sizeof_UpdateServerStatsReplyMsg payload) (\<lambda>bs.
        bindS (take_UpdateServerStatsReplyMsg dc bs) (\<lambda>(msg, _).
          Inr (s\<lparr>mon := SetModeAndWeights (mon s) (ur_mode msg) (ur_read_weight msg) (ur_write_weight msg) now\<rparr>))))"

definition HandleRegisterServerReply :: "(real \<Rightarrow> real) \<Rightarrow> (string \<Rightarrow> LoadLatency option) \<Rightarrow> StorageServer \<Rightarrow>
    byte list \<Rightarrow> StorageServer status" where
  "HandleRegisterServerReply rnd LoadModel s payload =
     (if length payload < sizeof_RegisterServerReplyMsg then MakeError EINVAL
      else bindS (last_bytes sizeof_RegisterServerReplyMsg payload) (\<lambda>bs.
        bindS (take_RegisterServerReplyMsg bs) (\<lambda>(msg, _).
          let s1 = s\<lparr>ss_server_id := rr_server_id msg\<rparr>;
              m1 = SetServerName (SetServerID (mon s1) (ss_server_id s1)) (ss_name s1)
          in bindS (SetIsRejectionsEnabled rnd LoadModel m1 (rr_is_rejections_enabled msg)) (\<lambda>m2.
               Inr (s1\<lparr>mon := m2\<rparr>)))))"

text \<open>
  Registration in the constructor and one round of the thread that reports statistics. \<open>call\<close> is the
  RPC to the controller: the bytes of the reply and the controller afterwards.
\<close>

type_synonym 'c rpc_call = "'c \<Rightarrow> byte list \<Rightarrow> byte list \<times> 'c"

definition StorageServer_register :: "(real \<Rightarrow> real) \<Rightarrow> (string \<Rightarrow> LoadLatency option) \<Rightarrow> memory \<Rightarrow> 'c rpc_call \<Rightarrow>
    'c \<Rightarrow> nat \<Rightarrow> string \<Rightarrow> int \<Rightarrow> string \<Rightarrow> nat \<Rightarrow> (StorageServer \<times> 'c) status" where
  "StorageServer_register rnd LoadModel junk call c ncores ip port name nsectors =
     bindS (CreateRegisterServerMsg junk ip port name nsectors) (\<lambda>req.
       let (resp, c') = call c req
       in case HandleRegisterServerReply rnd LoadModel
                 \<lparr>ss_name = name, ss_server_id = 0, mon = DiskMonitor_init ncores\<rparr> resp of
            Inl (Errno _) \<Rightarrow> Inl Runtime_error | Inl e \<Rightarrow> Inl e | Inr s \<Rightarrow> Inr (s, c'))"

definition ControllerStatsUpdater_round :: "(real \<Rightarrow> real) \<Rightarrow> dbl_codec \<Rightarrow> memory \<Rightarrow> 'c rpc_call \<Rightarrow> nat \<Rightarrow> nat \<Rightarrow> nat \<Rightarrow> nat \<Rightarrow>
    StorageServer \<Rightarrow> 'c \<Rightarrow> (StorageServer \<times> 'c) status" where
  "ControllerStatsUpdater_round rnd dc junk call cpu now now' now'' s c =
     (let (st, m1) = UpdateAndGetServerStats rnd cpu (mon s) now now';
          s1 = s\<lparr>mon := m1\<rparr>;
          (resp, c1) = call c (CreateUpdateServerStatsMsg dc junk (ss_server_id s1) st)
      in bindS (expected (HandleUpdateServerStatsReply dc now'' s1 resp)) (\<lambda>r.
           let s2 = (case r of None \<Rightarrow> s1 | Some s' \<Rightarrow> s');
               (_, c2) = call c1 (CreateCommitServerModeMsg junk (ss_server_id s2) (m_mode (mon s2)))
           in Inr (s2, c2)))"

definition GetMsgResponseSize :: "StorageOpMsg \<Rightarrow> nat" where
  "GetMsgResponseSize msg = (if get_op (so_iod msg) = Op_kRead
     then unat (push_bit kSectorShift (num_sectors (so_iod msg))) else 0)"

definition HandleRejection :: "nat \<Rightarrow> OpType \<Rightarrow> StorageServer \<Rightarrow> StorageServer" where
  "HandleRejection cpu op s = (case op of
     Op_kRead \<Rightarrow> s\<lparr>mon := ReadRejected cpu (mon s)\<rparr>
   | Op_kWrite \<Rightarrow> s\<lparr>mon := WriteRejected cpu (mon s)\<rparr>
   | _ \<Rightarrow> s)"

text \<open>A read or write between its two hooks; the device operation \<open>io\<close> acts on the device only.\<close>

definition hooked_read :: "tick \<Rightarrow> StorageServer \<Rightarrow> 'a status \<Rightarrow> StorageServer" where
  "hooked_read t s r = (let (start_time, m1) = ReadStarted (t_cpu t) (mon s) (t_start t)
     in s\<lparr>mon := ReadCompleted (t_cpu t) m1 (t_end t) start_time (is_ok r)\<rparr>)"

definition hooked_write :: "tick \<Rightarrow> StorageServer \<Rightarrow> 'a status \<Rightarrow> StorageServer" where
  "hooked_write t s r = (let (start_time, m1) = WriteStarted (t_cpu t) (mon s) (t_start t)
     in s\<lparr>mon := WriteCompleted (t_cpu t) m1 (t_end t) start_time (is_ok r)\<rparr>)"

text \<open>The length of a request in bytes, an \<open>unsigned int\<close> that the result converts to \<open>int\<close>.\<close>

definition op_len :: "IODesc \<Rightarrow> u32" where
  "op_len iod = push_bit kSectorShift (num_sectors iod)"

section \<open>The in-memory backend\<close>

record MemServer =
  ms_server :: StorageServer
  ms_buf :: "byte list"

definition kBlockSizeBytes :: nat where "kBlockSizeBytes = 4096"
definition kCapacityBytes :: nat where "kCapacityBytes = 2 ^ 33"

text \<open>The constructor; \<open>name\<close> is the prefix with the random suffix it draws.\<close>

definition MemServer_init :: "(real \<Rightarrow> real) \<Rightarrow> (string \<Rightarrow> LoadLatency option) \<Rightarrow> memory \<Rightarrow> 'c rpc_call \<Rightarrow>
    'c \<Rightarrow> nat \<Rightarrow> string \<Rightarrow> int \<Rightarrow> string \<Rightarrow> (MemServer \<times> 'c) status" where
  "MemServer_init rnd LoadModel junk call c ncores ip port suffix =
     bindS (StorageServer_register rnd LoadModel junk call c ncores ip port (''memserver_'' @ suffix)
       (kCapacityBytes div kBlockSizeBytes))
       (\<lambda>(s, c'). Inr (\<lparr>ms_server = s, ms_buf = replicate kCapacityBytes 0\<rparr>, c'))"

definition mem_range :: "byte list \<Rightarrow> nat \<Rightarrow> u64 \<Rightarrow> nat status" where
  "mem_range buf n start_lba =
     (let off = start_lba * of_nat kBlockSizeBytes
      in assertS (unat off < length buf) (assertS (unat (off + of_nat n) < length buf) (Inr (unat off))))"

definition HandleReadOp :: "byte list \<Rightarrow> nat \<Rightarrow> u64 \<Rightarrow> byte list status" where
  "HandleReadOp buf n start_lba = bindS (mem_range buf n start_lba) (\<lambda>off. Inr (take n (drop off buf)))"

definition HandleWriteOp :: "byte list \<Rightarrow> byte list \<Rightarrow> u64 \<Rightarrow> byte list status" where
  "HandleWriteOp buf src start_lba = bindS (mem_range buf (length src) start_lba) (\<lambda>off.
     Inr (take off buf @ src @ drop (off + length src) buf))"

definition MemServer_HandleStorageOp :: "tick \<Rightarrow> MemServer \<Rightarrow> StorageOpMsg \<Rightarrow> byte list \<Rightarrow> nat \<Rightarrow>
    MemServer \<times> (int \<times> byte list) status" where
  "MemServer_HandleStorageOp t s msg req_payload resp_size =
     (let iod = so_iod msg; start_lba = start_sector iod; l = op_len iod
      in case get_op iod of
           Op_kRead \<Rightarrow>
             if unat l \<noteq> resp_size then (s, Inl Assertion)
             else let r = HandleReadOp (ms_buf s) resp_size start_lba
                  in (s\<lparr>ms_server := hooked_read t (ms_server s) r\<rparr>, bindS r (\<lambda>dst. Inr (sint l, dst)))
         | Op_kWrite \<Rightarrow>
             if unat l \<noteq> length req_payload then (s, Inl Assertion)
             else (case HandleWriteOp (ms_buf s) req_payload start_lba of
                     Inl e \<Rightarrow> (s\<lparr>ms_server := hooked_write t (ms_server s) (Inl e :: unit status)\<rparr>, Inl e)
                   | Inr buf \<Rightarrow> (s\<lparr>ms_server := hooked_write t (ms_server s) (Inr ()), ms_buf := buf\<rparr>, Inr (sint l, [])))
         | _ \<Rightarrow> (s, MakeError EINVAL))"

section \<open>The POSIX backend\<close>

text \<open>
  The system calls on the descriptor, as functions of the state of the device: \<open>None\<close> is success and
  \<open>Some code\<close> the value of \<open>errno\<close> after a result of \<open>-1\<close>.
\<close>

record 'd posix =
  px_lseek :: "'d \<Rightarrow> nat \<Rightarrow> nat option \<times> 'd"
  px_read :: "'d reader"
  px_write :: "'d writer"
  px_fdatasync :: "'d \<Rightarrow> nat option \<times> 'd"
  px_fallocate :: "'d \<Rightarrow> bool \<Rightarrow> nat \<Rightarrow> nat \<Rightarrow> nat option \<times> 'd"

record 'd BlkServer =
  bs_server :: StorageServer
  bs_dev :: 'd

definition BlkServer_Seek :: "'d posix \<Rightarrow> nat \<Rightarrow> 'd \<Rightarrow> unit status \<times> 'd" where
  "BlkServer_Seek P offset d = (case px_lseek P d offset of
     (Some code, d') \<Rightarrow> (MakeError (int code), d') | (None, d') \<Rightarrow> (Inr (), d'))"

definition BlkServer_HandleRead :: "'d posix \<Rightarrow> nat \<Rightarrow> nat \<Rightarrow> nat \<Rightarrow> 'd \<Rightarrow> byte list status \<times> 'd" where
  "BlkServer_HandleRead P offset l resp_size d =
     (if \<not> l \<le> resp_size then (Inl Assertion, d)
      else case BlkServer_Seek P offset d of
             (Inl e, d') \<Rightarrow> (Inl e, d') | (Inr _, d') \<Rightarrow> fd_ReadFull (px_read P) resp_size d')"

definition BlkServer_HandleWrite :: "'d posix \<Rightarrow> nat \<Rightarrow> nat \<Rightarrow> byte list \<Rightarrow> 'd \<Rightarrow> unit status \<times> 'd" where
  "BlkServer_HandleWrite P offset l req_payload d =
     (if \<not> l \<le> length req_payload then (Inl Assertion, d)
      else case BlkServer_Seek P offset d of
             (Inl e, d') \<Rightarrow> (Inl e, d') | (Inr _, d') \<Rightarrow> fd_WriteFull (px_write P) req_payload d')"

text \<open>Both calls below return \<open>-1\<close> on failure, and that value, not \<open>errno\<close>, is passed on.\<close>

definition BlkServer_HandleFlush :: "'d posix \<Rightarrow> 'd \<Rightarrow> unit status \<times> 'd" where
  "BlkServer_HandleFlush P d = (case px_fdatasync P d of
     (Some _, d') \<Rightarrow> (MakeError (- 1), d') | (None, d') \<Rightarrow> (Inr (), d'))"

definition BlkServer_HandleDiscard :: "'d posix \<Rightarrow> bool \<Rightarrow> nat \<Rightarrow> nat \<Rightarrow> 'd \<Rightarrow> unit status \<times> 'd" where
  "BlkServer_HandleDiscard P zero offset l d = (case BlkServer_Seek P offset d of
     (Inl e, d') \<Rightarrow> (Inl e, d')
   | (Inr _, d') \<Rightarrow> (case px_fallocate P d' zero offset l of
        (Some _, d'') \<Rightarrow> (MakeError (- 1), d'') | (None, d'') \<Rightarrow> (Inr (), d'')))"

definition BlkServer_HandleStorageOp :: "'d posix \<Rightarrow> tick \<Rightarrow> 'd BlkServer \<Rightarrow> StorageOpMsg \<Rightarrow> byte list \<Rightarrow> nat \<Rightarrow>
    'd BlkServer \<times> (int \<times> byte list) status" where
  "BlkServer_HandleStorageOp P t s msg req_payload resp_size =
     (let iod = so_iod msg; l = op_len iod; offset = unat (push_bit kSectorShift (start_sector iod))
      in case get_op iod of
           Op_kRead \<Rightarrow> (case BlkServer_HandleRead P offset (unat l) resp_size (bs_dev s) of (r, d) \<Rightarrow>
             (s\<lparr>bs_server := hooked_read t (bs_server s) r, bs_dev := d\<rparr>, bindS r (\<lambda>dst. Inr (sint l, dst))))
         | Op_kWrite \<Rightarrow> (case BlkServer_HandleWrite P offset (unat l) req_payload (bs_dev s) of (r, d) \<Rightarrow>
             (s\<lparr>bs_server := hooked_write t (bs_server s) r, bs_dev := d\<rparr>, bindS r (\<lambda>_. Inr (sint l, []))))
         | Op_kFlush \<Rightarrow> (case BlkServer_HandleFlush P (bs_dev s) of (r, d) \<Rightarrow>
             (s\<lparr>bs_dev := d\<rparr>, bindS r (\<lambda>_. Inr (0, []))))
         | Op_kWriteZeroes \<Rightarrow> (case BlkServer_HandleDiscard P True offset (unat l) (bs_dev s) of (r, d) \<Rightarrow>
             (s\<lparr>bs_dev := d\<rparr>, bindS r (\<lambda>_. Inr (0, []))))
         | Op_kDiscard \<Rightarrow> (case BlkServer_HandleDiscard P False offset (unat l) (bs_dev s) of (r, d) \<Rightarrow>
             (s\<lparr>bs_dev := d\<rparr>, bindS r (\<lambda>_. Inr (0, []))))
         | _ \<Rightarrow> (s, MakeError EINVAL))"

section \<open>The SPDK backend\<close>

text \<open>
  The storage calls of the runtime (\<open>sandook/bindings/storage.h\<close>): the code is the negated return value,
  0 for success; a read also returns the bytes of the blocks it read.
\<close>

record 'd spdk =
  sp_read :: "'d \<Rightarrow> u64 \<Rightarrow> nat \<Rightarrow> (nat + byte list) \<times> 'd"
  sp_write :: "'d \<Rightarrow> byte list \<Rightarrow> u64 \<Rightarrow> nat \<Rightarrow> nat \<times> 'd"
  sp_deallocate :: "'d \<Rightarrow> u64 \<Rightarrow> nat \<Rightarrow> nat \<times> 'd"
  sp_block_size :: nat

definition Storage_Read :: "'d spdk \<Rightarrow> nat \<Rightarrow> u64 \<Rightarrow> 'd \<Rightarrow> byte list status \<times> 'd" where
  "Storage_Read D n start_lba d = (case sp_read D d start_lba (n div sp_block_size D) of
     (Inl ret, d') \<Rightarrow> (MakeError (int ret), d') | (Inr dst, d') \<Rightarrow> (Inr dst, d'))"

definition Storage_Write :: "'d spdk \<Rightarrow> byte list \<Rightarrow> u64 \<Rightarrow> 'd \<Rightarrow> unit status \<times> 'd" where
  "Storage_Write D src start_lba d = (case sp_write D d src start_lba (length src div sp_block_size D) of
     (ret, d') \<Rightarrow> (if ret \<noteq> 0 then MakeError (int ret) else Inr (), d'))"

definition Storage_Deallocate :: "'d spdk \<Rightarrow> u64 \<Rightarrow> nat \<Rightarrow> 'd \<Rightarrow> unit status \<times> 'd" where
  "Storage_Deallocate D start_lba n d = (case sp_deallocate D d start_lba n of
     (ret, d') \<Rightarrow> (if ret \<noteq> 0 then MakeError (int ret) else Inr (), d'))"

record 'd SPDKServer =
  sp_server :: StorageServer
  sp_dev :: 'd

definition SPDKServer_HandleStorageOp :: "'d spdk \<Rightarrow> tick \<Rightarrow> 'd SPDKServer \<Rightarrow> StorageOpMsg \<Rightarrow> byte list \<Rightarrow> nat \<Rightarrow>
    'd SPDKServer \<times> (int \<times> byte list) status" where
  "SPDKServer_HandleStorageOp D t s msg req_payload resp_size =
     (let iod = so_iod msg; start_lba = start_sector iod; l = op_len iod
      in case get_op iod of
           Op_kRead \<Rightarrow>
             if unat l \<noteq> resp_size then (s, Inl Assertion)
             else (case Storage_Read D resp_size start_lba (sp_dev s) of (r, d) \<Rightarrow>
                     (s\<lparr>sp_server := hooked_read t (sp_server s) r, sp_dev := d\<rparr>, bindS r (\<lambda>dst. Inr (sint l, dst))))
         | Op_kWrite \<Rightarrow>
             if unat l \<noteq> length req_payload then (s, Inl Assertion)
             else (case Storage_Write D req_payload start_lba (sp_dev s) of (r, d) \<Rightarrow>
                     (s\<lparr>sp_server := hooked_write t (sp_server s) r, sp_dev := d\<rparr>, bindS r (\<lambda>_. Inr (sint l, []))))
         | Op_kDiscard \<Rightarrow> (case Storage_Deallocate D start_lba (unat (num_sectors iod)) (sp_dev s) of (r, d) \<Rightarrow>
                     (s\<lparr>sp_dev := d\<rparr>, bindS r (\<lambda>_. Inr (sint l, []))))
         | _ \<Rightarrow> (s, MakeError EINVAL))"

fun SPDKServer_HandleDiscardBlocks :: "'d spdk \<Rightarrow> ServerBlockAddr list \<Rightarrow> 'd \<Rightarrow> unit status \<times> 'd" where
  "SPDKServer_HandleDiscardBlocks D [] d = (Inr (), d)"
| "SPDKServer_HandleDiscardBlocks D (blk_addr # blocks) d = (case Storage_Deallocate D blk_addr 1 d of
     (Inl e, d') \<Rightarrow> (Inl e, d') | (Inr _, d') \<Rightarrow> SPDKServer_HandleDiscardBlocks D blocks d')"

section \<open>The connection handler\<close>

text \<open>
  The virtual functions of the server the handler is given: the common part, the storage
  operation and the discarding of blocks (\<open>ENOTSUP\<close> unless the backend overrides it).
\<close>

record 's backend =
  be_server :: "'s \<Rightarrow> StorageServer"
  be_set_server :: "StorageServer \<Rightarrow> 's \<Rightarrow> 's"
  be_op :: "tick \<Rightarrow> 's \<Rightarrow> StorageOpMsg \<Rightarrow> byte list \<Rightarrow> nat \<Rightarrow> 's \<times> (int \<times> byte list) status"
  be_discard :: "ServerBlockAddr list \<Rightarrow> 's \<Rightarrow> 's \<times> unit status"

definition mem_backend :: "MemServer backend" where
  "mem_backend = \<lparr>be_server = ms_server, be_set_server = (\<lambda>x s. s\<lparr>ms_server := x\<rparr>),
     be_op = MemServer_HandleStorageOp, be_discard = (\<lambda>_ s. (s, MakeError ENOTSUP))\<rparr>"

definition blk_backend :: "'d posix \<Rightarrow> 'd BlkServer backend" where
  "blk_backend P = \<lparr>be_server = bs_server, be_set_server = (\<lambda>x s. s\<lparr>bs_server := x\<rparr>),
     be_op = BlkServer_HandleStorageOp P, be_discard = (\<lambda>_ s. (s, MakeError ENOTSUP))\<rparr>"

definition spdk_backend :: "'d spdk \<Rightarrow> 'd SPDKServer backend" where
  "spdk_backend D = \<lparr>be_server = sp_server, be_set_server = (\<lambda>x s. s\<lparr>sp_server := x\<rparr>),
     be_op = SPDKServer_HandleStorageOp D,
     be_discard = (\<lambda>blocks s. case SPDKServer_HandleDiscardBlocks D blocks (sp_dev s) of (r, d) \<Rightarrow> (s\<lparr>sp_dev := d\<rparr>, r))\<rparr>"

definition RejectStorageOp :: "'s backend \<Rightarrow> memory \<Rightarrow> tick \<Rightarrow> 's \<Rightarrow> StorageOpMsg \<Rightarrow> StorageOpReplyCode \<Rightarrow> 's \<times> byte list status" where
  "RejectStorageOp B junk t s msg code =
     (be_set_server B (HandleRejection (t_cpu t) (get_op (so_iod msg)) (be_server B s)) s,
      Inr (CreateStorageOpReplyMsg junk (so_iod msg) (so_req_id msg) [] 0 code))"

text \<open>\<open>payload.first (header->len)\<close> and \<open>payload.last (header->payload_size)\<close> must lie in the payload.\<close>

definition Disk_HandleStorageOp :: "'s backend \<Rightarrow> memory \<Rightarrow> tick \<Rightarrow> 's \<Rightarrow> MsgHeader \<Rightarrow> byte list \<Rightarrow> 's \<times> byte list status" where
  "Disk_HandleStorageOp B junk t s header payload =
     (if \<not> sizeof_StorageOpMsg \<le> length payload then (s, Inl Assertion)
      else if \<not> len header \<le> length payload then (s, Inl Out_of_range)
      else case take_StorageOpMsg payload of
        Inl e \<Rightarrow> (s, Inl e)
      | Inr (msg, _) \<Rightarrow>
          if so_affinity msg = kInvalidServerID \<and> get_op (so_iod msg) = Op_kWrite \<and>
             \<not> IsAllowingWrites (mon (be_server B s)) (t_arrive t)
          then RejectStorageOp B junk t s msg Code_kRejectModeMismatch
          else case last_bytes (payload_size header) payload of
            Inl e \<Rightarrow> (s, Inl e)
          | Inr req_payload \<Rightarrow> (case be_op B t s msg req_payload (GetMsgResponseSize msg) of
              (s', Inl e) \<Rightarrow> (s', Inl e)
            | (s', Inr (ret, reply_payload)) \<Rightarrow>
                (s', Inr (CreateStorageOpReplyMsg junk (so_iod msg) (so_req_id msg) reply_payload ret
                   (if IsCongested (mon (be_server B s')) then Code_kSuccessCongested else Code_kSuccess)))))"

definition Disk_HandleDiscardBlocks :: "'s backend \<Rightarrow> 's \<Rightarrow> MsgHeader \<Rightarrow> byte list \<Rightarrow> 's \<times> byte list status" where
  "Disk_HandleDiscardBlocks B s header payload =
     (if \<not> sizeof_StorageOpMsg \<le> length payload then (s, Inl Assertion)
      else if \<not> len header \<le> length payload then (s, Inl Out_of_range)
      else case take_DiscardBlocksMsg payload of
        Inl e \<Rightarrow> (s, Inl e)
      | Inr (msg, _) \<Rightarrow>
          if db_num_blocks msg > kDiscardBatch then (s, Inl Out_of_range)
          else (case be_discard B (take (db_num_blocks msg) (db_blocks msg)) s of
             (s', Inl (Errno _)) \<Rightarrow> (s', Inr []) | (s', Inl e) \<Rightarrow> (s', Inl e) | (s', Inr _) \<Rightarrow> (s', Inr [])))"

definition Disk_HandleMsg :: "'s backend \<Rightarrow> memory \<Rightarrow> tick \<Rightarrow> 's \<Rightarrow> byte list \<Rightarrow> 's \<times> byte list status" where
  "Disk_HandleMsg B junk t s payload = (case take_MsgHeader payload of
     Inl e \<Rightarrow> (s, Inl e)
   | Inr (header, msg) \<Rightarrow> (case type header of
       Msg_kStorageOp \<Rightarrow> (case Disk_HandleStorageOp B junk t s header msg of
         (s', Inl (Errno _)) \<Rightarrow> (s', Inr []) | r \<Rightarrow> r)
     | Msg_kDiscardBlocks \<Rightarrow> Disk_HandleDiscardBlocks B s header msg
     | _ \<Rightarrow> (s, Inr [])))"

section \<open>A backend as a block store\<close>

text \<open>Requests as the virtual disk sends them, and the disk they act on.\<close>

record disk_req =
  rq_iod :: IODesc
  rq_id :: nat
  rq_aff :: ServerID
  rq_data :: "byte list"

definition req_msg :: "memory \<Rightarrow> disk_req \<Rightarrow> byte list" where
  "req_msg junk r = CreateStorageOpMsg junk (rq_iod r) (rq_id r) (rq_aff r) (rq_data r)"

definition req_off :: "disk_req \<Rightarrow> nat" where
  "req_off r = unat (start_sector (rq_iod r)) * kBlockSizeBytes"

definition req_op :: "disk_req \<Rightarrow> OpType" where
  "req_op r = get_op (rq_iod r)"

definition req_len :: "disk_req \<Rightarrow> nat" where
  "req_len r = unat (op_len (rq_iod r))"

definition wf_req :: "nat \<Rightarrow> disk_req \<Rightarrow> bool" where
  "wf_req n r \<longleftrightarrow> req_op r \<in> {Op_kRead, Op_kWrite} \<and> is_u64 (rq_id r) \<and> is_u32 (rq_aff r) \<and>
     req_off r + req_len r < n \<and> req_off r + req_len r < 2 ^ 64 \<and> length (rq_data r) + 72 < 2 ^ 32 \<and>
     length (rq_data r) = (if req_op r = Op_kWrite then req_len r else 0)"

definition disk_spec :: "byte list \<Rightarrow> disk_req \<Rightarrow> byte list \<times> byte list" where
  "disk_spec d r = (if req_op r = Op_kWrite
     then (take (req_off r) d @ rq_data r @ drop (req_off r + req_len r) d, [])
     else (d, take (req_len r) (drop (req_off r) d)))"

definition reply_msg :: "memory \<Rightarrow> disk_req \<Rightarrow> StorageOpReplyCode \<Rightarrow> byte list \<Rightarrow> byte list" where
  "reply_msg junk r c out = CreateStorageOpReplyMsg junk (rq_iod r) (rq_id r) out
     (if c = Code_kRejectModeMismatch then 0 else sint (op_len (rq_iod r))) c"

definition refuses :: "'s backend \<Rightarrow> tick \<Rightarrow> 's \<Rightarrow> disk_req \<Rightarrow> bool" where
  "refuses B t s r \<longleftrightarrow> rq_aff r = kInvalidServerID \<and> req_op r = Op_kWrite \<and>
     \<not> IsAllowingWrites (mon (be_server B s)) (t_arrive t)"

fun disk_run :: "'s backend \<Rightarrow> memory \<Rightarrow> (tick \<times> disk_req) list \<Rightarrow> 's \<Rightarrow> byte list status list \<times> 's" where
  "disk_run B junk [] s = ([], s)"
| "disk_run B junk ((t, r) # rs) s = (let (s', x) = Disk_HandleMsg B junk t s (req_msg junk r);
     (xs, s'') = disk_run B junk rs s' in (x # xs, s''))"

fun spec_run :: "(disk_req \<times> StorageOpReplyCode) list \<Rightarrow> byte list \<Rightarrow> byte list list \<times> byte list" where
  "spec_run [] d = ([], d)"
| "spec_run ((r, c) # rs) d = (let (d', out) = (if c = Code_kRejectModeMismatch then (d, []) else disk_spec d r);
     (outs, d'') = spec_run rs d' in (out # outs, d''))"

lemma take_req_msg:
  assumes "wf_req n r"
  shows "\<exists>body. take_MsgHeader (req_msg junk r) = Inr (\<lparr>len = 56 + length (rq_data r), payload_size = length (rq_data r),
      type = Msg_kStorageOp\<rparr>, body) \<and> length body = 56 + length (rq_data r) \<and> drop 56 body = rq_data r \<and>
      take_StorageOpMsg body = Inr (\<lparr>so_iod = rq_iod r, so_req_id = rq_id r, so_affinity = rq_aff r\<rparr>, rq_data r)"
proof -
  let ?h = "\<lparr>len = 56 + length (rq_data r), payload_size = length (rq_data r), type = Msg_kStorageOp\<rparr>"
  let ?q = "\<lparr>so_iod = rq_iod r, so_req_id = rq_id r, so_affinity = rq_aff r\<rparr>"
  have ok: "ok_MsgHeader ?h" "ok_StorageOpMsg ?q"
    using assms by (auto simp: wf_req_def ok_MsgHeader_def ok_StorageOpMsg_def is_u32_def is_u64_def is_msg_type_def)
  then show ?thesis
    by (simp add: req_msg_def CreateStorageOpMsg_def header.wtake_wput storage_op.wtake_wput storage_op.wput_size)
qed

lemma HandleMsg_request:
  assumes "wf_req n r"
  shows "Disk_HandleMsg B junk t s (req_msg junk' r) =
    (let m = \<lparr>so_iod = rq_iod r, so_req_id = rq_id r, so_affinity = rq_aff r\<rparr> in
     if refuses B t s r then RejectStorageOp B junk t s m Code_kRejectModeMismatch
     else case be_op B t s m (rq_data r) (if req_op r = Op_kRead then req_len r else 0) of
        (s', Inl (Errno _)) \<Rightarrow> (s', Inr []) | (s', Inl e) \<Rightarrow> (s', Inl e)
      | (s', Inr (ret, out)) \<Rightarrow> (s', Inr (CreateStorageOpReplyMsg junk (rq_iod r) (rq_id r) out ret
          (if IsCongested (mon (be_server B s')) then Code_kSuccessCongested else Code_kSuccess))))"
proof -
  obtain body where b: "take_MsgHeader (req_msg junk' r) = Inr (\<lparr>len = 56 + length (rq_data r),
      payload_size = length (rq_data r), type = Msg_kStorageOp\<rparr>, body)" "length body = 56 + length (rq_data r)"
      "drop 56 body = rq_data r"
      "take_StorageOpMsg body = Inr (\<lparr>so_iod = rq_iod r, so_req_id = rq_id r, so_affinity = rq_aff r\<rparr>, rq_data r)"
    using take_req_msg [OF assms] by blast
  then show ?thesis
    by (auto simp: Disk_HandleMsg_def Disk_HandleStorageOp_def last_bytes_def Let_def refuses_def req_op_def
      req_len_def op_len_def GetMsgResponseSize_def RejectStorageOp_def
      split: prod.splits sum.splits fail.splits)
qed

text \<open>
  What the handler needs of a backend. \<open>disk\<close> is the content of the device and \<open>rep\<close> the states in which
  it can serve.
\<close>

locale block_store =
  fixes B :: "'s backend" and disk :: "'s \<Rightarrow> byte list" and rep :: "'s \<Rightarrow> bool"
  assumes op_ok: "rep s \<Longrightarrow> wf_req (length (disk s)) r \<Longrightarrow>
      \<exists>s'. be_op B t s \<lparr>so_iod = rq_iod r, so_req_id = rq_id r, so_affinity = rq_aff r\<rparr> (rq_data r)
             (if req_op r = Op_kRead then req_len r else 0) = (s', Inr (sint (op_len (rq_iod r)), snd (disk_spec (disk s) r))) \<and>
           disk s' = fst (disk_spec (disk s) r) \<and> rep s'"
    and set_server: "disk (be_set_server B x s) = disk s" "rep s \<Longrightarrow> rep (be_set_server B x s)"
begin

lemma handle_ok:
  assumes "rep s" "wf_req (length (disk s)) r"
  shows "\<exists>s' c. Disk_HandleMsg B junk t s (req_msg junk' r) =
      (s', Inr (reply_msg junk r c (if c = Code_kRejectModeMismatch then [] else snd (disk_spec (disk s) r)))) \<and>
    disk s' = (if c = Code_kRejectModeMismatch then disk s else fst (disk_spec (disk s) r)) \<and> rep s' \<and>
    (c = Code_kRejectModeMismatch \<longleftrightarrow> refuses B t s r) \<and>
    c \<in> {Code_kSuccess, Code_kSuccessCongested, Code_kRejectModeMismatch}"
proof (cases "refuses B t s r")
  case True
  with assms show ?thesis
    by (auto simp: HandleMsg_request [OF assms(2)] RejectStorageOp_def reply_msg_def set_server Let_def
      intro!: exI [of _ Code_kRejectModeMismatch])
next
  case False
  obtain s' where "be_op B t s \<lparr>so_iod = rq_iod r, so_req_id = rq_id r, so_affinity = rq_aff r\<rparr> (rq_data r)
      (if req_op r = Op_kRead then req_len r else 0) = (s', Inr (sint (op_len (rq_iod r)), snd (disk_spec (disk s) r)))"
    "disk s' = fst (disk_spec (disk s) r)" "rep s'"
    using op_ok [OF assms, of t] by blast
  with False show ?thesis
    by (intro exI [of _ s'] exI [of _ "if IsCongested (mon (be_server B s')) then Code_kSuccessCongested else Code_kSuccess"])
      (simp add: HandleMsg_request [OF assms(2)] reply_msg_def Let_def)
qed

lemma disk_spec_length: "wf_req (length d) r \<Longrightarrow> length (fst (disk_spec d r)) = length d"
  by (auto simp: disk_spec_def wf_req_def)

lemma run_refines:
  assumes "rep s" "list_all (\<lambda>(t, r). wf_req (length (disk s)) r) rs"
  shows "\<exists>cs. length cs = length rs \<and>
    (let (replies, s') = disk_run B junk rs s; (outs, d') = spec_run (zip (map snd rs) cs) (disk s)
     in disk s' = d' \<and> length outs = length rs \<and>
        replies = map (\<lambda>(r, c, out). Inr (reply_msg junk r c out)) (zip (map snd rs) (zip cs outs)))"
  using assms
proof (induction rs arbitrary: s)
  case Nil
  then show ?case by simp
next
  case (Cons a rs)
  obtain t r where a: "a = (t, r)" by (cases a)
  have w: "wf_req (length (disk s)) r" using Cons.prems a by simp
  obtain s' c where h: "Disk_HandleMsg B junk t s (req_msg junk r) =
      (s', Inr (reply_msg junk r c (if c = Code_kRejectModeMismatch then [] else snd (disk_spec (disk s) r))))"
    "disk s' = (if c = Code_kRejectModeMismatch then disk s else fst (disk_spec (disk s) r))" "rep s'"
    using handle_ok [OF Cons.prems(1) w, of junk t junk] by blast
  have "list_all (\<lambda>(t, r). wf_req (length (disk s')) r) rs"
    using Cons.prems(2) w by (simp add: h(2) disk_spec_length)
  from Cons.IH [OF h(3) this] obtain cs where "length cs = length rs"
    "let (replies, s'') = disk_run B junk rs s'; (outs, d') = spec_run (zip (map snd rs) cs) (disk s')
     in disk s'' = d' \<and> length outs = length rs \<and>
        replies = map (\<lambda>(r, c, out). Inr (reply_msg junk r c out)) (zip (map snd rs) (zip cs outs))" by blast
  then show ?case using h
    by (intro exI [of _ "c # cs"]) (auto simp: a Let_def split: prod.splits if_splits)
qed

end

lemma req_off_word: "unat (start_sector (rq_iod r)) * kBlockSizeBytes < 2 ^ 64 \<Longrightarrow>
    unat (start_sector (rq_iod r) * of_nat kBlockSizeBytes) = req_off r"
  by (simp add: req_off_def unat_word_ariths kBlockSizeBytes_def unat_of_nat)

lemma mem_range_ok:
  assumes "req_off r + n < length buf" "req_off r + n < 2 ^ 64"
  shows "mem_range buf n (start_sector (rq_iod r)) = Inr (req_off r)"
proof -
  have o: "unat (start_sector (rq_iod r) * of_nat kBlockSizeBytes) = req_off r"
    using assms(2) by (intro req_off_word) (simp add: req_off_def)
  then have "unat (start_sector (rq_iod r) * of_nat kBlockSizeBytes + of_nat n :: u64) = req_off r + n"
    using assms(2) by (simp add: unat_word_ariths(1) unat_of_nat)
  with o assms(1) show ?thesis by (simp add: mem_range_def Let_def)
qed

lemma mem_read:
  assumes "wf_req (length (ms_buf s)) r" "req_op r = Op_kRead" "so_iod m = rq_iod r"
  shows "MemServer_HandleStorageOp t s m (rq_data r) (req_len r) =
    (s\<lparr>ms_server := hooked_read t (ms_server s) (Inr (snd (disk_spec (ms_buf s) r)))\<rparr>,
     Inr (sint (op_len (rq_iod r)), snd (disk_spec (ms_buf s) r)))"
proof -
  have "mem_range (ms_buf s) (req_len r) (start_sector (rq_iod r)) = Inr (req_off r)"
    using assms(1) by (intro mem_range_ok) (simp_all add: wf_req_def)
  then show ?thesis using assms(2,3)
    by (simp add: MemServer_HandleStorageOp_def HandleReadOp_def disk_spec_def req_op_def Let_def
      flip: req_len_def)
qed

lemma mem_write:
  assumes "wf_req (length (ms_buf s)) r" "req_op r = Op_kWrite" "so_iod m = rq_iod r"
  shows "MemServer_HandleStorageOp t s m (rq_data r) n =
    (s\<lparr>ms_server := hooked_write t (ms_server s) (Inr ()), ms_buf := fst (disk_spec (ms_buf s) r)\<rparr>,
     Inr (sint (op_len (rq_iod r)), []))"
proof -
  have l: "length (rq_data r) = req_len r" using assms by (simp add: wf_req_def)
  have "mem_range (ms_buf s) (req_len r) (start_sector (rq_iod r)) = Inr (req_off r)"
    using assms(1) by (intro mem_range_ok) (simp_all add: wf_req_def)
  then show ?thesis using assms(2,3) l
    by (simp add: MemServer_HandleStorageOp_def HandleWriteOp_def disk_spec_def req_op_def Let_def
      flip: req_len_def)
qed

lemma wf_req_op: "wf_req n r \<Longrightarrow> req_op r = Op_kRead \<or> req_op r = Op_kWrite"
  by (auto simp: wf_req_def)

interpretation mem_store: block_store mem_backend ms_buf "\<lambda>_. True"
proof unfold_locales
  fix s :: MemServer and r t
  assume w: "wf_req (length (ms_buf s)) r"
  show "\<exists>s'. be_op mem_backend t s \<lparr>so_iod = rq_iod r, so_req_id = rq_id r, so_affinity = rq_aff r\<rparr> (rq_data r)
             (if req_op r = Op_kRead then req_len r else 0) = (s', Inr (sint (op_len (rq_iod r)), snd (disk_spec (ms_buf s) r))) \<and>
           ms_buf s' = fst (disk_spec (ms_buf s) r) \<and> True"
    using wf_req_op [OF w]
    by (elim disjE) (simp_all add: mem_backend_def mem_read [OF w] mem_write [OF w], simp_all add: disk_spec_def)
qed (simp_all add: mem_backend_def)

text \<open>
  The SPDK backend is one too when the device keeps what is written to it: \<open>img\<close> is the content of
  the device, in blocks of the size the sources assume.
\<close>

definition spdk_device :: "'d spdk \<Rightarrow> ('d \<Rightarrow> byte list) \<Rightarrow> bool" where
  "spdk_device D img \<longleftrightarrow> sp_block_size D = 4096 \<and>
     (\<forall>d lba n. unat lba * 4096 + n * 4096 \<le> length (img d) \<longrightarrow>
        (\<exists>d'. sp_read D d lba n = (Inr (take (n * 4096) (drop (unat lba * 4096) (img d))), d') \<and> img d' = img d)) \<and>
     (\<forall>d lba n src. unat lba * 4096 + n * 4096 \<le> length (img d) \<longrightarrow> length src = n * 4096 \<longrightarrow>
        (\<exists>d'. sp_write D d src lba n = (0, d') \<and>
           img d' = take (unat lba * 4096) (img d) @ src @ drop (unat lba * 4096 + n * 4096) (img d)))"

lemma req_len_blocks: "req_len r div 4096 * 4096 = req_len r"
proof -
  have "4096 dvd (unat (num_sectors (rq_iod r)) * 4096) mod 2 ^ 32" by (rule dvd_mod) simp_all
  moreover have "req_len r = (unat (num_sectors (rq_iod r)) * 4096) mod 2 ^ 32"
    by (simp add: req_len_def op_len_def kSectorShift_def push_bit_eq_mult unat_word_ariths)
  ultimately show ?thesis by simp
qed

lemma spdk_store:
  fixes D :: "'d spdk"
  assumes dev: "spdk_device D img"
  shows "block_store (spdk_backend D) (\<lambda>s. img (sp_dev s)) (\<lambda>_. True)"
proof unfold_locales
  fix s :: "'d SPDKServer" and r :: disk_req and t
  let ?s = "img (sp_dev s)"
  let ?m = "\<lparr>so_iod = rq_iod r, so_req_id = rq_id r, so_affinity = rq_aff r\<rparr>"
  assume w: "wf_req (length ?s) r"
  let ?lba = "start_sector (rq_iod r)" and ?n = "req_len r div 4096"
  have fit: "unat ?lba * 4096 + ?n * 4096 \<le> length ?s"
    using w by (simp only: req_len_blocks) (simp add: wf_req_def req_off_def kBlockSizeBytes_def)
  obtain d1 where rd: "sp_read D (sp_dev s) ?lba ?n = (Inr (take (req_len r) (drop (req_off r) ?s)), d1)" "img d1 = ?s"
    using dev fit unfolding spdk_device_def req_off_def kBlockSizeBytes_def by (metis req_len_blocks)
  have len: "req_op r = Op_kWrite \<Longrightarrow> length (rq_data r) = req_len r" using w by (simp add: wf_req_def)
  then obtain d2 where wr: "req_op r = Op_kWrite \<Longrightarrow> sp_write D (sp_dev s) (rq_data r) ?lba ?n = (0, d2) \<and>
      img d2 = take (req_off r) ?s @ rq_data r @ drop (req_off r + req_len r) ?s"
    using dev fit unfolding spdk_device_def req_off_def kBlockSizeBytes_def by (metis req_len_blocks)
  have bs: "sp_block_size D = 4096" using dev by (simp add: spdk_device_def)
  show "\<exists>s'. be_op (spdk_backend D) t s ?m (rq_data r) (if req_op r = Op_kRead then req_len r else 0) =
       (s', Inr (sint (op_len (rq_iod r)), snd (disk_spec ?s r))) \<and> img (sp_dev s') = fst (disk_spec ?s r) \<and> True"
    using wf_req_op [OF w] rd wr len
    by (elim disjE) (simp_all add: spdk_backend_def SPDKServer_HandleStorageOp_def Storage_Read_def
      Storage_Write_def disk_spec_def req_op_def bs Let_def flip: req_len_def)
qed (simp_all add: spdk_backend_def)


definition demo_disk :: MemServer where
  "demo_disk = \<lparr>ms_server = \<lparr>ss_name = ''mem'', ss_server_id = 1, mon = DiskMonitor_init 1\<rparr>, ms_buf = replicate 8193 0\<rparr>"

definition demo_write :: disk_req where
  "demo_write = \<lparr>rq_iod = \<lparr>op_flags = 1, num_sectors = 1, start_sector = 1, addr = 0, callback_args = 0, callback = 0\<rparr>,
     rq_id = 7, rq_aff = 1, rq_data = replicate 4096 5\<rparr>"

definition demo_read :: disk_req where
  "demo_read = demo_write\<lparr>rq_iod := (rq_iod demo_write)\<lparr>op_flags := 0\<rparr>, rq_data := []\<rparr>"


lemma spdk_requests_act_on_a_disk:
  assumes "spdk_device D img" "list_all (\<lambda>(t, r). wf_req (length (img (sp_dev s))) r) rs"
  shows "\<exists>cs. length cs = length rs \<and>
    (let (replies, s') = disk_run (spdk_backend D) junk rs s; (outs, d') = spec_run (zip (map snd rs) cs) (img (sp_dev s))
     in img (sp_dev s') = d' \<and> length outs = length rs \<and>
        replies = map (\<lambda>(r, c, out). Inr (reply_msg junk r c out)) (zip (map snd rs) (zip cs outs)))"
  by (rule block_store.run_refines [OF spdk_store [OF assms(1)] TrueI assms(2)])

text \<open>The bounds checks of the in-memory server are strict: its last block can never be read.\<close>

theorem last_block_rejected:
  assumes "length buf = kCapacityBytes"
  shows "HandleReadOp buf kBlockSizeBytes (of_nat (kCapacityBytes div kBlockSizeBytes - 1)) = Inl Assertion"
  using assms by (simp add: HandleReadOp_def mem_range_def kCapacityBytes_def kBlockSizeBytes_def Let_def assertS_def)

text \<open>A failed \<open>fdatasync\<close> or \<open>fallocate\<close> ends in the assertion of the error class, not in an error.\<close>

theorem flush_failure_asserts:
  assumes "px_fdatasync P d = (Some code, d')"
  shows "BlkServer_HandleFlush P d = (Inl Assertion, d')"
  using assms by (simp add: BlkServer_HandleFlush_def MakeError_def)

end
