(* ===== verification/Block_Allocator.thy ===== *)
theory Block_Allocator
  imports Sandook_Types
begin

text \<open>
  The controller's block allocator (\<open>sandook/controller/block_allocator.h\<close>): a bump pointer per
  disk server. The locale \<open>block_source\<close> is the contract its clients rely on (every batch is
  fresh), and the interpretation at the end shows that the allocator provides it as long as the
  64-bit pointer does not wrap.
\<close>

section \<open>The allocator\<close>

record ServerAllocationState =
  allocation_map :: "bool list"
  next_allocation :: u64

type_synonym BlockAllocator = "ServerAllocationState list"

definition BlockAllocator_init :: BlockAllocator where
  "BlockAllocator_init = replicate kNumMaxServers \<lparr>allocation_map = [], next_allocation = 0\<rparr>"

definition resize :: "bool list \<Rightarrow> nat \<Rightarrow> bool list" where
  "resize xs n = take n xs @ replicate (n - length xs) False"

definition BlockAllocator_AddServer ::
  "BlockAllocator \<Rightarrow> ServerID \<Rightarrow> nat \<Rightarrow> BlockAllocator status" where
  "BlockAllocator_AddServer srv_allocs sid nsectors =
     assertS (sid < kNumMaxServers \<and> sid > kInvalidServerID)
       (bindS (get_at srv_allocs sid) (\<lambda>server.
          put_at srv_allocs sid
            (server\<lparr>allocation_map := resize (allocation_map server) nsectors,
                    next_allocation := 0\<rparr>)))"

definition BlockAllocator_AllocateBlocks ::
  "BlockAllocator \<Rightarrow> ServerID \<Rightarrow> nat \<Rightarrow> (BlockAllocator \<times> ServerBlockInfo list) status" where
  "BlockAllocator_AllocateBlocks srv_allocs sid n =
     assertS (sid < kNumMaxServers \<and> sid > kInvalidServerID)
       (bindS (get_at srv_allocs sid) (\<lambda>server.
          let start_idx = next_allocation server;
              allocs = map (\<lambda>i. \<lparr>sbi_server_id = sid, sbi_block_addr = start_idx + of_nat i\<rparr>) [0..<n]
          in bindS (put_at srv_allocs sid (server\<lparr>next_allocation := start_idx + of_nat n\<rparr>))
               (\<lambda>srv_allocs'. Inr (srv_allocs', allocs))))"

text \<open>Well-formedness: the \<open>std::array\<close> has \<open>kNumMaxServers\<close> slots.\<close>

definition alloc_wf :: "BlockAllocator \<Rightarrow> bool" where
  "alloc_wf a \<longleftrightarrow> length a = kNumMaxServers"

definition valid_sid :: "ServerID \<Rightarrow> bool" where
  "valid_sid sid \<longleftrightarrow> kInvalidServerID < sid \<and> sid < kNumMaxServers"

definition next_of :: "BlockAllocator \<Rightarrow> ServerID \<Rightarrow> nat" where
  "next_of a sid = unat (next_allocation (a ! sid))"

text \<open>The blocks of a server handed out since it was added: every address below its pointer.\<close>

definition issued_blocks :: "BlockAllocator \<Rightarrow> ServerID \<Rightarrow> ServerBlockInfo set" where
  "issued_blocks a sid =
     {\<lparr>sbi_server_id = sid, sbi_block_addr = of_nat i\<rparr> | i. i < next_of a sid}"

section \<open>What an allocation returns\<close>

lemma BlockAllocator_init_wf: "alloc_wf BlockAllocator_init"
  by (simp add: alloc_wf_def BlockAllocator_init_def)

lemma AllocateBlocks_eq:
  assumes "alloc_wf a" "valid_sid sid"
  shows "BlockAllocator_AllocateBlocks a sid n =
    Inr (a[sid := (a ! sid)\<lparr>next_allocation := next_allocation (a ! sid) + of_nat n\<rparr>],
         map (\<lambda>i. \<lparr>sbi_server_id = sid, sbi_block_addr = next_allocation (a ! sid) + of_nat i\<rparr>) [0..<n])"
  using assms
  by (simp add: BlockAllocator_AllocateBlocks_def alloc_wf_def valid_sid_def Let_def)

lemma AllocateBlocks_invalid:
  "\<not> valid_sid sid \<Longrightarrow> BlockAllocator_AllocateBlocks a sid n = Inl Assertion"
  by (auto simp: BlockAllocator_AllocateBlocks_def valid_sid_def assertS_def)

lemma AllocateBlocks_wf:
  "BlockAllocator_AllocateBlocks a sid n = Inr (a', bs) \<Longrightarrow> alloc_wf a \<Longrightarrow> alloc_wf a'"
  by (auto simp: BlockAllocator_AllocateBlocks_def alloc_wf_def Let_def status_simps)

lemma AddServer_wf:
  "BlockAllocator_AddServer a sid n = Inr a' \<Longrightarrow> alloc_wf a \<Longrightarrow> alloc_wf a'"
  by (auto simp: BlockAllocator_AddServer_def alloc_wf_def status_simps)

lemma AllocateBlocks_other:
  assumes "BlockAllocator_AllocateBlocks a sid n = Inr (a', bs)" "other \<noteq> sid"
  shows "a' ! other = a ! other"
  using assms by (auto simp: BlockAllocator_AllocateBlocks_def Let_def status_simps)

lemma AllocateBlocks_sid:
  assumes "BlockAllocator_AllocateBlocks a sid n = Inr (a', bs)" "b \<in> set bs"
  shows "sbi_server_id b = sid"
  using assms by (auto simp: BlockAllocator_AllocateBlocks_def Let_def status_simps)

lemma AllocateBlocks_addrs:
  assumes "alloc_wf a" "valid_sid sid" "next_of a sid + n < 2 ^ 64"
    and "BlockAllocator_AllocateBlocks a sid n = Inr (a', bs)"
  shows "map (unat \<circ> sbi_block_addr) bs = [next_of a sid ..< next_of a sid + n]"
    and "next_of a' sid = next_of a sid + n"
proof -
  let ?w = "next_allocation (a ! sid)"
  have u: "unat (?w + of_nat i) = unat ?w + i" if "i \<le> n" for i
    using assms(3) that
    by (subst unat_add_no_wrap) (simp_all add: next_of_def unat_of_nat)
  from assms(4) AllocateBlocks_eq [OF assms(1,2), of n]
  have bs: "bs = map (\<lambda>i. \<lparr>sbi_server_id = sid, sbi_block_addr = ?w + of_nat i\<rparr>) [0..<n]"
    and a': "a' = a[sid := (a ! sid)\<lparr>next_allocation := ?w + of_nat n\<rparr>]" by simp_all
  have "map (unat \<circ> sbi_block_addr) bs = map (\<lambda>i. i + unat ?w) [0..<n]"
    by (auto simp: bs u)
  also have "\<dots> = [next_of a sid ..< next_of a sid + n]"
    by (simp add: map_add_upt next_of_def add.commute)
  finally show "map (unat \<circ> sbi_block_addr) bs = [next_of a sid ..< next_of a sid + n]" .
  show "next_of a' sid = next_of a sid + n"
    using assms(1,2) u [of n] by (simp add: a' next_of_def alloc_wf_def valid_sid_def)
qed

lemma issued_blocks_addr:
  assumes "b \<in> issued_blocks a sid"
  shows "unat (sbi_block_addr b) < next_of a sid"
proof -
  from assms obtain i where i: "i < next_of a sid" "sbi_block_addr b = of_nat i"
    by (auto simp: issued_blocks_def)
  have "i < 2 ^ 64"
    using i(1) unsigned_less [of "next_allocation (a ! sid)", where ?'a = nat] by (simp add: next_of_def)
  with i show ?thesis by (simp add: unat_of_nat)
qed

lemma issued_blocksI:
  assumes "sbi_server_id b = sid" "unat (sbi_block_addr b) < next_of a sid"
  shows "b \<in> issued_blocks a sid"
  using assms unfolding issued_blocks_def
  by (intro CollectI exI [of _ "unat (sbi_block_addr b)"]) simp

lemma issued_blocks_iff:
  "b \<in> issued_blocks a sid \<longleftrightarrow>
     sbi_server_id b = sid \<and> unat (sbi_block_addr b) < next_of a sid"
  using issued_blocks_addr [of b a sid] issued_blocksI [of b sid a]
  by (auto simp: issued_blocks_def)

section \<open>The contract of a source of blocks\<close>

text \<open>
  \<open>next_batch\<close> hands out a batch of \<open>batch_size\<close> items or more, \<open>issued\<close> is everything handed out so
  far and \<open>room\<close> a bound on how many more batches stay fresh.
\<close>

locale block_source =
  fixes next_batch :: "'s \<Rightarrow> 's \<times> 'a list"
    and issued :: "'s \<Rightarrow> 'a set"
    and room :: "'s \<Rightarrow> nat"
    and batch_size :: nat
  assumes batch_size: "0 < batch_size"
    and batch_distinct: "0 < room s \<Longrightarrow> next_batch s = (s', bs) \<Longrightarrow> distinct bs"
    and batch_fresh: "0 < room s \<Longrightarrow> next_batch s = (s', bs) \<Longrightarrow> set bs \<inter> issued s = {}"
    and batch_issued: "0 < room s \<Longrightarrow> next_batch s = (s', bs) \<Longrightarrow> issued s' = issued s \<union> set bs"
    and batch_length: "0 < room s \<Longrightarrow> next_batch s = (s', bs) \<Longrightarrow> batch_size \<le> length bs"
    and batch_room: "0 < room s \<Longrightarrow> next_batch s = (s', bs) \<Longrightarrow> room s \<le> Suc (room s')"

text \<open>A batch of \<open>n\<close> blocks of one server, and the number of batches before the pointer wraps.\<close>

definition server_batch ::
  "ServerID \<Rightarrow> nat \<Rightarrow> BlockAllocator \<Rightarrow> BlockAllocator \<times> ServerBlockInfo list" where
  "server_batch sid n a =
     (case BlockAllocator_AllocateBlocks a sid n of Inl _ \<Rightarrow> (a, []) | Inr r \<Rightarrow> r)"

definition server_room :: "ServerID \<Rightarrow> nat \<Rightarrow> BlockAllocator \<Rightarrow> nat" where
  "server_room sid n a =
     (if alloc_wf a \<and> valid_sid sid then (2 ^ 64 - 1 - next_of a sid) div n else 0)"

lemma server_room_pos:
  assumes "0 < n" "0 < server_room sid n a"
  shows "alloc_wf a" "valid_sid sid" "next_of a sid + n < 2 ^ 64"
proof -
  show wf: "alloc_wf a" and sid: "valid_sid sid"
    using assms(2) by (auto simp: server_room_def split: if_splits)
  have "0 < (2 ^ 64 - 1 - next_of a sid) div n"
    using assms(2) wf sid by (simp only: server_room_def) simp
  then have "n \<le> 2 ^ 64 - 1 - next_of a sid"
    using assms(1) by (metis div_greater_zero_iff)
  then show "next_of a sid + n < 2 ^ 64" using assms(1) by linarith
qed

lemma server_batch_facts:
  assumes "0 < n" "0 < server_room sid n a" "server_batch sid n a = (a', bs)"
  shows "BlockAllocator_AllocateBlocks a sid n = Inr (a', bs)"
    and "map (unat \<circ> sbi_block_addr) bs = [next_of a sid ..< next_of a sid + n]"
    and "next_of a' sid = next_of a sid + n"
    and "alloc_wf a'"
proof -
  note wf = server_room_pos [OF assms(1,2)]
  show eq: "BlockAllocator_AllocateBlocks a sid n = Inr (a', bs)"
    using assms(3) AllocateBlocks_eq [OF wf(1,2), of n] by (simp add: server_batch_def)
  from AllocateBlocks_addrs [OF wf eq]
  show "map (unat \<circ> sbi_block_addr) bs = [next_of a sid ..< next_of a sid + n]"
    and "next_of a' sid = next_of a sid + n" .
  show "alloc_wf a'" using AllocateBlocks_wf [OF eq wf(1)] .
qed

lemma AllocateBlocks_range:
  assumes "alloc_wf a" "valid_sid sid" "next_of a sid + n < 2 ^ 64"
    and "BlockAllocator_AllocateBlocks a sid n = Inr (a', bs)" "b \<in> set bs"
  shows "sbi_server_id b = sid \<and> next_of a sid \<le> unat (sbi_block_addr b) \<and>
    unat (sbi_block_addr b) < next_of a sid + n"
proof -
  have "unat (sbi_block_addr b) \<in> set (map (unat \<circ> sbi_block_addr) bs)" using assms(5) by simp
  then show ?thesis
    unfolding AllocateBlocks_addrs(1) [OF assms(1-4)] using AllocateBlocks_sid [OF assms(4,5)] by simp
qed

lemma server_batch_addr:
  assumes "0 < n" "0 < server_room sid n a" "server_batch sid n a = (a', bs)" "b \<in> set bs"
  shows "sbi_server_id b = sid \<and> next_of a sid \<le> unat (sbi_block_addr b) \<and>
    unat (sbi_block_addr b) < next_of a sid + n"
  by (rule AllocateBlocks_range [OF server_room_pos [OF assms(1,2)] server_batch_facts(1) [OF assms(1-3)] assms(4)])

lemma server_batch_issued:
  assumes "0 < n" "0 < server_room sid n a" "server_batch sid n a = (a', bs)"
  shows "issued_blocks a' sid = issued_blocks a sid \<union> set bs"
proof -
  note f = server_batch_facts [OF assms]
  have new: "b \<in> set bs" if "sbi_server_id b = sid" "next_of a sid \<le> unat (sbi_block_addr b)"
    "unat (sbi_block_addr b) < next_of a sid + n" for b
  proof -
    have "unat (sbi_block_addr b) \<in> set (map (unat \<circ> sbi_block_addr) bs)"
      unfolding f(2) using that by simp
    then obtain c where c: "c \<in> set bs" "unat (sbi_block_addr c) = unat (sbi_block_addr b)" by auto
    moreover have "sbi_server_id c = sid" using AllocateBlocks_sid [OF f(1) c(1)] .
    ultimately have "c = b" using that(1) by (simp add: word_unat_eq_iff)
    with c(1) show ?thesis by simp
  qed
  have "b \<in> issued_blocks a' sid \<longleftrightarrow> b \<in> issued_blocks a sid \<or> b \<in> set bs" for b
    using server_batch_addr [OF assms, of b] new [of b]
    by (cases "unat (sbi_block_addr b) < next_of a sid") (auto simp: issued_blocks_iff f(3))
  then show ?thesis by blast
qed

lemma server_batch_room:
  assumes "0 < n" "0 < server_room sid n a" "server_batch sid n a = (a', bs)"
  shows "server_room sid n a \<le> Suc (server_room sid n a')"
proof -
  note f = server_batch_facts [OF assms] and wf = server_room_pos [OF assms(1,2)]
  let ?r = "2 ^ 64 - 1 - next_of a sid :: nat"
  have "2 ^ 64 - 1 - next_of a' sid = ?r - n" by (simp add: f(3))
  moreover have "n \<le> ?r" using wf(3) by linarith
  ultimately have "?r div n = Suc ((2 ^ 64 - 1 - next_of a' sid) div n)"
    using assms(1) by (simp only: le_div_geq)
  then show ?thesis using wf f(4) by (simp add: server_room_def)
qed

interpretation allocator: block_source "server_batch sid kAllocationBatch"
  "\<lambda>a. issued_blocks a sid" "server_room sid kAllocationBatch" kAllocationBatch for sid
proof (unfold_locales, goal_cases)
  case 1
  show ?case by (simp add: kAllocationBatch_def)
next
  case (2 s s' bs)
  have "distinct (map (unat \<circ> sbi_block_addr) bs)"
    using server_batch_facts(2) [OF _ 2] by (simp add: kAllocationBatch_def)
  then show ?case by (simp add: distinct_map)
next
  case (3 s s' bs)
  have "unat (sbi_block_addr b) < next_of s sid" if "b \<in> issued_blocks s sid" for b
    using issued_blocks_addr [OF that] .
  then show ?case
    using server_batch_addr [OF _ 3] by (fastforce simp: kAllocationBatch_def)
next
  case (4 s s' bs)
  then show ?case by (intro server_batch_issued) (simp_all add: kAllocationBatch_def)
next
  case (5 s s' bs)
  have "length bs = kAllocationBatch"
    using server_batch_facts(2) [OF _ 5] by (metis diff_add_inverse kAllocationBatch_def length_map
        length_upt zero_less_numeral)
  then show ?case by (auto simp: kAllocationBatch_def)
next
  case (6 s s' bs)
  then show ?case by (intro server_batch_room) (simp_all add: kAllocationBatch_def)
qed

section \<open>Any sequence of requests\<close>

text \<open>Requests of several clients, in the order the controller serves them.\<close>

fun allocate_all ::
  "(ServerID \<times> nat) list \<Rightarrow> BlockAllocator \<Rightarrow> (BlockAllocator \<times> ServerBlockInfo list) status" where
  "allocate_all [] a = Inr (a, [])"
| "allocate_all ((sid, n) # reqs) a =
     bindS (BlockAllocator_AllocateBlocks a sid n) (\<lambda>(a1, bs).
       bindS (allocate_all reqs a1) (\<lambda>(a2, bs'). Inr (a2, bs @ bs')))"

definition requested :: "(ServerID \<times> nat) list \<Rightarrow> ServerID \<Rightarrow> nat" where
  "requested reqs sid = sum_list (map (\<lambda>(s, n). if s = sid then n else 0) reqs)"

lemma requested_Cons:
  "requested ((s, n) # reqs) sid = (if s = sid then n else 0) + requested reqs sid"
  by (simp add: requested_def)

lemma next_of_AllocateBlocks:
  assumes "alloc_wf a" "valid_sid sid" "next_of a sid + n < 2 ^ 64"
    and "BlockAllocator_AllocateBlocks a sid n = Inr (a', bs)"
  shows "next_of a' s = next_of a s + (if s = sid then n else 0)"
  using AllocateBlocks_addrs(2) [OF assms] AllocateBlocks_other [OF assms(4), of s]
  by (auto simp: next_of_def)

lemma allocate_all_ranges:
  assumes "alloc_wf a" "\<And>s n. (s, n) \<in> set reqs \<Longrightarrow> valid_sid s"
    and "\<And>s. valid_sid s \<Longrightarrow> next_of a s + requested reqs s < 2 ^ 64"
  shows "\<exists>a' bs. allocate_all reqs a = Inr (a', bs) \<and> distinct bs \<and>
    length bs = sum_list (map snd reqs) \<and>
    (\<forall>b \<in> set bs. next_of a (sbi_server_id b) \<le> unat (sbi_block_addr b) \<and>
       unat (sbi_block_addr b) < next_of a (sbi_server_id b) + requested reqs (sbi_server_id b))"
  using assms
proof (induction reqs arbitrary: a)
  case Nil
  then show ?case by simp
next
  case (Cons req reqs)
  obtain sid n where req: "req = (sid, n)" by (cases req)
  have sid: "valid_sid sid" using Cons.prems(2) req by auto
  have room: "next_of a sid + n < 2 ^ 64"
    using Cons.prems(3) [OF sid] req by (simp add: requested_Cons)
  obtain a1 bs where a1: "BlockAllocator_AllocateBlocks a sid n = Inr (a1, bs)"
    using AllocateBlocks_eq [OF Cons.prems(1) sid] by blast
  note nx = next_of_AllocateBlocks [OF Cons.prems(1) sid room a1]
    and addrs = AllocateBlocks_addrs(1) [OF Cons.prems(1) sid room a1]
  have "\<exists>a' bs. allocate_all reqs a1 = Inr (a', bs) \<and> distinct bs \<and>
    length bs = sum_list (map snd reqs) \<and>
    (\<forall>b \<in> set bs. next_of a1 (sbi_server_id b) \<le> unat (sbi_block_addr b) \<and>
       unat (sbi_block_addr b) < next_of a1 (sbi_server_id b) + requested reqs (sbi_server_id b))"
  proof (rule Cons.IH)
    show "alloc_wf a1" using AllocateBlocks_wf [OF a1 Cons.prems(1)] .
    show "valid_sid s" if "(s, k) \<in> set reqs" for s k using Cons.prems(2) that by auto
    show "next_of a1 s + requested reqs s < 2 ^ 64" if "valid_sid s" for s
      using Cons.prems(3) [OF that] nx [of s] req by (simp add: requested_Cons split: if_splits)
  qed
  then obtain a2 bs' where r: "allocate_all reqs a1 = Inr (a2, bs')" "distinct bs'"
    "length bs' = sum_list (map snd reqs)"
    and rng: "\<And>b. b \<in> set bs' \<Longrightarrow> next_of a1 (sbi_server_id b) \<le> unat (sbi_block_addr b) \<and>
       unat (sbi_block_addr b) < next_of a1 (sbi_server_id b) + requested reqs (sbi_server_id b)"
    by blast
  note b = AllocateBlocks_range [OF Cons.prems(1) sid room a1]
  have "distinct bs" using addrs distinct_upt by (metis distinct_map)
  moreover have "length bs = n" using arg_cong [OF addrs, of length] by simp
  moreover have "set bs \<inter> set bs' = {}" using b rng nx by fastforce
  moreover have "next_of a (sbi_server_id c) \<le> unat (sbi_block_addr c) \<and> unat (sbi_block_addr c)
      < next_of a (sbi_server_id c) + requested (req # reqs) (sbi_server_id c)"
    if "c \<in> set (bs @ bs')" for c
    using that b [of c] rng [of c] nx [of "sbi_server_id c"] req
    by (auto simp: requested_Cons split: if_splits)
  ultimately show ?case using r a1 req by (intro exI [of _ a2] exI [of _ "bs @ bs'"]) simp
qed

lemma allocate_all_sids:
  "allocate_all reqs a = Inr (a', bs) \<Longrightarrow> b \<in> set bs \<Longrightarrow> sbi_server_id b \<in> fst ` set reqs"
proof (induction reqs arbitrary: a bs)
  case Nil
  then show ?case by simp
next
  case (Cons req reqs)
  obtain sid n where req: "req = (sid, n)" by (cases req)
  from Cons.prems(1) req obtain a1 bs1 bs2 where
    "BlockAllocator_AllocateBlocks a sid n = Inr (a1, bs1)"
    "allocate_all reqs a1 = Inr (a', bs2)" "bs = bs1 @ bs2"
    by (auto simp: status_simps)
  then show ?case using Cons.IH [of a1 bs2] Cons.prems(2) AllocateBlocks_sid [of a sid n a1 bs1 b] req
    by auto
qed

section \<open>Properties\<close>

text \<open>
  C15. No block is given out twice: starting from a fresh allocator, any sequence of requests for
  registered servers, by any clients and in any order, succeeds and returns blocks that are
  pairwise distinct across all the replies, with the addresses of each server exactly below the
  number of blocks requested of it (provided that number fits in 64 bits).
\<close>

theorem allocations_never_overlap:
  assumes "\<forall>(s, n) \<in> set reqs. valid_sid s"
    and "\<forall>s. requested reqs s < 2 ^ 64"
  shows "\<exists>a bs. allocate_all reqs BlockAllocator_init = Inr (a, bs) \<and> distinct bs \<and>
    length bs = sum_list (map snd reqs) \<and>
    (\<forall>b \<in> set bs. unat (sbi_block_addr b) < requested reqs (sbi_server_id b))"
proof -
  have z: "next_of BlockAllocator_init s = 0" if "valid_sid s" for s
    using that by (simp add: next_of_def BlockAllocator_init_def valid_sid_def)
  obtain a bs where r: "allocate_all reqs BlockAllocator_init = Inr (a, bs)" "distinct bs"
    "length bs = sum_list (map snd reqs)"
    and rng: "\<And>b. b \<in> set bs \<Longrightarrow> unat (sbi_block_addr b) <
      next_of BlockAllocator_init (sbi_server_id b) + requested reqs (sbi_server_id b)"
    using allocate_all_ranges [OF BlockAllocator_init_wf, of reqs] assms z by fastforce
  have "valid_sid (sbi_server_id b)" if "b \<in> set bs" for b
    using allocate_all_sids [OF r(1) that] assms(1) by auto
  then show ?thesis using r rng z by fastforce
qed

theorem allocations_never_overlap_witness:
  "\<exists>a bs. allocate_all [(1, 3), (2, 2), (1, 4)] BlockAllocator_init = Inr (a, bs) \<and>
    distinct bs \<and> length bs = 9"
proof -
  have "requested [(1, 3), (2, 2), (1, 4)] s < 2 ^ 64" for s
    by (simp add: requested_def)
  then show ?thesis
    using allocations_never_overlap [of "[(1, 3), (2, 2), (1, 4)]"]
    by (auto simp: valid_sid_def kNumMaxServers_def)
qed

end
