(* ===== verification/Core_Local_Cache.thy ===== *)
theory Core_Local_Cache
  imports Block_Allocator "HOL-Library.Multiset"
begin

text \<open>
  The per-core object cache of \<open>sandook/base/core_local_cache.h\<close>. Items are identities, stacks are
  lists with the top at the head, and \<open>new_fn\<close> threads the state of the source the cache draws
  from. \<open>cpus k\<close> is the core the \<open>k\<close>-th preemption-disabled section of a call runs on. A
  \<open>new_fn\<close> that returns nothing makes \<open>reserve\<close> spin, so the loops are partial functions and
  termination is a theorem about sources that produce items.
\<close>

section \<open>State and operations\<close>

record 'a CoreLocalCache =
  per_core_capacity :: nat
  clc_locals :: "'a list list"
  clc_global :: "'a list"

text \<open>\<open>kMaxNumCores\<close> is the \<open>NCPU\<close> of the runtime the program links against, a parameter here.\<close>

definition CoreLocalCache_init :: "nat \<Rightarrow> nat \<Rightarrow> 'a CoreLocalCache" where
  "CoreLocalCache_init kMaxNumCores capacity =
     \<lparr>per_core_capacity = capacity, clc_locals = replicate kMaxNumCores [], clc_global = []\<rparr>"

partial_function (option) reserve_items ::
  "('s \<Rightarrow> 's \<times> 'a list) \<Rightarrow> nat \<Rightarrow> 'a list \<Rightarrow> 's \<Rightarrow> ('a list \<times> 's) option" where
  "reserve_items new_fn global_size items s =
     (if length items < global_size
      then (case new_fn s of (s', new_items) \<Rightarrow>
              reserve_items new_fn global_size (items @ new_items) s')
      else Some (items, s))"

definition CoreLocalCache_reserve ::
  "('s \<Rightarrow> 's \<times> 'a list) \<Rightarrow> 'a CoreLocalCache \<Rightarrow> nat \<Rightarrow> 's \<Rightarrow> ('a CoreLocalCache \<times> 's) option" where
  "CoreLocalCache_reserve new_fn c global_size s =
     map_option (\<lambda>(items, s'). (c\<lparr>clc_global := rev items @ clc_global c\<rparr>, s'))
       (reserve_items new_fn global_size [] s)"

text \<open>The refill loop of the slow path: move items from the global to the local stack.\<close>

fun refill :: "nat \<Rightarrow> 'a list \<Rightarrow> 'a list \<Rightarrow> 'a list \<times> 'a list" where
  "refill cap loc [] = (loc, [])"
| "refill cap loc (g # gs) =
     (if length loc < cap then refill cap (g # loc) gs else (loc, g # gs))"

partial_function (option) CoreLocalCache_get_slow_path ::
  "('s \<Rightarrow> 's \<times> 'a list) \<Rightarrow> (nat \<Rightarrow> nat) \<Rightarrow> nat \<Rightarrow> 'a CoreLocalCache \<Rightarrow> 's
     \<Rightarrow> ('a \<times> 'a CoreLocalCache \<times> 's) option" where
  "CoreLocalCache_get_slow_path new_fn cpus k c s =
     (case refill (per_core_capacity c) (clc_locals c ! cpus k) (clc_global c) of (loc, glob) \<Rightarrow>
        case loc of
          ret # loc' \<Rightarrow> Some (ret, c\<lparr>clc_locals := (clc_locals c)[cpus k := loc'], clc_global := glob\<rparr>, s)
        | [] \<Rightarrow>
            Option.bind
              (CoreLocalCache_reserve new_fn
                 (c\<lparr>clc_locals := (clc_locals c)[cpus k := []], clc_global := glob\<rparr>)
                 (per_core_capacity c) s)
              (\<lambda>r. CoreLocalCache_get_slow_path new_fn cpus (Suc k) (fst r) (snd r)))"

definition CoreLocalCache_get ::
  "('s \<Rightarrow> 's \<times> 'a list) \<Rightarrow> (nat \<Rightarrow> nat) \<Rightarrow> 'a CoreLocalCache \<Rightarrow> 's
     \<Rightarrow> ('a \<times> 'a CoreLocalCache \<times> 's) option" where
  "CoreLocalCache_get new_fn cpus c s =
     (case clc_locals c ! cpus 0 of
        ret # loc' \<Rightarrow> Some (ret, c\<lparr>clc_locals := (clc_locals c)[cpus 0 := loc']\<rparr>, s)
      | [] \<Rightarrow> CoreLocalCache_get_slow_path new_fn cpus 1 c s)"

fun spill :: "nat \<Rightarrow> 'a list \<Rightarrow> 'a list \<Rightarrow> 'a list \<times> 'a list" where
  "spill keep [] glob = ([], glob)"
| "spill keep (x # loc) glob =
     (if length (x # loc) > keep then spill keep loc (x # glob) else (x # loc, glob))"

definition CoreLocalCache_put_slow_path :: "nat \<Rightarrow> 'a CoreLocalCache \<Rightarrow> 'a CoreLocalCache" where
  "CoreLocalCache_put_slow_path cpu c =
     (case spill (max (per_core_capacity c div 2) 1) (clc_locals c ! cpu) (clc_global c) of
        (loc, glob) \<Rightarrow> c\<lparr>clc_locals := (clc_locals c)[cpu := loc], clc_global := glob\<rparr>)"

definition CoreLocalCache_put :: "nat \<Rightarrow> 'a CoreLocalCache \<Rightarrow> 'a \<Rightarrow> 'a CoreLocalCache" where
  "CoreLocalCache_put cpu c item =
     (let c' = c\<lparr>clc_locals := (clc_locals c)[cpu := item # clc_locals c ! cpu]\<rparr>
      in if length (clc_locals c' ! cpu) > per_core_capacity c'
         then CoreLocalCache_put_slow_path cpu c' else c')"

text \<open>A run of calls, each with the cores its sections run on.\<close>

fun CoreLocalCache_gets ::
  "('s \<Rightarrow> 's \<times> 'a list) \<Rightarrow> (nat \<Rightarrow> nat) list \<Rightarrow> 'a CoreLocalCache \<Rightarrow> 's
     \<Rightarrow> ('a list \<times> 'a CoreLocalCache \<times> 's) option" where
  "CoreLocalCache_gets new_fn [] c s = Some ([], c, s)"
| "CoreLocalCache_gets new_fn (cpus # calls) c s =
     Option.bind (CoreLocalCache_get new_fn cpus c s) (\<lambda>(x, c1, s1).
       Option.bind (CoreLocalCache_gets new_fn calls c1 s1) (\<lambda>(xs, c2, s2).
         Some (x # xs, c2, s2)))"

text \<open>The destructor hands every cached item to \<open>delete_fn\<close>, the local stacks first.\<close>

definition CoreLocalCache_destroy :: "'a CoreLocalCache \<Rightarrow> 'a list" where
  "CoreLocalCache_destroy c = concat (clc_locals c) @ clc_global c"

section \<open>Contents\<close>

definition cached :: "'a CoreLocalCache \<Rightarrow> 'a multiset" where
  "cached c = mset (concat (clc_locals c)) + mset (clc_global c)"

definition cache_wf :: "'a CoreLocalCache \<Rightarrow> bool" where
  "cache_wf c \<longleftrightarrow> (\<forall>l \<in> set (clc_locals c). length l \<le> per_core_capacity c)"

lemma mset_concat_update:
  "i < length xss \<Longrightarrow>
     mset (concat (xss[i := ys])) + mset (xss ! i) = mset (concat xss) + mset ys"
proof (induction xss arbitrary: i)
  case Nil
  then show ?case by simp
next
  case (Cons xs xss)
  then show ?case by (cases i) (auto simp: ac_simps)
qed

lemma cached_update:
  assumes "i < length (clc_locals c)"
    and "mset ys + mset g = mset (clc_locals c ! i) + mset (clc_global c)"
  shows "cached (c\<lparr>clc_locals := (clc_locals c)[i := ys], clc_global := g\<rparr>) = cached c"
proof -
  have "mset (concat ((clc_locals c)[i := ys])) + mset g + mset (clc_locals c ! i)
      = mset (concat (clc_locals c)) + (mset ys + mset g)"
    using mset_concat_update [OF assms(1), of ys] by (simp add: ac_simps)
  then show ?thesis unfolding assms(2) by (simp add: cached_def ac_simps)
qed

lemma refill_mset: "refill cap loc glob = (l, g) \<Longrightarrow> mset l + mset g = mset loc + mset glob"
  by (induction cap loc glob rule: refill.induct) (auto split: if_splits)

lemma refill_length: "refill cap loc glob = (l, g) \<Longrightarrow> length loc \<le> cap \<Longrightarrow> length l \<le> cap"
  by (induction cap loc glob rule: refill.induct) (auto split: if_splits)

lemma refill_nonempty:
  "refill cap loc glob = (l, g) \<Longrightarrow> loc \<noteq> [] \<Longrightarrow> l \<noteq> []"
  by (induction cap loc glob rule: refill.induct) (auto split: if_splits)

lemma refill_empty:
  assumes "refill cap [] glob = ([], g)" "0 < cap"
  shows "glob = []" "g = []"
  using assms refill_nonempty by (cases glob; fastforce)+

lemma spill_mset: "spill keep loc glob = (l, g) \<Longrightarrow> mset l + mset g = mset loc + mset glob"
  by (induction keep loc glob rule: spill.induct) (auto split: if_splits)

lemma spill_length: "spill keep loc glob = (l, g) \<Longrightarrow> length l \<le> keep"
  by (induction keep loc glob rule: spill.induct) (auto split: if_splits)

lemma spill_keeps: "spill keep loc glob = (l, g) \<Longrightarrow> keep \<le> length loc \<Longrightarrow> keep \<le> length l"
  by (induction keep loc glob rule: spill.induct) (auto split: if_splits)

lemma destroy_cached: "mset (CoreLocalCache_destroy c) = cached c"
  by (simp add: CoreLocalCache_destroy_def cached_def)

lemma cache_wf_update:
  "cache_wf c \<Longrightarrow> length ys \<le> per_core_capacity c \<Longrightarrow>
   cache_wf (c\<lparr>clc_locals := (clc_locals c)[i := ys], clc_global := g\<rparr>)"
  by (auto simp: cache_wf_def dest: set_update_subset_insert [THEN subsetD])

lemma cache_wf_local:
  "cache_wf c \<Longrightarrow> i < length (clc_locals c) \<Longrightarrow> length (clc_locals c ! i) \<le> per_core_capacity c"
  by (auto simp: cache_wf_def)

lemma cached_pop:
  assumes "i < length (clc_locals c)"
    and "mset (x # ys) + mset g = mset (clc_locals c ! i) + mset (clc_global c)"
  shows "cached (c\<lparr>clc_locals := (clc_locals c)[i := ys], clc_global := g\<rparr>) + {#x#} = cached c"
proof -
  let ?c = "c\<lparr>clc_locals := (clc_locals c)[i := x # ys], clc_global := g\<rparr>"
  have "mset (concat ((clc_locals c)[i := ys])) + {#x#} = mset (concat ((clc_locals c)[i := x # ys]))"
    using mset_concat_update [OF assms(1), of ys] mset_concat_update [OF assms(1), of "x # ys"]
    by (metis (no_types, lifting) add_mset_add_single add_right_cancel mset.simps(2)
        union_mset_add_mset_left union_mset_add_mset_right)
  then have "cached (c\<lparr>clc_locals := (clc_locals c)[i := ys], clc_global := g\<rparr>) + {#x#} = cached ?c"
    by (simp add: cached_def)
  also have "\<dots> = cached c" by (rule cached_update [OF assms])
  finally show ?thesis .
qed

lemma cached_push:
  assumes "i < length (clc_locals c)"
  shows "cached (c\<lparr>clc_locals := (clc_locals c)[i := x # clc_locals c ! i]\<rparr>) = cached c + {#x#}"
  using mset_concat_update [OF assms, of "x # clc_locals c ! i"] by (simp add: cached_def)

lemma put_cached:
  assumes "cpu < length (clc_locals c)"
  shows "cached (CoreLocalCache_put cpu c x) = cached c + {#x#}"
proof -
  let ?c = "c\<lparr>clc_locals := (clc_locals c)[cpu := x # clc_locals c ! cpu]\<rparr>"
  have "cached (CoreLocalCache_put_slow_path cpu ?c) = cached ?c"
  proof (cases "spill (max (per_core_capacity ?c div 2) 1) (clc_locals ?c ! cpu) (clc_global ?c)")
    case (Pair l g)
    with cached_update [of cpu ?c l g] spill_mset [OF Pair] assms show ?thesis
      by (simp add: CoreLocalCache_put_slow_path_def)
  qed
  then show ?thesis
    using cached_push [OF assms, of x] by (simp add: CoreLocalCache_put_def Let_def)
qed

lemma put_wf:
  assumes "cache_wf c" "cpu < length (clc_locals c)" "0 < per_core_capacity c"
  shows "cache_wf (CoreLocalCache_put cpu c x)"
proof (cases "length (x # clc_locals c ! cpu) \<le> per_core_capacity c")
  case True
  then show ?thesis
    using cache_wf_update [OF assms(1) True, where i = cpu and g = "clc_global c"] assms(2)
    by (simp add: CoreLocalCache_put_def Let_def)
next
  case False
  let ?keep = "max (per_core_capacity c div 2) 1"
  obtain l g where lg: "spill ?keep (x # clc_locals c ! cpu) (clc_global c) = (l, g)"
    by (cases "spill ?keep (x # clc_locals c ! cpu) (clc_global c)")
  have "length l \<le> per_core_capacity c"
    using spill_length [OF lg] assms(3) by linarith
  then show ?thesis
    using cache_wf_update [OF assms(1), where ys = l and i = cpu and g = g] False lg assms(2)
    by (simp add: CoreLocalCache_put_def CoreLocalCache_put_slow_path_def Let_def)
qed

section \<open>Drawing from a source of fresh blocks\<close>

text \<open>
  \<open>drawn s s' new n\<close>: between the source states \<open>s\<close> and \<open>s'\<close> at most \<open>n\<close> batches were taken,
  with the fresh items \<open>new\<close>. \<open>got\<close> is the effect of one \<open>get\<close>.
\<close>

context block_source
begin

definition drawn :: "'s \<Rightarrow> 's \<Rightarrow> 'a list \<Rightarrow> nat \<Rightarrow> bool" where
  "drawn s s' new n \<longleftrightarrow> distinct new \<and> set new \<inter> issued s = {} \<and>
     issued s' = issued s \<union> set new \<and> room s \<le> room s' + n"

lemma drawn_refl: "drawn s s [] n"
  by (simp add: drawn_def)

lemma drawn_trans:
  "drawn s s' xs m \<Longrightarrow> drawn s' s'' ys n \<Longrightarrow> drawn s s'' (xs @ ys) (m + n)"
  by (auto simp: drawn_def)

lemma drawn_mono: "drawn s s' xs m \<Longrightarrow> m \<le> n \<Longrightarrow> drawn s s' xs n"
  by (auto simp: drawn_def)

lemma drawn_batch: "0 < room s \<Longrightarrow> next_batch s = (s', bs) \<Longrightarrow> drawn s s' bs 1"
  using batch_distinct [of s s' bs] batch_fresh [of s s' bs] batch_issued [of s s' bs]
    batch_room [of s s' bs]
  by (simp add: drawn_def)

text \<open>The number of batches that hold \<open>n\<close> items.\<close>

definition batches :: "nat \<Rightarrow> nat" where
  "batches n = (n + batch_size - 1) div batch_size"

lemma batches_0: "batches 0 = 0"
  using batch_size by (simp add: batches_def)

lemma batches_step:
  assumes "0 < n" "batch_size \<le> l"
  shows "Suc (batches (n - l)) \<le> batches n"
proof -
  have "batches (n - l) \<le> (n - 1) div batch_size"
  proof (cases "l \<le> n")
    case True
    then show ?thesis using assms(2) by (simp add: batches_def div_le_mono)
  qed (simp add: batches_0)
  also have "Suc ((n - 1) div batch_size) = batches n"
    using assms(1) batch_size div_add_self2 [of batch_size "n - 1"] by (simp add: batches_def)
  finally show ?thesis by simp
qed

lemma reserve_items_total:
  assumes "batches (gs - length items) \<le> room s"
  shows "\<exists>new s'. reserve_items next_batch gs items s = Some (items @ new, s') \<and>
    gs \<le> length (items @ new) \<and> drawn s s' new (batches (gs - length items))"
  using assms
proof (induction "gs - length items" arbitrary: items s rule: less_induct)
  case less
  show ?case
  proof (cases "length items < gs")
    case False
    then show ?thesis by (subst reserve_items.simps) (auto simp: drawn_refl)
  next
    case True
    obtain s1 bs where b: "next_batch s = (s1, bs)" by (cases "next_batch s")
    have pos: "0 < gs - length items" using True by simp
    have "0 < batches (gs - length items)" using batches_step [OF pos le_refl] by linarith
    then have r: "0 < room s" using less.prems by linarith
    note d = drawn_batch [OF r b] and len = batch_length [OF r b]
    have fewer: "Suc (batches (gs - length (items @ bs))) \<le> batches (gs - length items)"
      using batches_step [OF pos len] by simp
    have "room s \<le> Suc (room s1)" using d by (simp add: drawn_def)
    then have "batches (gs - length (items @ bs)) \<le> room s1" using less.prems fewer by linarith
    moreover have "gs - length (items @ bs) < gs - length items" using True len batch_size by simp
    ultimately obtain new s' where
      IH: "reserve_items next_batch gs (items @ bs) s1 = Some ((items @ bs) @ new, s')"
        "gs \<le> length ((items @ bs) @ new)" "drawn s1 s' new (batches (gs - length (items @ bs)))"
      using less.hyps [of "items @ bs" s1] by blast
    have "drawn s s' (bs @ new) (batches (gs - length items))"
      by (rule drawn_mono [OF drawn_trans [OF d IH(3)]]) (use fewer in simp)
    then show ?thesis using IH(1,2) True b
      by (subst reserve_items.simps) auto
  qed
qed

lemma reserve_total:
  assumes "batches gs \<le> room s"
  shows "\<exists>new s'. CoreLocalCache_reserve next_batch c gs s =
      Some (c\<lparr>clc_global := rev new @ clc_global c\<rparr>, s') \<and> gs \<le> length new \<and> drawn s s' new (batches gs)"
  using reserve_items_total [of gs "[]" s] assms by (auto simp: CoreLocalCache_reserve_def)

text \<open>One \<open>get\<close>: it returns, takes one item out, and what it added to the cache is fresh.\<close>

definition got :: "'a CoreLocalCache \<Rightarrow> 's \<Rightarrow> 'a \<Rightarrow> 'a CoreLocalCache \<Rightarrow> 's \<Rightarrow> 'a list \<Rightarrow> bool" where
  "got c s x c' s' new \<longleftrightarrow> drawn s s' new (batches (per_core_capacity c)) \<and>
     cached c' + {#x#} = cached c + mset new \<and>
     length (clc_locals c') = length (clc_locals c) \<and>
     per_core_capacity c' = per_core_capacity c \<and> (cache_wf c \<longrightarrow> cache_wf c')"

lemma got_hit:
  assumes "refill (per_core_capacity c) (clc_locals c ! i) (clc_global c) = (x # l, g)"
    and "i < length (clc_locals c)"
  shows "got c s x (c\<lparr>clc_locals := (clc_locals c)[i := l], clc_global := g\<rparr>) s []"
proof -
  have "cached (c\<lparr>clc_locals := (clc_locals c)[i := l], clc_global := g\<rparr>) + {#x#} = cached c"
    using assms(2) refill_mset [OF assms(1)] by (rule cached_pop)
  moreover have "length l \<le> per_core_capacity c" if "cache_wf c"
    using refill_length [OF assms(1)] cache_wf_local [OF that assms(2)] by simp
  ultimately show ?thesis by (simp add: got_def drawn_refl cache_wf_update)
qed

lemma slow_path_hit:
  assumes "refill (per_core_capacity c) (clc_locals c ! cpus k) (clc_global c) = (x # l, g)"
  shows "CoreLocalCache_get_slow_path next_batch cpus k c s =
    Some (x, c\<lparr>clc_locals := (clc_locals c)[cpus k := l], clc_global := g\<rparr>, s)"
  using assms by (subst CoreLocalCache_get_slow_path.simps) simp

lemma slow_path_total:
  assumes cpus: "\<And>k. cpus k < length (clc_locals c)"
    and cap: "0 < per_core_capacity c" "batches (per_core_capacity c) \<le> room s"
  shows "\<exists>x c' s' new. CoreLocalCache_get_slow_path next_batch cpus k c s = Some (x, c', s') \<and>
    got c s x c' s' new"
proof -
  let ?cap = "per_core_capacity c"
  obtain l g where lg: "refill ?cap (clc_locals c ! cpus k) (clc_global c) = (l, g)"
    by (cases "refill ?cap (clc_locals c ! cpus k) (clc_global c)")
  show ?thesis
  proof (cases l)
    case (Cons x l')
    then show ?thesis using slow_path_hit [of c cpus k x l' g s] got_hit [of c "cpus k" x l' g s]
        lg cpus by blast
  next
    case Nil
    with lg have loc: "clc_locals c ! cpus k = []" using refill_nonempty by blast
    with lg Nil have glob: "clc_global c = []" "g = []" using refill_empty cap(1) by metis+
    let ?c1 = "c\<lparr>clc_locals := (clc_locals c)[cpus k := []], clc_global := g\<rparr>"
    have c1: "?c1 = c" using loc glob by (metis (no_types, lifting) CoreLocalCache.surjective
          CoreLocalCache.update_convs(2,3) list_update_id)
    obtain new s1 where r: "CoreLocalCache_reserve next_batch c ?cap s =
        Some (c\<lparr>clc_global := rev new @ clc_global c\<rparr>, s1)"
      and new: "?cap \<le> length new" "drawn s s1 new (batches ?cap)"
      using reserve_total [OF cap(2), of c] by blast
    let ?c2 = "c\<lparr>clc_global := rev new\<rparr>"
    obtain l2 g2 where lg2: "refill ?cap (clc_locals c ! cpus (Suc k)) (rev new) = (l2, g2)"
      by (cases "refill ?cap (clc_locals c ! cpus (Suc k)) (rev new)")
    have "l2 \<noteq> []" using lg2 new(1) cap(1) refill_nonempty refill_empty(1)
      by (metis length_greater_0_conv length_rev list.size(3) order_less_le_trans)
    then obtain x l3 where l2: "l2 = x # l3" by (cases l2) auto
    let ?c3 = "?c2\<lparr>clc_locals := (clc_locals ?c2)[cpus (Suc k) := l3], clc_global := g2\<rparr>"
    have "CoreLocalCache_get_slow_path next_batch cpus k c s =
        CoreLocalCache_get_slow_path next_batch cpus (Suc k) ?c2 s1"
      using lg Nil c1 r glob by (subst CoreLocalCache_get_slow_path.simps) simp
    also have "\<dots> = Some (x, ?c3, s1)"
      by (rule slow_path_hit) (use lg2 l2 in simp)
    finally have *: "CoreLocalCache_get_slow_path next_batch cpus k c s = Some (x, ?c3, s1)" .
    have g3: "got ?c2 s1 x ?c3 s1 []"
      by (rule got_hit) (use lg2 l2 cpus in simp_all)
    have "cached ?c2 = cached c + mset new" using glob by (simp add: cached_def)
    then have "got c s x ?c3 s1 new" using g3 new(2) by (simp add: got_def cache_wf_def)
    with * show ?thesis by blast
  qed
qed

lemma get_total:
  assumes "\<And>k. cpus k < length (clc_locals c)"
    and "0 < per_core_capacity c" "batches (per_core_capacity c) \<le> room s"
  shows "\<exists>x c' s' new. CoreLocalCache_get next_batch cpus c s = Some (x, c', s') \<and>
    got c s x c' s' new"
proof (cases "clc_locals c ! cpus 0")
  case Nil
  then show ?thesis using slow_path_total [of cpus c s 1] assms
    by (simp add: CoreLocalCache_get_def)
next
  case (Cons x l)
  let ?c = "c\<lparr>clc_locals := (clc_locals c)[cpus 0 := l], clc_global := clc_global c\<rparr>"
  have "cached ?c + {#x#} = cached c"
    by (rule cached_pop) (use assms(1) Cons in simp_all)
  moreover have "length l \<le> per_core_capacity c" if "cache_wf c"
    using cache_wf_local [OF that assms(1) [of 0]] Cons by simp
  then have "cache_wf c \<longrightarrow> cache_wf ?c" using cache_wf_update by blast
  ultimately have "got c s x ?c s []" by (simp add: got_def drawn_refl)
  then show ?thesis using Cons by (auto simp: CoreLocalCache_get_def)
qed

text \<open>Items handed out over a run of calls are pairwise distinct and have left the cache.\<close>

definition held :: "'a set \<Rightarrow> 'a list \<Rightarrow> 'a CoreLocalCache \<Rightarrow> 's \<Rightarrow> bool" where
  "held old out c s \<longleftrightarrow> distinct (CoreLocalCache_destroy c @ out) \<and> old \<subseteq> issued s \<and>
     set (CoreLocalCache_destroy c @ out) \<subseteq> issued s - old"

lemma held_got:
  assumes "held old out c s" "got c s x c' s' new"
  shows "held old (out @ [x]) c' s'"
proof -
  let ?before = "CoreLocalCache_destroy c @ out" and ?after = "CoreLocalCache_destroy c' @ out @ [x]"
  have "cached c' + {#x#} + mset out = cached c + mset new + mset out"
    using assms(2) by (simp only: got_def)
  then have eq: "mset ?after = mset (?before @ new)"
    by (simp add: destroy_cached ac_simps)
  have d: "drawn s s' new (batches (per_core_capacity c))" using assms(2) by (simp add: got_def)
  have "distinct (?before @ new)" using assms(1) d by (auto simp: held_def drawn_def)
  then have "distinct ?after" using eq by (metis mset_eq_imp_distinct_iff)
  moreover have "set ?after \<subseteq> issued s' - old"
    unfolding mset_eq_setD [OF eq] using assms(1) d by (auto simp: held_def drawn_def)
  moreover have "old \<subseteq> issued s'" using assms(1) d by (auto simp: held_def drawn_def)
  ultimately show ?thesis by (simp add: held_def)
qed

lemma gets_total:
  assumes "held old out c s" "0 < per_core_capacity c" "length calls * batches (per_core_capacity c) \<le> room s"
    and "\<And>cpus k. cpus \<in> set calls \<Longrightarrow> cpus k < length (clc_locals c)"
  shows "\<exists>xs c' s'. CoreLocalCache_gets next_batch calls c s = Some (xs, c', s') \<and>
    length xs = length calls \<and> held old (out @ xs) c' s'"
  using assms
proof (induction calls arbitrary: out c s)
  case Nil
  then show ?case by simp
next
  case (Cons cpus calls)
  let ?cap = "per_core_capacity c"
  have cap: "batches ?cap \<le> room s" using Cons.prems(3) by simp
  obtain x c1 s1 new where g: "CoreLocalCache_get next_batch cpus c s = Some (x, c1, s1)"
    "got c s x c1 s1 new"
    using get_total [OF _ Cons.prems(2) cap, of cpus] Cons.prems(4) by auto
  have "length calls * batches ?cap \<le> room s1"
    using g(2) Cons.prems(3) by (simp add: got_def drawn_def)
  with Cons.IH [OF held_got [OF Cons.prems(1) g(2)]] Cons.prems(2,4) g(2)
  obtain xs c' s' where "CoreLocalCache_gets next_batch calls c1 s1 = Some (xs, c', s')"
    "length xs = length calls" "held old ((out @ [x]) @ xs) c' s'"
    by (auto simp: got_def)
  with g(1) show ?case by simp
qed

end

lemma init_holds_nothing: "CoreLocalCache_destroy (CoreLocalCache_init n cap) = []"
  by (simp add: CoreLocalCache_init_def CoreLocalCache_destroy_def)

lemma server_room_ge:
  assumes "alloc_wf a" "valid_sid sid" "next_of a sid + m * kAllocationBatch < 2 ^ 64"
  shows "m \<le> server_room sid kAllocationBatch a"
proof -
  have "m * kAllocationBatch \<le> 2 ^ 64 - 1 - next_of a sid" using assms(3) by linarith
  then have "m \<le> (2 ^ 64 - 1 - next_of a sid) div kAllocationBatch"
    by (simp only: less_eq_div_iff_mult_less_eq kAllocationBatch_def zero_less_numeral)
  then show ?thesis using assms(1,2) by (simp add: server_room_def)
qed

section \<open>Properties\<close>

text \<open>
  C12. A block cache filled by the controller's allocator hands out every block at most once: as
  long as the 64-bit pointer of the server does not wrap, any run of \<open>get\<close> calls, on whatever
  cores, returns, and the blocks are pairwise distinct, belong to the server, were never issued
  before the run, and are no longer held by the cache.
\<close>

theorem block_cache_hands_out_once:
  assumes "alloc_wf a" "valid_sid sid" "0 < cap"
    and "next_of a sid + length calls * (cap + kAllocationBatch) < 2 ^ 64"
    and "\<forall>cpus \<in> set calls. \<forall>k. cpus k < ncores"
  shows "\<exists>bs c' a'.
    CoreLocalCache_gets (server_batch sid kAllocationBatch) calls (CoreLocalCache_init ncores cap) a
      = Some (bs, c', a') \<and> length bs = length calls \<and> distinct bs \<and>
    set bs \<inter> set (CoreLocalCache_destroy c') = {} \<and>
    (\<forall>b. b \<in> set bs \<longrightarrow> sbi_server_id b = sid \<and> b \<notin> issued_blocks a sid)"
proof -
  let ?c = "CoreLocalCache_init ncores cap :: ServerBlockInfo CoreLocalCache"
  have "allocator.batches cap * kAllocationBatch \<le> cap + kAllocationBatch"
    using div_times_less_eq_dividend [of "cap + kAllocationBatch - 1" kAllocationBatch]
    by (simp only: allocator.batches_def)
  then have "length calls * (allocator.batches cap * kAllocationBatch) \<le> length calls * (cap + kAllocationBatch)"
    by (rule mult_le_mono2)
  then have "next_of a sid + length calls * allocator.batches cap * kAllocationBatch < 2 ^ 64"
    using assms(4) by (simp only: mult.assoc)
  then have "length calls * allocator.batches (per_core_capacity ?c) \<le> server_room sid kAllocationBatch a"
    by (intro server_room_ge [OF assms(1,2)]) (simp add: CoreLocalCache_init_def)
  moreover have "allocator.held sid (issued_blocks a sid) [] ?c a"
    by (simp add: allocator.held_def init_holds_nothing)
  moreover have "cpus k < length (clc_locals ?c)" if "cpus \<in> set calls" for cpus k
    using assms(5) that by (simp add: CoreLocalCache_init_def)
  ultimately obtain bs c' a' where
    r: "CoreLocalCache_gets (server_batch sid kAllocationBatch) calls ?c a = Some (bs, c', a')"
      "length bs = length calls" and h: "allocator.held sid (issued_blocks a sid) ([] @ bs) c' a'"
    using allocator.gets_total [of sid "issued_blocks a sid" "[]" ?c a calls] assms(3)
    by (auto simp: CoreLocalCache_init_def)
  from h have "distinct bs" "set bs \<inter> set (CoreLocalCache_destroy c') = {}"
    "set bs \<subseteq> issued_blocks a' sid - issued_blocks a sid"
    by (auto simp: allocator.held_def)
  then show ?thesis using r by (auto simp: issued_blocks_iff)
qed

theorem block_cache_hands_out_once_witness:
  "\<exists>bs c' a'.
    CoreLocalCache_gets (server_batch 3 kAllocationBatch) [\<lambda>_. 0, \<lambda>k. k mod 4]
      (CoreLocalCache_init 4 5) BlockAllocator_init = Some (bs, c', a') \<and> length bs = 2 \<and>
    distinct bs"
  using block_cache_hands_out_once [of BlockAllocator_init 3 5 "[\<lambda>_. 0, \<lambda>k. k mod 4]" 4]
  by (auto simp: BlockAllocator_init_wf valid_sid_def k_defs next_of_def BlockAllocator_init_def
      alloc_wf_def)

text \<open>
  C36. Returning an item to the cache conserves it: exactly that item is added to the cached
  multiset, the spill to the global stack loses nothing, and no per-core stack exceeds the
  configured capacity afterwards.
\<close>

theorem put_conserves:
  assumes "cpu < length (clc_locals c)" "cache_wf c" "0 < per_core_capacity c"
  shows "cached (CoreLocalCache_put cpu c x) = cached c + {#x#} \<and>
    cache_wf (CoreLocalCache_put cpu c x)"
  using put_cached [OF assms(1)] put_wf [OF assms(2,1,3)] by simp

theorem put_conserves_witness:
  "cached (CoreLocalCache_put 1 (CoreLocalCache_init 2 3) (7::nat)) = {#7#}"
  using put_conserves [of 1 "CoreLocalCache_init 2 3" "7::nat"]
  by (simp add: CoreLocalCache_init_def cache_wf_def cached_def)

end
