(* ===== verification/Virtual_Disk_Base.thy ===== *)
theory Virtual_Disk_Base
  imports Disk_Server Core_Local_Cache
begin

text \<open>
  The part of a virtual disk common to its two kinds (\<open>sandook/virtual_disk/virtual_disk_base.cc\<close>) and
  the local one (\<open>virtual_disk_local.cc\<close>): the per-core queues of requests, the splitting of a request
  into single sectors processed by several threads, and the completion. The buffers of the
  application are a memory of bytes. Sectors of one request are processed as atomic steps, in any
  interleaving of the threads.
\<close>

section \<open>Application memory\<close>

type_synonym ram = "u64 \<Rightarrow> byte"

definition peek :: "ram \<Rightarrow> u64 \<Rightarrow> nat \<Rightarrow> byte list" where
  "peek m a n = map (\<lambda>i. m (a + of_nat i)) [0..<n]"

definition poke :: "ram \<Rightarrow> u64 \<Rightarrow> byte list \<Rightarrow> ram" where
  "poke m a bs = (\<lambda>x. if unat (x - a) < length bs then bs ! unat (x - a) else m x)"

lemma length_peek [simp]: "length (peek m a n) = n"
  by (simp add: peek_def)

lemma nth_peek [simp]: "i < n \<Longrightarrow> peek m a n ! i = m (a + of_nat i)"
  by (simp add: peek_def)

section \<open>Queues of requests\<close>

datatype IOStatus = IO_kOk | IO_kFailed

record IOResult =
  io_status :: IOStatus
  io_res :: int

record WorkQueue =
  wq_reqs :: "IODesc list"
  wq_stop :: bool
  wq_parked :: bool

text \<open>The critical sections: submitting (the waker of a thread that is not parked has no effect), one
  round of the worker with the requests it spawns, and stopping. A worker that parks spawns nothing.\<close>

definition SubmitRequest :: "WorkQueue \<Rightarrow> IODesc \<Rightarrow> WorkQueue" where
  "SubmitRequest q iod = q\<lparr>wq_reqs := wq_reqs q @ [iod], wq_parked := False\<rparr>"

datatype worker_round = Parked_round | Spawned_round "IODesc list" bool

definition RequestWorker_round :: "WorkQueue \<Rightarrow> WorkQueue \<times> worker_round" where
  "RequestWorker_round q =
     (if \<not> wq_stop q \<and> wq_reqs q = [] then (q\<lparr>wq_parked := True\<rparr>, Parked_round)
      else (q\<lparr>wq_reqs := [], wq_parked := False\<rparr>, Spawned_round (wq_reqs q) (wq_stop q)))"

definition Stop_queue :: "WorkQueue \<Rightarrow> WorkQueue" where
  "Stop_queue q = q\<lparr>wq_stop := True, wq_parked := False\<rparr>"

text \<open>A queue with the requests submitted to it, those spawned by its worker, and whether the worker has
  left its loop. The worker takes a step only when it is awake. The flag to stop is shared by the queues
  and each worker is woken in turn.\<close>

inductive queue_run :: "WorkQueue \<Rightarrow> IODesc list \<Rightarrow> IODesc list \<Rightarrow> bool \<Rightarrow> bool" where
  start: "queue_run \<lparr>wq_reqs = [], wq_stop = False, wq_parked = False\<rparr> [] [] False"
| submit: "queue_run q subs sps done \<Longrightarrow> queue_run (SubmitRequest q iod) (subs @ [iod]) sps done"
| park: "queue_run q subs sps False \<Longrightarrow> \<not> wq_parked q \<Longrightarrow> RequestWorker_round q = (q', Parked_round) \<Longrightarrow>
    queue_run q' subs sps False"
| spawn: "queue_run q subs sps False \<Longrightarrow> \<not> wq_parked q \<Longrightarrow> RequestWorker_round q = (q', Spawned_round xs stop) \<Longrightarrow>
    queue_run q' subs (sps @ xs) stop"
| stop: "queue_run q subs sps done \<Longrightarrow> queue_run (Stop_queue q) subs sps done"
| stop_other: "queue_run q subs sps done \<Longrightarrow> queue_run (q\<lparr>wq_stop := True\<rparr>) subs sps done"

text \<open>Requests are spawned once each, in the order of submission, and a sleeping worker has none to spawn.\<close>

lemma queue_fifo: "queue_run q subs sps done \<Longrightarrow> subs = sps @ wq_reqs q \<and> (wq_parked q \<longrightarrow> wq_reqs q = [])"
  by (induction rule: queue_run.induct)
    (auto simp: SubmitRequest_def RequestWorker_round_def Stop_queue_def split: if_splits)

section \<open>Splitting a request\<close>

definition kMaxPerRequestConcurrency :: nat where "kMaxPerRequestConcurrency = 4"
definition kMaxPerWriteRequestConcurrency :: nat where "kMaxPerWriteRequestConcurrency = 1"

definition shard_iod :: "IODesc \<Rightarrow> nat \<Rightarrow> IODesc" where
  "shard_iod iod off = iod\<lparr>num_sectors := 1, start_sector := start_sector iod + of_nat off,
     addr := addr iod + of_nat kDeviceAlignment * of_nat off\<rparr>"

text \<open>The offsets of the sectors each thread handles.\<close>

definition shards :: "IODesc \<Rightarrow> nat list list" where
  "shards iod =
     (let n = unat (num_sectors iod);
          max_concurrency = if get_op iod = Op_kWrite then kMaxPerWriteRequestConcurrency else kMaxPerRequestConcurrency;
          nthreads = min n max_concurrency;
          sectors_per_thread = if nthreads = n then 1 else n div nthreads;
          remaining = n - sectors_per_thread * nthreads
      in map (\<lambda>tid. map (\<lambda>i. tid * sectors_per_thread + i)
           [0..<sectors_per_thread + (if tid = nthreads - 1 then remaining else 0)]) [0..<nthreads])"

text \<open>An interleaving of the threads: \<open>picks\<close> names the thread that makes the next step.\<close>

fun interleave :: "nat list \<Rightarrow> 'a list list \<Rightarrow> 'a list" where
  "interleave [] ts = concat ts"
| "interleave (p # picks) ts =
     (if p < length ts \<and> ts ! p \<noteq> [] then hd (ts ! p) # interleave picks (ts[p := tl (ts ! p)])
      else interleave picks ts)"

definition wrap_i32 :: "int \<Rightarrow> int" where
  "wrap_i32 x = sint (word_of_int x :: u32)"

fun process_all :: "(IODesc \<Rightarrow> 's \<Rightarrow> (int status \<times> 's) option) \<Rightarrow> IODesc list \<Rightarrow> int \<Rightarrow> int \<Rightarrow> 's \<Rightarrow>
    ((int \<times> int) status \<times> 's) option" where
  "process_all P [] res err_code s = Some (Inr (res, err_code), s)"
| "process_all P (iod # iods) res err_code s = (case P iod s of
     None \<Rightarrow> None
   | Some (Inr n, s') \<Rightarrow> process_all P iods (wrap_i32 (res + n)) err_code s'
   | Some (Inl (Errno code), s') \<Rightarrow> process_all P iods res code s'
   | Some (Inl e, s') \<Rightarrow> Some (Inl e, s'))"

definition ProcessShardedRequests :: "(IODesc \<Rightarrow> 's \<Rightarrow> (int status \<times> 's) option) \<Rightarrow> nat list \<Rightarrow> IODesc \<Rightarrow> 's \<Rightarrow>
    (IOResult status \<times> 's) option" where
  "ProcessShardedRequests P picks iod s = (case process_all P (map (shard_iod iod) (interleave picks (shards iod))) 0 0 s of
     None \<Rightarrow> None
   | Some (Inl e, s') \<Rightarrow> Some (Inl e, s')
   | Some (Inr (res, err), s') \<Rightarrow> Some (Inr (if err \<noteq> 0 then \<lparr>io_status = IO_kFailed, io_res = err\<rparr>
       else \<lparr>io_status = IO_kOk, io_res = res\<rparr>), s'))"

text \<open>The synchronous calls: the callback stores the result whatever its status.\<close>

definition IOCallback :: "IOResult \<Rightarrow> int" where
  "IOCallback r = io_res r"

definition VirtualDisk_Read :: "(IODesc \<Rightarrow> 's \<Rightarrow> (int status \<times> 's) option) \<Rightarrow> nat list \<Rightarrow> u64 \<Rightarrow> u64 \<Rightarrow> nat \<Rightarrow> 's \<Rightarrow>
    (int status \<times> 's) option" where
  "VirtualDisk_Read P picks sector buf size_bytes s =
     map_option (\<lambda>(r, s'). (bindS r (\<lambda>x. Inr (IOCallback x)), s'))
       (ProcessShardedRequests P picks \<lparr>op_flags = op_flags_of Op_kRead, num_sectors = of_nat (drop_bit kSectorShift size_bytes),
          start_sector = sector, addr = buf, callback_args = 0, callback = 0\<rparr> s)"

definition VirtualDisk_Write :: "(IODesc \<Rightarrow> 's \<Rightarrow> (int status \<times> 's) option) \<Rightarrow> nat list \<Rightarrow> u64 \<Rightarrow> u64 \<Rightarrow> nat \<Rightarrow> 's \<Rightarrow>
    (int status \<times> 's) option" where
  "VirtualDisk_Write P picks sector buf size_bytes s =
     map_option (\<lambda>(r, s'). (bindS r (\<lambda>x. Inr (IOCallback x)), s'))
       (ProcessShardedRequests P picks \<lparr>op_flags = op_flags_of Op_kWrite, num_sectors = of_nat (drop_bit kSectorShift size_bytes),
          start_sector = sector, addr = buf, callback_args = 0, callback = 0\<rparr> s)"

definition VirtualDisk_Allocate :: "(IODesc \<Rightarrow> 's \<Rightarrow> (int status \<times> 's) option) \<Rightarrow> nat list \<Rightarrow> u64 \<Rightarrow> u32 \<Rightarrow> 's \<Rightarrow>
    (unit status \<times> 's) option" where
  "VirtualDisk_Allocate P picks sector n_sectors s =
     map_option (\<lambda>(r, s'). (bindS r (\<lambda>_. Inr ()), s'))
       (ProcessShardedRequests P picks \<lparr>op_flags = op_flags_of Op_kAllocate, num_sectors = n_sectors,
          start_sector = sector, addr = 0, callback_args = 0, callback = 0\<rparr> s)"

section \<open>The local virtual disk\<close>

record 'd VirtualDiskLocal =
  lmem :: ram
  ldev :: 'd

text \<open>An unknown operation is logged and counts as done.\<close>

definition Local_ProcessRequest :: "'d spdk \<Rightarrow> IODesc \<Rightarrow> 'd VirtualDiskLocal \<Rightarrow> (int status \<times> 'd VirtualDiskLocal) option" where
  "Local_ProcessRequest D iod s =
     (let lba = start_sector iod; ok = Inr (int kDeviceAlignment)
      in Some (case get_op iod of
           Op_kRead \<Rightarrow> (case Storage_Read D kDeviceAlignment lba (ldev s) of
               (Inl e, d) \<Rightarrow> (Inl e, s\<lparr>ldev := d\<rparr>)
             | (Inr bs, d) \<Rightarrow> (ok, s\<lparr>lmem := poke (lmem s) (addr iod) bs, ldev := d\<rparr>))
         | Op_kWrite \<Rightarrow> (case Storage_Write D (peek (lmem s) (addr iod) kDeviceAlignment) lba (ldev s) of
               (Inl e, d) \<Rightarrow> (Inl e, s\<lparr>ldev := d\<rparr>) | (Inr _, d) \<Rightarrow> (ok, s\<lparr>ldev := d\<rparr>))
         | _ \<Rightarrow> (ok, s)))"

section \<open>The shards of a request\<close>

lemma mset_interleave: "mset (interleave picks ts) = mset (concat ts)"
proof (induction picks ts rule: interleave.induct)
  case (2 p picks ts)
  show ?case
  proof (cases "p < length ts \<and> ts ! p \<noteq> []")
    case True
    then have "mset (ts ! p) = mset (tl (ts ! p)) + {#hd (ts ! p)#}" by (cases "ts ! p") auto
    then show ?thesis using 2 True mset_concat_update [of p ts "tl (ts ! p)"] by simp
  qed (use 2 in auto)
qed simp

lemma concat_blocks: "concat (map (\<lambda>t. map (\<lambda>i. t * k + i) [0..<k]) [0..<m]) = [0..<m * k]"
proof (induction m)
  case (Suc m)
  have "[m * k..<m * k + k] = map (\<lambda>i. m * k + i) [0..<k]"
    by (rule nth_equalityI) auto
  then show ?case using Suc upt_add_eq_append [of 0 "m * k" k] by (simp add: add.commute)
qed simp

lemma concat_threads:
  assumes "0 < m"
  shows "concat (map (\<lambda>t. map (\<lambda>i. t * k + i) [0..<k + (if t = m - 1 then r else 0)]) [0..<m]) = [0..<k * m + r]"
proof -
  obtain j where m: "m = Suc j" using assms by (cases m) auto
  have "map (\<lambda>i. j * k + i) [0..<k + r] = [j * k..<j * k + (k + r)]"
    by (rule nth_equalityI) auto
  moreover have "concat (map (\<lambda>t. map (\<lambda>i. t * k + i) [0..<k + (if t = j then r else 0)]) [0..<j]) = [0..<j * k]"
    unfolding concat_blocks [symmetric] by (rule arg_cong [where f = concat], rule map_cong) auto
  moreover have "[0..<k * m + r] = [0..<j * k] @ [j * k..<j * k + (k + r)]"
    using upt_add_eq_append [of 0 "j * k" "k + r"] by (simp add: m algebra_simps)
  ultimately show ?thesis by (simp add: m)
qed

text \<open>The shards are the sectors of the request, each once.\<close>

lemma concat_shards: "concat (shards iod) = [0..<unat (num_sectors iod)]"
proof (cases "unat (num_sectors iod) = 0")
  case False
  let ?n = "unat (num_sectors iod)"
  let ?c = "if get_op iod = Op_kWrite then kMaxPerWriteRequestConcurrency else kMaxPerRequestConcurrency"
  let ?m = "min ?n ?c"
  let ?k = "if ?m = ?n then 1 else ?n div ?m"
  have pos: "0 < ?m" using False by (simp add: kMaxPerWriteRequestConcurrency_def kMaxPerRequestConcurrency_def)
  have "?k * ?m + (?n - ?k * ?m) = ?n" by (simp add: div_times_less_eq_dividend)
  then show ?thesis using concat_threads [OF pos, of ?k "?n - ?k * ?m"]
    by (simp only: shards_def Let_def)
qed (simp add: shards_def)

lemma mset_shards: "mset (interleave picks (shards iod)) = mset [0..<unat (num_sectors iod)]"
  by (simp only: mset_interleave concat_shards)

lemma set_shards: "set (interleave picks (shards iod)) = {..<unat (num_sectors iod)}"
  "distinct (interleave picks (shards iod))" "length (interleave picks (shards iod)) = unat (num_sectors iod)"
proof -
  show "set (interleave picks (shards iod)) = {..<unat (num_sectors iod)}"
    using mset_eq_setD [OF mset_shards, of picks iod] by auto
  show "distinct (interleave picks (shards iod))"
    using mset_eq_imp_distinct_iff [OF mset_shards, of picks iod] by simp
  show "length (interleave picks (shards iod)) = unat (num_sectors iod)"
    using mset_eq_length [OF mset_shards, of picks iod] by simp
qed

section \<open>Sharding against one large transfer\<close>

definition whole_request :: "'d spdk \<Rightarrow> IODesc \<Rightarrow> 'd VirtualDiskLocal \<Rightarrow> int status \<times> 'd VirtualDiskLocal" where
  "whole_request D iod s =
     (let n = unat (num_sectors iod) * kDeviceAlignment
      in if get_op iod = Op_kWrite
         then (case Storage_Write D (peek (lmem s) (addr iod) n) (start_sector iod) (ldev s) of
             (Inl e, d) \<Rightarrow> (Inl e, s\<lparr>ldev := d\<rparr>) | (Inr _, d) \<Rightarrow> (Inr (int n), s\<lparr>ldev := d\<rparr>))
         else (case Storage_Read D n (start_sector iod) (ldev s) of
             (Inl e, d) \<Rightarrow> (Inl e, s\<lparr>ldev := d\<rparr>)
           | (Inr bs, d) \<Rightarrow> (Inr (int n), s\<lparr>lmem := poke (lmem s) (addr iod) bs, ldev := d\<rparr>)))"

lemma splice_nth:
  assumes "k < length d" "p + length src \<le> length d"
  shows "(take p d @ src @ drop (p + length src) d) ! k = (if p \<le> k \<and> k < p + length src then src ! (k - p) else d ! k)"
  using assms by (auto simp: nth_append min_def)

lemma div_block: "(k :: nat) div 4096 = q \<longleftrightarrow> q * 4096 \<le> k \<and> k < q * 4096 + 4096"
  by (auto simp: div_nat_eqI)

lemma wrap_i32_id: "- (2 ^ 31) \<le> x \<Longrightarrow> x < 2 ^ 31 \<Longrightarrow> wrap_i32 x = x"
  using signed_take_bit_int_eq_self [of 31 x] by (simp add: wrap_i32_def sint_sbintrunc')

lemma shard_op [simp]: "get_op (shard_iod iod off) = get_op iod"
  by (simp add: shard_iod_def get_op_def)

lemma shard_lba: "unat (start_sector iod) + off < 2 ^ 64 \<Longrightarrow> unat (start_sector (shard_iod iod off)) = unat (start_sector iod) + off"
  by (simp add: shard_iod_def unat_word_ariths unat_of_nat)

lemma spdk_write:
  assumes "spdk_device D img" "unat lba * 4096 + n * 4096 \<le> length (img d)" "length src = n * 4096"
  shows "\<exists>d'. sp_write D d src lba n = (0, d') \<and>
    img d' = take (unat lba * 4096) (img d) @ src @ drop (unat lba * 4096 + n * 4096) (img d)"
  using assms unfolding spdk_device_def by blast

lemma spdk_read:
  assumes "spdk_device D img" "unat lba * 4096 + n * 4096 \<le> length (img d)"
  shows "\<exists>d'. sp_read D d lba n = (Inr (take (n * 4096) (drop (unat lba * 4096) (img d))), d') \<and> img d' = img d"
  using assms unfolding spdk_device_def by blast

lemma local_write:
  assumes "spdk_device D img" "get_op iod = Op_kWrite" "(unat (start_sector iod) + off + 1) * 4096 \<le> length (img (ldev s))"
    and "unat (start_sector iod) + off < 2 ^ 64"
  shows "\<exists>d. Local_ProcessRequest D (shard_iod iod off) s = Some (Inr 4096, s\<lparr>ldev := d\<rparr>) \<and>
    length (img d) = length (img (ldev s)) \<and>
    (\<forall>k < length (img d). img d ! k = (if k div 4096 = unat (start_sector iod) + off
       then lmem s (addr iod + of_nat (k - unat (start_sector iod) * 4096)) else img (ldev s) ! k))"
proof -
  let ?q = "unat (start_sector iod) + off" and ?i = "img (ldev s)" and ?a = "addr (shard_iod iod off)"
  let ?src = "peek (lmem s) ?a 4096"
  obtain d where d: "sp_write D (ldev s) ?src (start_sector (shard_iod iod off)) 1 = (0, d)"
    "img d = take (?q * 4096) ?i @ ?src @ drop (?q * 4096 + length ?src) ?i"
    using spdk_write [OF assms(1), of "start_sector (shard_iod iod off)" 1 "ldev s" ?src] assms(3) shard_lba [OF assms(4)] by auto
  have bs: "sp_block_size D = 4096" using assms(1) by (simp add: spdk_device_def)
  have len: "?q * 4096 + length ?src \<le> length ?i" using assms(3) by simp
  have "img d ! k = (if k div 4096 = ?q then lmem s (addr iod + of_nat (k - unat (start_sector iod) * 4096)) else ?i ! k)"
    if "k < length ?i" for k
  proof -
    have "of_nat (k - ?q * 4096) + of_nat 4096 * of_nat off = (of_nat (k - unat (start_sector iod) * 4096) :: u64)" if "?q * 4096 \<le> k"
      using that by (simp flip: of_nat_add of_nat_mult) (simp add: algebra_simps)
    then show ?thesis using splice_nth [OF that len] unfolding d(2) div_block
      by (auto simp: shard_iod_def kDeviceAlignment_def kSectorShift_def algebra_simps)
  qed
  moreover have "length (img d) = length ?i" using len by (simp add: d(2))
  ultimately show ?thesis using assms(2) d(1) bs
    by (intro exI [of _ d]) (simp add: Local_ProcessRequest_def Storage_Write_def kDeviceAlignment_def kSectorShift_def)
qed

lemma in_block:
  fixes y :: u64
  assumes "off * 4096 + 4096 \<le> 2 ^ 64"
  shows "unat (y - of_nat (off * 4096)) < 4096 \<longleftrightarrow> unat y div 4096 = off"
    and "unat y div 4096 = off \<Longrightarrow> unat (y - of_nat (off * 4096)) = unat y - off * 4096"
proof -
  have c: "unat (of_nat (off * 4096) :: u64) = off * 4096" by (rule unat_of_nat_no_wrap) (use assms in simp)
  have "unat y < 2 ^ 64" using unsigned_less [of y] by simp
  then show "unat (y - of_nat (off * 4096)) < 4096 \<longleftrightarrow> unat y div 4096 = off"
    using assms unfolding div_block unat_sub_if_size c by (auto simp: word_size)
  show "unat y div 4096 = off \<Longrightarrow> unat (y - of_nat (off * 4096)) = unat y - off * 4096"
    unfolding div_block unat_sub_if_size c by auto
qed

lemma local_read:
  assumes "spdk_device D img" "get_op iod = Op_kRead" "(unat (start_sector iod) + off + 1) * 4096 \<le> length (img (ldev s))"
    and "unat (start_sector iod) + off < 2 ^ 64" "off * 4096 + 4096 \<le> 2 ^ 64"
  shows "\<exists>s'. Local_ProcessRequest D (shard_iod iod off) s = Some (Inr 4096, s') \<and> img (ldev s') = img (ldev s) \<and>
    (\<forall>x. lmem s' x = (if unat (x - addr iod) div 4096 = off
       then img (ldev s) ! (unat (start_sector iod) * 4096 + unat (x - addr iod)) else lmem s x))"
proof -
  let ?q = "unat (start_sector iod) + off" and ?i = "img (ldev s)" and ?a = "addr (shard_iod iod off)"
  let ?bs = "take 4096 (drop (?q * 4096) ?i)"
  obtain d where d: "sp_read D (ldev s) (start_sector (shard_iod iod off)) 1 = (Inr ?bs, d)" "img d = ?i"
    using spdk_read [OF assms(1), of "start_sector (shard_iod iod off)" 1 "ldev s"] assms(3) shard_lba [OF assms(4)] by auto
  have bs: "sp_block_size D = 4096" using assms(1) by (simp add: spdk_device_def)
  have len: "length ?bs = 4096" using assms(3) by simp
  have "poke (lmem s) ?a ?bs x = (if unat (x - addr iod) div 4096 = off
       then ?i ! (unat (start_sector iod) * 4096 + unat (x - addr iod)) else lmem s x)" for x
  proof -
    have xa: "x - ?a = x - addr iod - of_nat (off * 4096)"
      by (simp add: shard_iod_def kDeviceAlignment_def kSectorShift_def)
    show ?thesis using in_block [OF assms(5), of "x - addr iod"] assms(3) unfolding poke_def len xa
      by (auto simp: div_block algebra_simps)
  qed
  then show ?thesis using assms(2) d bs
    by (simp add: Local_ProcessRequest_def Storage_Read_def kDeviceAlignment_def kSectorShift_def)
qed

lemma run_writes:
  assumes dev: "spdk_device D img" "get_op iod = Op_kWrite" "unat (start_sector iod) + n < 2 ^ 64"
    and "(unat (start_sector iod) + n) * 4096 \<le> length (img (ldev s))" "\<forall>off \<in> set xs. off < n"
    and "0 \<le> r" "r + int (length xs) * 4096 < 2 ^ 31"
  shows "\<exists>d. process_all (Local_ProcessRequest D) (map (shard_iod iod) xs) r e s =
      Some (Inr (r + int (length xs) * 4096, e), s\<lparr>ldev := d\<rparr>) \<and> length (img d) = length (img (ldev s)) \<and>
    (\<forall>k < length (img d). img d ! k = (if \<exists>off \<in> set xs. k div 4096 = unat (start_sector iod) + off
       then lmem s (addr iod + of_nat (k - unat (start_sector iod) * 4096)) else img (ldev s) ! k))"
  using assms(4-7)
proof (induction xs arbitrary: s r)
  case Nil
  then show ?case by (intro exI [of _ "ldev s"]) simp
next
  case (Cons off xs)
  have off: "off < n" using Cons.prems(2) by simp
  have fits: "(unat (start_sector iod) + off + 1) * 4096 \<le> length (img (ldev s))" using mult_le_mono1 [of "unat (start_sector iod) + off + 1" "unat (start_sector iod) + n" 4096] off Cons.prems(1)
    by (intro order_trans [OF _ Cons.prems(1)]) simp
  have "unat (start_sector iod) + off < 2 ^ 64" using off dev(3) by linarith
  from local_write [OF dev(1,2) fits this] obtain d where
    d: "Local_ProcessRequest D (shard_iod iod off) s = Some (Inr 4096, s\<lparr>ldev := d\<rparr>)" "length (img d) = length (img (ldev s))"
    "\<forall>k < length (img d). img d ! k = (if k div 4096 = unat (start_sector iod) + off
       then lmem s (addr iod + of_nat (k - unat (start_sector iod) * 4096)) else img (ldev s) ! k)" by blast
  have w: "wrap_i32 (r + 4096) = r + 4096" using Cons.prems(3,4) by (intro wrap_i32_id) auto
  obtain d' where "process_all (Local_ProcessRequest D) (map (shard_iod iod) xs) (r + 4096) e (s\<lparr>ldev := d\<rparr>) =
      Some (Inr (r + 4096 + int (length xs) * 4096, e), s\<lparr>ldev := d'\<rparr>)" "length (img d') = length (img d)"
    "\<forall>k < length (img d'). img d' ! k = (if \<exists>off \<in> set xs. k div 4096 = unat (start_sector iod) + off
       then lmem s (addr iod + of_nat (k - unat (start_sector iod) * 4096)) else img d ! k)"
    using Cons.IH [of "s\<lparr>ldev := d\<rparr>" "r + 4096"] Cons.prems d(2) by auto
  then show ?case using d w by (intro exI [of _ d']) (auto simp: algebra_simps)
qed

lemma run_reads:
  assumes dev: "spdk_device D img" "get_op iod = Op_kRead" "unat (start_sector iod) + n < 2 ^ 64" "n * 4096 \<le> 2 ^ 64"
    and "(unat (start_sector iod) + n) * 4096 \<le> length (img (ldev s))" "\<forall>off \<in> set xs. off < n"
    and "0 \<le> r" "r + int (length xs) * 4096 < 2 ^ 31"
  shows "\<exists>s'. process_all (Local_ProcessRequest D) (map (shard_iod iod) xs) r e s =
      Some (Inr (r + int (length xs) * 4096, e), s') \<and> img (ldev s') = img (ldev s) \<and>
    (\<forall>x. lmem s' x = (if unat (x - addr iod) div 4096 \<in> set xs
       then img (ldev s) ! (unat (start_sector iod) * 4096 + unat (x - addr iod)) else lmem s x))"
  using assms(5-8)
proof (induction xs arbitrary: s r)
  case Nil
  then show ?case by (intro exI [of _ s]) simp
next
  case (Cons off xs)
  have off: "off < n" using Cons.prems(2) by simp
  have fits: "(unat (start_sector iod) + off + 1) * 4096 \<le> length (img (ldev s))"
    using off by (intro order_trans [OF _ Cons.prems(1)]) simp
  have "unat (start_sector iod) + off < 2 ^ 64" using off dev(3) by linarith
  moreover have "off * 4096 + 4096 \<le> 2 ^ 64" using off dev(4) by simp
  ultimately obtain s1 where
    s1: "Local_ProcessRequest D (shard_iod iod off) s = Some (Inr 4096, s1)" "img (ldev s1) = img (ldev s)"
    "\<forall>x. lmem s1 x = (if unat (x - addr iod) div 4096 = off
       then img (ldev s) ! (unat (start_sector iod) * 4096 + unat (x - addr iod)) else lmem s x)"
    using local_read [OF dev(1,2) fits] by blast
  have w: "wrap_i32 (r + 4096) = r + 4096" using Cons.prems(3,4) by (intro wrap_i32_id) auto
  obtain s2 where "process_all (Local_ProcessRequest D) (map (shard_iod iod) xs) (r + 4096) e s1 =
      Some (Inr (r + 4096 + int (length xs) * 4096, e), s2)" "img (ldev s2) = img (ldev s1)"
    "\<forall>x. lmem s2 x = (if unat (x - addr iod) div 4096 \<in> set xs
       then img (ldev s1) ! (unat (start_sector iod) * 4096 + unat (x - addr iod)) else lmem s1 x)"
    using Cons.IH [of s1 "r + 4096"] Cons.prems s1(2) by auto
  then show ?case using s1 w by (intro exI [of _ s2]) (auto simp: algebra_simps)
qed

lemma sectors_bound:
  assumes "unat (n :: u32) * 4096 < 2 ^ 31" "length xs = unat n"
  shows "0 + int (length xs) * 4096 < 2 ^ 31"
proof -
  have "int (length xs * 4096) < int (2 ^ 31)" using assms by (simp only: of_nat_less_iff)
  then show ?thesis by simp
qed

text \<open>Requests that fit the device and whose size in bytes is an \<open>int\<close>.\<close>

definition fits_device :: "nat \<Rightarrow> IODesc \<Rightarrow> bool" where
  "fits_device size_bytes iod \<longleftrightarrow> (unat (start_sector iod) + unat (num_sectors iod)) * 4096 \<le> size_bytes \<and>
     unat (start_sector iod) + unat (num_sectors iod) < 2 ^ 64 \<and> unat (num_sectors iod) * 4096 < 2 ^ 31"

lemma sharded_write:
  assumes "spdk_device D img" "get_op iod = Op_kWrite" "fits_device (length (img (ldev s))) iod"
  shows "\<exists>s1 s2. ProcessShardedRequests (Local_ProcessRequest D) picks iod s =
      Some (Inr \<lparr>io_status = IO_kOk, io_res = int (unat (num_sectors iod)) * 4096\<rparr>, s1) \<and>
    whole_request D iod s = (Inr (int (unat (num_sectors iod)) * 4096), s2) \<and>
    img (ldev s1) = img (ldev s2) \<and> lmem s1 = lmem s2"
proof -
  let ?n = "unat (num_sectors iod)" and ?S = "unat (start_sector iod)" and ?xs = "interleave picks (shards iod)"
  let ?src = "peek (lmem s) (addr iod) (?n * 4096)" and ?i = "img (ldev s)"
  note xs = set_shards [of picks iod] and fd = assms(3) [unfolded fits_device_def]
  have fit: "?S * 4096 + ?n * 4096 \<le> length ?i" using fd by (simp add: algebra_simps)
  have "(\<exists>off \<in> set ?xs. k div 4096 = ?S + off) \<longleftrightarrow> ?S \<le> k div 4096 \<and> k div 4096 < ?S + ?n" for k
    unfolding xs(1) by (auto intro: bexI [of _ "k div 4096 - ?S"])
  then have in_range: "(\<exists>off \<in> set ?xs. k div 4096 = ?S + off) \<longleftrightarrow> ?S * 4096 \<le> k \<and> k < ?S * 4096 + ?n * 4096" for k
    by (auto simp: less_eq_div_iff_mult_less_eq div_less_iff_less_mult algebra_simps)
  obtain d where d: "process_all (Local_ProcessRequest D) (map (shard_iod iod) ?xs) 0 0 s =
      Some (Inr (0 + int (length ?xs) * 4096, 0), s\<lparr>ldev := d\<rparr>)" "length (img d) = length ?i"
    "\<forall>k < length (img d). img d ! k = (if ?S * 4096 \<le> k \<and> k < ?S * 4096 + ?n * 4096
       then lmem s (addr iod + of_nat (k - ?S * 4096)) else ?i ! k)"
    using run_writes [OF assms(1,2) conjunct1 [OF conjunct2 [OF fd]] conjunct1 [OF fd] _ order_refl sectors_bound [OF _ xs(3)], of 0]
      fd xs(1) unfolding in_range by auto
  obtain d2 where d2: "sp_write D (ldev s) ?src (start_sector iod) ?n = (0, d2)"
    "img d2 = take (?S * 4096) ?i @ ?src @ drop (?S * 4096 + length ?src) ?i"
    using spdk_write [OF assms(1) fit, of ?src] by auto
  have "img d = img d2"
  proof (rule nth_equalityI)
    show "length (img d) = length (img d2)" using fit by (simp add: d(2) d2(2))
    show "img d ! k = img d2 ! k" if k: "k < length (img d)" for k
    proof -
      have "?src ! (k - ?S * 4096) = lmem s (addr iod + of_nat (k - ?S * 4096))"
        if "?S * 4096 \<le> k" "k < ?S * 4096 + ?n * 4096"
        using that by (intro nth_peek) (simp add: less_diff_conv2)
      then show ?thesis using d(3) k splice_nth [of k ?i "?S * 4096" ?src] fit unfolding d(2) d2(2) length_peek by metis
    qed
  qed
  moreover have "sp_block_size D = 4096" using assms(1) by (simp add: spdk_device_def)
  ultimately show ?thesis using assms(2) d(1) d2(1) xs(3)
    by (simp add: ProcessShardedRequests_def whole_request_def Storage_Write_def kDeviceAlignment_def kSectorShift_def)
qed

lemma sharded_read:
  assumes "spdk_device D img" "get_op iod = Op_kRead" "fits_device (length (img (ldev s))) iod"
  shows "\<exists>s1 s2. ProcessShardedRequests (Local_ProcessRequest D) picks iod s =
      Some (Inr \<lparr>io_status = IO_kOk, io_res = int (unat (num_sectors iod)) * 4096\<rparr>, s1) \<and>
    whole_request D iod s = (Inr (int (unat (num_sectors iod)) * 4096), s2) \<and>
    img (ldev s1) = img (ldev s2) \<and> lmem s1 = lmem s2"
proof -
  let ?n = "unat (num_sectors iod)" and ?S = "unat (start_sector iod)" and ?xs = "interleave picks (shards iod)"
  let ?bs = "take (?n * 4096) (drop (?S * 4096) (img (ldev s)))"
  note xs = set_shards [of picks iod] and fd = assms(3) [unfolded fits_device_def]
  have fit: "?S * 4096 + ?n * 4096 \<le> length (img (ldev s))" using fd by (simp add: algebra_simps)
  have small: "?n * 4096 \<le> 2 ^ 64" using fd by simp
  obtain s1 where s1: "process_all (Local_ProcessRequest D) (map (shard_iod iod) ?xs) 0 0 s =
      Some (Inr (0 + int (length ?xs) * 4096, 0), s1)" "img (ldev s1) = img (ldev s)"
    "\<forall>x. lmem s1 x = (if unat (x - addr iod) div 4096 \<in> set ?xs
     then img (ldev s) ! (?S * 4096 + unat (x - addr iod)) else lmem s x)"
    using run_reads [OF assms(1,2) conjunct1 [OF conjunct2 [OF fd]] small conjunct1 [OF fd] _ order_refl sectors_bound [OF _ xs(3)], of 0]
      fd xs(1) by auto
  obtain d2 where d2: "sp_read D (ldev s) (start_sector iod) ?n = (Inr ?bs, d2)" "img d2 = img (ldev s)"
    using spdk_read [OF assms(1) fit] by auto
  have "lmem s1 x = poke (lmem s) (addr iod) ?bs x" for x
    using s1(3) fit by (simp add: poke_def xs(1) div_less_iff_less_mult)
  moreover have "sp_block_size D = 4096" using assms(1) by (simp add: spdk_device_def)
  ultimately show ?thesis using assms(2) s1(1,2) d2 xs(3)
    by (auto simp: ProcessShardedRequests_def whole_request_def Storage_Read_def kDeviceAlignment_def kSectorShift_def)
qed

text \<open>
  C7. Splitting a request over threads is invisible. On the local disk, whatever the interleaving of the threads,
  a read or write processed sector by sector leaves the same device content and the same
  application memory as a single transfer of the whole range, and reports as many bytes.
\<close>

theorem sharding_is_one_transfer:
  assumes "spdk_device D img" "get_op iod \<in> {Op_kRead, Op_kWrite}" "fits_device (length (img (ldev s))) iod"
  shows "\<exists>s1 s2. ProcessShardedRequests (Local_ProcessRequest D) picks iod s =
      Some (Inr \<lparr>io_status = IO_kOk, io_res = int (unat (num_sectors iod)) * 4096\<rparr>, s1) \<and>
    whole_request D iod s = (Inr (int (unat (num_sectors iod)) * 4096), s2) \<and>
    img (ldev s1) = img (ldev s2) \<and> lmem s1 = lmem s2"
  using assms(2) sharded_write [OF assms(1) _ assms(3), of picks] sharded_read [OF assms(1) _ assms(3), of picks] by auto

text \<open>A device that is a list of bytes.\<close>

definition list_device :: "byte list spdk" where
  "list_device = \<lparr>sp_read = (\<lambda>d lba n. (Inr (take (n * 4096) (drop (unat lba * 4096) d)), d)),
     sp_write = (\<lambda>d src lba n. (0, take (unat lba * 4096) d @ src @ drop (unat lba * 4096 + n * 4096) d)),
     sp_deallocate = (\<lambda>d lba n. (0, d)), sp_block_size = 4096\<rparr>"

lemma list_device_ok: "spdk_device list_device (\<lambda>d. d)"
  by (simp add: spdk_device_def list_device_def)

theorem sharding_is_one_transfer_witness:
  "let iod = \<lparr>op_flags = 1, num_sectors = 2, start_sector = 1, addr = 4096, callback_args = 0, callback = 0\<rparr>;
       s = \<lparr>lmem = (\<lambda>a. if a < 8192 then 1 else 2), ldev = replicate 12288 0\<rparr>
   in \<exists>s1 s2. ProcessShardedRequests (Local_ProcessRequest list_device) [0, 0] iod s =
      Some (Inr \<lparr>io_status = IO_kOk, io_res = 8192\<rparr>, s1) \<and> whole_request list_device iod s = (Inr 8192, s2) \<and>
      ldev s1 = ldev s2"
  using sharding_is_one_transfer [OF list_device_ok, of "\<lparr>op_flags = 1, num_sectors = 2, start_sector = 1, addr = 4096,
      callback_args = 0, callback = 0\<rparr>" "\<lparr>lmem = (\<lambda>a. if a < 8192 then 1 else 2), ldev = replicate 12288 0\<rparr>" "[0, 0]"]
  by (simp add: fits_device_def get_op_def op_of_code_def Let_def) blast

text \<open>The calls of the application lose the status: a failed request returns its error code as if it were
  the number of bytes transferred.\<close>

theorem Read_returns_error_as_count:
  assumes "\<And>iod s. P iod s = Some (Inl (Errno 5), s)"
  shows "VirtualDisk_Read P picks 0 0 4096 s = Some (Inr 5, s)"
proof -
  have "length (interleave picks (shards \<lparr>op_flags = op_flags_of Op_kRead, num_sectors = of_nat (drop_bit kSectorShift 4096),
          start_sector = 0, addr = 0, callback_args = 0, callback = 0\<rparr>)) = 1" (is "length ?xs = 1")
    by (subst set_shards(3)) (simp add: kSectorShift_def drop_bit_eq_div)
  then obtain x where "?xs = [x]" by (cases ?xs) auto
  then show ?thesis using assms
    by (simp add: VirtualDisk_Read_def ProcessShardedRequests_def IOCallback_def)
qed

end
