(* ===== verification/Blk_Dev.thy ===== *)
theory Blk_Dev
  imports Virtual_Disk_Base
begin

text \<open>
  The block device (\<open>sandook/blk_dev/request_dispatcher.cc\<close>, \<open>blk_dev_agent.cc\<close>): requests of the kernel are
  submitted to threads that call the virtual disk, their completions travel through one queue per
  core and device queue, and the loop of a device queue reports them. The ublk library is outside:
  what it delivers are events, and the calls of \<open>ublksrv_complete_io\<close> are recorded. The I/O of one request is an atomic step.
\<close>

section \<open>Definitions\<close>

definition kDevSizeSectors :: nat where "kDevSizeSectors = 2 ^ 27"
definition kDevNumHWQueues :: nat where "kDevNumHWQueues = 6"

text \<open>The operation and the fields of a request, as the ublk library returns them.\<close>

datatype ublk_op = UBLK_IO_OP_READ | UBLK_IO_OP_WRITE | UBLK_IO_OP_OTHER nat

record ublk_io_data =
  ub_op :: ublk_op
  ub_nr_sectors :: u32
  ub_start_sector :: u64
  ub_addr :: u64
  ub_tag :: u32

record CompletionReq =
  cr_q :: nat
  cr_tag :: u32
  cr_res :: int

record CompletionQueue =
  active_q :: "CompletionReq list"
  inactive_q :: "CompletionReq list"

definition producer_push :: "CompletionReq \<Rightarrow> CompletionQueue \<Rightarrow> CompletionQueue" where
  "producer_push req c = c\<lparr>active_q := active_q c @ [req]\<rparr>"

definition consumer_acquire :: "CompletionQueue \<Rightarrow> CompletionQueue" where
  "consumer_acquire c = (let c = c\<lparr>inactive_q := []\<rparr> in \<lparr>active_q = inactive_q c, inactive_q = active_q c\<rparr>)"

definition CompletionQueue_is_empty :: "CompletionQueue \<Rightarrow> bool" where
  "CompletionQueue_is_empty c \<longleftrightarrow> active_q c = []"

subsection \<open>Allocation of the disk\<close>

text \<open>\<open>picks\<close> is the scheduling of the threads of each batch.\<close>

function AllocateBlocks_loop :: "(IODesc \<Rightarrow> 's \<Rightarrow> (int status \<times> 's) option) \<Rightarrow> (nat \<Rightarrow> nat list) \<Rightarrow> nat \<Rightarrow> u64 \<Rightarrow> 's \<Rightarrow>
    (unit status \<times> 's) option" where
  "AllocateBlocks_loop P picks rem lba s =
     (if rem = 0 then Some (Inr (), s)
      else let batch = min 4096 rem
           in case VirtualDisk_Allocate P (picks rem) lba (of_nat batch) s of
                None \<Rightarrow> None
              | Some (Inl (Errno _), s) \<Rightarrow> Some (Inl Runtime_error, s)
              | Some (Inl e, s) \<Rightarrow> Some (Inl e, s)
              | Some (Inr _, s) \<Rightarrow> AllocateBlocks_loop P picks (rem - batch) (lba + of_nat batch) s)"
  by pat_completeness auto
termination by (relation "measure (\<lambda>(P, picks, rem, lba, s). rem)") auto

declare AllocateBlocks_loop.simps [simp del]

definition Dispatcher_AllocateBlocks :: "(IODesc \<Rightarrow> 's \<Rightarrow> (int status \<times> 's) option) \<Rightarrow> (nat \<Rightarrow> nat list) \<Rightarrow> nat \<Rightarrow> 's \<Rightarrow>
    (unit status \<times> 's) option" where
  "Dispatcher_AllocateBlocks P picks sectors s = AllocateBlocks_loop P picks sectors 0 s"

definition RequestDispatcher_new :: "(IODesc \<Rightarrow> 's \<Rightarrow> (int status \<times> 's) option) \<Rightarrow> (nat \<Rightarrow> nat list) \<Rightarrow> nat \<Rightarrow> 's \<Rightarrow> (unit status \<times> 's) option" where
  "RequestDispatcher_new P picks nsectors s = (case Dispatcher_AllocateBlocks P picks nsectors s of
     Some (Inl (Errno _), s) \<Rightarrow> Some (Inl Runtime_error, s) | r \<Rightarrow> r)"

subsection \<open>One request\<close>

text \<open>The status starts out as success, and an operation other than a read or a write leaves it there.\<close>

definition request_io :: "(IODesc \<Rightarrow> 's \<Rightarrow> (int status \<times> 's) option) \<Rightarrow> nat list \<Rightarrow> ublk_io_data \<Rightarrow> 's \<Rightarrow> (int status \<times> 's) option" where
  "request_io P picks data s =
     (let nsectors = ub_nr_sectors data div of_nat kNumLinuxSectorsPerSandookSector;
          sector = ub_start_sector data div of_nat kNumLinuxSectorsPerSandookSector;
          nbytes = push_bit kSectorShift nsectors
      in case ub_op data of
           UBLK_IO_OP_READ \<Rightarrow> VirtualDisk_Read P picks sector (ub_addr data) (unat nbytes) s
         | UBLK_IO_OP_WRITE \<Rightarrow> VirtualDisk_Write P picks sector (ub_addr data) (unat nbytes) s
         | UBLK_IO_OP_OTHER _ \<Rightarrow> Some (Inr 0, s))"

definition io_bytes :: "ublk_io_data \<Rightarrow> int" where
  "io_bytes data = wrap_i32 (sint (ub_nr_sectors data) * 2 ^ kLinuxSectorShift)"

definition request_result :: "int status \<Rightarrow> ublk_io_data \<Rightarrow> int status" where
  "request_result io_ret data = (case io_ret of Inr _ \<Rightarrow> Inr (io_bytes data) | Inl (Errno _) \<Rightarrow> Inr (- EINVAL) | Inl e \<Rightarrow> Inl e)"

subsection \<open>The device\<close>

text \<open>\<open>bd_completed\<close> are the calls of \<open>ublksrv_complete_io\<close>; \<open>bd_stopped\<close> holds the queues whose loop has ended.\<close>

record 's blk_dev =
  bd_disk :: 's
  bd_threads :: "(nat \<times> ublk_io_data) list"
  completion_queues :: "nat \<Rightarrow> nat \<Rightarrow> CompletionQueue"
  bd_completed :: "CompletionReq list"
  last_submit_tsc :: "nat \<Rightarrow> u64"
  bd_stopped :: "nat set"

definition blk_dev_init :: "'s \<Rightarrow> 's blk_dev" where
  "blk_dev_init s = \<lparr>bd_disk = s, bd_threads = [], completion_queues = (\<lambda>_ _. \<lparr>active_q = [], inactive_q = []\<rparr>),
     bd_completed = [], last_submit_tsc = (\<lambda>_. 0), bd_stopped = {}\<rparr>"

definition set_queue :: "nat \<Rightarrow> nat \<Rightarrow> CompletionQueue \<Rightarrow> 's blk_dev \<Rightarrow> 's blk_dev" where
  "set_queue core q c b = b\<lparr>completion_queues := (completion_queues b)(core := (completion_queues b core)(q := c))\<rparr>"

definition Dispatcher_SubmitRequest :: "nat \<Rightarrow> ublk_io_data \<Rightarrow> 's blk_dev \<Rightarrow> 's blk_dev" where
  "Dispatcher_SubmitRequest q data b = b\<lparr>bd_threads := bd_threads b @ [(q, data)]\<rparr>"

text \<open>The thread of a request runs and ends on core \<open>cpu\<close>; a disk call that never returns leaves it where it is.\<close>

definition request_thread :: "(IODesc \<Rightarrow> 's \<Rightarrow> (int status \<times> 's) option) \<Rightarrow> nat \<Rightarrow> nat \<Rightarrow> nat list \<Rightarrow> 's blk_dev \<Rightarrow> 's blk_dev status" where
  "request_thread P i cpu picks b = (case bd_threads b ! i of (q, data) \<Rightarrow>
     (case request_io P picks data (bd_disk b) of
        None \<Rightarrow> Inr b
      | Some (io_ret, s) \<Rightarrow> bindS (request_result io_ret data) (\<lambda>res.
          Inr (set_queue cpu q (producer_push \<lparr>cr_q = q, cr_tag = ub_tag data, cr_res = res\<rparr> (completion_queues b cpu q))
            (b\<lparr>bd_disk := s, bd_threads := take i (bd_threads b) @ drop (Suc i) (bd_threads b)\<rparr>)))))"

fun complete_all :: "CompletionReq list \<Rightarrow> CompletionReq list \<Rightarrow> CompletionReq list" where
  "complete_all [] out = out"
| "complete_all (req # q) out = complete_all q (out @ [req])"

definition poll_core :: "nat \<Rightarrow> nat \<Rightarrow> 's blk_dev \<Rightarrow> 's blk_dev" where
  "poll_core q core b =
     (if CompletionQueue_is_empty (completion_queues b core q) then b
      else let c = consumer_acquire (completion_queues b core q)
           in (set_queue core q (c\<lparr>inactive_q := []\<rparr>) b)\<lparr>bd_completed := complete_all (inactive_q c) (bd_completed b)\<rparr>)"

text \<open>The rest of a round of the loop: \<open>ublksrv_process_io\<close> hands the requests \<open>reqs\<close> to \<open>HandleIOAsync\<close> and returns \<open>ret\<close>.\<close>

definition process_io :: "nat \<Rightarrow> u64 \<Rightarrow> ublk_io_data list \<Rightarrow> int \<Rightarrow> 's blk_dev \<Rightarrow> 's blk_dev" where
  "process_io q now_tsc reqs ret b =
     (if now_tsc < last_submit_tsc b q + 2397 * 10 then b
      else let b = fold (Dispatcher_SubmitRequest q) reqs (b\<lparr>last_submit_tsc := (last_submit_tsc b)(q := now_tsc)\<rparr>)
           in if ret < 0 then b\<lparr>bd_stopped := insert q (bd_stopped b)\<rparr> else b)"

definition ProcessBlockDevRequests_round :: "nat \<Rightarrow> nat \<Rightarrow> u64 \<Rightarrow> ublk_io_data list \<Rightarrow> int \<Rightarrow> 's blk_dev \<Rightarrow> 's blk_dev" where
  "ProcessBlockDevRequests_round max_cores q now_tsc reqs ret b =
     process_io q now_tsc reqs ret (fold (poll_core q) [0..<max_cores] b)"

text \<open>What happens in a device with cores below \<open>max_cores\<close>. Threads may end between the steps of a round.\<close>

datatype blk_event = Thread_ends nat nat "nat list" | Poll nat nat | Process_io nat u64 "ublk_io_data list" int

fun blk_step :: "(IODesc \<Rightarrow> 's \<Rightarrow> (int status \<times> 's) option) \<Rightarrow> nat \<Rightarrow> blk_event \<Rightarrow> 's blk_dev \<Rightarrow> 's blk_dev status" where
  "blk_step P max_cores (Thread_ends i cpu picks) b =
     (if i < length (bd_threads b) \<and> cpu < max_cores then request_thread P i cpu picks b else Inr b)"
| "blk_step P max_cores (Poll q core) b =
     Inr (if q < kDevNumHWQueues \<and> core < max_cores \<and> q \<notin> bd_stopped b then poll_core q core b else b)"
| "blk_step P max_cores (Process_io q now_tsc reqs ret) b =
     Inr (if q < kDevNumHWQueues \<and> q \<notin> bd_stopped b then process_io q now_tsc reqs ret b else b)"

text \<open>A run, with the requests the device accepted.\<close>

fun accepted :: "blk_event \<Rightarrow> 's blk_dev \<Rightarrow> (nat \<times> ublk_io_data) list" where
  "accepted (Process_io q now_tsc reqs ret) b =
     (if q < kDevNumHWQueues \<and> q \<notin> bd_stopped b \<and> \<not> now_tsc < last_submit_tsc b q + 2397 * 10 then map (Pair q) reqs else [])"
| "accepted _ b = []"

fun blk_run :: "(IODesc \<Rightarrow> 's \<Rightarrow> (int status \<times> 's) option) \<Rightarrow> nat \<Rightarrow> blk_event list \<Rightarrow> 's blk_dev \<times> (nat \<times> ublk_io_data) list \<Rightarrow>
    ('s blk_dev \<times> (nat \<times> ublk_io_data) list) status" where
  "blk_run P max_cores [] x = Inr x"
| "blk_run P max_cores (e # es) (b, subs) = bindS (blk_step P max_cores e b) (\<lambda>b'. blk_run P max_cores es (b', subs @ accepted e b))"

subsection \<open>Pinning of queues to cores\<close>

text \<open>\<open>s.find (delimiter, pos)\<close> as an offset from the position; an empty delimiter is found at once and the loop of \<open>split\<close> never ends.\<close>

fun find_delimiter :: "string \<Rightarrow> string \<Rightarrow> nat option" where
  "find_delimiter d [] = (if d = [] then Some 0 else None)"
| "find_delimiter d (c # s) = (if take (length d) (c # s) = d then Some 0 else map_option Suc (find_delimiter d s))"

partial_function (option) split_string :: "string \<Rightarrow> string \<Rightarrow> string list option" where
  "split_string d s = (case find_delimiter d s of
     None \<Rightarrow> Some [s]
   | Some i \<Rightarrow> Option.bind (split_string d (drop (i + length d) s)) (\<lambda>res. Some (take i s # res)))"

text \<open>A \<open>std::stringstream\<close>: the characters left, or None once an extraction failed.\<close>

definition is_space :: "char \<Rightarrow> bool" where
  "is_space c \<longleftrightarrow> c \<in> {CHR '' '', CHR 0x09, CHR 0x0A, CHR 0x0B, CHR 0x0C, CHR 0x0D}"

definition is_digit :: "char \<Rightarrow> bool" where
  "is_digit c \<longleftrightarrow> 48 \<le> (of_char c :: nat) \<and> (of_char c :: nat) \<le> 57"

definition digits_value :: "string \<Rightarrow> nat" where
  "digits_value ds = foldl (\<lambda>n c. 10 * n + (of_char c - 48)) 0 ds"

text \<open>\<open>ss >> x\<close> for an \<open>unsigned int\<close> that held \<open>old\<close>: untouched when the stream has failed or holds nothing but space, \<open>0\<close>
  when no number follows, the maximum when it does not fit.\<close>

definition extract_unsigned :: "nat \<Rightarrow> string option \<Rightarrow> nat \<times> string option" where
  "extract_unsigned old st = (case map_option (dropWhile is_space) st of
     None \<Rightarrow> (old, None)
   | Some [] \<Rightarrow> (old, None)
   | Some (c # s) \<Rightarrow>
       (let neg = (c = CHR ''-''); body = (if c = CHR ''-'' \<or> c = CHR ''+'' then s else c # s);
            ds = takeWhile is_digit body; v = digits_value ds
        in if ds = [] then (0, None)
           else if v \<ge> 2 ^ 32 then (2 ^ 32 - 1, None)
           else (if neg then (2 ^ 32 - v) mod 2 ^ 32 else v, Some (dropWhile is_digit body))))"

definition ignore_char :: "string option \<Rightarrow> string option" where
  "ignore_char st = (case st of Some (c # s) \<Rightarrow> Some s | _ \<Rightarrow> None)"

text \<open>\<open>u\<close> stands for the value of the uninitialised local variables.\<close>

definition read_mapping :: "nat \<Rightarrow> string \<Rightarrow> nat \<times> nat" where
  "read_mapping u mapping =
     (let (q, st) = extract_unsigned u (Some mapping); (c, st) = extract_unsigned u (ignore_char st) in (q, c))"

definition SetQueueToCoreMapping :: "nat \<Rightarrow> string \<Rightarrow> (nat \<rightharpoonup> nat) \<Rightarrow> (nat \<rightharpoonup> nat) status option" where
  "SetQueueToCoreMapping u queue_to_core_mapping queue_to_core =
     map_option (\<lambda>mappings. if mappings = [] then MakeError ENOENT
       else Inr (fold (\<lambda>mapping m. case read_mapping u mapping of (q, c) \<Rightarrow> m(q \<mapsto> c)) mappings queue_to_core))
     (split_string '','' queue_to_core_mapping)"

definition GetCoreForQueue :: "nat \<Rightarrow> (nat \<rightharpoonup> nat) \<Rightarrow> nat status" where
  "GetCoreForQueue q queue_to_core = (case queue_to_core q of None \<Rightarrow> MakeError ENOENT | Some c \<Rightarrow> Inr c)"

section \<open>The result of a request\<close>

text \<open>The virtual disk reports errors by their code, and does not fail an assertion.\<close>

definition reports_errors :: "(IODesc \<Rightarrow> 's \<Rightarrow> (int status \<times> 's) option) \<Rightarrow> bool" where
  "reports_errors P \<longleftrightarrow> (\<forall>iod s r s'. P iod s = Some (r, s') \<longrightarrow> (\<exists>n. r = Inr n) \<or> (\<exists>c. r = Inl (Errno c)))"

lemma process_all_returns:
  "reports_errors P \<Longrightarrow> process_all P iods res err s = Some (r, s') \<Longrightarrow> \<exists>x. r = Inr x"
proof (induction iods arbitrary: res err s)
  case (Cons iod iods)
  obtain r1 s1 where r1: "P iod s = Some (r1, s1)" using Cons.prems(2) by (cases "P iod s") auto
  then have "(\<exists>n. r1 = Inr n) \<or> (\<exists>c. r1 = Inl (Errno c))" using Cons.prems(1) unfolding reports_errors_def by blast
  then show ?case using Cons.IH [OF Cons.prems(1)] Cons.prems(2) r1 by auto
qed auto

lemma sharded_returns:
  assumes "reports_errors P" "ProcessShardedRequests P picks iod s = Some (r, s')"
  shows "\<exists>x. r = Inr x"
proof -
  obtain r1 s1 where r1: "process_all P (map (shard_iod iod) (interleave picks (shards iod))) 0 0 s = Some (r1, s1)"
    using assms(2) by (auto simp: ProcessShardedRequests_def split: option.splits)
  then show ?thesis using process_all_returns [OF assms(1) r1] assms(2) by (auto simp: ProcessShardedRequests_def)
qed

text \<open>The calls of the virtual disk return errors as counts, so every request that returns is completed as done.\<close>

lemma request_io_returns:
  assumes "reports_errors P" "request_io P picks data s = Some (r, s')"
  shows "request_result r data = Inr (io_bytes data)"
proof -
  have "\<exists>n. r = Inr n" using assms(2) sharded_returns [OF assms(1)]
    by (fastforce simp: request_io_def Let_def VirtualDisk_Read_def VirtualDisk_Write_def split: ublk_op.splits)
  then show ?thesis by (auto simp: request_result_def)
qed

section \<open>Completions\<close>

definition reply :: "nat \<times> ublk_io_data \<Rightarrow> CompletionReq" where
  "reply x = (case x of (q, data) \<Rightarrow> \<lparr>cr_q = q, cr_tag = ub_tag data, cr_res = io_bytes data\<rparr>)"

definition queued :: "nat \<Rightarrow> 's blk_dev \<Rightarrow> CompletionReq multiset" where
  "queued n b = (\<Sum>core<n. \<Sum>q<kDevNumHWQueues. mset (active_q (completion_queues b core q)))"

definition accounted :: "nat \<Rightarrow> 's blk_dev \<Rightarrow> CompletionReq multiset" where
  "accounted n b = mset (map reply (bd_threads b)) + queued n b + mset (bd_completed b)"

lemma sum_update: "(c :: nat) < n \<Longrightarrow> (\<Sum>i<n. (f(c := v)) i) + f c = (\<Sum>i<n. f i) + (v :: 'a multiset)"
  by (simp add: sum.remove [of "{..<n}" c])

lemma add_exchange:
  assumes "a + r = s + b" "b + f = r + (m :: 'a multiset)"
  shows "a + f = s + m"
proof -
  have "a + f + r = s + (b + f)" using assms(1) by (metis union_assoc union_commute)
  also have "\<dots> = s + m + r" using assms(2) by (simp add: ac_simps)
  finally show ?thesis by simp
qed

lemma queued_set_queue:
  assumes "core < n" "q < kDevNumHWQueues"
  shows "queued n (set_queue core q c b) + mset (active_q (completion_queues b core q)) = queued n b + mset (active_q c)"
proof -
  let ?f = "\<lambda>core q. mset (active_q (completion_queues b core q))"
  let ?row = "\<Sum>j<kDevNumHWQueues. ((?f core)(q := mset (active_q c))) j"
  have 1: "queued n (set_queue core q c b) = (\<Sum>i<n. ((\<lambda>i. \<Sum>q<kDevNumHWQueues. ?f i q)(core := ?row)) i)"
    by (auto simp: queued_def set_queue_def intro!: sum.cong)
  have r: "?row + ?f core q = (\<Sum>q<kDevNumHWQueues. ?f core q) + mset (active_q c)" by (rule sum_update [OF assms(2)])
  have 2: "queued n b = (\<Sum>i<n. \<Sum>q<kDevNumHWQueues. ?f i q)" by (simp add: queued_def)
  show ?thesis unfolding 1 2
    by (rule add_exchange [OF sum_update [OF assms(1), of "\<lambda>i. \<Sum>q<kDevNumHWQueues. ?f i q" ?row] r])
qed

lemma complete_all_append: "complete_all q out = out @ q"
  by (induction q arbitrary: out) simp_all

lemma poll_core_threads [simp]: "bd_threads (poll_core q core b) = bd_threads b"
  by (simp add: poll_core_def set_queue_def Let_def)

lemma poll_core_accounted:
  assumes "core < n" "q < kDevNumHWQueues"
  shows "accounted n (poll_core q core b) = accounted n b"
    "active_q (completion_queues (poll_core q core b) core' q') =
      (if core' = core \<and> q' = q then [] else active_q (completion_queues b core' q'))"
proof -
  let ?c = "(consumer_acquire (completion_queues b core q))\<lparr>inactive_q := []\<rparr>"
  have c: "active_q ?c = []" by (simp add: consumer_acquire_def)
  have "queued n (poll_core q core b) + mset (bd_completed (poll_core q core b)) = queued n b + mset (bd_completed b)"
  proof (cases "CompletionQueue_is_empty (completion_queues b core q)")
    case False
    have "queued n (b'\<lparr>bd_completed := x\<rparr>) = queued n b'" for b' :: "'a blk_dev" and x by (simp add: queued_def)
    then show ?thesis using False queued_set_queue [OF assms, of ?c b] c
      by (simp add: poll_core_def Let_def complete_all_append consumer_acquire_def ac_simps)
  qed (simp add: poll_core_def)
  then show "accounted n (poll_core q core b) = accounted n b" by (simp add: accounted_def ac_simps)
  show "active_q (completion_queues (poll_core q core b) core' q') =
      (if core' = core \<and> q' = q then [] else active_q (completion_queues b core' q'))"
    by (auto simp: poll_core_def set_queue_def Let_def CompletionQueue_is_empty_def consumer_acquire_def)
qed

lemma mset_remove_nth: "i < length xs \<Longrightarrow> add_mset (f (xs ! i)) (mset (map f (take i xs @ drop (Suc i) xs))) = mset (map f xs)"
  by (subst (4) id_take_nth_drop [of i xs]) simp_all

lemma request_thread_accounted:
  assumes "reports_errors P" "i < length (bd_threads b)" "core < n" "\<forall>x \<in> set (bd_threads b). fst x < kDevNumHWQueues"
  shows "\<exists>b'. request_thread P i core picks b = Inr b' \<and> accounted n b' = accounted n b \<and> set (bd_threads b') \<subseteq> set (bd_threads b)"
proof -
  obtain q data where x: "bd_threads b ! i = (q, data)" by (cases "bd_threads b ! i")
  have q: "q < kDevNumHWQueues" using assms(2,4) x nth_mem [of i "bd_threads b"] by fastforce
  show ?thesis
  proof (cases "request_io P picks data (bd_disk b)")
    case (Some p)
    obtain r s where p: "p = (r, s)" by (cases p)
    let ?c = "completion_queues b core q" and ?r = "reply (q, data)"
    let ?ts = "take i (bd_threads b) @ drop (Suc i) (bd_threads b)"
    let ?b = "set_queue core q (producer_push ?r ?c) (b\<lparr>bd_disk := s, bd_threads := ?ts\<rparr>)"
    have run: "request_thread P i core picks b = Inr ?b"
      using request_io_returns [OF assms(1) Some [unfolded p]] Some by (simp add: request_thread_def x p reply_def)
    have "queued n (b\<lparr>bd_disk := s, bd_threads := ?ts\<rparr>) = queued n b" by (simp add: queued_def)
    then have "queued n ?b + mset (active_q ?c) = queued n b + add_mset ?r (mset (active_q ?c))"
      using queued_set_queue [OF assms(3) q, of "producer_push ?r ?c" "b\<lparr>bd_disk := s, bd_threads := ?ts\<rparr>"]
      by (simp add: producer_push_def)
    then have "queued n ?b = add_mset ?r (queued n b)" by simp
    moreover have "add_mset ?r (mset (map reply ?ts)) = mset (map reply (bd_threads b))"
      using mset_remove_nth [OF assms(2), of reply] by (simp only: x)
    ultimately have "accounted n ?b = accounted n b" unfolding accounted_def
      by (simp add: set_queue_def del: mset_map map_append)
    moreover have "set (bd_threads ?b) \<subseteq> set (bd_threads b)" by (auto simp: set_queue_def dest: in_set_takeD in_set_dropD)
    ultimately show ?thesis using run by blast
  qed (simp add: request_thread_def x)
qed

lemma submit_all: "fold (Dispatcher_SubmitRequest q) reqs b = b\<lparr>bd_threads := bd_threads b @ map (Pair q) reqs\<rparr>"
  by (induction reqs arbitrary: b) (simp_all add: Dispatcher_SubmitRequest_def)

lemma process_io_accounted:
  assumes "q < kDevNumHWQueues" "q \<notin> bd_stopped b"
  shows "accounted n (process_io q now_tsc reqs ret b) = accounted n b + mset (map reply (accepted (Process_io q now_tsc reqs ret) b))"
    and "set (bd_threads (process_io q now_tsc reqs ret b)) = set (bd_threads b) \<union> set (accepted (Process_io q now_tsc reqs ret) b)"
  using assms by (simp_all add: process_io_def Let_def submit_all accounted_def queued_def)

definition consistent :: "nat \<Rightarrow> 's blk_dev \<Rightarrow> (nat \<times> ublk_io_data) list \<Rightarrow> bool" where
  "consistent n b subs \<longleftrightarrow> accounted n b = mset (map reply subs) \<and> (\<forall>x \<in> set (bd_threads b). fst x < kDevNumHWQueues)"

lemma blk_step_consistent:
  assumes "reports_errors P" "consistent n b subs"
  shows "\<exists>b'. blk_step P n e b = Inr b' \<and> consistent n b' (subs @ accepted e b)"
proof (cases e)
  case (Thread_ends i cpu picks)
  then show ?thesis using request_thread_accounted [OF assms(1), of i b cpu n picks] assms(2)
    by (cases "i < length (bd_threads b) \<and> cpu < n") (auto simp: consistent_def)
next
  case (Poll q core)
  then show ?thesis using assms(2) by (simp add: consistent_def poll_core_accounted(1))
next
  case (Process_io q now_tsc reqs ret)
  show ?thesis
  proof (cases "q < kDevNumHWQueues \<and> q \<notin> bd_stopped b")
    case True
    note io = process_io_accounted [OF conjunct1 [OF True] conjunct2 [OF True]]
    show ?thesis using True assms(2) by (auto simp: consistent_def Process_io io(1) io(2) simp del: accepted.simps) (auto split: if_splits)
  qed (use assms(2) in \<open>auto simp: Process_io consistent_def\<close>)
qed

lemma blk_run_consistent:
  "reports_errors P \<Longrightarrow> consistent n b subs \<Longrightarrow> \<exists>b' subs'. blk_run P n es (b, subs) = Inr (b', subs') \<and> consistent n b' subs'"
proof (induction es arbitrary: b subs)
  case (Cons e es)
  obtain b' where "blk_step P n e b = Inr b'" "consistent n b' (subs @ accepted e b)" using blk_step_consistent [OF Cons.prems] by blast
  then show ?case using Cons.IH [OF Cons.prems(1)] by simp
qed auto

text \<open>One round of every queue empties the completion queues.\<close>

definition poll_all :: "nat \<Rightarrow> 's blk_dev \<Rightarrow> 's blk_dev" where
  "poll_all n b = fold (\<lambda>(q, core). poll_core q core) (List.product [0..<kDevNumHWQueues] [0..<n]) b"

lemma poll_list:
  assumes "\<forall>(q, core) \<in> set xs. q < kDevNumHWQueues \<and> core < n"
  shows "accounted n (fold (\<lambda>(q, core). poll_core q core) xs b) = accounted n b \<and>
    bd_threads (fold (\<lambda>(q, core). poll_core q core) xs b) = bd_threads b \<and>
    (\<forall>q core. active_q (completion_queues (fold (\<lambda>(q, core). poll_core q core) xs b) core q) =
      (if (q, core) \<in> set xs then [] else active_q (completion_queues b core q)))"
  using assms
proof (induction xs arbitrary: b)
  case (Cons x xs)
  obtain q core where x: "x = (q, core)" by (cases x)
  have "core < n" "q < kDevNumHWQueues" using Cons.prems by (auto simp: x)
  note p = poll_core_accounted [OF this]
  show ?case using Cons.IH [of "poll_core q core b"] Cons.prems by (auto simp: x p)
qed simp

lemma poll_all_empties:
  shows "bd_threads b = [] \<Longrightarrow> mset (bd_completed (poll_all n b)) = accounted n b"
proof -
  assume b: "bd_threads b = []"
  let ?xs = "List.product [0..<kDevNumHWQueues] [0..<n]"
  have "\<forall>(q, core) \<in> set ?xs. q < kDevNumHWQueues \<and> core < n" by auto
  note l = poll_list [OF this, of b, folded poll_all_def]
  have "queued n (poll_all n b) = {#}" using l by (simp add: queued_def)
  then show ?thesis using conjunct1 [OF l] conjunct1 [OF conjunct2 [OF l]] b by (simp add: accounted_def)
qed



section \<open>Allocation covers the disk\<close>

text \<open>With a disk that records the sectors it is asked to allocate, the loop returns and asks for each sector once.\<close>

definition recording :: "IODesc \<Rightarrow> u64 list \<Rightarrow> (int status \<times> u64 list) option" where
  "recording iod seen = Some (Inr 4096, seen @ [start_sector iod])"

lemma process_recording: "\<exists>res. process_all recording iods r e seen = Some (Inr (res, e), seen @ map start_sector iods)"
proof (induction iods arbitrary: r seen)
  case (Cons iod iods)
  then show ?case using Cons [of "wrap_i32 (r + 4096)" "seen @ [start_sector iod]"] by (simp add: recording_def)
qed simp

lemma Allocate_recording:
  assumes "n < 2 ^ 32"
  shows "\<exists>xs. VirtualDisk_Allocate recording picks lba (of_nat n) seen = Some (Inr (), seen @ xs) \<and>
    mset xs = mset (map (\<lambda>i. lba + of_nat i) [0..<n])"
proof -
  let ?iod = "\<lparr>op_flags = op_flags_of Op_kAllocate, num_sectors = of_nat n, start_sector = lba, addr = 0, callback_args = 0, callback = 0\<rparr>"
  let ?xs = "interleave picks (shards ?iod)"
  have n: "unat (of_nat n :: u32) = n" using assms by (simp add: unat_of_nat_no_wrap)
  obtain res where run: "process_all recording (map (shard_iod ?iod) ?xs) 0 0 seen =
      Some (Inr (res, 0), seen @ map start_sector (map (shard_iod ?iod) ?xs))"
    using process_recording [of "map (shard_iod ?iod) ?xs" 0 0 seen] by (elim exE)
  have sectors: "map start_sector (map (shard_iod ?iod) ?xs) = map (\<lambda>i. lba + of_nat i) ?xs" by (simp add: shard_iod_def)
  have "mset (map (\<lambda>i. lba + of_nat i) ?xs) = mset (map (\<lambda>i. lba + of_nat i) [0..<n])"
    unfolding mset_map mset_shards by (simp only: IODesc.simps n)
  moreover have "VirtualDisk_Allocate recording picks lba (of_nat n) seen = Some (Inr (), seen @ map (\<lambda>i. lba + of_nat i) ?xs)"
    using run unfolding sectors by (simp add: VirtualDisk_Allocate_def ProcessShardedRequests_def)
  ultimately show ?thesis by blast
qed

lemma AllocateBlocks_loop_covers:
  "\<exists>xs. AllocateBlocks_loop recording picks rem lba seen = Some (Inr (), seen @ xs) \<and> mset xs = mset (map (\<lambda>i. lba + of_nat i) [0..<rem])"
proof (induction rem arbitrary: lba seen rule: less_induct)
  case (less rem)
  show ?case
  proof (cases "rem = 0")
    case False
    let ?k = "min 4096 rem"
    obtain xs where xs: "VirtualDisk_Allocate recording (picks rem) lba (of_nat ?k) seen = Some (Inr (), seen @ xs)"
      "mset xs = mset (map (\<lambda>i. lba + of_nat i) [0..<?k])"
      using Allocate_recording [of ?k "picks rem" lba seen] by fastforce
    obtain ys where ys: "AllocateBlocks_loop recording picks (rem - ?k) (lba + of_nat ?k) (seen @ xs) = Some (Inr (), (seen @ xs) @ ys)"
      "mset ys = mset (map (\<lambda>i. lba + of_nat ?k + of_nat i) [0..<rem - ?k])"
      using less.IH [of "rem - ?k" "lba + of_nat ?k" "seen @ xs"] False by auto
    have "[0..<rem] = [0..<?k] @ map (\<lambda>i. i + ?k) [0..<rem - ?k]"
      using upt_add_eq_append [of 0 ?k "rem - ?k"] map_add_upt [of ?k "rem - ?k"] by simp
    then have "map (\<lambda>i. lba + of_nat i) [0..<rem] =
        map (\<lambda>i. lba + of_nat i) [0..<?k] @ map (\<lambda>i. lba + of_nat ?k + of_nat i) [0..<rem - ?k]"
      by (simp add: comp_def ac_simps)
    then have "mset (xs @ ys) = mset (map (\<lambda>i. lba + of_nat i) [0..<rem])" using xs(2) ys(2) by simp
    moreover have "AllocateBlocks_loop recording picks rem lba seen = Some (Inr (), seen @ xs @ ys)"
      using False xs(1) ys(1) by (subst AllocateBlocks_loop.simps) (simp add: Let_def)
    ultimately show ?thesis by blast
  qed (simp add: AllocateBlocks_loop.simps)
qed

lemma AllocateBlocks_covers:
  assumes "n \<le> 2 ^ 64"
  shows "\<exists>xs. Dispatcher_AllocateBlocks recording picks n [] = Some (Inr (), xs) \<and> distinct xs \<and> unat ` set xs = {..<n}"
proof -
  obtain xs where xs: "AllocateBlocks_loop recording picks n 0 [] = Some (Inr (), xs)" "mset xs = mset (map of_nat [0..<n])"
    using AllocateBlocks_loop_covers [of picks n 0 "[]"] by auto
  have u: "unat (of_nat i :: u64) = i" if "i < n" for i using that assms by (simp add: unat_of_nat_no_wrap)
  then have "inj_on (of_nat :: nat \<Rightarrow> u64) {..<n}" by (metis inj_onI lessThan_iff)
  then have "distinct (map (of_nat :: nat \<Rightarrow> u64) [0..<n])" by (simp add: distinct_map atLeast0LessThan)
  then have "distinct xs" using mset_eq_imp_distinct_iff [OF xs(2)] by simp
  moreover have "unat ` set xs = {..<n}" using mset_eq_setD [OF xs(2)] u by (auto simp: image_image atLeast0LessThan)
  ultimately show ?thesis using xs(1) by (auto simp: Dispatcher_AllocateBlocks_def)
qed

lemma device_allocated:
  "\<exists>xs. RequestDispatcher_new recording picks kDevSizeSectors [] = Some (Inr (), xs) \<and> distinct xs \<and> unat ` set xs = {..<kDevSizeSectors}"
  using AllocateBlocks_covers [of kDevSizeSectors picks] by (auto simp: RequestDispatcher_new_def kDevSizeSectors_def)

section \<open>A printed mapping is read back\<close>

fun decimal :: "nat \<Rightarrow> string" where
  "decimal n = (if n < 10 then [char_of (48 + n)] else decimal (n div 10) @ [char_of (48 + n mod 10)])"

declare decimal.simps [simp del]

definition show_mapping :: "nat \<times> nat \<Rightarrow> string" where
  "show_mapping x = decimal (fst x) @ '':'' @ decimal (snd x)"

fun join :: "string list \<Rightarrow> string" where
  "join [] = []"
| "join [x] = x"
| "join (x # y # xs) = x @ '','' @ join (y # xs)"

lemma of_char_digit: "d < 10 \<Longrightarrow> of_char (char_of (48 + d) :: char) = (48 + d :: nat)"
  by (simp add: of_char_of)

lemma decimal_digits: "decimal n \<noteq> []" "c \<in> set (decimal n) \<Longrightarrow> is_digit c"
proof -
  show "decimal n \<noteq> []" by (subst decimal.simps) simp
  show "c \<in> set (decimal n) \<Longrightarrow> is_digit c"
  proof (induction n rule: decimal.induct)
    case (1 n)
    then show ?case by (subst (asm) (2) decimal.simps) (auto simp: is_digit_def of_char_digit split: if_splits)
  qed
qed

lemma digits_value_decimal: "digits_value (decimal n) = n"
proof (induction n rule: decimal.induct)
  case (1 n)
  show ?case
  proof (cases "n < 10")
    case True
    then show ?thesis by (subst decimal.simps) (simp add: digits_value_def of_char_digit)
  next
    case False
    then have "decimal n = decimal (n div 10) @ [char_of (48 + n mod 10)]" by (subst decimal.simps) simp
    then have "digits_value (decimal n) = 10 * digits_value (decimal (n div 10)) + n mod 10"
      by (simp add: digits_value_def of_char_digit)
    then show ?thesis using 1 [OF False] by simp
  qed
qed

lemma digit_not: "is_digit c \<Longrightarrow> \<not> is_space c \<and> c \<noteq> CHR ''-'' \<and> c \<noteq> CHR ''+'' \<and> c \<noteq> CHR '','' \<and> c \<noteq> CHR '':''"
  by (auto simp: is_digit_def is_space_def)

lemma extract_decimal:
  assumes "n < 2 ^ 32" "rest = [] \<or> \<not> is_digit (hd rest)"
  shows "extract_unsigned old (Some (decimal n @ rest)) = (n, Some rest)"
proof -
  obtain c cs where d: "decimal n = c # cs" using decimal_digits(1) by (meson neq_Nil_conv)
  have c: "is_digit c" "\<not> is_space c" "c \<noteq> CHR ''-''" "c \<noteq> CHR ''+''" using decimal_digits(2) [of c n] digit_not [of c] by (simp_all add: d)
  have all: "takeWhile is_digit (decimal n @ rest) = decimal n" "dropWhile is_digit (decimal n @ rest) = rest"
    using assms(2) decimal_digits(2) by (cases rest; simp add: takeWhile_append2 dropWhile_append2)+
  show ?thesis using c all assms(1) digits_value_decimal [of n] by (simp add: extract_unsigned_def d Let_def)
qed

lemma read_show: "fst x < 2 ^ 32 \<Longrightarrow> snd x < 2 ^ 32 \<Longrightarrow> read_mapping u (show_mapping x) = x"
  using extract_decimal [of "fst x" "'':'' @ decimal (snd x)" u] extract_decimal [of "snd x" "[]" u]
  by (simp add: read_mapping_def show_mapping_def ignore_char_def is_digit_def)

lemma find_comma: "CHR '','' \<notin> set x \<Longrightarrow> find_delimiter '','' x = None \<and> find_delimiter '','' (x @ CHR '','' # s) = Some (length x)"
  by (induction x) auto

lemma split_join: "xs \<noteq> [] \<Longrightarrow> \<forall>x \<in> set xs. CHR '','' \<notin> set x \<Longrightarrow> split_string '','' (join xs) = Some xs"
proof (induction xs rule: join.induct)
  case (2 x)
  then show ?case by (subst split_string.simps) (simp add: find_comma)
next
  case (3 x y xs)
  then show ?case by (subst split_string.simps) (simp add: find_comma)
qed simp

text \<open>Mappings of distinct queues, printed as \<open>queue:core\<close> and separated by commas, pin exactly those queues.\<close>

lemma mapping_roundtrip:
  assumes "ms \<noteq> []" "distinct (map fst ms)" "\<forall>x \<in> set ms. fst x < 2 ^ 32 \<and> snd x < 2 ^ 32"
  shows "\<exists>m. SetQueueToCoreMapping u (join (map show_mapping ms)) Map.empty = Some (Inr m) \<and>
    (\<forall>q. GetCoreForQueue q m = (case map_of ms q of None \<Rightarrow> MakeError ENOENT | Some c \<Rightarrow> Inr c))"
proof -
  have no_comma: "CHR '','' \<notin> set (show_mapping x)" for x
    using decimal_digits(2) digit_not by (auto simp: show_mapping_def)
  have rd: "map (read_mapping u) (map show_mapping ms) = ms" using assms(3) read_show by (simp add: map_idI)
  have "fold (\<lambda>s m. case read_mapping u s of (q, c) \<Rightarrow> m(q \<mapsto> c)) ss m = fold (\<lambda>(q, c) m. m(q \<mapsto> c)) (map (read_mapping u) ss) m" for ss m
    by (induction ss arbitrary: m) (simp_all split: prod.split)
  moreover have "fold (\<lambda>(q, c) m. m(q \<mapsto> c)) xs m = m ++ map_of xs" if "distinct (map fst xs)" for xs :: "(nat \<times> nat) list" and m
    using that
  proof (induction xs arbitrary: m)
    case (Cons x xs)
    then show ?case by (cases x) (auto simp: map_add_def fun_eq_iff dom_map_of_conv_image_fst map_of_eq_None_iff split: option.split, force)
  qed simp
  ultimately have "SetQueueToCoreMapping u (join (map show_mapping ms)) Map.empty = Some (Inr (map_of ms))"
    using split_join [of "map show_mapping ms"] assms(1,2) no_comma rd by (simp add: SetQueueToCoreMapping_def)
  then show ?thesis by (auto simp: GetCoreForQueue_def)
qed

end
