(* ===== verification/RW_Isolation.thy ===== *)
theory RW_Isolation
  imports Disk_Model
begin

text \<open>
  The read/write isolation policies of the control plane
  (\<open>sandook/scheduler/control_plane/rw_isolation_base.h\<close>, \<open>rw_isolation_strict.h\<close>,
  \<open>rw_isolation_weak.h\<close>, \<open>adaptive_rw_isolation_base.h\<close>, \<open>adaptive_rw_isolation_weak.h\<close>). The virtual
  \<open>GetPeakIOPS\<close> is the argument \<open>peak\<close>; a call of \<open>MicroTime\<close> is an argument; an uninitialised
  local array is an argument holding whatever the memory held.
\<close>

section \<open>State\<close>

record RWIsolation =
  last_allocation :: ServerAllocation
  prev_system_load :: SystemLoad
  last_mode_switch_time :: nat
  num_servers :: nat
  last_write_server_idx :: nat

definition RWIsolationBase_init :: "SystemLoad \<Rightarrow> nat \<Rightarrow> RWIsolation" where
  "RWIsolationBase_init load0 now = \<lparr>last_allocation = (False, 0, 0), prev_system_load = load0,
     last_mode_switch_time = now, num_servers = 0, last_write_server_idx = 0\<rparr>"

definition RWIsolationBase_AddServer :: "'a RWIsolation_scheme \<Rightarrow> 'a RWIsolation_scheme" where
  "RWIsolationBase_AddServer s = s\<lparr>num_servers := num_servers s + 1, last_write_server_idx := 0\<rparr>"

definition RWIsolationBase_GetPeakIOPS :: "(real \<Rightarrow> real) \<Rightarrow> ServerID \<Rightarrow> ServerMode \<Rightarrow> nat status" where
  "RWIsolationBase_GetPeakIOPS rnd sid m =
     (case m of Mode_kRead \<Rightarrow> Inr (ftou64 (kPeakReadIOPSPerSSD rnd))
      | _ \<Rightarrow> Inr (ftou64 (kPeakWriteIOPSPerSSD rnd)))"

section \<open>Allocation\<close>

definition UpdateSystemLoad ::
  "'a RWIsolation_scheme \<Rightarrow> SystemLoad \<Rightarrow> 'a RWIsolation_scheme" where
  "UpdateSystemLoad s load = s\<lparr>prev_system_load := load\<rparr>"

definition UpdateAllocation ::
  "'a RWIsolation_scheme \<Rightarrow> ServerAllocation \<Rightarrow> 'a RWIsolation_scheme" where
  "UpdateAllocation s allocation = s\<lparr>last_allocation := allocation\<rparr>"

definition IsAllocationChanged :: "'a RWIsolation_scheme \<Rightarrow> ServerAllocation \<Rightarrow> bool" where
  "IsAllocationChanged s allocation =
     (case allocation of (cur_is_traffic, cur_nr, cur_nw) \<Rightarrow>
        case last_allocation s of (last_is_traffic, last_nr, last_nw) \<Rightarrow>
          if cur_nr \<noteq> 0 \<and> last_nr = 0 then True
          else if cur_nw \<noteq> 0 \<and> last_nw = 0 then True
          else cur_nr > last_nr \<or> cur_nw > last_nw)"

definition AllocationNeedsUpdate ::
  "'a RWIsolation_scheme \<Rightarrow> ServerAllocation \<Rightarrow> SystemLoad \<Rightarrow> bool" where
  "AllocationNeedsUpdate s allocation load = IsAllocationChanged s allocation"

definition IsTimeToModeSwitch :: "'a RWIsolation_scheme \<Rightarrow> nat \<Rightarrow> bool" where
  "IsTimeToModeSwitch s now \<longleftrightarrow> usub64 now (last_mode_switch_time s) \<ge> kModeSwitchIntervalUs"

text \<open>The sum of a server's write counters is taken in 32 bits before it is added to the double.\<close>

definition all_writes :: "(real \<Rightarrow> real) \<Rightarrow> ServerStatsList \<Rightarrow> real" where
  "all_writes rnd stats =
     foldl (\<lambda>acc server. fadd rnd acc (real (to_u32 (inflight_writes server +
        completed_writes server + rejected_writes server)))) 0 stats"

text \<open>
  The demand loop: \<open>left\<close> is \<open>n_servers - dem_w_servers\<close>, so the test \<open>dem_w_servers == n_servers\<close> is
  the base case. The result is the number of servers added.
\<close>

fun demand_loop ::
  "(ServerID \<Rightarrow> ServerMode \<Rightarrow> nat status) \<Rightarrow> nat \<Rightarrow> nat \<Rightarrow> nat \<Rightarrow> nat \<Rightarrow> nat \<Rightarrow> nat status" where
  "demand_loop peak ns write_ops 0 idx handled_writes = Inr 0"
| "demand_loop peak ns write_ops (Suc left) idx handled_writes =
     (if handled_writes \<ge> write_ops then Inr 0
      else bindS (peak (idx + 1) Mode_kMix) (\<lambda>server_w_tput.
             bindS (demand_loop peak ns write_ops left ((idx + 1) mod ns)
                      (to_u64 (handled_writes + server_w_tput)))
               (\<lambda>dem. Inr (dem + 1))))"

definition kExtraWriteSSDs :: nat where "kExtraWriteSSDs = 1"

definition GetAllocation ::
  "(real \<Rightarrow> real) \<Rightarrow> (ServerID \<Rightarrow> ServerMode \<Rightarrow> nat status) \<Rightarrow> 'a RWIsolation_scheme
     \<Rightarrow> ServerStatsList \<Rightarrow> SystemLoad \<Rightarrow> ServerAllocation status" where
  "GetAllocation rnd peak s stats load =
     (let n_servers = length stats;
          (read_ops, write_ops) = load;
          total_ops = to_u64 (read_ops + write_ops);
          min_w_servers = if all_writes rnd stats > 0 \<or> write_ops > 0 then kNumReplicas else 0
      in if read_ops \<noteq> 0 \<and> write_ops \<noteq> 0
         then bindS (demand_loop peak (num_servers s) write_ops n_servers (last_write_server_idx s) 0)
                (\<lambda>dem.
                  let dem_w_servers = dem + kExtraWriteSSDs;
                      n_w_servers = min n_servers (max min_w_servers dem_w_servers)
                  in Inr (total_ops > 0, n_servers - n_w_servers, n_w_servers))
         else if read_ops \<noteq> 0 \<and> write_ops = 0 then Inr (total_ops > 0, n_servers, 0)
         else if write_ops \<noteq> 0 \<and> read_ops = 0 then Inr (total_ops > 0, 0, n_servers)
         else Inr (total_ops > 0, 0, 0))"

section \<open>Modes\<close>

fun assign_modes ::
  "nat \<Rightarrow> ServerMode \<Rightarrow> nat \<Rightarrow> nat \<Rightarrow> ServerModes \<Rightarrow> (nat \<times> ServerModes) status" where
  "assign_modes ns md 0 idx modes = Inr (idx, modes)"
| "assign_modes ns md (Suc n) idx modes =
     bindS (put_at modes (idx + 1) md)
       (\<lambda>modes'. assign_modes ns md n ((idx + 1) mod ns) modes')"

text \<open>The switch itself: write servers first, then read servers, then the rotation.\<close>

definition switch_modes ::
  "'a RWIsolation_scheme \<Rightarrow> nat \<Rightarrow> nat \<Rightarrow> nat \<Rightarrow> ServerModes
     \<Rightarrow> 'a RWIsolation_scheme \<times> ServerModes status" where
  "switch_modes s n_r n_w now modes =
     (case assign_modes (num_servers s) Mode_kWrite n_w (last_write_server_idx s) modes of
        Inl e \<Rightarrow> (s, Inl e)
      | Inr (idx, modes1) \<Rightarrow>
          (case assign_modes (num_servers s) Mode_kRead n_r idx modes1 of
             Inl e \<Rightarrow> (s, Inl e)
           | Inr (_, modes2) \<Rightarrow>
               (s\<lparr>last_write_server_idx := (last_write_server_idx s + n_w) mod num_servers s,
                  last_mode_switch_time := now\<rparr>, Inr modes2)))"

definition RWIsolationBase_ComputeModes ::
  "(real \<Rightarrow> real) \<Rightarrow> (ServerID \<Rightarrow> ServerMode \<Rightarrow> nat status) \<Rightarrow> 'a RWIsolation_scheme
     \<Rightarrow> ServerStatsList \<Rightarrow> SystemLoad \<Rightarrow> ServerModes \<Rightarrow> nat \<Rightarrow> nat
     \<Rightarrow> 'a RWIsolation_scheme \<times> ServerModes status" where
  "RWIsolationBase_ComputeModes rnd peak s stats load modes now now' =
     (if length stats \<le> kNumReplicas then (UpdateSystemLoad s load, Inr (map (\<lambda>_. Mode_kMix) modes))
      else case GetAllocation rnd peak s stats load of
        Inl e \<Rightarrow> (s, Inl e)
      | Inr (is_traffic, n_r_servers, n_w_servers) \<Rightarrow>
          if \<not> is_traffic then (UpdateSystemLoad s load, MakeError EAGAIN)
          else if n_r_servers = 0 \<and> n_w_servers = 0
          then (UpdateSystemLoad s load, Inr (map (\<lambda>_. Mode_kMix) modes))
          else
            let is_update =
                  AllocationNeedsUpdate s (is_traffic, n_r_servers, n_w_servers) load;
                s1 = UpdateSystemLoad s load
            in if \<not> is_update \<and> \<not> IsTimeToModeSwitch s1 now then (s1, MakeError EAGAIN)
               else switch_modes (UpdateAllocation s1 (is_traffic, n_r_servers, n_w_servers))
                      n_r_servers n_w_servers now' modes)"

section \<open>Weights\<close>

definition count_servers :: "(ServerStats \<Rightarrow> bool) \<Rightarrow> ServerStatsList \<Rightarrow> nat" where
  "count_servers P stats = length (filter P stats)"

definition set_weights ::
  "(ServerStats \<Rightarrow> bool) \<Rightarrow> real \<Rightarrow> ServerStatsList \<Rightarrow> ServerWeights \<Rightarrow> ServerWeights status" where
  "set_weights P weight stats weights =
     foldS (\<lambda>srv ws. if P srv then put_at ws (server_id srv) weight else Inr ws) stats weights"

definition equal_weights ::
  "(real \<Rightarrow> real) \<Rightarrow> (ServerStats \<Rightarrow> bool) \<Rightarrow> ServerStatsList \<Rightarrow> ServerWeights \<Rightarrow> ServerWeights status" where
  "equal_weights rnd P stats weights =
     set_weights P (fdiv rnd 1 (fof_nat rnd (count_servers P stats))) stats weights"

definition RWIsolationStrict_ComputeWeights ::
  "(real \<Rightarrow> real) \<Rightarrow> ServerStatsList \<Rightarrow> OpType \<Rightarrow> ServerWeights \<Rightarrow> ServerWeights status" where
  "RWIsolationStrict_ComputeWeights rnd stats op weights =
     (let filter_mode = (if op = Op_kRead then Mode_kWrite else Mode_kRead)
      in equal_weights rnd (\<lambda>srv. mode srv \<noteq> filter_mode) stats weights)"

definition RWIsolationWeak_ComputeReadWeights ::
  "(real \<Rightarrow> real) \<Rightarrow> ServerStatsList \<Rightarrow> ServerWeights \<Rightarrow> ServerWeights status" where
  "RWIsolationWeak_ComputeReadWeights rnd stats weights = equal_weights rnd (\<lambda>_. True) stats weights"

definition RWIsolationWeak_ComputeWriteWeights ::
  "(real \<Rightarrow> real) \<Rightarrow> ServerStatsList \<Rightarrow> ServerWeights \<Rightarrow> ServerWeights status" where
  "RWIsolationWeak_ComputeWriteWeights rnd stats weights =
     equal_weights rnd (\<lambda>srv. mode srv \<noteq> Mode_kRead) stats weights"

definition RWIsolationWeak_ComputeWeights ::
  "(real \<Rightarrow> real) \<Rightarrow> ServerStatsList \<Rightarrow> OpType \<Rightarrow> ServerWeights \<Rightarrow> ServerWeights status" where
  "RWIsolationWeak_ComputeWeights rnd stats op weights =
     (case op of Op_kRead \<Rightarrow> RWIsolationWeak_ComputeReadWeights rnd stats weights
      | Op_kWrite \<Rightarrow> RWIsolationWeak_ComputeWriteWeights rnd stats weights
      | _ \<Rightarrow> Inl Runtime_error)"

section \<open>The adaptive variant\<close>

record AdaptiveRWIsolation = RWIsolation +
  rw_models :: "DiskModel list"

text \<open>The base class counts the server before the model is loaded, also when loading throws.\<close>

definition AdaptiveRWIsolationBase_AddServer ::
  "(real \<Rightarrow> real) \<Rightarrow> (string \<Rightarrow> LoadLatency option) \<Rightarrow> AdaptiveRWIsolation \<Rightarrow> ServerID \<Rightarrow> string
     \<Rightarrow> DiskModel option \<Rightarrow> AdaptiveRWIsolation \<times> unit status" where
  "AdaptiveRWIsolationBase_AddServer rnd LoadModel s sid name model =
     (let s1 = RWIsolationBase_AddServer s;
          loaded = (case model of Some m \<Rightarrow> Inr m | None \<Rightarrow> DiskModel_new rnd LoadModel name)
      in case bindS loaded (put_at (rw_models s1) sid) of
           Inl e \<Rightarrow> (s1, Inl e)
         | Inr ms \<Rightarrow> (s1\<lparr>rw_models := ms\<rparr>, Inr ()))"

definition AdaptiveRWIsolationBase_GetPeakIOPS ::
  "(real \<Rightarrow> real) \<Rightarrow> AdaptiveRWIsolation \<Rightarrow> ServerID \<Rightarrow> ServerMode \<Rightarrow> nat status" where
  "AdaptiveRWIsolationBase_GetPeakIOPS rnd s sid m =
     bindS (get_at (rw_models s) sid) (\<lambda>dm. DiskModel_GetPeakIOPS rnd dm Mode_kMix 0)"

definition AdaptiveRWIsolationWeak_ComputeWeights ::
  "(real \<Rightarrow> real) \<Rightarrow> ServerStatsList \<Rightarrow> OpType \<Rightarrow> ServerWeights \<Rightarrow> ServerWeights status" where
  "AdaptiveRWIsolationWeak_ComputeWeights rnd stats op weights =
     (case op of Op_kRead \<Rightarrow> equal_weights rnd (\<lambda>_. True) stats weights
      | Op_kWrite \<Rightarrow> equal_weights rnd (\<lambda>srv. mode srv \<noteq> Mode_kRead) stats weights
      | _ \<Rightarrow> Inl Runtime_error)"

section \<open>The rotating window\<close>

text \<open>Distance of server \<open>j\<close> from \<open>start\<close> going round \<open>ns\<close> servers.\<close>

definition offset :: "nat \<Rightarrow> nat \<Rightarrow> nat \<Rightarrow> nat" where
  "offset ns start j = (if start \<le> j then j - start else j + ns - start)"

lemma offset_less: "j < ns \<Longrightarrow> start < ns \<Longrightarrow> offset ns start j < ns"
  by (auto simp: offset_def)

lemma wrap_add: "start < ns \<Longrightarrow> m \<le> ns \<Longrightarrow>
    (start + m) mod ns = (if start + m < ns then start + m else start + m - (ns::nat))"
  by (auto simp: mod_if)

lemma offset_step:
  assumes "j < ns" "start < ns" "Suc n \<le> ns"
  shows "offset ns start j < Suc n \<longleftrightarrow> j = start \<or> offset ns ((start + 1) mod ns) j < n"
  using assms wrap_add [of start ns 1] by (auto simp: offset_def)

lemma offset_shift:
  assumes "j < ns" "start < ns" "n_w \<le> ns"
  shows "offset ns ((start + n_w) mod ns) j < ns - n_w \<longleftrightarrow> \<not> offset ns start j < n_w"
  using assms wrap_add [of start ns n_w] by (auto simp: offset_def)

lemma offset_inj: "start < ns \<Longrightarrow> inj_on (offset ns start) {..<ns}"
  by (auto simp: inj_on_def offset_def split: if_splits)

lemma offset_bij: "start < ns \<Longrightarrow> bij_betw (offset ns start) {..<ns} {..<ns}"
  unfolding bij_betw_def
  by (intro conjI offset_inj endo_inj_surj) (auto simp: offset_less)

lemma offset_window_card:
  assumes "start < ns" "n \<le> ns"
  shows "card {j. j < ns \<and> offset ns start j < n} = n"
proof -
  let ?A = "{j. j < ns \<and> offset ns start j < n}"
  have "offset ns start ` ?A = {..<n}"
  proof (intro equalityI subsetI)
    fix k assume "k \<in> {..<n}"
    moreover then have "k \<in> offset ns start ` {..<ns}"
      using offset_bij [OF assms(1)] assms(2) by (auto simp: bij_betw_def)
    ultimately show "k \<in> offset ns start ` ?A" by auto
  qed auto
  moreover have "inj_on (offset ns start) ?A"
    by (rule inj_on_subset [OF offset_inj [OF assms(1)]]) auto
  ultimately show ?thesis by (metis card_image card_lessThan)
qed

lemma assign_modes_window:
  assumes "0 < ns" "start < ns" "ns < length modes" "n \<le> ns"
  shows "\<exists>modes'. assign_modes ns md n start modes = Inr ((start + n) mod ns, modes') \<and>
    length modes' = length modes \<and>
    (\<forall>j < ns. modes' ! (j + 1) = (if offset ns start j < n then md else modes ! (j + 1)))"
  using assms
proof (induction n arbitrary: start modes)
  case 0
  then show ?case by simp
next
  case (Suc n)
  let ?start = "(start + 1) mod ns" and ?modes = "modes[start + 1 := md]"
  have "?start < ns" "ns < length ?modes" "n \<le> ns" using Suc.prems by simp_all
  from Suc.IH [OF Suc.prems(1) this] obtain modes' where
    IH: "assign_modes ns md n ?start ?modes = Inr ((?start + n) mod ns, modes')"
      "length modes' = length modes"
      "\<And>j. j < ns \<Longrightarrow> modes' ! (j + 1) = (if offset ns ?start j < n then md else ?modes ! (j + 1))"
    by auto
  have "modes' ! (j + 1) = (if offset ns start j < Suc n then md else modes ! (j + 1))" if "j < ns" for j
    using IH(3) [OF that] offset_step [OF that Suc.prems(2,4)] Suc.prems(2,3)
    by (auto simp: nth_list_update)
  moreover have "(?start + n) mod ns = (start + Suc n) mod ns" by (simp add: mod_simps)
  ultimately show ?case using IH(1,2) Suc.prems(2,3) by simp
qed

lemma switch_modes_window:
  assumes "num_servers s = ns" "0 < ns" "last_write_server_idx s < ns" "ns < length modes"
    and "n_w \<le> ns" "n_r = ns - n_w"
  shows "\<exists>modes'. switch_modes s n_r n_w now modes =
      (s\<lparr>last_write_server_idx := (last_write_server_idx s + n_w) mod ns,
         last_mode_switch_time := now\<rparr>, Inr modes') \<and> length modes' = length modes \<and>
    (\<forall>j < ns. modes' ! (j + 1) =
       (if offset ns (last_write_server_idx s) j < n_w then Mode_kWrite else Mode_kRead))"
proof -
  let ?i = "last_write_server_idx s" and ?i' = "(last_write_server_idx s + n_w) mod num_servers s"
  obtain m1 where m1: "assign_modes ns Mode_kWrite n_w ?i modes = Inr (?i', m1)"
    "length m1 = length modes"
    "\<And>j. j < ns \<Longrightarrow> m1 ! (j + 1) = (if offset ns ?i j < n_w then Mode_kWrite else modes ! (j + 1))"
    using assign_modes_window [OF assms(2-5)] assms(1) by blast
  obtain m2 where m2: "assign_modes ns Mode_kRead n_r ?i' m1 = Inr ((?i' + n_r) mod ns, m2)"
    "length m2 = length m1"
    "\<And>j. j < ns \<Longrightarrow> m2 ! (j + 1) = (if offset ns ?i' j < n_r then Mode_kRead else m1 ! (j + 1))"
    using assign_modes_window [of ns ?i' m1 n_r Mode_kRead] assms m1(2) by auto
  have "m2 ! (j + 1) = (if offset ns ?i j < n_w then Mode_kWrite else Mode_kRead)" if "j < ns" for j
    using m1(3) [OF that] m2(3) [OF that] offset_shift [OF that assms(3,5)] assms(1,6) by auto
  then show ?thesis using m1(1,2) m2(1,2) assms(1) by (simp add: switch_modes_def)
qed

section \<open>The write demand\<close>

text \<open>Peak write throughput of the next \<open>d\<close> servers of the rotation.\<close>

definition window_tput :: "(nat \<Rightarrow> nat) \<Rightarrow> nat \<Rightarrow> nat \<Rightarrow> nat \<Rightarrow> nat" where
  "window_tput tput ns start d = (\<Sum>i < d. tput ((start + i) mod ns + 1))"

lemma window_tput_Suc:
  assumes "start < ns"
  shows "window_tput tput ns start (Suc d) =
    tput (start + 1) + window_tput tput ns ((start + 1) mod ns) d"
  unfolding window_tput_def
  by (subst sum.lessThan_Suc_shift) (use assms in \<open>simp add: mod_simps\<close>)

lemma window_tput_mono: "d \<le> e \<Longrightarrow> window_tput tput ns start d \<le> window_tput tput ns start e"
  unfolding window_tput_def by (rule sum_mono2) auto

lemma demand_loop_enough:
  assumes "\<And>sid. 1 \<le> sid \<Longrightarrow> sid \<le> ns \<Longrightarrow> peak sid Mode_kMix = Inr (tput sid)"
    and "start < ns" "handled + window_tput tput ns start left < 2 ^ 64"
  shows "\<exists>d \<le> left. demand_loop peak ns write_ops left start handled = Inr d \<and>
    (d = left \<or> write_ops \<le> handled + window_tput tput ns start d)"
  using assms(2,3)
proof (induction left arbitrary: start handled)
  case 0
  then show ?case by simp
next
  case (Suc left)
  show ?case
  proof (cases "handled \<ge> write_ops")
    case True
    then show ?thesis by (intro exI [of _ 0]) simp
  next
    case False
    let ?start = "(start + 1) mod ns" and ?handled = "handled + tput (start + 1)"
    have w: "window_tput tput ns start (Suc d) = tput (start + 1) + window_tput tput ns ?start d" for d
      by (rule window_tput_Suc [OF Suc.prems(1)])
    have "?start < ns" "?handled + window_tput tput ns ?start left < 2 ^ 64"
      using Suc.prems w [of left] by simp_all
    from Suc.IH [OF this] obtain d where
      d: "d \<le> left" "demand_loop peak ns write_ops left ?start ?handled = Inr d"
        "d = left \<or> write_ops \<le> ?handled + window_tput tput ns ?start d" by blast
    have "to_u64 ?handled = ?handled" using Suc.prems(2) w [of left] by (intro to_u64_id) simp
    then have "demand_loop peak ns write_ops (Suc left) start handled = Inr (Suc d)"
      using False d(2) assms(1) [of "start + 1"] Suc.prems(1) by simp
    moreover have "Suc d = Suc left \<or> write_ops \<le> handled + window_tput tput ns start (Suc d)"
      using d(3) w [of d] by auto
    ultimately show ?thesis using d(1) by (intro exI [of _ "Suc d"]) simp
  qed
qed

lemma GetAllocation_cases:
  assumes "GetAllocation rnd peak s stats load = Inr (t, n_r, n_w)"
  shows "n_w \<le> length stats"
    and "(n_r = 0 \<and> n_w = 0) \<or> n_r = length stats - n_w"
    and "fst load \<noteq> 0 \<Longrightarrow> snd load \<noteq> 0 \<Longrightarrow> min (length stats) kNumReplicas \<le> n_w"
  using assms
  by (auto simp: GetAllocation_def Let_def status_simps split: prod.splits if_splits)

section \<open>Equal weights\<close>

text \<open>The statistics of distinct, valid servers.\<close>

definition stats_ok :: "ServerStatsList \<Rightarrow> bool" where
  "stats_ok stats \<longleftrightarrow> distinct (map server_id stats) \<and>
     (\<forall>srv \<in> set stats. 0 < server_id srv \<and> server_id srv < kNumMaxServers)"

lemma set_weights_eq:
  assumes "\<forall>srv \<in> set stats. server_id srv < length ws"
  shows "\<exists>ws'. set_weights P w stats ws = Inr ws' \<and> length ws' = length ws \<and>
    (\<forall>i < length ws. ws' ! i = (if \<exists>srv \<in> set stats. P srv \<and> server_id srv = i then w else ws ! i))"
  using assms
proof (induction stats arbitrary: ws)
  case Nil
  then show ?case by (simp add: set_weights_def)
next
  case (Cons srv stats)
  let ?ws = "if P srv then ws[server_id srv := w] else ws"
  have len: "length ?ws = length ws" by simp
  obtain ws' where IH: "set_weights P w stats ?ws = Inr ws'" "length ws' = length ws"
    "\<And>i. i < length ws \<Longrightarrow>
       ws' ! i = (if \<exists>srv \<in> set stats. P srv \<and> server_id srv = i then w else ?ws ! i)"
    using Cons.IH [of ?ws] Cons.prems unfolding len by auto
  have "set_weights P w (srv # stats) ws = Inr ws'"
    using IH(1) Cons.prems by (auto simp: set_weights_def)
  then show ?case using IH(2,3) Cons.prems by (auto simp: nth_list_update)
qed

lemma sum_equal_weights:
  assumes "distinct (map server_id (filter P stats))" "filter P stats \<noteq> []"
    and "\<And>srv. srv \<in> set stats \<Longrightarrow> P srv \<Longrightarrow> ws ! server_id srv = 1 / real (count_servers P stats)"
  shows "(\<Sum>srv \<leftarrow> filter P stats. ws ! server_id srv) = (1 :: real)"
proof -
  have "(\<Sum>srv \<leftarrow> filter P stats. ws ! server_id srv)
      = (\<Sum>srv \<leftarrow> filter P stats. 1 / real (count_servers P stats))"
    by (rule arg_cong [where f = sum_list], rule map_cong [OF refl]) (use assms(3) in auto)
  also have "\<dots> = 1" using assms(2) by (simp add: sum_list_triv count_servers_def)
  finally show ?thesis .
qed

section \<open>Properties\<close>

text \<open>Unrolling of the loops on a literal count.\<close>

lemma demand_loop_pos:
  "0 < left \<Longrightarrow> demand_loop peak ns write_ops left idx handled_writes =
     (if handled_writes \<ge> write_ops then Inr 0
      else bindS (peak (idx + 1) Mode_kMix) (\<lambda>server_w_tput.
             bindS (demand_loop peak ns write_ops (left - 1) ((idx + 1) mod ns)
                      (to_u64 (handled_writes + server_w_tput)))
               (\<lambda>dem. Inr (dem + 1))))"
  by (cases left) simp_all

lemma assign_modes_pos:
  "0 < n \<Longrightarrow> assign_modes ns md n idx modes =
     bindS (put_at modes (idx + 1) md)
       (\<lambda>modes'. assign_modes ns md (n - 1) ((idx + 1) mod ns) modes')"
  by (cases n) simp_all

definition rw_inv :: "'a RWIsolation_scheme \<Rightarrow> nat \<Rightarrow> bool" where
  "rw_inv s ns \<longleftrightarrow> num_servers s = ns \<and> (ns = 0 \<or> last_write_server_idx s < ns)"

lemma AddServer_inv: "rw_inv s ns \<Longrightarrow> rw_inv (RWIsolationBase_AddServer s) (Suc ns)"
  by (simp add: rw_inv_def RWIsolationBase_AddServer_def)

lemma state_update_simps [simp]:
  "num_servers (UpdateSystemLoad s load) = num_servers s"
  "last_write_server_idx (UpdateSystemLoad s load) = last_write_server_idx s"
  "num_servers (UpdateAllocation s a) = num_servers s"
  "last_write_server_idx (UpdateAllocation s a) = last_write_server_idx s"
  by (simp_all add: UpdateSystemLoad_def UpdateAllocation_def)


text \<open>Three idle servers of a freshly registered cluster.\<close>

definition three_servers :: ServerStatsList where
  "three_servers = [zero_stats\<lparr>server_id := 1\<rparr>, zero_stats\<lparr>server_id := 2\<rparr>, zero_stats\<lparr>server_id := 3\<rparr>]"

definition three_state :: RWIsolation where
  "three_state = \<lparr>last_allocation = (False, 0, 0), prev_system_load = (0, 0),
     last_mode_switch_time = 0, num_servers = 3, last_write_server_idx = 2\<rparr>"

lemma three_simps [simp]:
  "num_servers three_state = 3" "last_write_server_idx three_state = 2"
  "last_allocation three_state = (False, 0, 0)" "length three_servers = 3"
  by (simp_all add: three_state_def three_servers_def)

lemma three_allocation:
  "GetAllocation (\<lambda>x. x) (RWIsolationBase_GetPeakIOPS (\<lambda>x. x)) three_state three_servers
      (500, 100) = Inr (True, 1, 2)"
  by (simp add: GetAllocation_def k_defs RWIsolationBase_GetPeakIOPS_def kPeakWriteIOPSPerSSD_def
      fmul_def ftou64_def to_u64_def kExtraWriteSSDs_def Let_def demand_loop_pos)


text \<open>
  C32. The write allocation meets the demand: with reads and writes in the load, the servers are
  split into read and write servers, at least \<open>kNumReplicas\<close> of them (or all) write servers, and
  the peak write throughput of the chosen window covers the write load unless every server is
  already a write server.
\<close>

theorem GetAllocation_meets_demand:
  assumes "rw_inv s ns" "length stats = ns" "0 < ns"
    and "\<forall>sid. 1 \<le> sid \<and> sid \<le> ns \<longrightarrow> peak sid Mode_kMix = Inr (tput sid)"
    and "window_tput tput ns (last_write_server_idx s) ns < 2 ^ 64"
    and "0 < reads" "0 < writes" "reads + writes < 2 ^ 64"
  shows "\<exists>n_w \<le> ns. GetAllocation rnd peak s stats (reads, writes) = Inr (True, ns - n_w, n_w) \<and>
    min ns kNumReplicas \<le> n_w \<and>
    (writes \<le> window_tput tput ns (last_write_server_idx s) n_w \<or> n_w = ns)"
proof -
  let ?i = "last_write_server_idx s"
  have idx: "?i < ns" "num_servers s = ns" using assms(1,3) by (auto simp: rw_inv_def)
  have room: "0 + window_tput tput ns ?i ns < 2 ^ 64" using assms(5) by simp
  obtain d where d: "d \<le> ns" "demand_loop peak ns writes ns ?i 0 = Inr d"
    "d = ns \<or> writes \<le> 0 + window_tput tput ns ?i d"
    using demand_loop_enough [of ns peak tput ?i 0 ns writes] assms(4) idx(1) room by blast
  let ?n = "min ns (max kNumReplicas (d + kExtraWriteSSDs))"
  have alloc: "GetAllocation rnd peak s stats (reads, writes) = Inr (True, ns - ?n, ?n)"
    using assms(2,6-8) d(2) idx(2) by (simp add: GetAllocation_def Let_def to_u64_id)
  have n: "?n = ns \<or> d \<le> ?n" by (auto simp: kExtraWriteSSDs_def)
  have "writes \<le> window_tput tput ns ?i ?n \<or> ?n = ns"
  proof (cases "?n = ns")
    case False
    with n d(3) have "d \<le> ?n" "writes \<le> window_tput tput ns ?i d"
      by (auto simp: kExtraWriteSSDs_def)
    then show ?thesis using window_tput_mono [of d ?n tput ns ?i] by simp
  qed simp
  with alloc show ?thesis by (intro exI [of _ ?n]) simp
qed

theorem GetAllocation_meets_demand_witness:
  "\<exists>n_w \<le> 3. GetAllocation (\<lambda>x. x) (\<lambda>sid m. Inr (1000 * sid)) three_state three_servers (70, 3500)
      = Inr (True, 3 - n_w, n_w) \<and> 2 \<le> n_w"
proof -
  have "window_tput (\<lambda>sid. 1000 * sid) 3 2 3 = 6000"
    by (simp add: window_tput_def lessThan_nat_numeral)
  then show ?thesis
    using GetAllocation_meets_demand [of three_state 3 three_servers "\<lambda>sid m. Inr (1000 * sid)"
        "\<lambda>sid. 1000 * sid" 70 3500 "\<lambda>x. x"]
    by (auto simp: rw_inv_def kNumReplicas_def)
qed

text \<open>
  With a load of reads only every server becomes a read server, and with writes only every
  server becomes a write server: the pure loads do not put the servers in mixed mode.
\<close>

theorem GetAllocation_pure_load:
  assumes "0 < ops" "ops < 2 ^ 64"
  shows "GetAllocation rnd peak s stats (ops, 0) = Inr (True, length stats, 0) \<and>
    GetAllocation rnd peak s stats (0, ops) = Inr (True, 0, length stats)"
  using assms by (simp add: GetAllocation_def Let_def to_u64_id)

theorem GetAllocation_pure_load_witness:
  "GetAllocation (\<lambda>x. x) (RWIsolationBase_GetPeakIOPS (\<lambda>x. x)) three_state three_servers (9, 0)
     = Inr (True, 3, 0)"
  using GetAllocation_pure_load [of 9 "\<lambda>x. x" "RWIsolationBase_GetPeakIOPS (\<lambda>x. x)" three_state
      three_servers] by simp

lemma equal_weights_eq:
  assumes "fp_rounding rnd" "stats_ok stats" "length w0 = kNumMaxServers" "length stats \<le> 2 ^ 53"
  shows "\<exists>ws. equal_weights rnd P stats w0 = Inr ws \<and> length ws = kNumMaxServers \<and>
    (\<forall>i < kNumMaxServers. ws ! i = (if \<exists>srv \<in> set stats. P srv \<and> server_id srv = i
       then rnd (1 / real (count_servers P stats)) else w0 ! i))"
proof -
  have "count_servers P stats \<le> 2 ^ 53"
    unfolding count_servers_def using length_filter_le assms(4) by (rule order_trans)
  then have "fof_nat rnd (count_servers P stats) = real (count_servers P stats)"
    by (simp only: fof_nat_def fp_rounding.rnd_nat [OF assms(1)])
  then show ?thesis
    using set_weights_eq [of stats w0 P "rnd (1 / real (count_servers P stats))"] assms(2,3)
    by (auto simp: equal_weights_def fdiv_def stats_ok_def)
qed

text \<open>
  C33. Strict isolation routes by mode: for any rounding, \<open>ComputeWeights\<close> of the strict policy gives
  every server whose mode admits the operation the same weight, in the interval from 0 (excluded)
  to 1, and leaves the entry of every other server as the uninitialised array had it; in exact
  arithmetic the admitted weights sum to 1.
\<close>

theorem strict_weights_route_by_mode:
  assumes "fp_rounding rnd" "stats_ok stats" "length w0 = kNumMaxServers" "length stats \<le> 2 ^ 53"
    and "admits = (\<lambda>srv. mode srv \<noteq> (if op = Op_kRead then Mode_kWrite else Mode_kRead))"
    and "\<exists>srv \<in> set stats. admits srv"
  shows "\<exists>ws w. RWIsolationStrict_ComputeWeights rnd stats op w0 = Inr ws \<and> 0 < w \<and> w \<le> 1 \<and>
    (\<forall>srv \<in> set stats. ws ! server_id srv = (if admits srv then w else w0 ! server_id srv)) \<and>
    (rnd = (\<lambda>x. x) \<longrightarrow> (\<Sum>srv \<leftarrow> filter admits stats. ws ! server_id srv) = 1)"
proof -
  from assms(6) obtain s0 where s0: "s0 \<in> set stats" "admits s0" by blast
  let ?n = "count_servers admits stats"
  let ?w = "rnd (1 / real ?n)"
  obtain ws where ws: "equal_weights rnd admits stats w0 = Inr ws"
    "\<And>i. i < kNumMaxServers \<Longrightarrow>
       ws ! i = (if \<exists>srv \<in> set stats. admits srv \<and> server_id srv = i then ?w else w0 ! i)"
    using equal_weights_eq [OF assms(1-4)] by blast
  have ne: "filter admits stats \<noteq> []" using s0 by (metis filter_empty_conv)
  then have n: "0 < ?n" by (simp add: count_servers_def)
  have w: "0 < ?w" "?w \<le> 1"
    using n by (auto intro!: fp_rounding.rnd_pos [OF assms(1)] fp_rounding.rnd_le_1 [OF assms(1)])
  have each: "ws ! server_id srv = (if admits srv then ?w else w0 ! server_id srv)"
    if "srv \<in> set stats" for srv
  proof -
    have "srv' = srv" if "srv' \<in> set stats" "server_id srv' = server_id srv" for srv'
      using assms(2) that \<open>srv \<in> set stats\<close> by (auto simp: stats_ok_def distinct_map inj_on_def)
    moreover have "server_id srv < kNumMaxServers" using assms(2) that by (simp add: stats_ok_def)
    ultimately show ?thesis using ws(2) [of "server_id srv"] that by auto
  qed
  have "(\<Sum>srv \<leftarrow> filter admits stats. ws ! server_id srv) = 1" if "rnd = (\<lambda>x. x)"
    by (rule sum_equal_weights)
      (use each that ne assms(2) in \<open>auto simp: stats_ok_def distinct_map inj_on_def\<close>)
  with ws(1) w each show ?thesis
    using assms(5) by (intro exI [of _ ws] exI [of _ ?w])
      (auto simp: RWIsolationStrict_ComputeWeights_def Let_def)
qed

theorem strict_weights_route_by_mode_witness:
  "\<exists>ws w. RWIsolationStrict_ComputeWeights rnd64 three_servers Op_kRead (replicate 20 0) = Inr ws \<and>
    0 < w \<and> w \<le> 1 \<and> ws ! 1 = w"
  using strict_weights_route_by_mode [OF r64.fp_rounding_axioms, of three_servers "replicate 20 0"
      "\<lambda>srv. mode srv \<noteq> Mode_kWrite" Op_kRead]
  by (auto simp: stats_ok_def three_servers_def zero_stats_def k_defs)

end
