(* ===== verification/Profile_Guided.thy ===== *)
theory Profile_Guided
  imports RW_Isolation
begin

text \<open>
  The profile-guided weights of the control plane
  (\<open>sandook/scheduler/control_plane/profile_guided.h\<close>) and their combination with read/write
  isolation (\<open>profile_guided_rw_isolation.h\<close>). Every double operation goes through \<open>rnd\<close>; a
  comparison with the NaN of a zero mean signal is false.
\<close>

section \<open>State and constants\<close>

type_synonym DiskModels = "DiskModel list"

definition kStaticWeightPeakLoadThreshold :: "(real \<Rightarrow> real) \<Rightarrow> real" where
  "kStaticWeightPeakLoadThreshold rnd = rnd 0.95"
definition kStableMeanBound :: "(real \<Rightarrow> real) \<Rightarrow> real" where "kStableMeanBound rnd = rnd 0.05"
definition kMaxIterativeMethodMeanBound :: real where "kMaxIterativeMethodMeanBound = 1"
definition kMaxIterations :: nat where "kMaxIterations = 5000"
definition kBias :: "(real \<Rightarrow> real) \<Rightarrow> real" where "kBias rnd = rnd 0.005"
definition kMinWeight :: real where "kMinWeight = 0"
definition kMaxWeight :: real where "kMaxWeight = 1"

definition ProfileGuided_AddServer ::
  "(real \<Rightarrow> real) \<Rightarrow> (string \<Rightarrow> LoadLatency option) \<Rightarrow> DiskModels \<Rightarrow> ServerID \<Rightarrow> string
     \<Rightarrow> DiskModel option \<Rightarrow> DiskModels status" where
  "ProfileGuided_AddServer rnd LoadModel models sid name model =
     (case model of Some m \<Rightarrow> put_at models sid m
      | None \<Rightarrow> bindS (DiskModel_new rnd LoadModel name) (put_at models sid))"

section \<open>Choice of the method\<close>

definition capacity ::
  "(real \<Rightarrow> real) \<Rightarrow> DiskModels \<Rightarrow> (ServerStats \<Rightarrow> ServerMode) \<Rightarrow> real \<Rightarrow> ServerStatsList
     \<Rightarrow> nat status" where
  "capacity rnd models peak_mode write_ratio stats =
     foldS (\<lambda>srv total. bindS (get_at models (server_id srv)) (\<lambda>model.
        bindS (DiskModel_GetPeakIOPS rnd model (peak_mode srv) write_ratio) (\<lambda>srv_load.
          Inr (to_u64 (total + srv_load))))) stats 0"

definition UseIterativeMethod ::
  "(real \<Rightarrow> real) \<Rightarrow> DiskModels \<Rightarrow> ServerStatsList \<Rightarrow> OpType \<Rightarrow> SystemLoad \<Rightarrow> bool status" where
  "UseIterativeMethod rnd models stats op load =
     bindS (capacity rnd models
              (\<lambda>srv. if mode srv = Mode_kRead then Mode_kRead else Mode_kWrite) 0 stats)
       (\<lambda>total_iops_capacity.
          let (read_ops, write_ops) = load;
              threshold = fmul rnd (fof_nat rnd total_iops_capacity)
                            (kStaticWeightPeakLoadThreshold rnd)
          in Inr (if op = Op_kRead then fof_nat rnd read_ops < threshold
                  else fof_nat rnd write_ops < threshold))"

section \<open>The iterative method\<close>

definition ResetWeights ::
  "(real \<Rightarrow> real) \<Rightarrow> ServerWeights \<Rightarrow> ServerStatsList \<Rightarrow> ServerWeights status" where
  "ResetWeights rnd weights stats =
     set_weights (\<lambda>_. True) (fdiv rnd 1 (fof_nat rnd (length stats))) stats weights"

definition GetResidualLoad :: "(real \<Rightarrow> real) \<Rightarrow> ServerStats \<Rightarrow> OpType \<Rightarrow> real" where
  "GetResidualLoad rnd server op =
     (let scale_factor = fdiv rnd (real kOneSecond) (real kDiskServerStatsUpdateIntervalUs)
      in if mode server = Mode_kRead then 0
         else fmul rnd (real (if op = Op_kRead then inflight_writes server
                              else inflight_reads server)) scale_factor)"

record signal_state =
  signals :: "nat list"
  best_server_id :: ServerID
  best_server_signal :: nat
  sum_signal :: nat

definition measure_server ::
  "(real \<Rightarrow> real) \<Rightarrow> DiskModels \<Rightarrow> OpType \<Rightarrow> nat \<Rightarrow> real \<Rightarrow> ServerWeights \<Rightarrow> ServerStats
     \<Rightarrow> signal_state \<Rightarrow> signal_state status" where
  "measure_server rnd models op total_ops write_ratio weights srv st =
     bindS (get_at weights (server_id srv)) (\<lambda>w.
       let residual_load = GetResidualLoad rnd srv op;
           new_load = fmul rnd (fof_nat rnd total_ops) w;
           load = fadd rnd new_load residual_load
       in bindS (get_at models (server_id srv)) (\<lambda>model.
            bindS (DiskModel_GetLatency rnd model (ftou64 load) op (mode srv) write_ratio) (\<lambda>sig.
              let st1 = (if sig < best_server_signal st
                         then st\<lparr>best_server_signal := sig, best_server_id := server_id srv\<rparr>
                         else st)
              in bindS (put_at (signals st1) (server_id srv) sig) (\<lambda>sigs.
                   Inr (st1\<lparr>signals := sigs, sum_signal := to_u64 (sum_signal st1 + sig)\<rparr>)))))"

definition signal_init :: signal_state where
  "signal_init = \<lparr>signals = replicate kNumMaxServers 0, best_server_id = kInvalidServerID,
     best_server_signal = 2 ^ 64 - 1, sum_signal = 0\<rparr>"

definition signal_stable :: "(real \<Rightarrow> real) \<Rightarrow> nat \<Rightarrow> real \<Rightarrow> signal_state \<Rightarrow> bool" where
  "signal_stable rnd num_srv bound st =
     (let mean_signal = fdiv rnd (fof_nat rnd (sum_signal st)) (fof_nat rnd num_srv);
          d_diff_signal = \<bar>fsub rnd (fof_nat rnd (best_server_signal st)) mean_signal\<bar>;
          diff = fdiv rnd d_diff_signal mean_signal
      in mean_signal \<noteq> 0 \<and> diff \<le> bound)"

definition update_weights ::
  "(real \<Rightarrow> real) \<Rightarrow> ServerID \<Rightarrow> real \<Rightarrow> real \<Rightarrow> ServerStatsList \<Rightarrow> ServerWeights
     \<Rightarrow> ServerWeights status" where
  "update_weights rnd best scale_factor new_best_weight stats weights =
     foldS (\<lambda>srv ws. bindS (get_at ws (server_id srv)) (\<lambda>weight.
        put_at ws (server_id srv)
          (if server_id srv = best then min new_best_weight kMaxWeight
           else max (fmul rnd scale_factor weight) kMinWeight))) stats weights"

text \<open>\<open>left\<close> counts the iterations that remain of \<open>kMaxIterations\<close>.\<close>

fun stabilize ::
  "(real \<Rightarrow> real) \<Rightarrow> DiskModels \<Rightarrow> ServerStatsList \<Rightarrow> OpType \<Rightarrow> nat \<Rightarrow> real \<Rightarrow> real \<Rightarrow> nat
     \<Rightarrow> ServerWeights \<Rightarrow> ServerWeights status" where
  "stabilize rnd models stats op total_ops write_ratio bound 0 weights = MakeError EAGAIN"
| "stabilize rnd models stats op total_ops write_ratio bound (Suc left) weights =
     bindS (foldS (measure_server rnd models op total_ops write_ratio weights) stats signal_init)
       (\<lambda>st. if signal_stable rnd (length stats) bound st then Inr weights
             else bindS (get_at weights (best_server_id st)) (\<lambda>cur_best_weight.
               let new_best_weight = fadd rnd cur_best_weight (kBias rnd);
                   cur_rem_weight = fsub rnd 1 cur_best_weight
               in if cur_rem_weight = 0 then MakeError EAGAIN
                  else let new_rem_weight = fsub rnd 1 new_best_weight;
                           scale_factor = fdiv rnd new_rem_weight cur_rem_weight
                       in if scale_factor = 0 then MakeError EAGAIN
                          else bindS (update_weights rnd (best_server_id st) scale_factor
                                        new_best_weight stats weights)
                                 (stabilize rnd models stats op total_ops write_ratio bound left)))"

definition write_ratio_of :: "(real \<Rightarrow> real) \<Rightarrow> SystemLoad \<Rightarrow> real" where
  "write_ratio_of rnd load =
     fdiv rnd (fof_nat rnd (snd load)) (fof_nat rnd (to_u64 (fst load + snd load)))"

definition ComputeWeightsIterative ::
  "(real \<Rightarrow> real) \<Rightarrow> DiskModels \<Rightarrow> ServerStatsList \<Rightarrow> OpType \<Rightarrow> SystemLoad \<Rightarrow> real
     \<Rightarrow> ServerWeights status" where
  "ComputeWeightsIterative rnd models stats op load bound =
     (let total_ops = to_u64 (fst load + snd load)
      in if length stats < 2 then MakeError EAGAIN
         else if total_ops = 0 then MakeError EAGAIN
         else bindS (ResetWeights rnd (replicate kNumMaxServers 0) stats)
                (stabilize rnd models stats op total_ops (write_ratio_of rnd load) bound
                   kMaxIterations))"

section \<open>The method from peak loads\<close>

definition peak_weight ::
  "(real \<Rightarrow> real) \<Rightarrow> nat \<Rightarrow> nat \<Rightarrow> nat \<Rightarrow> real" where
  "peak_weight rnd total_iops_capacity median_load srv_load =
     (let weight = fdiv rnd (fof_nat rnd srv_load) (fof_nat rnd total_iops_capacity);
          weight = (if srv_load \<ge> median_load then fadd rnd weight (kBias rnd)
                    else fsub rnd weight (kBias rnd))
      in if weight < kMinWeight then kMinWeight
         else if kMaxWeight < weight then kMaxWeight else weight)"

definition peak_loads ::
  "(real \<Rightarrow> real) \<Rightarrow> DiskModels \<Rightarrow> real \<Rightarrow> ServerStatsList \<Rightarrow> nat list status" where
  "peak_loads rnd models write_ratio stats =
     foldS (\<lambda>srv loads. bindS (get_at models (server_id srv)) (\<lambda>model.
        bindS (DiskModel_GetPeakIOPS rnd model (mode srv) write_ratio) (\<lambda>srv_load.
          Inr (loads @ [srv_load])))) stats []"

definition peak_step ::
  "(real \<Rightarrow> real) \<Rightarrow> DiskModels \<Rightarrow> real \<Rightarrow> nat \<Rightarrow> nat \<Rightarrow> ServerStats \<Rightarrow> ServerWeights \<times> real
     \<Rightarrow> (ServerWeights \<times> real) status" where
  "peak_step rnd models write_ratio total_iops_capacity median_load srv acc =
     (case acc of (ws, sum_weights) \<Rightarrow>
        bindS (get_at models (server_id srv)) (\<lambda>model.
          bindS (DiskModel_GetPeakIOPS rnd model (mode srv) write_ratio) (\<lambda>srv_load.
            let weight = peak_weight rnd total_iops_capacity median_load srv_load
            in bindS (put_at ws (server_id srv) weight) (\<lambda>ws'.
                 Inr (ws', fadd rnd sum_weights weight)))))"

definition ComputeWeightsFromPeak ::
  "(real \<Rightarrow> real) \<Rightarrow> DiskModels \<Rightarrow> ServerStatsList \<Rightarrow> OpType \<Rightarrow> SystemLoad \<Rightarrow> ServerWeights status" where
  "ComputeWeightsFromPeak rnd models stats op load =
     (let total_ops = to_u64 (fst load + snd load); write_ratio = write_ratio_of rnd load
      in if length stats < 2 then MakeError EAGAIN
         else if total_ops = 0 then MakeError EAGAIN
         else bindS (ResetWeights rnd (replicate kNumMaxServers 0) stats) (\<lambda>weights.
           bindS (peak_loads rnd models write_ratio stats) (\<lambda>loads.
             bindS (capacity rnd models mode write_ratio stats) (\<lambda>total_iops_capacity.
               if total_iops_capacity = 0 then Inr weights
               else let median_load = sort loads ! (length loads div 2) in
                 bindS (foldS (peak_step rnd models write_ratio total_iops_capacity median_load)
                          stats (weights, 0))
                   (\<lambda>(ws, sum_weights).
                      if sum_weights \<le> 0 then ResetWeights rnd ws stats
                      else foldS (\<lambda>srv ws. bindS (get_at ws (server_id srv)) (\<lambda>w.
                             put_at ws (server_id srv) (fdiv rnd w sum_weights))) stats ws)))))"

section \<open>The combination\<close>

text \<open>
  The loop over the growing bound. \<open>left\<close> bounds the rounds: the bound starts at 0.05 and grows by
  0.05, so \<open>kBoundSteps\<close> rounds are enough for it to reach 1 under every rounding of the assumed
  kind, which is a lemma below.
\<close>

definition kBoundSteps :: nat where "kBoundSteps = 24"

fun widen_bound ::
  "(real \<Rightarrow> real) \<Rightarrow> (real \<Rightarrow> ServerWeights status) \<Rightarrow> nat \<Rightarrow> real \<Rightarrow> ServerWeights status option" where
  "widen_bound rnd attempt 0 bound = None"
| "widen_bound rnd attempt (Suc left) bound =
     (if bound < kMaxIterativeMethodMeanBound
      then (case attempt bound of
              Inr ws \<Rightarrow> Some (Inr ws)
            | Inl (Errno _) \<Rightarrow> widen_bound rnd attempt left (fadd rnd bound (kStableMeanBound rnd))
            | Inl e \<Rightarrow> Some (Inl e))
      else None)"

definition ProfileGuided_ComputeWeights ::
  "(real \<Rightarrow> real) \<Rightarrow> DiskModels \<Rightarrow> ServerStatsList \<Rightarrow> OpType \<Rightarrow> SystemLoad \<Rightarrow> ServerWeights status" where
  "ProfileGuided_ComputeWeights rnd models stats op load =
     bindS (UseIterativeMethod rnd models stats op load) (\<lambda>iterative.
       case (if iterative
             then widen_bound rnd (ComputeWeightsIterative rnd models stats op load) kBoundSteps
                    (kStableMeanBound rnd)
             else None) of
         Some r \<Rightarrow> r
       | None \<Rightarrow> ComputeWeightsFromPeak rnd models stats op load)"

record ProfileGuidedRWIsolation =
  pg_rw :: AdaptiveRWIsolation
  pg_models :: DiskModels

definition ProfileGuidedRWIsolation_AddServer ::
  "(real \<Rightarrow> real) \<Rightarrow> (string \<Rightarrow> LoadLatency option) \<Rightarrow> ProfileGuidedRWIsolation \<Rightarrow> ServerID \<Rightarrow> string
     \<Rightarrow> DiskModel option \<Rightarrow> ProfileGuidedRWIsolation \<times> unit status" where
  "ProfileGuidedRWIsolation_AddServer rnd LoadModel s sid name model =
     (case ProfileGuided_AddServer rnd LoadModel (pg_models s) sid name model of
        Inl e \<Rightarrow> (s, Inl e)
      | Inr ms \<Rightarrow>
          (case AdaptiveRWIsolationBase_AddServer rnd LoadModel (pg_rw s) sid name model of
             (rw, r) \<Rightarrow> (s\<lparr>pg_models := ms, pg_rw := rw\<rparr>, r)))"

definition ProfileGuidedRWIsolation_ComputeModes ::
  "(real \<Rightarrow> real) \<Rightarrow> ProfileGuidedRWIsolation \<Rightarrow> ServerStatsList \<Rightarrow> SystemLoad \<Rightarrow> ServerModes
     \<Rightarrow> nat \<Rightarrow> nat \<Rightarrow> ProfileGuidedRWIsolation \<times> ServerModes status" where
  "ProfileGuidedRWIsolation_ComputeModes rnd s stats load modes now now' =
     (case RWIsolationBase_ComputeModes rnd (AdaptiveRWIsolationBase_GetPeakIOPS rnd (pg_rw s))
             (pg_rw s) stats load modes now now' of
        (rw, r) \<Rightarrow> (s\<lparr>pg_rw := rw\<rparr>, r))"

definition ProfileGuidedRWIsolation_ComputeWeights ::
  "(real \<Rightarrow> real) \<Rightarrow> ProfileGuidedRWIsolation \<Rightarrow> ServerStatsList \<Rightarrow> OpType \<Rightarrow> SystemLoad
     \<Rightarrow> ServerWeights status" where
  "ProfileGuidedRWIsolation_ComputeWeights rnd s stats op load =
     (case op of
        Op_kRead \<Rightarrow> ProfileGuided_ComputeWeights rnd (pg_models s) stats Op_kRead load
      | Op_kWrite \<Rightarrow> ProfileGuided_ComputeWeights rnd (pg_models s)
          (filter (\<lambda>srv. mode srv \<noteq> Mode_kRead) stats) Op_kWrite load
      | _ \<Rightarrow> Inl Runtime_error)"

section \<open>The bound loop ends\<close>

context fp_rounding
begin

lemma bound_step:
  "0 \<le> b \<Longrightarrow> b < 1 \<Longrightarrow> b + 1 / 25 \<le> fadd rnd b (kStableMeanBound rnd)"
  unfolding fadd_def kStableMeanBound_def by (rule rnd_add_twentieth)

lemma widen_bound_fuel:
  assumes "0 \<le> b" "1 \<le> b + real n / 25"
  shows "widen_bound rnd attempt (n + k) b = widen_bound rnd attempt n b"
  using assms
proof (induction n arbitrary: b)
  case 0
  then show ?case by (cases k) (simp_all add: kMaxIterativeMethodMeanBound_def)
next
  case (Suc n)
  let ?b = "fadd rnd b (kStableMeanBound rnd)"
  have "widen_bound rnd attempt (n + k) ?b = widen_bound rnd attempt n ?b" if "b < 1"
  proof (rule Suc.IH)
    have step: "b + 1 / 25 \<le> ?b" by (rule bound_step [OF Suc.prems(1) that])
    then show "0 \<le> ?b" using Suc.prems(1) by linarith
    have "real (Suc n) / 25 = real n / 25 + 1 / 25" by simp
    then show "1 \<le> ?b + real n / 25" using step Suc.prems(2) by linarith
  qed
  then show ?case
    by (simp add: kMaxIterativeMethodMeanBound_def split: sum.splits fail.splits)
qed

lemma kBoundSteps_enough:
  "widen_bound rnd attempt (kBoundSteps + k) (kStableMeanBound rnd) =
   widen_bound rnd attempt kBoundSteps (kStableMeanBound rnd)"
proof (rule widen_bound_fuel)
  have "1 / 25 \<le> rnd 0.05"
    using rnd_lower [of "0.05"] by simp
  then show "0 \<le> kStableMeanBound rnd" "1 \<le> kStableMeanBound rnd + real kBoundSteps / 25"
    by (simp_all add: kStableMeanBound_def kBoundSteps_def)
qed

end

section \<open>Pointwise updates of the weights\<close>

abbreviation ids :: "ServerStatsList \<Rightarrow> ServerID set" where
  "ids stats \<equiv> server_id ` set stats"

lemma foldS_pointwise:
  assumes "distinct (map server_id stats)" "\<forall>srv \<in> set stats. server_id srv < length ws"
  shows "\<exists>ws'. foldS (\<lambda>srv ws. bindS (get_at ws (server_id srv)) (\<lambda>w.
      put_at ws (server_id srv) (f srv w))) stats ws = Inr ws' \<and> length ws' = length ws \<and>
    (\<forall>srv \<in> set stats. ws' ! server_id srv = f srv (ws ! server_id srv)) \<and>
    (\<forall>i. i \<notin> ids stats \<longrightarrow> ws' ! i = ws ! i)"
  using assms
proof (induction stats arbitrary: ws)
  case Nil
  then show ?case by simp
next
  case (Cons srv stats)
  let ?ws = "ws[server_id srv := f srv (ws ! server_id srv)]"
  obtain ws' where IH: "foldS (\<lambda>srv ws. bindS (get_at ws (server_id srv)) (\<lambda>w.
      put_at ws (server_id srv) (f srv w))) stats ?ws = Inr ws'" "length ws' = length ?ws"
    "\<forall>srv \<in> set stats. ws' ! server_id srv = f srv (?ws ! server_id srv)"
    "\<forall>i. i \<notin> ids stats \<longrightarrow> ws' ! i = ?ws ! i"
    using Cons.IH [of ?ws] Cons.prems by auto
  have "?ws ! server_id t = ws ! server_id t" if "t \<in> set stats" for t
    using Cons.prems(1) that by (metis distinct.simps(2) image_eqI list.simps(9) list.set_map
        nth_list_update_neq)
  then show ?case using IH Cons.prems by (intro exI [of _ ws']) auto
qed

definition total_weight :: "ServerStatsList \<Rightarrow> ServerWeights \<Rightarrow> real" where
  "total_weight stats ws = (\<Sum>i \<in> ids stats. ws ! i)"

text \<open>Weights that are doubles between 0 and 1, and 0 outside the servers considered.\<close>

definition weights_ok :: "(real \<Rightarrow> real) \<Rightarrow> ServerStatsList \<Rightarrow> ServerWeights \<Rightarrow> bool" where
  "weights_ok rnd stats ws \<longleftrightarrow> length ws = kNumMaxServers \<and>
     (\<forall>i < kNumMaxServers. 0 \<le> ws ! i \<and> ws ! i \<le> 1 \<and> rnd (ws ! i) = ws ! i \<and>
        (i \<notin> ids stats \<longrightarrow> ws ! i = 0))"

lemma card_ids: "stats_ok stats \<Longrightarrow> card (ids stats) = length stats"
  by (metis card_image distinct_card distinct_map length_map stats_ok_def)

lemma pointwise_ok:
  assumes "stats_ok stats" "weights_ok rnd stats ws"
    and "\<And>srv. srv \<in> set stats \<Longrightarrow> 0 \<le> f srv (ws ! server_id srv) \<and> f srv (ws ! server_id srv) \<le> 1 \<and>
      rnd (f srv (ws ! server_id srv)) = f srv (ws ! server_id srv)"
  shows "\<exists>ws'. foldS (\<lambda>srv ws. bindS (get_at ws (server_id srv)) (\<lambda>w.
      put_at ws (server_id srv) (f srv w))) stats ws = Inr ws' \<and> weights_ok rnd stats ws' \<and>
    (\<forall>srv \<in> set stats. ws' ! server_id srv = f srv (ws ! server_id srv))"
proof -
  obtain ws' where r: "foldS (\<lambda>srv ws. bindS (get_at ws (server_id srv)) (\<lambda>w.
      put_at ws (server_id srv) (f srv w))) stats ws = Inr ws'" "length ws' = length ws"
    "\<forall>srv \<in> set stats. ws' ! server_id srv = f srv (ws ! server_id srv)"
    "\<forall>i. i \<notin> ids stats \<longrightarrow> ws' ! i = ws ! i"
    using foldS_pointwise [of stats ws f] assms(1,2) by (auto simp: stats_ok_def weights_ok_def)
  have "0 \<le> ws' ! i \<and> ws' ! i \<le> 1 \<and> rnd (ws' ! i) = ws' ! i \<and> (i \<notin> ids stats \<longrightarrow> ws' ! i = 0)"
    if "i < kNumMaxServers" for i
  proof (cases "i \<in> ids stats")
    case True
    then show ?thesis using r(3) assms(3) by auto
  next
    case False
    then show ?thesis using r(4) assms(2) that by (metis weights_ok_def)
  qed
  then show ?thesis using r assms(2) by (auto simp: weights_ok_def)
qed

lemma set_weights_pointwise:
  assumes "\<forall>srv \<in> set stats. server_id srv < length ws"
  shows "set_weights (\<lambda>_. True) w stats ws =
    foldS (\<lambda>srv ws. bindS (get_at ws (server_id srv)) (\<lambda>_. put_at ws (server_id srv) w)) stats ws"
  using assms
proof (induction stats arbitrary: ws)
  case Nil
  then show ?case by (simp add: set_weights_def)
next
  case (Cons srv stats)
  then show ?case by (simp add: set_weights_def)
qed

section \<open>Invariants of the iterative method\<close>

lemma foldS_cong_fun: "f = g \<Longrightarrow> foldS f xs s = foldS g xs s"
  by simp

context fp_rounding
begin

lemma unit_div_ok:
  assumes "0 < n" "n \<le> 2 ^ 53"
  shows "0 \<le> fdiv rnd 1 (fof_nat rnd n)" "fdiv rnd 1 (fof_nat rnd n) \<le> 1"
    "rnd (fdiv rnd 1 (fof_nat rnd n)) = fdiv rnd 1 (fof_nat rnd n)"
  using assms by (auto simp: fdiv_def fof_nat_def rnd_nat rnd_idem intro!: rnd_nonneg rnd_le_1)

lemma ResetWeights_ok:
  assumes "stats_ok stats" "stats \<noteq> []" "length stats \<le> 2 ^ 53" "weights_ok rnd stats ws"
  shows "\<exists>ws'. ResetWeights rnd ws stats = Inr ws' \<and> weights_ok rnd stats ws' \<and>
    (\<forall>srv \<in> set stats. ws' ! server_id srv = fdiv rnd 1 (fof_nat rnd (length stats)))"
proof -
  have "\<forall>srv \<in> set stats. server_id srv < length ws"
    using assms(1,4) by (auto simp: stats_ok_def weights_ok_def)
  then show ?thesis
    using pointwise_ok [OF assms(1,4), of "\<lambda>_ _. fdiv rnd 1 (fof_nat rnd (length stats))"]
      unit_div_ok [OF _ assms(3)] assms(2)
    by (simp add: ResetWeights_def set_weights_pointwise)
qed

lemma zero_weights_ok: "weights_ok rnd stats (replicate kNumMaxServers 0)"
  by (simp add: weights_ok_def rnd_0)

lemma scale_le_1:
  assumes "0 \<le> cur" "cur \<le> 1" "rnd cur = cur" "fsub rnd 1 cur \<noteq> 0"
  shows "fdiv rnd (fsub rnd 1 (fadd rnd cur (kBias rnd))) (fsub rnd 1 cur) \<le> 1"
    and "cur \<le> fadd rnd cur (kBias rnd)" "0 < fsub rnd 1 cur"
proof -
  show le: "cur \<le> fadd rnd cur (kBias rnd)"
    unfolding fadd_def kBias_def by (intro rnd_add_ge assms rnd_nonneg) simp
  have "0 \<le> fsub rnd 1 cur" unfolding fsub_def by (rule rnd_nonneg) (use assms(2) in simp)
  with assms(4) show pos: "0 < fsub rnd 1 cur" by simp
  have "fsub rnd 1 (fadd rnd cur (kBias rnd)) \<le> fsub rnd 1 cur"
    unfolding fsub_def by (rule rnd_mono) (use le in simp)
  with pos show "fdiv rnd (fsub rnd 1 (fadd rnd cur (kBias rnd))) (fsub rnd 1 cur) \<le> 1"
    unfolding fdiv_def by (intro rnd_le_1) simp
qed

lemma update_weights_ok:
  assumes "stats_ok stats" "weights_ok rnd stats ws" "scale \<le> 1" "0 \<le> nb" "rnd nb = nb"
  shows "\<exists>ws'. update_weights rnd best scale nb stats ws = Inr ws' \<and> weights_ok rnd stats ws' \<and>
    (\<forall>srv \<in> set stats. ws' ! server_id srv = (if server_id srv = best then min nb kMaxWeight
       else max (fmul rnd scale (ws ! server_id srv)) kMinWeight))"
proof -
  let ?f = "\<lambda>srv w. if server_id srv = best then min nb kMaxWeight
    else max (fmul rnd scale w) kMinWeight"
  have "0 \<le> ?f srv w \<and> ?f srv w \<le> 1 \<and> rnd (?f srv w) = ?f srv w" if w: "0 \<le> w" "w \<le> 1" for srv w
  proof -
    have "scale * w \<le> 1 * w" by (rule mult_right_mono [OF assms(3) w(1)])
    then have "fmul rnd scale w \<le> 1" unfolding fmul_def by (intro rnd_le_1) (use w in simp)
    then show ?thesis using assms(4,5)
      by (auto simp: kMaxWeight_def kMinWeight_def min_def max_def fmul_def rnd_idem rnd_0 rnd_1)
  qed
  moreover have "0 \<le> ws ! server_id srv \<and> ws ! server_id srv \<le> 1" if "srv \<in> set stats" for srv
    using that assms(1,2) by (simp add: stats_ok_def weights_ok_def)
  ultimately have "0 \<le> ?f srv (ws ! server_id srv) \<and> ?f srv (ws ! server_id srv) \<le> 1 \<and>
      rnd (?f srv (ws ! server_id srv)) = ?f srv (ws ! server_id srv)" if "srv \<in> set stats" for srv
    using that by blast
  from pointwise_ok [where f = ?f, OF assms(1,2) this] show ?thesis unfolding update_weights_def .
qed

lemma stabilize_ok:
  assumes "stats_ok stats" "weights_ok rnd stats ws"
    and "stabilize rnd models stats op total_ops wr bound left ws = Inr ws'"
  shows "weights_ok rnd stats ws'"
  using assms(2,3)
proof (induction left arbitrary: ws)
  case 0
  then show ?case by simp
next
  case (Suc left)
  from Suc.prems(2) obtain st where
    st: "foldS (measure_server rnd models op total_ops wr ws) stats signal_init = Inr st"
    by (auto simp: bindS_eq_Inr)
  show ?case
  proof (cases "signal_stable rnd (length stats) bound st")
    case True
    then show ?thesis using Suc.prems st by simp
  next
    case False
    let ?cur = "ws ! best_server_id st"
    let ?nb = "fadd rnd ?cur (kBias rnd)"
    let ?scale = "fdiv rnd (fsub rnd 1 ?nb) (fsub rnd 1 ?cur)"
    from False Suc.prems(2) st have b: "best_server_id st < kNumMaxServers" and nz: "fsub rnd 1 ?cur \<noteq> 0"
      and upd: "bindS (update_weights rnd (best_server_id st) ?scale ?nb stats ws)
        (stabilize rnd models stats op total_ops wr bound left) = Inr ws'"
      using Suc.prems(1)
      by (auto simp: status_simps Let_def weights_ok_def split: if_splits)
    then obtain ws1 where ws1: "update_weights rnd (best_server_id st) ?scale ?nb stats ws = Inr ws1"
      "stabilize rnd models stats op total_ops wr bound left ws1 = Inr ws'"
      by (auto simp: bindS_eq_Inr)
    have cur: "0 \<le> ?cur" "?cur \<le> 1" "rnd ?cur = ?cur"
      using Suc.prems(1) b by (simp_all add: weights_ok_def)
    note sc = scale_le_1 [OF cur nz]
    have nb: "0 \<le> ?nb" "rnd ?nb = ?nb" using sc(2) cur(1) by (auto simp: fadd_def rnd_idem)
    have "weights_ok rnd stats ws1"
      using update_weights_ok [OF assms(1) Suc.prems(1) sc(1) nb, of "best_server_id st"] ws1(1) by auto
    then show ?thesis using Suc.IH ws1(2) by blast
  qed
qed

lemma iterative_ok:
  assumes "stats_ok stats" "length stats \<le> 2 ^ 53"
    and "ComputeWeightsIterative rnd models stats op load bound = Inr ws"
  shows "weights_ok rnd stats ws"
proof -
  from assms(3) have "stats \<noteq> []" by (auto simp: ComputeWeightsIterative_def)
  from ResetWeights_ok [OF assms(1) this assms(2) zero_weights_ok] assms(3) stabilize_ok [OF assms(1)]
  show ?thesis by (auto simp: ComputeWeightsIterative_def Let_def split: if_splits)
qed

text \<open>The loop of the method from peak loads.\<close>

lemma peak_weight_ok:
  "0 \<le> peak_weight rnd c m l \<and> peak_weight rnd c m l \<le> 1 \<and>
   rnd (peak_weight rnd c m l) = peak_weight rnd c m l"
  by (simp add: peak_weight_def kMinWeight_def kMaxWeight_def Let_def rnd_0 rnd_1 fadd_def fsub_def
      rnd_idem)

lemma peak_step_cases:
  assumes "peak_step rnd models wr c m srv (ws, s) = Inr (ws', s')"
  shows "\<exists>w. 0 \<le> w \<and> w \<le> 1 \<and> rnd w = w \<and> server_id srv < length ws \<and>
    ws' = ws[server_id srv := w] \<and> s' = rnd (s + w)"
  using assms peak_weight_ok
  by (auto simp: peak_step_def status_simps Let_def fadd_def)

lemma peak_fold:
  assumes "distinct (map server_id stats)" "foldS (peak_step rnd models wr c m) stats (ws, s) = Inr (ws', s')"
    and "0 \<le> s" "rnd s = s"
  shows "length ws' = length ws \<and> s \<le> s' \<and>
    (\<forall>srv \<in> set stats. 0 \<le> ws' ! server_id srv \<and> ws' ! server_id srv \<le> 1 \<and>
       rnd (ws' ! server_id srv) = ws' ! server_id srv \<and> ws' ! server_id srv \<le> s') \<and>
    (\<forall>i. i \<notin> ids stats \<longrightarrow> ws' ! i = ws ! i) \<and>
    (rnd = (\<lambda>x. x) \<longrightarrow> s' = s + total_weight stats ws')"
  using assms
proof (induction stats arbitrary: ws s)
  case Nil
  then show ?case by (simp add: total_weight_def)
next
  case (Cons srv stats)
  obtain ws1 s1 where r: "peak_step rnd models wr c m srv (ws, s) = Inr (ws1, s1)"
    "foldS (peak_step rnd models wr c m) stats (ws1, s1) = Inr (ws', s')"
    using Cons.prems(2) by (auto simp: bindS_eq_Inr)
  obtain w where w: "0 \<le> w" "w \<le> 1" "rnd w = w" "server_id srv < length ws"
    "ws1 = ws[server_id srv := w]" "s1 = rnd (s + w)"
    using peak_step_cases [OF r(1)] by blast
  have s1: "s \<le> s1" "w \<le> s1" "rnd s1 = s1"
    using rnd_add_ge [OF Cons.prems(4) w(1)] rnd_add_ge [OF w(3) Cons.prems(3)] rnd_idem
    by (simp_all add: w(6) add.commute)
  have IH: "length ws' = length ws1" "s1 \<le> s'"
    "\<forall>srv \<in> set stats. 0 \<le> ws' ! server_id srv \<and> ws' ! server_id srv \<le> 1 \<and>
       rnd (ws' ! server_id srv) = ws' ! server_id srv \<and> ws' ! server_id srv \<le> s'"
    "\<forall>i. i \<notin> ids stats \<longrightarrow> ws' ! i = ws1 ! i"
    "rnd = (\<lambda>x. x) \<longrightarrow> s' = s1 + total_weight stats ws'"
    using Cons.IH [OF _ r(2)] Cons.prems(1,3) s1 by auto
  have new: "server_id srv \<notin> ids stats" using Cons.prems(1) by auto
  then have at: "ws' ! server_id srv = w" using IH(4) w(4,5) by simp
  have "total_weight (srv # stats) ws' = w + total_weight stats ws'"
    using new at by (simp add: total_weight_def)
  then show ?case using IH at w s1 by auto
qed

lemma normalize_ok:
  assumes "stats_ok stats" "weights_ok rnd stats ws" "0 < s"
    and "\<And>srv. srv \<in> set stats \<Longrightarrow> ws ! server_id srv \<le> s"
  shows "\<exists>ws'. foldS (\<lambda>srv ws. bindS (get_at ws (server_id srv)) (\<lambda>w.
      put_at ws (server_id srv) (fdiv rnd w s))) stats ws = Inr ws' \<and> weights_ok rnd stats ws' \<and>
    (\<forall>srv \<in> set stats. ws' ! server_id srv = fdiv rnd (ws ! server_id srv) s)"
proof (rule pointwise_ok [OF assms(1,2)])
  fix srv assume srv: "srv \<in> set stats"
  have w: "0 \<le> ws ! server_id srv" using srv assms(1,2) by (simp add: stats_ok_def weights_ok_def)
  then have "0 \<le> fdiv rnd (ws ! server_id srv) s" "fdiv rnd (ws ! server_id srv) s \<le> 1"
    unfolding fdiv_def using assms(3) assms(4) [OF srv]
    by (auto intro!: rnd_nonneg rnd_le_1)
  then show "0 \<le> fdiv rnd (ws ! server_id srv) s \<and> fdiv rnd (ws ! server_id srv) s \<le> 1 \<and>
      rnd (fdiv rnd (ws ! server_id srv) s) = fdiv rnd (ws ! server_id srv) s"
    by (simp add: fdiv_def rnd_idem)
qed

lemma fold_weights_ok:
  assumes "stats_ok stats" "weights_ok rnd stats ws"
    and "foldS (peak_step rnd models wr c m) stats (ws, 0) = Inr (ws', s')"
  shows "weights_ok rnd stats ws'" "\<And>srv. srv \<in> set stats \<Longrightarrow> ws' ! server_id srv \<le> s'"
    "rnd = (\<lambda>x. x) \<Longrightarrow> s' = total_weight stats ws'"
proof -
  have "distinct (map server_id stats)" using assms(1) by (simp add: stats_ok_def)
  note f = peak_fold [OF this assms(3)]
  show "ws' ! server_id srv \<le> s'" if "srv \<in> set stats" for srv using f that by (simp add: rnd_0)
  show "s' = total_weight stats ws'" if "rnd = (\<lambda>x. x)" using f that by simp
  have "0 \<le> ws' ! i \<and> ws' ! i \<le> 1 \<and> rnd (ws' ! i) = ws' ! i \<and> (i \<notin> ids stats \<longrightarrow> ws' ! i = 0)"
    if "i < kNumMaxServers" for i
  proof (cases "i \<in> ids stats")
    case True
    then show ?thesis using f by (auto simp: rnd_0)
  next
    case False
    then show ?thesis using f assms(2) that by (metis order_refl rnd_0 weights_ok_def)
  qed
  then show "weights_ok rnd stats ws'" using f assms(2) by (simp add: weights_ok_def rnd_0)
qed

text \<open>What the method from peak loads returns: equal weights, or normalised weights.\<close>

lemma from_peak_cases:
  assumes "stats_ok stats" "length stats \<le> 2 ^ 53"
    and "ComputeWeightsFromPeak rnd models stats op load = Inr ws"
  shows "weights_ok rnd stats ws \<and> stats \<noteq> [] \<and>
    ((\<forall>srv \<in> set stats. ws ! server_id srv = fdiv rnd 1 (fof_nat rnd (length stats))) \<or>
     (\<exists>ws1 s. 0 < s \<and> (rnd = (\<lambda>x. x) \<longrightarrow> s = total_weight stats ws1) \<and>
        (\<forall>srv \<in> set stats. ws ! server_id srv = fdiv rnd (ws1 ! server_id srv) s)))"
proof -
  have ne: "stats \<noteq> []" using assms(3) by (auto simp: ComputeWeightsFromPeak_def)
  note reset = ResetWeights_ok [OF assms(1) ne assms(2)]
  obtain w0 where w0: "ResetWeights rnd (replicate kNumMaxServers 0) stats = Inr w0"
    "weights_ok rnd stats w0"
    "\<forall>srv \<in> set stats. w0 ! server_id srv = fdiv rnd 1 (fof_nat rnd (length stats))"
    using reset [OF zero_weights_ok] by blast
  show ?thesis
  proof (cases "ws = w0")
    case True
    then show ?thesis using w0(2,3) ne by simp
  next
    case False
    then obtain wr c m ws1 s where fold: "foldS (peak_step rnd models wr c m) stats (w0, 0) = Inr (ws1, s)"
      and fin: "(if s \<le> 0 then ResetWeights rnd ws1 stats
        else foldS (\<lambda>srv ws. bindS (get_at ws (server_id srv)) (\<lambda>w.
               put_at ws (server_id srv) (fdiv rnd w s))) stats ws1) = Inr ws"
      using assms(3) w0(1)
      by (auto simp: ComputeWeightsFromPeak_def Let_def status_simps split: if_splits prod.splits)
    note ok = fold_weights_ok [OF assms(1) w0(2) fold]
    show ?thesis
    proof (cases "s \<le> 0")
      case True
      then show ?thesis using fin reset [OF ok(1)] ne by auto
    next
      case False
      then have s: "0 < s" by simp
      have "weights_ok rnd stats ws \<and>
          (\<forall>srv \<in> set stats. ws ! server_id srv = fdiv rnd (ws1 ! server_id srv) s)"
        using fin False normalize_ok [OF assms(1) ok(1) s ok(2)] by auto
      then show ?thesis using ne s ok(3) by blast
    qed
  qed
qed

lemma profile_weights_ok:
  assumes "stats_ok stats" "length stats \<le> 2 ^ 53"
    and "ProfileGuided_ComputeWeights rnd models stats op load = Inr ws"
  shows "weights_ok rnd stats ws"
proof -
  have "weights_ok rnd stats ws'"
    if "widen_bound rnd (ComputeWeightsIterative rnd models stats op load) n b = Some (Inr ws')"
    for n b ws'
    using that
  proof (induction n arbitrary: b)
    case (Suc n)
    then show ?case
      using iterative_ok [OF assms(1,2), of models op load b]
      by (auto split: if_splits sum.splits fail.splits)
  qed simp
  then show ?thesis using assms(3) from_peak_cases [OF assms(1,2), of models op load ws]
    by (auto simp: ProfileGuided_ComputeWeights_def status_simps split: option.splits if_splits)
qed

end

section \<open>In exact arithmetic the weights sum to one\<close>

lemma total_weight_const:
  assumes "stats_ok stats" "stats \<noteq> []"
    and "\<forall>srv \<in> set stats. ws ! server_id srv = 1 / real (length stats)"
  shows "total_weight stats ws = 1"
proof -
  have "total_weight stats ws = (\<Sum>i \<in> ids stats. 1 / real (length stats))"
    unfolding total_weight_def by (rule sum.cong) (use assms(3) in auto)
  then show ?thesis using card_ids [OF assms(1)] assms(2) by simp
qed

lemma total_weight_scaled:
  assumes "\<forall>srv \<in> set stats. ws ! server_id srv = ws1 ! server_id srv / s" "0 < s"
    "s = total_weight stats ws1"
  shows "total_weight stats ws = 1"
proof -
  have "total_weight stats ws = (\<Sum>i \<in> ids stats. ws1 ! i / s)"
    unfolding total_weight_def by (rule sum.cong) (use assms(1) in auto)
  also have "\<dots> = total_weight stats ws1 / s" by (simp add: total_weight_def sum_divide_distrib)
  finally show ?thesis using assms(2,3) by simp
qed

lemma measure_best_step:
  assumes "measure_server (\<lambda>x. x) models op t wr ws srv st = Inr st'"
  shows "best_server_id st' = best_server_id st \<or> best_server_id st' = server_id srv"
    and "1050 < best_server_signal st \<Longrightarrow> best_server_id st' = server_id srv"
proof -
  from assms obtain model x sig where
    sig: "DiskModel_GetLatency (\<lambda>x. x) model x op (mode srv) wr = Inr sig"
      "best_server_id st' = (if sig < best_server_signal st then server_id srv else best_server_id st)"
    by (auto simp: measure_server_def status_simps Let_def)
  have "sig \<le> 1050" using GetLatency_le_penalty [OF sig(1)] by (simp add: kSaturationLatencyPenaltyUs_exact)
  then show "best_server_id st' = best_server_id st \<or> best_server_id st' = server_id srv"
    and "1050 < best_server_signal st \<Longrightarrow> best_server_id st' = server_id srv"
    using sig(2) by auto
qed

lemma measure_best:
  assumes "foldS (measure_server (\<lambda>x. x) models op t wr ws) stats signal_init = Inr st" "stats \<noteq> []"
  shows "best_server_id st \<in> ids stats"
proof -
  obtain srv rest where stats: "stats = srv # rest" using assms(2) by (cases stats) auto
  then obtain st1 where st1: "measure_server (\<lambda>x. x) models op t wr ws srv signal_init = Inr st1"
    "foldS (measure_server (\<lambda>x. x) models op t wr ws) rest st1 = Inr st"
    using assms(1) by (auto simp: bindS_eq_Inr)
  have "best_server_id st1 = server_id srv"
    by (rule measure_best_step(2) [OF st1(1)]) (simp add: signal_init_def)
  then have "best_server_id st1 \<in> ids stats" using stats by simp
  from st1(2) this show ?thesis
  proof (rule foldS_invariant)
    fix x u u'
    assume "x \<in> set rest" "best_server_id u \<in> ids stats"
      "measure_server (\<lambda>x. x) models op t wr ws x u = Inr u'"
    then show "best_server_id u' \<in> ids stats"
      using measure_best_step(1) [of models op t wr ws x u u'] stats by auto
  qed
qed

lemma update_total:
  assumes "stats_ok stats" "weights_ok (\<lambda>x. x) stats ws" "total_weight stats ws = 1"
    and "best \<in> ids stats" "ws ! best < 1" "nb = ws ! best + kBias (\<lambda>x. x)"
    and "scale = (1 - nb) / (1 - ws ! best)"
    and "\<forall>srv \<in> set stats. ws' ! server_id srv = (if server_id srv = best then min nb kMaxWeight
       else max (scale * (ws ! server_id srv)) kMinWeight)"
  shows "total_weight stats ws' = 1"
proof -
  let ?A = "ids stats - {best}"
  have fin: "finite (ids stats)" by simp
  have rest: "(\<Sum>i \<in> ?A. ws ! i) = 1 - ws ! best"
    using assms(3) sum.remove [OF fin assms(4), of "\<lambda>i. ws ! i"] by (simp add: total_weight_def)
  have tot: "total_weight stats ws' = min nb 1 + (\<Sum>i \<in> ?A. max (scale * ws ! i) 0)"
  proof -
    have "(\<Sum>i \<in> ?A. ws' ! i) = (\<Sum>i \<in> ?A. max (scale * ws ! i) 0)"
      by (rule sum.cong) (use assms(8) in \<open>auto simp: kMinWeight_def\<close>)
    moreover have "ws' ! best = min nb 1" using assms(4,8) by (auto simp: kMaxWeight_def)
    ultimately show ?thesis
      using sum.remove [OF fin assms(4), of "\<lambda>i. ws' ! i"] by (simp add: total_weight_def)
  qed
  have nonneg: "0 \<le> ws ! i" if "i \<in> ids stats" for i
    using that assms(1,2) by (auto simp: stats_ok_def weights_ok_def)
  show ?thesis
  proof (cases "nb \<le> 1")
    case True
    then have "0 \<le> scale" using assms(5,7) by simp
    then have "(\<Sum>i \<in> ?A. max (scale * ws ! i) 0) = (\<Sum>i \<in> ?A. scale * ws ! i)"
      by (intro sum.cong refl max_absorb1 mult_nonneg_nonneg nonneg) auto
    also have "\<dots> = scale * (1 - ws ! best)" by (simp add: rest flip: sum_distrib_left)
    also have "\<dots> = 1 - nb" using assms(5,7) by simp
    finally show ?thesis using True tot by simp
  next
    case False
    then have "scale \<le> 0" using assms(5,7) by (simp add: divide_nonpos_pos)
    then have "(\<Sum>i \<in> ?A. max (scale * ws ! i) 0) = 0"
      by (intro sum.neutral ballI) (simp add: nonneg mult_nonpos_nonneg max_def)
    then show ?thesis using False tot by simp
  qed
qed

lemma stabilize_total:
  assumes "stats_ok stats" "stats \<noteq> []" "weights_ok (\<lambda>x. x) stats ws" "total_weight stats ws = 1"
    and "stabilize (\<lambda>x. x) models stats op t wr bound left ws = Inr ws'"
  shows "total_weight stats ws' = 1"
  using assms(3-5)
proof (induction left arbitrary: ws)
  case 0
  then show ?case by simp
next
  case (Suc left)
  from Suc.prems(3) obtain st where
    st: "foldS (measure_server (\<lambda>x. x) models op t wr ws) stats signal_init = Inr st"
    by (auto simp: bindS_eq_Inr)
  show ?case
  proof (cases "signal_stable (\<lambda>x. x) (length stats) bound st")
    case True
    then show ?thesis using Suc.prems st by simp
  next
    case False
    let ?b = "best_server_id st"
    let ?nb = "ws ! ?b + kBias (\<lambda>x. x)"
    let ?scale = "(1 - ?nb) / (1 - ws ! ?b)"
    have b: "?b \<in> ids stats" by (rule measure_best [OF st assms(2)])
    then have w: "0 \<le> ws ! ?b" "ws ! ?b \<le> 1" and len: "?b < length ws"
      using assms(1) Suc.prems(1) by (auto simp: stats_ok_def weights_ok_def)
    from False Suc.prems(3) st len have nz: "ws ! ?b \<noteq> 1"
      and "bindS (update_weights (\<lambda>x. x) ?b ?scale ?nb stats ws)
        (stabilize (\<lambda>x. x) models stats op t wr bound left) = Inr ws'"
      by (auto simp: Let_def fadd_def fsub_def fdiv_def split: if_splits)
    then obtain ws1 where ws1: "update_weights (\<lambda>x. x) ?b ?scale ?nb stats ws = Inr ws1"
      "stabilize (\<lambda>x. x) models stats op t wr bound left ws1 = Inr ws'"
      by (auto simp: bindS_eq_Inr)
    have lt: "ws ! ?b < 1" using w nz by simp
    have "?scale \<le> 1" using lt by (simp add: kBias_def)
    moreover have "0 \<le> ?nb" using w by (simp add: kBias_def)
    ultimately have u: "weights_ok (\<lambda>x. x) stats ws1"
      "\<forall>srv \<in> set stats. ws1 ! server_id srv = (if server_id srv = ?b then min ?nb kMaxWeight
         else max (?scale * (ws ! server_id srv)) kMinWeight)"
      using exact.update_weights_ok [OF assms(1) Suc.prems(1), of ?scale ?nb ?b] ws1(1)
      by (auto simp: fmul_def)
    have "total_weight stats ws1 = 1"
      by (rule update_total [OF assms(1) Suc.prems(1,2) b lt refl refl u(2)])
    with Suc.IH [OF u(1)] ws1(2) show ?thesis by blast
  qed
qed

lemma iterative_total:
  assumes "stats_ok stats" "length stats \<le> 2 ^ 53"
    and "ComputeWeightsIterative (\<lambda>x. x) models stats op load bound = Inr ws"
  shows "total_weight stats ws = 1"
proof -
  have ne: "stats \<noteq> []" using assms(3) by (auto simp: ComputeWeightsIterative_def)
  obtain w0 where w0: "ResetWeights (\<lambda>x. x) (replicate kNumMaxServers 0) stats = Inr w0"
    "weights_ok (\<lambda>x. x) stats w0"
    "\<forall>srv \<in> set stats. w0 ! server_id srv = 1 / real (length stats)"
    using exact.ResetWeights_ok [OF assms(1) ne assms(2) exact.zero_weights_ok]
    by (auto simp: fdiv_def fof_nat_def)
  from assms(3) w0(1) obtain t where
    "stabilize (\<lambda>x. x) models stats op t (write_ratio_of (\<lambda>x. x) load) bound kMaxIterations w0 = Inr ws"
    by (auto simp: ComputeWeightsIterative_def Let_def split: if_splits)
  then show ?thesis
    using stabilize_total [OF assms(1) ne w0(2) total_weight_const [OF assms(1) ne w0(3)]] by blast
qed

lemma from_peak_total:
  assumes "stats_ok stats" "length stats \<le> 2 ^ 53"
    and "ComputeWeightsFromPeak (\<lambda>x. x) models stats op load = Inr ws"
  shows "total_weight stats ws = 1"
proof -
  note c = exact.from_peak_cases [OF assms]
  show ?thesis
  proof (cases "\<forall>srv \<in> set stats. ws ! server_id srv = 1 / real (length stats)")
    case True
    then show ?thesis using c total_weight_const [OF assms(1)] by blast
  next
    case False
    then obtain ws1 s where "0 < s" "s = total_weight stats ws1"
      "\<forall>srv \<in> set stats. ws ! server_id srv = ws1 ! server_id srv / s"
      using c by (auto simp: fdiv_def fof_nat_def)
    then show ?thesis using total_weight_scaled by blast
  qed
qed

lemma profile_weights_total:
  assumes "stats_ok stats" "length stats \<le> 2 ^ 53"
    and "ProfileGuided_ComputeWeights (\<lambda>x. x) models stats op load = Inr ws"
  shows "total_weight stats ws = 1"
proof -
  have "total_weight stats ws' = 1"
    if "widen_bound (\<lambda>x. x) (ComputeWeightsIterative (\<lambda>x. x) models stats op load) n b = Some (Inr ws')"
    for n b ws'
    using that
  proof (induction n arbitrary: b)
    case (Suc n)
    then show ?case
      using iterative_total [OF assms(1,2), of models op load b]
      by (auto split: if_splits sum.splits fail.splits)
  qed simp
  then show ?thesis using assms(3) from_peak_total [OF assms(1,2), of models op load ws]
    by (auto simp: ProfileGuided_ComputeWeights_def status_simps split: option.splits if_splits)
qed

section \<open>Properties\<close>

lemma stats_ok_length:
  assumes "stats_ok stats" shows "length stats \<le> 2 ^ 53"
proof -
  have "ids stats \<subseteq> {..<kNumMaxServers}" using assms by (auto simp: stats_ok_def)
  then have "card (ids stats) \<le> kNumMaxServers" using card_mono [of "{..<kNumMaxServers}"] by fastforce
  then show ?thesis using card_ids [OF assms] by (simp add: kNumMaxServers_def)
qed

lemma stats_ok_filter: "stats_ok stats \<Longrightarrow> stats_ok (filter P stats)"
  by (auto simp: stats_ok_def distinct_map_filter)

text \<open>
  C30. The profile-guided weights are a distribution: for any rounding of the assumed kind and for
  whichever method computed them, every weight lies between 0 and 1 and servers outside the list
  get weight 0; in exact arithmetic the weights of the listed servers sum to exactly 1.
\<close>

theorem profile_weights_distribution:
  assumes "fp_rounding rnd" "stats_ok stats"
    and "ProfileGuided_ComputeWeights rnd models stats op load = Inr ws"
  shows "(\<forall>i < kNumMaxServers. 0 \<le> ws ! i \<and> ws ! i \<le> 1 \<and>
      (i \<notin> server_id ` set stats \<longrightarrow> ws ! i = 0)) \<and>
    (rnd = (\<lambda>x. x) \<longrightarrow> (\<Sum>i \<in> server_id ` set stats. ws ! i) = 1)"
  using fp_rounding.profile_weights_ok [OF assms(1,2) stats_ok_length [OF assms(2)] assms(3)]
    profile_weights_total [OF assms(2) stats_ok_length [OF assms(2)], of models op load ws] assms(3)
  by (auto simp: weights_ok_def total_weight_def)

text \<open>Two servers whose profiles are saturated from the first point.\<close>

definition slow_model :: DiskModel where
  "slow_model = \<lparr>load_read = [100], latency_read = [2000], load_write = [100], latency_write = [2000],
     mix_models = [\<lparr>write_ratio_bucket = 1 / 4, mm_load = [100], mm_latency = [2000]\<rparr>]\<rparr>"

lemma slow_peak: "DiskModel_GetPeakIOPS (\<lambda>x. x) slow_model m w = Inr 0"
  by (cases m) (simp_all add: DiskModel_GetPeakIOPS_def slow_model_def curve_peak_def curve_ok_def
      unsaturated_load_def kSaturationLatencyUs_def SelectMixModel_def fmul_def fof_nat_def ftou64_def
      to_u64_def)

text \<open>An isolation state with three servers registered and no allocation yet.\<close>

definition idle_isolation :: AdaptiveRWIsolation where
  "idle_isolation = \<lparr>last_allocation = (False, 0, 0), prev_system_load = (0, 0),
     last_mode_switch_time = 0, num_servers = 3, last_write_server_idx = 0, rw_models = []\<rparr>"

definition two_servers :: ServerStatsList where
  "two_servers = [zero_stats\<lparr>server_id := 1\<rparr>, zero_stats\<lparr>server_id := 2\<rparr>]"

lemma two_servers_ok: "stats_ok two_servers"
  by (simp add: stats_ok_def two_servers_def kNumMaxServers_def)

theorem profile_weights_distribution_witness:
  "\<exists>ws. ProfileGuided_ComputeWeights (\<lambda>x. x) (replicate 20 slow_model) two_servers Op_kRead (5, 0) = Inr ws \<and>
    (\<Sum>i \<in> {1, 2}. ws ! i) = 1"
proof -
  obtain ws where run: "ProfileGuided_ComputeWeights (\<lambda>x. x) (replicate 20 slow_model) two_servers
      Op_kRead (5, 0) = Inr ws"
    by (simp add: ProfileGuided_ComputeWeights_def UseIterativeMethod_def capacity_def slow_peak
        two_servers_def zero_stats_def ComputeWeightsFromPeak_def ResetWeights_def set_weights_def
        peak_loads_def k_defs fmul_def fof_nat_def fdiv_def to_u64_def)
  have ids: "server_id ` set two_servers = {1, 2}" by (auto simp: two_servers_def)
  from profile_weights_distribution [OF exact.fp_rounding_axioms two_servers_ok run] run
  show ?thesis unfolding ids by blast
qed

text \<open>
  The loop that widens the stability bound ends: \<open>kBoundSteps\<close> rounds are enough under every
  rounding of the assumed kind, more rounds never change the result.
\<close>

theorem widen_bound_terminates:
  assumes "fp_rounding rnd"
  shows "widen_bound rnd attempt (kBoundSteps + k) (kStableMeanBound rnd) =
    widen_bound rnd attempt kBoundSteps (kStableMeanBound rnd)"
  by (rule fp_rounding.kBoundSteps_enough [OF assms])

theorem widen_bound_terminates_witness:
  "widen_bound rnd64 (\<lambda>_. MakeError EAGAIN) (kBoundSteps + 7) (kStableMeanBound rnd64) =
    widen_bound rnd64 (\<lambda>_. MakeError EAGAIN) kBoundSteps (kStableMeanBound rnd64)"
  by (rule widen_bound_terminates [OF r64.fp_rounding_axioms])

text \<open>
  C31. Under profile-guided isolation writes avoid the read servers: whatever the rounding, the
  write weight of a server in read mode is 0.
\<close>

theorem isolation_write_weights_avoid_readers:
  assumes "fp_rounding rnd" "stats_ok stats" "srv \<in> set stats" "mode srv = Mode_kRead"
    and "ProfileGuidedRWIsolation_ComputeWeights rnd s stats Op_kWrite load = Inr ws"
  shows "ws ! server_id srv = 0"
proof -
  let ?f = "filter (\<lambda>srv. mode srv \<noteq> Mode_kRead) stats"
  have run: "ProfileGuided_ComputeWeights rnd (pg_models s) ?f Op_kWrite load = Inr ws"
    using assms(5) by (simp add: ProfileGuidedRWIsolation_ComputeWeights_def)
  have ok: "stats_ok ?f" by (rule stats_ok_filter [OF assms(2)])
  have "server_id srv \<notin> ids ?f"
    using assms(2-4) by (auto simp: stats_ok_def distinct_map inj_on_def)
  moreover have "server_id srv < kNumMaxServers" using assms(2,3) by (simp add: stats_ok_def)
  ultimately show ?thesis
    using fp_rounding.profile_weights_ok [OF assms(1) ok stats_ok_length [OF ok] run]
    by (simp add: weights_ok_def)
qed

theorem isolation_write_weights_avoid_readers_witness:
  "\<exists>ws. ProfileGuidedRWIsolation_ComputeWeights (\<lambda>x. x)
      \<lparr>pg_rw = idle_isolation, pg_models = replicate 20 slow_model\<rparr>
      (two_servers @ [zero_stats\<lparr>server_id := 3, mode := Mode_kRead\<rparr>]) Op_kWrite (5, 0) = Inr ws \<and>
    ws ! 3 = 0"
proof -
  let ?r = "zero_stats\<lparr>server_id := 3, mode := Mode_kRead\<rparr>"
  let ?st = "\<lparr>pg_rw = idle_isolation, pg_models = replicate 20 slow_model\<rparr>"
  obtain ws where run: "ProfileGuidedRWIsolation_ComputeWeights (\<lambda>x. x) ?st (two_servers @ [?r])
      Op_kWrite (5, 0) = Inr ws"
    by (simp add: ProfileGuidedRWIsolation_ComputeWeights_def ProfileGuided_ComputeWeights_def
        UseIterativeMethod_def capacity_def slow_peak two_servers_def zero_stats_def
        ComputeWeightsFromPeak_def ResetWeights_def set_weights_def peak_loads_def k_defs fmul_def
        fof_nat_def fdiv_def to_u64_def)
  have "stats_ok (two_servers @ [?r])"
    by (simp add: stats_ok_def two_servers_def kNumMaxServers_def)
  from isolation_write_weights_avoid_readers [OF exact.fp_rounding_axioms this, of ?r ?st] run
  show ?thesis by auto
qed

end
