(* ===== verification/Control_Plane.thy ===== *)
theory Control_Plane
  imports Profile_Guided
begin

text \<open>
  The controller's view of the servers (\<open>sandook/scheduler/control_plane/server_stats_manager.h\<close>) and
  the control plane scheduler (\<open>scheduler.h\<close>, \<open>base_scheduler.h\<close>, \<open>no_op.h\<close>) that periodically recomputes
  modes and weights with the configured policy and writes them back. The locks make each
  operation atomic. Telemetry and logging are not modelled.
\<close>

section \<open>Server statistics manager\<close>

record ServerStatsManager =
  servers :: "ServerID set"
  stats_map :: "ServerStats option list"
  stats_system_reads :: nat
  stats_system_writes :: nat
  read_ops :: nat
  write_ops :: nat
  freeze_load :: bool

definition ServerStatsManager_init :: ServerStatsManager where
  "ServerStatsManager_init = \<lparr>servers = {}, stats_map = replicate kNumMaxServers None,
     stats_system_reads = 0, stats_system_writes = 0, read_ops = 0, write_ops = 0,
     freeze_load = False\<rparr>"

definition ServerStatsManager_AddServer ::
  "ServerStatsManager \<Rightarrow> ServerID \<Rightarrow> ServerStatsManager status" where
  "ServerStatsManager_AddServer m sid =
     (let stats = zero_stats\<lparr>server_id := sid, mode := Mode_kMix,
                             read_weight := kDefaultServerWeight,
                             write_weight := kDefaultServerWeight\<rparr>
      in bindS (put_at (stats_map m) sid (Some stats)) (\<lambda>sm.
           Inr (m\<lparr>stats_map := sm, servers := insert sid (servers m)\<rparr>)))"

definition ServerStatsManager_GetSystemLoad :: "ServerStatsManager \<Rightarrow> SystemLoad" where
  "ServerStatsManager_GetSystemLoad m = (read_ops m, write_ops m)"

fun deref_all :: "'a option list \<Rightarrow> 'a list status" where
  "deref_all [] = Inr []"
| "deref_all (p # ps) = bindS (deref p) (\<lambda>x. bindS (deref_all ps) (\<lambda>xs. Inr (x # xs)))"

definition GetServerStatsList :: "ServerStatsManager \<Rightarrow> ServerStatsList status" where
  "GetServerStatsList m = deref_all (take (card (servers m)) (drop 1 (stats_map m)))"

definition GetServerStatsOf :: "ServerStatsManager \<Rightarrow> ServerID \<Rightarrow> ServerStats status" where
  "GetServerStatsOf m sid = bindS (get_at (stats_map m) sid) deref"

definition ServerStatsManager_GetDataPlaneServerStats ::
  "ServerStatsManager \<Rightarrow> ServerID \<Rightarrow> (ServerMode \<times> ServerCongestionState \<times> real \<times> real) status" where
  "ServerStatsManager_GetDataPlaneServerStats m sid =
     bindS (GetServerStatsOf m sid) (\<lambda>stats.
       Inr (mode stats, congestion_state stats, read_weight stats, write_weight stats))"

definition ServerStatsManager_UpdateServerStats ::
  "ServerStatsManager \<Rightarrow> ServerID \<Rightarrow> ServerStats \<Rightarrow> bool \<Rightarrow> bool \<Rightarrow> ServerStatsManager status" where
  "ServerStatsManager_UpdateServerStats m sid stats is_override is_update_load =
     assertS (sid = server_id stats)
       (bindS (if is_override then Inr stats
               else bindS (GetServerStatsOf m sid) (\<lambda>old_stats.
                      Inr (stats\<lparr>mode := mode old_stats, read_weight := read_weight old_stats,
                                 write_weight := write_weight old_stats\<rparr>)))
          (\<lambda>new_stats.
             let reads = to_u32 (completed_reads stats + rejected_reads stats);
                 writes = to_u32 (completed_writes stats + rejected_writes stats);
                 m1 = (if is_update_load
                       then m\<lparr>stats_system_reads := to_u64 (stats_system_reads m + reads),
                              stats_system_writes := to_u64 (stats_system_writes m + writes)\<rparr>
                       else m)
             in bindS (put_at (stats_map m1) sid (Some new_stats)) (\<lambda>sm.
                  Inr (m1\<lparr>stats_map := sm\<rparr>))))"

definition ServerStatsManager_CommitServerMode ::
  "ServerStatsManager \<Rightarrow> ServerID \<Rightarrow> ServerMode \<Rightarrow> ServerStatsManager status" where
  "ServerStatsManager_CommitServerMode m sid md =
     bindS (GetServerStatsOf m sid) (\<lambda>st.
       bindS (put_at (stats_map m) sid (Some (st\<lparr>committed_mode := md\<rparr>))) (\<lambda>sm.
         Inr (m\<lparr>stats_map := sm\<rparr>)))"

definition kLoadCalculationIntervalUs :: nat where
  "kLoadCalculationIntervalUs = 10 * kOneMilliSecond"

definition kLoadScaleFactor :: "(real \<Rightarrow> real) \<Rightarrow> real" where
  "kLoadScaleFactor rnd = fdiv rnd (real kOneSecond) (real kLoadCalculationIntervalUs)"

definition CalculateLoad :: "(real \<Rightarrow> real) \<Rightarrow> ServerStatsManager \<Rightarrow> ServerStatsManager" where
  "CalculateLoad rnd m =
     (let system_reads = stats_system_reads m; system_writes = stats_system_writes m;
          m1 = (if freeze_load m then m
                else m\<lparr>stats_system_reads := 0, stats_system_writes := 0\<rparr>)
      in m1\<lparr>read_ops := ftou64 (fmul rnd (fof_nat rnd system_reads) (kLoadScaleFactor rnd)),
            write_ops := ftou64 (fmul rnd (fof_nat rnd system_writes) (kLoadScaleFactor rnd))\<rparr>)"

section \<open>Policies\<close>

text \<open>The objects behind \<open>std::unique_ptr<BaseScheduler>\<close>.\<close>

datatype policy =
  NoOp
| ProfileGuided DiskModels
| RWIsolationStrict RWIsolation
| RWIsolationWeak RWIsolation
| AdaptiveRWIsolationWeak AdaptiveRWIsolation
| PG_RWIsolation ProfileGuidedRWIsolation

definition policy_AddServer ::
  "(real \<Rightarrow> real) \<Rightarrow> (string \<Rightarrow> LoadLatency option) \<Rightarrow> policy \<Rightarrow> ServerID \<Rightarrow> string
     \<Rightarrow> DiskModel option \<Rightarrow> policy \<times> unit status" where
  "policy_AddServer rnd LoadModel p sid name model =
     (case p of
        NoOp \<Rightarrow> (NoOp, Inr ())
      | ProfileGuided ms \<Rightarrow>
          (case ProfileGuided_AddServer rnd LoadModel ms sid name model of
             Inl e \<Rightarrow> (p, Inl e) | Inr ms' \<Rightarrow> (ProfileGuided ms', Inr ()))
      | RWIsolationStrict s \<Rightarrow> (RWIsolationStrict (RWIsolationBase_AddServer s), Inr ())
      | RWIsolationWeak s \<Rightarrow> (RWIsolationWeak (RWIsolationBase_AddServer s), Inr ())
      | AdaptiveRWIsolationWeak s \<Rightarrow>
          (case AdaptiveRWIsolationBase_AddServer rnd LoadModel s sid name model of
             (s', r) \<Rightarrow> (AdaptiveRWIsolationWeak s', r))
      | PG_RWIsolation s \<Rightarrow>
          (case ProfileGuidedRWIsolation_AddServer rnd LoadModel s sid name model of
             (s', r) \<Rightarrow> (PG_RWIsolation s', r)))"

definition policy_ComputeModes ::
  "(real \<Rightarrow> real) \<Rightarrow> policy \<Rightarrow> ServerStatsList \<Rightarrow> SystemLoad \<Rightarrow> ServerModes \<Rightarrow> nat \<Rightarrow> nat
     \<Rightarrow> policy \<times> ServerModes status" where
  "policy_ComputeModes rnd p stats load modes now now' =
     (case p of
        NoOp \<Rightarrow> (p, MakeError ENOTSUP)
      | ProfileGuided ms \<Rightarrow> (p, MakeError ENOTSUP)
      | RWIsolationStrict s \<Rightarrow>
          (case RWIsolationBase_ComputeModes rnd (RWIsolationBase_GetPeakIOPS rnd) s stats load modes
                  now now' of (s', r) \<Rightarrow> (RWIsolationStrict s', r))
      | RWIsolationWeak s \<Rightarrow>
          (case RWIsolationBase_ComputeModes rnd (RWIsolationBase_GetPeakIOPS rnd) s stats load modes
                  now now' of (s', r) \<Rightarrow> (RWIsolationWeak s', r))
      | AdaptiveRWIsolationWeak s \<Rightarrow>
          (case RWIsolationBase_ComputeModes rnd (AdaptiveRWIsolationBase_GetPeakIOPS rnd s) s stats
                  load modes now now' of (s', r) \<Rightarrow> (AdaptiveRWIsolationWeak s', r))
      | PG_RWIsolation s \<Rightarrow>
          (case ProfileGuidedRWIsolation_ComputeModes rnd s stats load modes now now' of
             (s', r) \<Rightarrow> (PG_RWIsolation s', r)))"

definition policy_ComputeWeights ::
  "(real \<Rightarrow> real) \<Rightarrow> policy \<Rightarrow> ServerStatsList \<Rightarrow> OpType \<Rightarrow> SystemLoad \<Rightarrow> ServerWeights
     \<Rightarrow> ServerWeights status" where
  "policy_ComputeWeights rnd p stats op load weights =
     (case p of
        NoOp \<Rightarrow> MakeError ENOTSUP
      | ProfileGuided ms \<Rightarrow> ProfileGuided_ComputeWeights rnd ms stats op load
      | RWIsolationStrict s \<Rightarrow> RWIsolationStrict_ComputeWeights rnd stats op weights
      | RWIsolationWeak s \<Rightarrow> RWIsolationWeak_ComputeWeights rnd stats op weights
      | AdaptiveRWIsolationWeak s \<Rightarrow> AdaptiveRWIsolationWeak_ComputeWeights rnd stats op weights
      | PG_RWIsolation s \<Rightarrow> ProfileGuidedRWIsolation_ComputeWeights rnd s stats op load)"

section \<open>The scheduler\<close>

record ControlPlane =
  cp_num_servers :: nat
  stats_mgr :: ServerStatsManager
  sched :: policy
  freeze_weights :: bool
  freeze_modes :: bool

definition ControlPlane_AddServer ::
  "(real \<Rightarrow> real) \<Rightarrow> (string \<Rightarrow> LoadLatency option) \<Rightarrow> ControlPlane \<Rightarrow> ServerID \<Rightarrow> string
     \<Rightarrow> DiskModel option \<Rightarrow> ControlPlane \<times> unit status" where
  "ControlPlane_AddServer rnd LoadModel s sid name model =
     (case policy_AddServer rnd LoadModel (sched s) sid name model of
        (p, Inl e) \<Rightarrow> (s\<lparr>sched := p\<rparr>, Inl e)
      | (p, Inr ()) \<Rightarrow>
          (case ServerStatsManager_AddServer (stats_mgr s) sid of
             Inl e \<Rightarrow> (s\<lparr>sched := p\<rparr>, Inl e)
           | Inr m \<Rightarrow> (s\<lparr>sched := p, stats_mgr := m, cp_num_servers := cp_num_servers s + 1\<rparr>, Inr ())))"

definition ControlPlane_UpdateServerStats ::
  "ControlPlane \<Rightarrow> ServerID \<Rightarrow> ServerStats \<Rightarrow> bool \<Rightarrow> bool \<Rightarrow> ControlPlane status" where
  "ControlPlane_UpdateServerStats s sid stats is_override is_update_system_load =
     bindS (ServerStatsManager_UpdateServerStats (stats_mgr s) sid stats is_override
              is_update_system_load) (\<lambda>m. Inr (s\<lparr>stats_mgr := m\<rparr>))"

definition ControlPlane_CommitServerMode ::
  "ControlPlane \<Rightarrow> ServerID \<Rightarrow> ServerMode \<Rightarrow> ControlPlane status" where
  "ControlPlane_CommitServerMode s sid md =
     bindS (ServerStatsManager_CommitServerMode (stats_mgr s) sid md) (\<lambda>m. Inr (s\<lparr>stats_mgr := m\<rparr>))"

definition ControlPlane_FreezeWeights :: "ControlPlane \<Rightarrow> ControlPlane" where
  "ControlPlane_FreezeWeights s = s\<lparr>freeze_weights := True\<rparr>"

definition ControlPlane_FreezeModes :: "ControlPlane \<Rightarrow> ControlPlane" where
  "ControlPlane_FreezeModes s = s\<lparr>freeze_modes := True\<rparr>"

definition ControlPlane_FreezeLoad :: "ControlPlane \<Rightarrow> ControlPlane" where
  "ControlPlane_FreezeLoad s = s\<lparr>stats_mgr := (stats_mgr s)\<lparr>freeze_load := True\<rparr>\<rparr>"

text \<open>The modes just computed, used for the weights.\<close>

fun apply_modes :: "ServerModes \<Rightarrow> ServerStatsList \<Rightarrow> ServerStatsList status" where
  "apply_modes modes [] = Inr []"
| "apply_modes modes (srv # stats) =
     bindS (get_at modes (server_id srv)) (\<lambda>md.
       bindS (apply_modes modes stats) (\<lambda>rest. Inr (srv\<lparr>mode := md\<rparr> # rest)))"

definition opt_at :: "'a list option \<Rightarrow> nat \<Rightarrow> 'a option status" where
  "opt_at xs i = (case xs of None \<Rightarrow> Inr None | Some l \<Rightarrow> bindS (get_at l i) (\<lambda>x. Inr (Some x)))"

definition decide_server ::
  "ServerWeights option \<Rightarrow> ServerWeights option \<Rightarrow> ServerModes option \<Rightarrow> ServerID
     \<Rightarrow> ServerStatsManager \<Rightarrow> ServerStatsManager status" where
  "decide_server r_weights w_weights modes sid m =
     bindS (GetServerStatsOf m sid) (\<lambda>st.
       bindS (opt_at r_weights sid) (\<lambda>rw. bindS (opt_at w_weights sid) (\<lambda>ww.
         bindS (opt_at modes sid) (\<lambda>md.
           let st1 = (case rw of None \<Rightarrow> st | Some x \<Rightarrow> st\<lparr>read_weight := x\<rparr>);
               st2 = (case ww of None \<Rightarrow> st1 | Some x \<Rightarrow> st1\<lparr>write_weight := x\<rparr>);
               st3 = (case md of None \<Rightarrow> st2 | Some x \<Rightarrow> st2\<lparr>mode := x\<rparr>)
           in if r_weights \<noteq> None \<or> w_weights \<noteq> None \<or> modes \<noteq> None
              then ServerStatsManager_UpdateServerStats m sid st3 True False
              else Inr m))))"

text \<open>
  One round of \<open>Update\<close>. \<open>modes0\<close>, \<open>r0\<close> and \<open>w0\<close> are the contents of the uninitialised local arrays the
  policy fills in.
\<close>

definition ControlPlane_Update ::
  "(real \<Rightarrow> real) \<Rightarrow> ControlPlane \<Rightarrow> ServerModes \<Rightarrow> ServerWeights \<Rightarrow> ServerWeights \<Rightarrow> nat \<Rightarrow> nat
     \<Rightarrow> ControlPlane status" where
  "ControlPlane_Update rnd s modes0 r0 w0 now now' =
     bindS (GetServerStatsList (stats_mgr s)) (\<lambda>stats.
       let load = ServerStatsManager_GetSystemLoad (stats_mgr s);
           (p, mr) = (if freeze_modes s then (sched s, MakeError EINVAL)
                      else policy_ComputeModes rnd (sched s) stats load modes0 now now')
       in bindS (expected mr) (\<lambda>modes.
            bindS (case modes of None \<Rightarrow> Inr stats | Some ms \<Rightarrow> apply_modes ms stats) (\<lambda>stats'.
              bindS (expected (if freeze_weights s then MakeError EINVAL
                               else policy_ComputeWeights rnd p stats' Op_kRead load r0)) (\<lambda>rw.
                bindS (expected (if freeze_weights s then MakeError EINVAL
                                 else policy_ComputeWeights rnd p stats' Op_kWrite load w0)) (\<lambda>ww.
                  bindS (foldS (decide_server rw ww modes) [1..<cp_num_servers s + 1] (stats_mgr s))
                    (\<lambda>m. Inr (s\<lparr>sched := p, stats_mgr := m\<rparr>)))))))"

section \<open>Invariant\<close>

text \<open>Servers \<open>1\<close> to \<open>n\<close> are registered, each entry carries its own identifier.\<close>

definition mgr_inv :: "ServerStatsManager \<Rightarrow> nat \<Rightarrow> bool" where
  "mgr_inv m n \<longleftrightarrow> n < kNumMaxServers \<and> servers m = {1..n} \<and> length (stats_map m) = kNumMaxServers \<and>
     (\<forall>i. 1 \<le> i \<and> i \<le> n \<longrightarrow> (\<exists>st. stats_map m ! i = Some st \<and> server_id st = i))"

definition cp_inv :: "ControlPlane \<Rightarrow> bool" where
  "cp_inv s \<longleftrightarrow> mgr_inv (stats_mgr s) (cp_num_servers s)"

lemma mgr_inv_init: "mgr_inv ServerStatsManager_init 0"
  by (simp add: mgr_inv_def ServerStatsManager_init_def kNumMaxServers_def)

lemma AddServer_mgr_inv:
  assumes "mgr_inv m n" "n + 1 < kNumMaxServers"
  shows "\<exists>m'. ServerStatsManager_AddServer m (n + 1) = Inr m' \<and> mgr_inv m' (n + 1)"
  using assms
  by (auto simp: ServerStatsManager_AddServer_def mgr_inv_def nth_list_update Let_def)

lemma mgr_inv_replace:
  assumes "mgr_inv m n" "server_id st = i" "1 \<le> i" "i \<le> n"
  shows "mgr_inv (m\<lparr>stats_map := (stats_map m)[i := Some st]\<rparr>) n"
  using assms by (auto simp: mgr_inv_def nth_list_update)

lemma mgr_inv_cong:
  "mgr_inv m n \<Longrightarrow> stats_map m' = stats_map m \<Longrightarrow> servers m' = servers m \<Longrightarrow> mgr_inv m' n"
  by (simp add: mgr_inv_def)

lemma GetServerStatsOf_ok:
  assumes "mgr_inv m n" "1 \<le> i" "i \<le> n"
  shows "\<exists>st. GetServerStatsOf m i = Inr st \<and> stats_map m ! i = Some st \<and> server_id st = i"
  using assms by (fastforce simp: mgr_inv_def GetServerStatsOf_def)

lemma CalculateLoad_inv: "mgr_inv m n \<Longrightarrow> mgr_inv (CalculateLoad rnd m) n"
  by (simp add: mgr_inv_def CalculateLoad_def Let_def)

lemma deref_all_eq: "deref_all ps = Inr xs \<longleftrightarrow> map Some xs = ps"
  by (induction ps arbitrary: xs) (auto simp: status_simps)

lemma GetServerStatsList_ok:
  assumes "mgr_inv m n"
  shows "\<exists>stats. GetServerStatsList m = Inr stats \<and> length stats = n \<and> stats_ok stats \<and>
    (\<forall>i < n. stats_map m ! (i + 1) = Some (stats ! i) \<and> server_id (stats ! i) = i + 1)"
proof -
  let ?ps = "take n (drop 1 (stats_map m))"
  let ?xs = "map the ?ps"
  have len: "length ?ps = n" using assms by (auto simp: mgr_inv_def min_def)
  have at: "?ps ! i = stats_map m ! (i + 1)" "\<exists>st. stats_map m ! (i + 1) = Some st \<and> server_id st = i + 1"
    if "i < n" for i
    using assms that by (auto simp: mgr_inv_def)
  have "map Some ?xs = ?ps"
    by (rule nth_equalityI) (use len at in fastforce)+
  moreover have "card (servers m) = n" using assms by (simp add: mgr_inv_def)
  ultimately have "GetServerStatsList m = Inr ?xs" by (simp only: GetServerStatsList_def deref_all_eq)
  moreover have each: "stats_map m ! (i + 1) = Some (?xs ! i) \<and> server_id (?xs ! i) = i + 1"
    if "i < n" for i
    using at [OF that] that len by auto
  moreover have "stats_ok ?xs"
  proof -
    have "map server_id ?xs = [1..<n + 1]"
      by (rule nth_equalityI) (use each len in \<open>auto simp: nth_append\<close>)
    then have "distinct (map server_id ?xs)" by (simp only: distinct_upt)
    moreover have "0 < server_id srv \<and> server_id srv < kNumMaxServers" if srv: "srv \<in> set ?xs" for srv
    proof -
      from srv obtain i where "i < n" "?xs ! i = srv" by (metis in_set_conv_nth len length_map)
      then show ?thesis using each [of i] assms by (auto simp: mgr_inv_def)
    qed
    ultimately show ?thesis by (simp add: stats_ok_def)
  qed
  ultimately show ?thesis using len by auto
qed

section \<open>The decision of one round\<close>

definition decided ::
  "ServerWeights option \<Rightarrow> ServerWeights option \<Rightarrow> ServerModes option \<Rightarrow> ServerID \<Rightarrow> ServerStats
     \<Rightarrow> ServerStats" where
  "decided rw ww modes i st = st\<lparr>
     read_weight := (case rw of None \<Rightarrow> read_weight st | Some l \<Rightarrow> l ! i),
     write_weight := (case ww of None \<Rightarrow> write_weight st | Some l \<Rightarrow> l ! i),
     mode := (case modes of None \<Rightarrow> mode st | Some l \<Rightarrow> l ! i)\<rparr>"

lemma decide_server_eq:
  assumes "mgr_inv m n" "1 \<le> i" "i \<le> n" "decide_server rw ww modes i m = Inr m'"
    and "stats_map m ! i = Some st"
  shows "m' = m\<lparr>stats_map := (stats_map m)[i := Some (decided rw ww modes i st)]\<rparr>"
proof -
  have st: "GetServerStatsOf m i = Inr st" "server_id st = i"
    using GetServerStatsOf_ok [OF assms(1-3)] assms(5) by auto
  have id: "(stats_map m)[i := Some st] = stats_map m" using assms(5) by (metis list_update_id)
  show ?thesis
    using assms(4) st id
    by (cases rw; cases ww; cases modes)
      (auto simp: decide_server_def opt_at_def decided_def ServerStatsManager_UpdateServerStats_def
        status_simps Let_def)
qed

lemma decide_all_eq:
  assumes "mgr_inv m n" "k \<le> n" "foldS (decide_server rw ww modes) [1..<k + 1] m = Inr m'"
  shows "mgr_inv m' n \<and> (\<exists>sm. m' = m\<lparr>stats_map := sm\<rparr>) \<and>
    (\<forall>i. stats_map m' ! i = (if 1 \<le> i \<and> i \<le> k
       then map_option (decided rw ww modes i) (stats_map m ! i) else stats_map m ! i))"
  using assms(2,3)
proof (induction k arbitrary: m')
  case 0
  then show ?case using assms(1) by (auto intro: exI [of _ "stats_map m"])
next
  case (Suc k)
  then obtain m1 where m1: "foldS (decide_server rw ww modes) [1..<k + 1] m = Inr m1"
    "decide_server rw ww modes (Suc k) m1 = Inr m'"
    by (auto simp: foldS_append bindS_eq_Inr)
  note IH = Suc.IH [OF _ m1(1)]
  then have inv: "mgr_inv m1 n" using Suc.prems(1) by simp
  obtain st where st: "stats_map m1 ! Suc k = Some st" "server_id st = Suc k"
    using GetServerStatsOf_ok [OF inv, of "Suc k"] Suc.prems(1) by auto
  have m': "m' = m1\<lparr>stats_map := (stats_map m1)[Suc k := Some (decided rw ww modes (Suc k) st)]\<rparr>"
    using decide_server_eq [OF inv _ _ m1(2) st(1)] Suc.prems(1) by simp
  have len: "Suc k < length (stats_map m1)" using inv Suc.prems(1) by (simp add: mgr_inv_def)
  have "mgr_inv m' n" unfolding m'
    by (rule mgr_inv_replace [OF inv]) (use st(2) Suc.prems(1) in \<open>simp_all add: decided_def\<close>)
  moreover have "stats_map m ! Suc k = Some st" using IH st(1) Suc.prems(1) by simp
  ultimately show ?case
    using IH Suc.prems(1) len by (auto simp: m' nth_list_update)
qed

lemma apply_modes_eq:
  assumes "apply_modes modes stats = Inr stats'"
  shows "stats' = map (\<lambda>srv. srv\<lparr>mode := modes ! server_id srv\<rparr>) stats"
  using assms by (induction stats arbitrary: stats') (auto simp: status_simps)

text \<open>What a round of \<open>Update\<close> did, in terms of the outcomes of the policy.\<close>

lemma Update_cases:
  assumes "ControlPlane_Update rnd s modes0 r0 w0 now now' = Inr s'"
  obtains stats p mr modes stats' rw ww where
    "GetServerStatsList (stats_mgr s) = Inr stats"
    "(p, mr) = (if freeze_modes s then (sched s, MakeError EINVAL)
       else policy_ComputeModes rnd (sched s) stats (ServerStatsManager_GetSystemLoad (stats_mgr s))
              modes0 now now')"
    "expected mr = Inr modes"
    "stats' = (case modes of None \<Rightarrow> stats | Some ms \<Rightarrow>
       map (\<lambda>srv. srv\<lparr>mode := ms ! server_id srv\<rparr>) stats)"
    "expected (if freeze_weights s then MakeError EINVAL else policy_ComputeWeights rnd p stats'
       Op_kRead (ServerStatsManager_GetSystemLoad (stats_mgr s)) r0) = Inr rw"
    "expected (if freeze_weights s then MakeError EINVAL else policy_ComputeWeights rnd p stats'
       Op_kWrite (ServerStatsManager_GetSystemLoad (stats_mgr s)) w0) = Inr ww"
    "sched s' = p" "cp_num_servers s' = cp_num_servers s"
    "foldS (decide_server rw ww modes) [1..<cp_num_servers s + 1] (stats_mgr s) = Inr (stats_mgr s')"
proof -
  obtain stats where stats: "GetServerStatsList (stats_mgr s) = Inr stats"
    using assms by (auto simp: ControlPlane_Update_def bindS_eq_Inr)
  obtain p mr where pm: "(p, mr) = (if freeze_modes s then (sched s, MakeError EINVAL)
       else policy_ComputeModes rnd (sched s) stats (ServerStatsManager_GetSystemLoad (stats_mgr s))
              modes0 now now')" by (metis surj_pair)
  obtain modes stats' rw ww m where
    r: "expected mr = Inr modes"
      "(case modes of None \<Rightarrow> Inr stats | Some ms \<Rightarrow> apply_modes ms stats) = Inr stats'"
      "expected (if freeze_weights s then MakeError EINVAL else policy_ComputeWeights rnd p stats'
         Op_kRead (ServerStatsManager_GetSystemLoad (stats_mgr s)) r0) = Inr rw"
      "expected (if freeze_weights s then MakeError EINVAL else policy_ComputeWeights rnd p stats'
         Op_kWrite (ServerStatsManager_GetSystemLoad (stats_mgr s)) w0) = Inr ww"
      "foldS (decide_server rw ww modes) [1..<cp_num_servers s + 1] (stats_mgr s) = Inr m"
      "s' = s\<lparr>sched := p, stats_mgr := m\<rparr>"
    using assms
    unfolding ControlPlane_Update_def stats bindS_simps Let_def pm [symmetric] prod.case
    by (auto simp: bindS_eq_Inr simp del: upt_Suc)
  have "stats' = (case modes of None \<Rightarrow> stats | Some ms \<Rightarrow>
       map (\<lambda>srv. srv\<lparr>mode := ms ! server_id srv\<rparr>) stats)"
    using r(2) apply_modes_eq by (auto split: option.splits)
  with stats pm r that show thesis by simp
qed

section \<open>When weights are computed\<close>

lemma GetPeakIOPS_no_errno [simp]: "DiskModel_GetPeakIOPS rnd dm m w \<noteq> Inl (Errno c)"
  by (cases m) (auto simp: DiskModel_GetPeakIOPS_def curve_peak_def assertS_def SelectMixModel_def
      bindS_eq_Inl split: option.splits if_splits)

lemma set_weights_no_errno: "set_weights P w stats ws \<noteq> Inl (Errno c)"
proof
  assume "set_weights P w stats ws = Inl (Errno c)"
  then obtain srv t where "(if P srv then put_at t (server_id srv) w else Inr t) = Inl (Errno c)"
    unfolding set_weights_def by (blast dest: foldS_Inl)
  then show False by (simp split: if_splits)
qed

lemma capacity_no_errno: "capacity rnd models pm wr stats \<noteq> Inl (Errno c)"
proof
  assume "capacity rnd models pm wr stats = Inl (Errno c)"
  from foldS_Inl [OF this [unfolded capacity_def]] show False by (auto simp: bindS_eq_Inl)
qed

lemma peak_loads_no_errno: "peak_loads rnd models wr stats \<noteq> Inl (Errno c)"
proof
  assume "peak_loads rnd models wr stats = Inl (Errno c)"
  from foldS_Inl [OF this [unfolded peak_loads_def]] show False by (auto simp: bindS_eq_Inl)
qed

lemma peak_step_no_errno: "foldS (peak_step rnd models wr c m) stats s \<noteq> Inl (Errno e)"
proof
  assume "foldS (peak_step rnd models wr c m) stats s = Inl (Errno e)"
  from foldS_Inl [OF this] show False
    by (auto simp: peak_step_def bindS_eq_Inl Let_def split: prod.splits)
qed

lemma normalize_no_errno:
  "foldS (\<lambda>srv ws. bindS (get_at ws (server_id srv)) (\<lambda>w.
     put_at ws (server_id srv) (fdiv rnd w d))) stats ws \<noteq> Inl (Errno c)"
proof
  assume "foldS (\<lambda>srv ws. bindS (get_at ws (server_id srv)) (\<lambda>w.
    put_at ws (server_id srv) (fdiv rnd w d))) stats ws = Inl (Errno c)"
  from foldS_Inl [OF this] show False by (auto simp: bindS_eq_Inl)
qed

lemmas no_errno = set_weights_no_errno capacity_no_errno peak_loads_no_errno peak_step_no_errno
  normalize_no_errno

lemma from_peak_errno:
  assumes "ComputeWeightsFromPeak rnd models stats op load = Inl (Errno c)"
  shows "length stats < 2 \<or> to_u64 (fst load + snd load) = 0"
  using assms
  by (auto simp: ComputeWeightsFromPeak_def ResetWeights_def Let_def bindS_eq_Inl no_errno
      split: if_splits)

lemma widen_bound_no_errno: "widen_bound rnd attempt n b \<noteq> Some (Inl (Errno c))"
  by (induction n arbitrary: b) (auto split: sum.splits fail.splits)

lemma profile_errno:
  assumes "ProfileGuided_ComputeWeights rnd models stats op load = Inl (Errno c)"
  shows "length stats < 2 \<or> to_u64 (fst load + snd load) = 0"
proof -
  have "UseIterativeMethod rnd models stats op load \<noteq> Inl (Errno c)"
    by (auto simp: UseIterativeMethod_def bindS_eq_Inl no_errno Let_def split: prod.splits)
  then have "ComputeWeightsFromPeak rnd models stats op load = Inl (Errno c)"
    using assms widen_bound_no_errno
    by (auto simp: ProfileGuided_ComputeWeights_def bindS_eq_Inl split: option.splits if_splits)
  then show ?thesis by (rule from_peak_errno)
qed

section \<open>Properties\<close>




text \<open>A control plane with one registered server and a given policy.\<close>

definition one_server :: "policy \<Rightarrow> ControlPlane" where
  "one_server p = \<lparr>cp_num_servers = 1,
     stats_mgr = ServerStatsManager_init\<lparr>servers := {1}, stats_map :=
       (replicate kNumMaxServers None)[1 := Some (zero_stats\<lparr>server_id := 1\<rparr>)]\<rparr>,
     sched = p, freeze_weights = False, freeze_modes = False\<rparr>"

lemma one_server_inv: "cp_inv (one_server p)"
  by (auto simp: cp_inv_def mgr_inv_def one_server_def k_defs le_Suc_eq)


text \<open>
  The list the weights are computed from is the table after the round, as far as identifiers and
  modes go, and the write weights stored are the ones computed.
\<close>

lemma Update_view:
  assumes "cp_inv s" "ControlPlane_Update rnd s modes0 r0 w0 now now' = Inr s'"
  obtains stats' ww where
    "stats_ok stats'"
    "expected (if freeze_weights s then MakeError EINVAL else policy_ComputeWeights rnd (sched s') stats'
       Op_kWrite (ServerStatsManager_GetSystemLoad (stats_mgr s)) w0) = Inr ww"
    "\<forall>j. 1 \<le> j \<and> j \<le> cp_num_servers s \<longrightarrow> (\<exists>t. stats_map (stats_mgr s') ! j = Some t \<and>
       stats' ! (j - 1) \<in> set stats' \<and> server_id (stats' ! (j - 1)) = j \<and>
       mode (stats' ! (j - 1)) = mode t \<and> (\<forall>l. ww = Some l \<longrightarrow> write_weight t = l ! j))"
proof -
  obtain stats p mr modes stats' rw ww where u:
    "GetServerStatsList (stats_mgr s) = Inr stats"
    "stats' = (case modes of None \<Rightarrow> stats | Some ms \<Rightarrow>
       map (\<lambda>srv. srv\<lparr>mode := ms ! server_id srv\<rparr>) stats)"
    "expected (if freeze_weights s then MakeError EINVAL else policy_ComputeWeights rnd p stats'
       Op_kWrite (ServerStatsManager_GetSystemLoad (stats_mgr s)) w0) = Inr ww" "sched s' = p"
    "foldS (decide_server rw ww modes) [1..<cp_num_servers s + 1] (stats_mgr s) = Inr (stats_mgr s')"
    by (rule Update_cases [OF assms(2)])
  have inv: "mgr_inv (stats_mgr s) (cp_num_servers s)" using assms(1) by (simp add: cp_inv_def)
  note d = decide_all_eq [OF inv order_refl u(5)]
  from GetServerStatsList_ok [OF inv] u(1) have len: "length stats = cp_num_servers s"
    and ok: "stats_ok stats" and at: "\<And>j. j < cp_num_servers s \<Longrightarrow>
      stats_map (stats_mgr s) ! (j + 1) = Some (stats ! j) \<and> server_id (stats ! j) = j + 1" by auto
  have "\<exists>t. stats_map (stats_mgr s') ! j = Some t \<and>
       stats' ! (j - 1) \<in> set stats' \<and> server_id (stats' ! (j - 1)) = j \<and>
       mode (stats' ! (j - 1)) = mode t \<and> (\<forall>l. ww = Some l \<longrightarrow> write_weight t = l ! j)"
    if "1 \<le> j" "j \<le> cp_num_servers s" for j
  proof -
    have j: "j - 1 < cp_num_servers s" "j - 1 + 1 = j" using that by simp_all
    then have "stats_map (stats_mgr s') ! j = Some (decided rw ww modes j (stats ! (j - 1)))"
      using d at [OF j(1)] that by simp
    then show ?thesis using at [OF j(1)] j len
      by (auto simp: u(2) decided_def split: option.splits)
  qed
  moreover have "stats_ok stats'" using ok by (auto simp: u(2) stats_ok_def comp_def split: option.splits)
  ultimately show thesis using that u(3,4) by blast
qed

lemma Update_policy_kind:
  assumes "ControlPlane_Update rnd s modes0 r0 w0 now now' = Inr s'" "sched s = PG_RWIsolation pol"
  shows "\<exists>pol'. sched s' = PG_RWIsolation pol'"
proof -
  obtain stats mr where "(sched s', mr) = (if freeze_modes s then (sched s, MakeError EINVAL)
       else policy_ComputeModes rnd (sched s) stats (ServerStatsManager_GetSystemLoad (stats_mgr s))
              modes0 now now')"
    by (rule Update_cases [OF assms(1)]) auto
  then show ?thesis using assms(2)
    by (auto simp: policy_ComputeModes_def split: if_splits prod.splits)
qed


text \<open>Three servers with saturated profiles, the third one a read server; modes are frozen.\<close>

definition three_plane :: ControlPlane where
  "three_plane = \<lparr>cp_num_servers = 3,
     stats_mgr = ServerStatsManager_init\<lparr>servers := {1..3}, read_ops := 5, stats_map :=
       None # map Some [zero_stats\<lparr>server_id := 1\<rparr>, zero_stats\<lparr>server_id := 2\<rparr>,
          zero_stats\<lparr>server_id := 3, mode := Mode_kRead, write_weight := 1\<rparr>] @ replicate 16 None\<rparr>,
     sched = PG_RWIsolation \<lparr>pg_rw = idle_isolation, pg_models = replicate 20 slow_model\<rparr>,
     freeze_weights = False, freeze_modes = True\<rparr>"

lemma three_plane_inv: "cp_inv three_plane"
proof -
  have "\<exists>st. stats_map (stats_mgr three_plane) ! i = Some st \<and> server_id st = i" if "1 \<le> i" "i \<le> 3" for i
  proof -
    from that have "i = 1 \<or> i = 2 \<or> i = 3" by linarith
    then show ?thesis by (auto simp: three_plane_def)
  qed
  then show ?thesis by (simp add: cp_inv_def mgr_inv_def three_plane_def k_defs)
qed

lemma slow_weights:
  assumes "stats_ok stats" "2 \<le> length stats"
  shows "\<exists>ws. ProfileGuided_ComputeWeights (\<lambda>x. x) (replicate 20 slow_model) stats op (5, 0) = Inr ws \<and>
    length ws = kNumMaxServers"
proof -
  have sid: "server_id srv < 20" if "srv \<in> set stats" for srv
    using that assms(1) by (simp add: stats_ok_def k_defs)
  have cap: "capacity (\<lambda>x. x) (replicate 20 slow_model) pm wr stats = Inr 0" for pm wr
    using sid unfolding capacity_def by (induction stats) (simp_all add: slow_peak to_u64_def)
  have "foldS (\<lambda>srv loads. bindS (get_at (replicate 20 slow_model) (server_id srv)) (\<lambda>model.
        bindS (DiskModel_GetPeakIOPS (\<lambda>x. x) model (mode srv) wr) (\<lambda>srv_load.
          Inr (loads @ [srv_load])))) stats acc = Inr (acc @ replicate (length stats) 0)" for wr acc
    using sid by (induction stats arbitrary: acc) (simp_all add: slow_peak)
  then have loads: "peak_loads (\<lambda>x. x) (replicate 20 slow_model) wr stats = Inr (replicate (length stats) 0)" for wr
    by (simp add: peak_loads_def)
  obtain w0 where w0: "ResetWeights (\<lambda>x. x) (replicate kNumMaxServers 0) stats = Inr w0"
    "weights_ok (\<lambda>x. x) stats w0"
    using exact.ResetWeights_ok [OF assms(1) _ stats_ok_length [OF assms(1)] exact.zero_weights_ok] assms(2)
    by fastforce
  then show ?thesis using cap loads assms(2)
    by (simp add: ProfileGuided_ComputeWeights_def UseIterativeMethod_def ComputeWeightsFromPeak_def
        fmul_def fof_nat_def to_u64_def weights_ok_def)
qed


text \<open>
  Under the strict isolation policy a round publishes uninitialised memory: the write weight
  stored for a server in read mode is whatever the local array of \<open>ComputeWeights\<close> held at its
  index before the call.
\<close>

theorem strict_Update_publishes_uninitialised:
  assumes "cp_inv s" "sched s' = RWIsolationStrict pol" "\<not> freeze_weights s" "length w0 = kNumMaxServers"
    and "ControlPlane_Update rnd s modes0 r0 w0 now now' = Inr s'"
    and "1 \<le> i" "i \<le> cp_num_servers s" "stats_map (stats_mgr s') ! i = Some st" "mode st = Mode_kRead"
  shows "write_weight st = w0 ! i"
proof -
  obtain stats' ww where ok: "stats_ok stats'"
    and w: "expected (if freeze_weights s then MakeError EINVAL else policy_ComputeWeights rnd (sched s')
       stats' Op_kWrite (ServerStatsManager_GetSystemLoad (stats_mgr s)) w0) = Inr ww"
    and v: "\<forall>j. 1 \<le> j \<and> j \<le> cp_num_servers s \<longrightarrow> (\<exists>t. stats_map (stats_mgr s') ! j = Some t \<and>
       stats' ! (j - 1) \<in> set stats' \<and> server_id (stats' ! (j - 1)) = j \<and>
       mode (stats' ! (j - 1)) = mode t \<and> (\<forall>l. ww = Some l \<longrightarrow> write_weight t = l ! j))"
    by (rule Update_view [OF assms(1,5)])
  let ?P = "\<lambda>srv. mode srv \<noteq> Mode_kRead"
  have "\<forall>srv \<in> set stats'. server_id srv < length w0" using ok assms(4) by (simp add: stats_ok_def)
  then obtain ws where ws: "equal_weights rnd ?P stats' w0 = Inr ws" "\<forall>k < length w0. ws ! k =
      (if \<exists>srv \<in> set stats'. ?P srv \<and> server_id srv = k then fdiv rnd 1 (fof_nat rnd
        (count_servers ?P stats')) else w0 ! k)"
    unfolding equal_weights_def using set_weights_eq by blast
  have "ww = Some ws"
    using w assms(2,3) ws(1) by (auto simp: policy_ComputeWeights_def RWIsolationStrict_ComputeWeights_def
        Let_def)
  moreover have "i < length w0" using assms(1,4,7) by (simp add: cp_inv_def mgr_inv_def)
  moreover have i: "stats' ! (i - 1) \<in> set stats'" "server_id (stats' ! (i - 1)) = i"
    "mode (stats' ! (i - 1)) = Mode_kRead" "\<forall>l. ww = Some l \<longrightarrow> write_weight st = l ! i"
    using v [rule_format, of i] assms(6-9) by auto
  moreover have "srv = stats' ! (i - 1)" if "srv \<in> set stats'" "server_id srv = i" for srv
    using ok that i(1,2) by (simp add: stats_ok_def distinct_map inj_on_def)
  then have "\<not> (\<exists>srv \<in> set stats'. ?P srv \<and> server_id srv = i)" using i(3) by metis
  ultimately show ?thesis using ws(2) by simp
qed

theorem strict_Update_publishes_uninitialised_witness:
  "\<exists>s' st. ControlPlane_Update (\<lambda>x. x)
      ((one_server (RWIsolationStrict three_state))\<lparr>freeze_modes := True, stats_mgr :=
        ServerStatsManager_init\<lparr>servers := {1}, stats_map := None # [Some (zero_stats\<lparr>server_id := 1,
          mode := Mode_kRead\<rparr>)] @ replicate 18 None\<rparr>\<rparr>) [] (replicate 20 7) (replicate 20 7) 0 0
      = Inr s' \<and> stats_map (stats_mgr s') ! 1 = Some st \<and> write_weight st = 7"
proof -
  let ?s = "(one_server (RWIsolationStrict three_state))\<lparr>freeze_modes := True, stats_mgr :=
        ServerStatsManager_init\<lparr>servers := {1}, stats_map := None # [Some (zero_stats\<lparr>server_id := 1,
          mode := Mode_kRead\<rparr>)] @ replicate 18 None\<rparr>\<rparr>"
  have inv: "cp_inv ?s" by (auto simp: cp_inv_def mgr_inv_def one_server_def k_defs le_Suc_eq)
  obtain s' st where run: "ControlPlane_Update (\<lambda>x. x) ?s [] (replicate 20 7) (replicate 20 7) 0 0 = Inr s'"
    "sched s' = RWIsolationStrict three_state" "stats_map (stats_mgr s') ! 1 = Some st" "mode st = Mode_kRead"
    by (simp add: ControlPlane_Update_def one_server_def GetServerStatsList_def policy_ComputeWeights_def
        RWIsolationStrict_ComputeWeights_def equal_weights_def set_weights_def decide_server_def
        GetServerStatsOf_def opt_at_def ServerStatsManager_UpdateServerStats_def zero_stats_def)
  have "cp_num_servers ?s = 1" "\<not> freeze_weights ?s" by (simp_all add: one_server_def)
  then have "write_weight st = replicate 20 7 ! 1"
    using strict_Update_publishes_uninitialised [OF inv run(2) _ _ run(1), of 1 st] run(3,4)
    by (simp add: k_defs)
  with run(1,3) show ?thesis by auto
qed

end
