(* ===== verification/Congestion.thy ===== *)
theory Congestion
  imports Sandook_Types
begin

text \<open>
  Client-side congestion control (\<open>sandook/scheduler/data_plane/congestion_control.h\<close>): a rate limit
  per server with additive increase and multiplicative decrease. Telemetry is not modelled, but a
  server that was never added has no telemetry stream and using it is a null pointer. The
  methods are atomic (\<open>cc_lock_\<close>); every \<open>MicroTime\<close> call is an argument.
\<close>

section \<open>State and operations\<close>

record CongestionControl =
  cc_servers :: "ServerID set"
  states :: "ServerCongestionState list"
  congested_at :: "nat list"
  congestion_responded_at :: "nat list"
  cc_rate_limits :: "real list"

definition kBestCongestedRateLimit :: "(real \<Rightarrow> real) \<Rightarrow> real" where
  "kBestCongestedRateLimit rnd = rnd 0.001"
definition kBestUncongestedRateLimit :: real where "kBestUncongestedRateLimit = 1"
definition kMultiplicativeDecreaseDelta :: "(real \<Rightarrow> real) \<Rightarrow> real" where
  "kMultiplicativeDecreaseDelta rnd = rnd 0.5"
definition kAdditiveIncreaseDelta :: "(real \<Rightarrow> real) \<Rightarrow> real" where
  "kAdditiveIncreaseDelta rnd = rnd 0.05"

definition CongestionControl_init :: CongestionControl where
  "CongestionControl_init = \<lparr>cc_servers = {},
     states = replicate kNumMaxServers State_kUnCongested,
     congested_at = replicate kNumMaxServers 0,
     congestion_responded_at = replicate kNumMaxServers 0,
     cc_rate_limits = replicate kNumMaxServers kBestUncongestedRateLimit\<rparr>"

definition CongestionControl_AddServer ::
  "CongestionControl \<Rightarrow> ServerID \<Rightarrow> CongestionControl status" where
  "CongestionControl_AddServer s sid =
     (if sid \<ge> kNumMaxServers then Inl Out_of_range
      else if sid \<in> cc_servers s then MakeError EALREADY
      else Inr (s\<lparr>cc_servers := insert sid (cc_servers s)\<rparr>))"

definition additive_increase :: "(real \<Rightarrow> real) \<Rightarrow> real \<Rightarrow> real" where
  "additive_increase rnd r =
     (if r \<noteq> kBestUncongestedRateLimit
      then min kBestUncongestedRateLimit (fadd rnd r (kAdditiveIncreaseDelta rnd)) else r)"

text \<open>The reaction to congestion: the new rate limit and the new time of the last reaction.\<close>

definition multiplicative_decrease ::
  "(real \<Rightarrow> real) \<Rightarrow> real \<Rightarrow> nat \<Rightarrow> nat \<Rightarrow> nat \<Rightarrow> real \<times> nat" where
  "multiplicative_decrease rnd r last_reaction congested_since now =
     (if r = kBestCongestedRateLimit rnd then (r, last_reaction)
      else if last_reaction \<ge> congested_since then (r, last_reaction)
      else if usub64 congested_since last_reaction < kCongestionControlWindowUs then (r, last_reaction)
      else (max (kBestCongestedRateLimit rnd) (fmul rnd r (kMultiplicativeDecreaseDelta rnd)), now))"

definition react ::
  "(real \<Rightarrow> real) \<Rightarrow> ServerCongestionState \<Rightarrow> real \<Rightarrow> nat \<Rightarrow> nat \<Rightarrow> nat \<Rightarrow> real \<times> nat" where
  "react rnd state r last_reaction congested_since now =
     (case state of
        State_kUnCongested \<Rightarrow> (additive_increase rnd r, last_reaction)
      | State_kCongestedUnstable \<Rightarrow> (additive_increase rnd r, last_reaction)
      | State_kCongested \<Rightarrow> multiplicative_decrease rnd r last_reaction congested_since now
      | _ \<Rightarrow> (r, last_reaction))"

definition UpdateServerRateLimit ::
  "(real \<Rightarrow> real) \<Rightarrow> CongestionControl \<Rightarrow> ServerID \<Rightarrow> nat \<Rightarrow> CongestionControl status" where
  "UpdateServerRateLimit rnd s sid now =
     bindS (get_at (states s) sid) (\<lambda>state.
       bindS (get_at (cc_rate_limits s) sid) (\<lambda>r.
         bindS (get_at (congestion_responded_at s) sid) (\<lambda>last_reaction.
           bindS (get_at (congested_at s) sid) (\<lambda>congested_since.
             let rt = react rnd state r last_reaction congested_since now
             in if sid \<notin> cc_servers s then Inl Null_pointer
                else Inr (s\<lparr>congestion_responded_at := (congestion_responded_at s)[sid := snd rt],
                            cc_rate_limits := (cc_rate_limits s)[sid := fst rt]\<rparr>)))))"

text \<open>\<open>cur_state\<close> is the state the method reads before it takes the lock; another thread may have
  changed it by the time the lock is held, so the fast path reads it again.\<close>

definition CongestionControl_SignalCongested ::
  "(real \<Rightarrow> real) \<Rightarrow> CongestionControl \<Rightarrow> ServerCongestionState \<Rightarrow> ServerID \<Rightarrow> nat \<Rightarrow> nat \<Rightarrow>
     CongestionControl status" where
  "CongestionControl_SignalCongested rnd s cur_state sid now now' =
     bindS (get_at (states s) sid) (\<lambda>locked_state.
       bindS (put_at (states s) sid State_kCongested) (\<lambda>sts.
         bindS (put_at (congested_at s) sid now) (\<lambda>cas.
           let s1 = s\<lparr>states := sts, congested_at := cas\<rparr>
           in if cur_state = State_kUnCongested
              then if locked_state \<noteq> State_kUnCongested then Inr s
                   else UpdateServerRateLimit rnd s1 sid now'
              else Inr s1)))"

definition CongestionControl_SetCongestionState ::
  "CongestionControl \<Rightarrow> ServerID \<Rightarrow> ServerCongestionState \<Rightarrow> CongestionControl status" where
  "CongestionControl_SetCongestionState s sid state =
     bindS (get_at (states s) sid) (\<lambda>cur_state.
       if cur_state \<noteq> State_kInvalid then Inr s
       else bindS (put_at (states s) sid state) (\<lambda>sts. Inr (s\<lparr>states := sts\<rparr>)))"

definition CongestionControl_GetRateLimit :: "CongestionControl \<Rightarrow> ServerID \<Rightarrow> real status" where
  "CongestionControl_GetRateLimit s sid = get_at (cc_rate_limits s) sid"

text \<open>The servers are visited in ascending order, as \<open>std::set\<close> iterates them.\<close>

definition UpdateAllServers ::
  "(real \<Rightarrow> real) \<Rightarrow> CongestionControl \<Rightarrow> (ServerID \<Rightarrow> nat) \<Rightarrow> CongestionControl status" where
  "UpdateAllServers rnd s now =
     foldS (\<lambda>sid s. bindS (UpdateServerRateLimit rnd s sid (now sid)) (\<lambda>s1.
        bindS (put_at (states s1) sid State_kInvalid) (\<lambda>sts. Inr (s1\<lparr>states := sts\<rparr>))))
       (sorted_list_of_set (cc_servers s)) s"

section \<open>Invariant\<close>

definition cc_wf :: "CongestionControl \<Rightarrow> bool" where
  "cc_wf s \<longleftrightarrow> length (states s) = kNumMaxServers \<and> length (congested_at s) = kNumMaxServers \<and>
     length (congestion_responded_at s) = kNumMaxServers \<and> length (cc_rate_limits s) = kNumMaxServers \<and>
     cc_servers s \<subseteq> {..<kNumMaxServers}"

text \<open>Every rate limit is a double between the two best limits.\<close>

definition rate_ok :: "(real \<Rightarrow> real) \<Rightarrow> real \<Rightarrow> bool" where
  "rate_ok rnd r \<longleftrightarrow> kBestCongestedRateLimit rnd \<le> r \<and> r \<le> kBestUncongestedRateLimit \<and> rnd r = r"

definition cc_inv :: "(real \<Rightarrow> real) \<Rightarrow> CongestionControl \<Rightarrow> bool" where
  "cc_inv rnd s \<longleftrightarrow> cc_wf s \<and> (\<forall>r \<in> set (cc_rate_limits s). rate_ok rnd r)"

lemma replicate_update_same [simp]: "(replicate n x)[i := x] = replicate n x"
proof (cases "i < n")
  case True
  then show ?thesis by (simp add: list_update_same_conv)
qed (simp add: list_update_beyond)

lemma set_update_ball: "(\<forall>r \<in> set xs. P r) \<Longrightarrow> P v \<Longrightarrow> \<forall>r \<in> set (xs[i := v]). P r"
  using set_update_subset_insert [of xs i v] by blast

text \<open>The effect of one reaction.\<close>

abbreviation reaction :: "(real \<Rightarrow> real) \<Rightarrow> CongestionControl \<Rightarrow> ServerID \<Rightarrow> nat \<Rightarrow> real \<times> nat" where
  "reaction rnd s sid now \<equiv> react rnd (states s ! sid) (cc_rate_limits s ! sid)
     (congestion_responded_at s ! sid) (congested_at s ! sid) now"

lemma UpdateServerRateLimit_eq:
  assumes "cc_wf s"
  shows "UpdateServerRateLimit rnd s sid now = Inr s' \<longleftrightarrow> sid \<in> cc_servers s \<and>
    s' = s\<lparr>congestion_responded_at := (congestion_responded_at s)[sid := snd (reaction rnd s sid now)],
           cc_rate_limits := (cc_rate_limits s)[sid := fst (reaction rnd s sid now)]\<rparr>"
  using assms by (auto simp: UpdateServerRateLimit_def status_simps Let_def cc_wf_def)

context fp_rounding
begin

lemma rate_ok_1: "rate_ok rnd 1"
  by (simp add: rate_ok_def kBestCongestedRateLimit_def kBestUncongestedRateLimit_def rnd_le_1 rnd_1)

lemma additive_increase_ok:
  assumes "rate_ok rnd r"
  shows "rate_ok rnd (additive_increase rnd r)" "r \<le> additive_increase rnd r"
proof -
  have le: "r \<le> fadd rnd r (kAdditiveIncreaseDelta rnd)"
    unfolding fadd_def kAdditiveIncreaseDelta_def
    using assms by (intro rnd_add_ge rnd_nonneg) (simp_all add: rate_ok_def)
  then show "r \<le> additive_increase rnd r"
    using assms by (simp add: additive_increase_def rate_ok_def)
  then show "rate_ok rnd (additive_increase rnd r)"
    using assms rate_ok_1 by (auto simp: rate_ok_def additive_increase_def min_def fadd_def rnd_idem
        kBestUncongestedRateLimit_def split: if_splits)
qed

lemma multiplicative_decrease_ok:
  assumes "rate_ok rnd r"
  shows "rate_ok rnd (fst (multiplicative_decrease rnd r lr cs now))"
    "fst (multiplicative_decrease rnd r lr cs now) \<le> r"
proof -
  have b: "0 \<le> kBestCongestedRateLimit rnd" "rnd (kBestCongestedRateLimit rnd) = kBestCongestedRateLimit rnd"
    unfolding kBestCongestedRateLimit_def by (rule rnd_nonneg, simp, rule rnd_idem)
  have r: "rnd r = r" "0 \<le> r" "kBestCongestedRateLimit rnd \<le> r" "r \<le> 1"
    using assms b by (auto simp: rate_ok_def kBestUncongestedRateLimit_def)
  have "fmul rnd r (kMultiplicativeDecreaseDelta rnd) \<le> r"
    unfolding fmul_def kMultiplicativeDecreaseDelta_def
    by (intro rnd_mult_le r rnd_le_1) simp
  then show "fst (multiplicative_decrease rnd r lr cs now) \<le> r"
    and "rate_ok rnd (fst (multiplicative_decrease rnd r lr cs now))"
    using r b by (auto simp: multiplicative_decrease_def rate_ok_def max_def fmul_def rnd_idem
        kBestUncongestedRateLimit_def)
qed

lemma react_ok: "rate_ok rnd r \<Longrightarrow> rate_ok rnd (fst (react rnd st r lr cs now))"
  using additive_increase_ok(1) multiplicative_decrease_ok(1)
  by (auto simp: react_def split: ServerCongestionState.splits)

lemma UpdateServerRateLimit_inv:
  assumes "cc_inv rnd s" "UpdateServerRateLimit rnd s sid now = Inr s'"
  shows "cc_inv rnd s'"
proof -
  have wf: "cc_wf s" using assms(1) by (simp add: cc_inv_def)
  note s' = assms(2) [unfolded UpdateServerRateLimit_eq [OF wf]]
  then have "sid < length (cc_rate_limits s)" using wf by (auto simp: cc_wf_def)
  then have "rate_ok rnd (fst (reaction rnd s sid now))" using assms(1) by (intro react_ok) (simp add: cc_inv_def)
  then have "\<forall>r \<in> set (cc_rate_limits s'). rate_ok rnd r"
    using assms(1) s' set_update_ball [of "cc_rate_limits s" "rate_ok rnd"] by (simp add: cc_inv_def)
  then show ?thesis using wf s' by (simp add: cc_inv_def cc_wf_def)
qed

lemma cc_inv_states: "cc_inv rnd s \<Longrightarrow> length sts = kNumMaxServers \<Longrightarrow> cc_inv rnd (s\<lparr>states := sts\<rparr>)"
  by (simp add: cc_inv_def cc_wf_def)

lemma UpdateAllServers_inv:
  assumes "cc_inv rnd s" "UpdateAllServers rnd s now = Inr s'"
  shows "cc_inv rnd s'"
  using assms(2) [unfolded UpdateAllServers_def] assms(1)
proof (rule foldS_invariant)
  fix sid t t'
  assume t: "cc_inv rnd t" and "bindS (UpdateServerRateLimit rnd t sid (now sid)) (\<lambda>s1.
    bindS (put_at (states s1) sid State_kInvalid) (\<lambda>sts. Inr (s1\<lparr>states := sts\<rparr>))) = Inr t'"
  then obtain s1 where s1: "UpdateServerRateLimit rnd t sid (now sid) = Inr s1"
    and t': "t' = s1\<lparr>states := (states s1)[sid := State_kInvalid]\<rparr>"
    by (auto simp: status_simps)
  from UpdateServerRateLimit_inv [OF t s1] show "cc_inv rnd t'"
    by (simp add: t' cc_inv_def cc_wf_def)
qed

lemma SignalCongested_inv:
  assumes "cc_inv rnd s" "CongestionControl_SignalCongested rnd s cur_state sid now now' = Inr s'"
  shows "cc_inv rnd s'"
proof -
  let ?s1 = "s\<lparr>states := (states s)[sid := State_kCongested], congested_at := (congested_at s)[sid := now]\<rparr>"
  have "cc_inv rnd ?s1" using assms(1) by (simp add: cc_inv_def cc_wf_def)
  moreover have "s' = s \<or> s' = ?s1 \<or> UpdateServerRateLimit rnd ?s1 sid now' = Inr s'"
    using assms(2) by (auto simp: CongestionControl_SignalCongested_def status_simps Let_def
        split: if_splits)
  ultimately show ?thesis using UpdateServerRateLimit_inv assms(1) by blast
qed

end

section \<open>Events\<close>

text \<open>What can happen to the congestion control of a volume.\<close>

inductive cc_step :: "(real \<Rightarrow> real) \<Rightarrow> CongestionControl \<Rightarrow> CongestionControl \<Rightarrow> bool" for rnd where
  add: "CongestionControl_AddServer s sid = Inr s' \<Longrightarrow> cc_step rnd s s'"
| signal: "CongestionControl_SignalCongested rnd s cur_state sid now now' = Inr s' \<Longrightarrow> cc_step rnd s s'"
| report: "CongestionControl_SetCongestionState s sid st = Inr s' \<Longrightarrow> cc_step rnd s s'"
| window: "UpdateAllServers rnd s now = Inr s' \<Longrightarrow> cc_step rnd s s'"

inductive_cases cc_stepE: "cc_step rnd s s'"

inductive cc_reachable :: "(real \<Rightarrow> real) \<Rightarrow> CongestionControl \<Rightarrow> bool" for rnd where
  start: "cc_reachable rnd CongestionControl_init"
| step: "cc_reachable rnd s \<Longrightarrow> cc_step rnd s s' \<Longrightarrow> cc_reachable rnd s'"

context fp_rounding
begin

lemma cc_inv_init: "cc_inv rnd CongestionControl_init"
  using rate_ok_1
  by (simp add: cc_inv_def cc_wf_def CongestionControl_init_def kBestUncongestedRateLimit_def)

lemma cc_step_inv: "cc_step rnd s s' \<Longrightarrow> cc_inv rnd s \<Longrightarrow> cc_inv rnd s'"
proof (induction rule: cc_step.induct)
  case (add s sid s')
  then show ?case
    by (auto simp: CongestionControl_AddServer_def cc_inv_def cc_wf_def split: if_splits)
next
  case (signal s cur_state sid now now' s')
  then show ?case using SignalCongested_inv by blast
next
  case (report s sid st s')
  then show ?case
    by (auto simp: CongestionControl_SetCongestionState_def status_simps cc_inv_def cc_wf_def
        split: if_splits)
next
  case (window s now s')
  then show ?case using UpdateAllServers_inv by blast
qed

lemma cc_reachable_inv: "cc_reachable rnd s \<Longrightarrow> cc_inv rnd s"
  by (induction rule: cc_reachable.induct) (auto intro: cc_inv_init cc_step_inv)

end

section \<open>Recovery\<close>

lemma UpdateAllServers_at:
  assumes "cc_wf s" "finite (cc_servers s)"
  shows "\<exists>s'. UpdateAllServers rnd s now = Inr s' \<and> cc_wf s' \<and> cc_servers s' = cc_servers s \<and>
    (\<forall>sid \<in> cc_servers s. states s' ! sid = State_kInvalid \<and>
       cc_rate_limits s' ! sid = fst (reaction rnd s sid (now sid)))"
proof -
  let ?f = "\<lambda>sid s. bindS (UpdateServerRateLimit rnd s sid (now sid)) (\<lambda>s1.
        bindS (put_at (states s1) sid State_kInvalid) (\<lambda>sts. Inr (s1\<lparr>states := sts\<rparr>)))"
  have "\<exists>s'. foldS ?f xs s = Inr s' \<and> cc_wf s' \<and> cc_servers s' = cc_servers s \<and>
    (\<forall>sid \<in> set xs. states s' ! sid = State_kInvalid \<and>
       cc_rate_limits s' ! sid = fst (reaction rnd s sid (now sid))) \<and>
    (\<forall>sid. sid \<notin> set xs \<longrightarrow> states s' ! sid = states s ! sid \<and>
       cc_rate_limits s' ! sid = cc_rate_limits s ! sid \<and> congested_at s' ! sid = congested_at s ! sid \<and>
       congestion_responded_at s' ! sid = congestion_responded_at s ! sid)"
    if "distinct xs" "set xs \<subseteq> cc_servers s" for xs
    using that
  proof (induction xs rule: rev_induct)
    case Nil
    then show ?case using assms(1) by simp
  next
    case (snoc sid xs)
    then obtain s1 where s1: "foldS ?f xs s = Inr s1" "cc_wf s1" "cc_servers s1 = cc_servers s"
      "\<forall>sid \<in> set xs. states s1 ! sid = State_kInvalid \<and>
         cc_rate_limits s1 ! sid = fst (reaction rnd s sid (now sid))"
      "\<forall>sid. sid \<notin> set xs \<longrightarrow> states s1 ! sid = states s ! sid \<and>
         cc_rate_limits s1 ! sid = cc_rate_limits s ! sid \<and> congested_at s1 ! sid = congested_at s ! sid \<and>
         congestion_responded_at s1 ! sid = congestion_responded_at s ! sid"
      by auto
    have sid: "sid \<notin> set xs" "sid \<in> cc_servers s1" "sid < kNumMaxServers"
      using snoc.prems s1(2,3) by (auto simp: cc_wf_def)
    let ?s2 = "s1\<lparr>congestion_responded_at := (congestion_responded_at s1)[sid := snd (reaction rnd s1 sid (now sid))],
      cc_rate_limits := (cc_rate_limits s1)[sid := fst (reaction rnd s1 sid (now sid))],
      states := (states s1)[sid := State_kInvalid]\<rparr>"
    have upd: "UpdateServerRateLimit rnd s1 sid (now sid) =
        Inr (s1\<lparr>congestion_responded_at := (congestion_responded_at s1)[sid := snd (reaction rnd s1 sid (now sid))],
          cc_rate_limits := (cc_rate_limits s1)[sid := fst (reaction rnd s1 sid (now sid))]\<rparr>)"
      using UpdateServerRateLimit_eq [OF s1(2)] sid(2) by blast
    have "foldS ?f (xs @ [sid]) s = Inr ?s2"
      using s1(1,2) sid(3) upd by (simp add: foldS_append cc_wf_def)
    then show ?case using s1 sid
      by (intro exI [of _ ?s2]) (auto simp: cc_wf_def nth_list_update)
  qed
  from this [of "sorted_list_of_set (cc_servers s)"] show ?thesis
    using assms(2) by (auto simp: UpdateAllServers_def)
qed

text \<open>A run of windows in each of which the server is reported as not congested.\<close>

fun quiet_windows ::
  "(real \<Rightarrow> real) \<Rightarrow> ServerID \<Rightarrow> (ServerID \<Rightarrow> nat) list \<Rightarrow> CongestionControl \<Rightarrow> CongestionControl status" where
  "quiet_windows rnd sid [] s = Inr s"
| "quiet_windows rnd sid (now # nows) s =
     bindS (CongestionControl_SetCongestionState s sid State_kUnCongested) (\<lambda>s1.
       bindS (UpdateAllServers rnd s1 now) (quiet_windows rnd sid nows))"

lemma cc_servers_finite: "cc_wf s \<Longrightarrow> finite (cc_servers s)"
  by (meson cc_wf_def finite_lessThan finite_subset)

context fp_rounding
begin

lemma additive_increase_progress:
  assumes "rate_ok rnd r" shows "min 1 (r + 1 / 25) \<le> additive_increase rnd r"
proof (cases "r = 1")
  case False
  have "0 \<le> rnd 0.001" by (rule rnd_nonneg) simp
  then have r: "0 \<le> r" "r < 1" using assms False
    by (auto simp: rate_ok_def kBestCongestedRateLimit_def kBestUncongestedRateLimit_def)
  from rnd_add_twentieth [OF r] False show ?thesis
    by (simp add: additive_increase_def fadd_def kAdditiveIncreaseDelta_def kBestUncongestedRateLimit_def)
qed (simp add: additive_increase_def kBestUncongestedRateLimit_def)

lemma quiet_window:
  assumes "cc_inv rnd s" "sid \<in> cc_servers s" "states s ! sid \<in> {State_kInvalid, State_kUnCongested}"
  shows "\<exists>s1 s2. CongestionControl_SetCongestionState s sid State_kUnCongested = Inr s1 \<and>
    UpdateAllServers rnd s1 now = Inr s2 \<and> cc_inv rnd s2 \<and> sid \<in> cc_servers s2 \<and>
    states s2 ! sid = State_kInvalid \<and> min 1 (cc_rate_limits s ! sid + 1 / 25) \<le> cc_rate_limits s2 ! sid"
proof -
  let ?s1 = "s\<lparr>states := (states s)[sid := State_kUnCongested]\<rparr>"
  have wf: "cc_wf s" and sid: "sid < kNumMaxServers"
    using assms(1,2) by (auto simp: cc_inv_def cc_wf_def)
  have "s = ?s1" if "states s ! sid = State_kUnCongested" using that by (metis list_update_id
        CongestionControl.surjective CongestionControl.update_convs(2))
  then have set: "CongestionControl_SetCongestionState s sid State_kUnCongested = Inr ?s1"
    using assms(3) wf sid by (auto simp: CongestionControl_SetCongestionState_def cc_wf_def)
  have inv1: "cc_inv rnd ?s1" using assms(1) wf by (simp add: cc_inv_states cc_wf_def)
  then have wf1: "cc_wf ?s1" by (simp add: cc_inv_def)
  obtain s2 where s2: "UpdateAllServers rnd ?s1 now = Inr s2" "cc_servers s2 = cc_servers s"
    "states s2 ! sid = State_kInvalid" "cc_rate_limits s2 ! sid = fst (reaction rnd ?s1 sid (now sid))"
    using UpdateAllServers_at [OF wf1 cc_servers_finite [OF wf1], of rnd now] assms(2) by auto
  have "fst (reaction rnd ?s1 sid (now sid)) = additive_increase rnd (cc_rate_limits s ! sid)"
    using wf sid by (simp add: react_def cc_wf_def)
  moreover have "rate_ok rnd (cc_rate_limits s ! sid)" using assms(1) wf sid by (simp add: cc_inv_def cc_wf_def)
  ultimately show ?thesis
    using set s2 UpdateAllServers_inv [OF inv1 s2(1)] additive_increase_progress assms(2) by auto
qed

lemma quiet_windows_rate:
  assumes "cc_inv rnd s" "sid \<in> cc_servers s" "states s ! sid \<in> {State_kInvalid, State_kUnCongested}"
  shows "\<exists>s'. quiet_windows rnd sid nows s = Inr s' \<and> cc_inv rnd s' \<and>
    min 1 (cc_rate_limits s ! sid + real (length nows) / 25) \<le> cc_rate_limits s' ! sid"
  using assms
proof (induction nows arbitrary: s)
  case Nil
  then show ?case by simp
next
  case (Cons now nows)
  from quiet_window [OF Cons.prems, of now] obtain s1 s2 where
    w: "CongestionControl_SetCongestionState s sid State_kUnCongested = Inr s1"
      "UpdateAllServers rnd s1 now = Inr s2" "cc_inv rnd s2" "sid \<in> cc_servers s2"
      "states s2 ! sid = State_kInvalid"
      "min 1 (cc_rate_limits s ! sid + 1 / 25) \<le> cc_rate_limits s2 ! sid" by blast
  from Cons.IH [OF w(3,4)] w(5) obtain s' where
    "quiet_windows rnd sid nows s2 = Inr s'" "cc_inv rnd s'"
    "min 1 (cc_rate_limits s2 ! sid + real (length nows) / 25) \<le> cc_rate_limits s' ! sid" by auto
  then show ?case using w(1,2,6) by (auto simp: min_def field_simps split: if_splits)
qed

end

section \<open>Properties\<close>

text \<open>
  C21. The rate limit of a server never leaves its range: in every state the congestion control
  can reach, by any interleaving of additions, congestion signals, reports and windows and under
  any rounding, a rate limit lies between \<open>kBestCongestedRateLimit\<close> and 1; so a congested server is
  slowed down and never cut off.
\<close>

theorem rate_limit_in_range:
  assumes "fp_rounding rnd" "cc_reachable rnd s" "CongestionControl_GetRateLimit s sid = Inr r"
  shows "kBestCongestedRateLimit rnd \<le> r \<and> r \<le> 1 \<and> 0 < r"
proof -
  have "r \<in> set (cc_rate_limits s)" using assms(3)
    by (auto simp: CongestionControl_GetRateLimit_def status_simps)
  then have "rate_ok rnd r" using fp_rounding.cc_reachable_inv [OF assms(1,2)] by (simp add: cc_inv_def)
  moreover have "0 < rnd 0.001" by (rule fp_rounding.rnd_pos [OF assms(1)]) simp
  ultimately show ?thesis
    by (simp add: rate_ok_def kBestCongestedRateLimit_def kBestUncongestedRateLimit_def)
qed

theorem rate_limit_in_range_witness:
  "\<exists>s r. CongestionControl_AddServer CongestionControl_init 3 = Inr s \<and>
    CongestionControl_GetRateLimit s 3 = Inr r \<and> r \<le> 1 \<and> 0 < r"
proof -
  obtain s r where s: "CongestionControl_AddServer CongestionControl_init 3 = Inr s"
    "CongestionControl_GetRateLimit s 3 = Inr r"
    by (simp add: CongestionControl_AddServer_def CongestionControl_init_def k_defs
        CongestionControl_GetRateLimit_def)
  have "cc_reachable rnd64 s" using s(1) by (blast intro: cc_reachable.intros cc_step.intros)
  from rate_limit_in_range [OF r64.fp_rounding_axioms this s(2)] s show ?thesis by blast
qed

text \<open>
  C20. A server recovers: from any rate limit, 25 windows in a row in which it is reported not
  congested bring the rate limit back to exactly 1, under any rounding.
\<close>

theorem rate_limit_recovers:
  assumes "fp_rounding rnd" "cc_reachable rnd s" "sid \<in> cc_servers s"
    and "states s ! sid \<in> {State_kInvalid, State_kUnCongested}" "25 \<le> length nows"
  shows "\<exists>s'. quiet_windows rnd sid nows s = Inr s' \<and> CongestionControl_GetRateLimit s' sid = Inr 1"
proof -
  have inv: "cc_inv rnd s" by (rule fp_rounding.cc_reachable_inv [OF assms(1,2)])
  then have wf: "cc_wf s" by (simp add: cc_inv_def)
  then have sid: "sid < kNumMaxServers" using assms(3) by (auto simp: cc_wf_def)
  obtain s' where s': "quiet_windows rnd sid nows s = Inr s'" "cc_inv rnd s'"
    "min 1 (cc_rate_limits s ! sid + real (length nows) / 25) \<le> cc_rate_limits s' ! sid"
    using fp_rounding.quiet_windows_rate [OF assms(1) inv assms(3,4)] by blast
  have "rate_ok rnd (cc_rate_limits s ! sid)" "rate_ok rnd (cc_rate_limits s' ! sid)"
    using inv s'(2) sid by (auto simp: cc_inv_def cc_wf_def)
  moreover have "0 \<le> rnd 0.001" by (rule fp_rounding.rnd_nonneg [OF assms(1)]) simp
  moreover have "1 \<le> real (length nows) / 25" using assms(5) by simp
  ultimately have "cc_rate_limits s' ! sid = 1"
    using s'(3) by (auto simp: rate_ok_def kBestCongestedRateLimit_def kBestUncongestedRateLimit_def)
  then show ?thesis using s'(1,2) sid
    by (simp add: CongestionControl_GetRateLimit_def cc_inv_def cc_wf_def)
qed

theorem rate_limit_recovers_witness:
  "\<exists>s s'. CongestionControl_AddServer CongestionControl_init 3 = Inr s \<and>
    quiet_windows rnd64 3 (replicate 30 (\<lambda>_. 7)) s = Inr s' \<and>
    CongestionControl_GetRateLimit s' 3 = Inr 1"
proof -
  obtain s where s: "CongestionControl_AddServer CongestionControl_init 3 = Inr s" "3 \<in> cc_servers s"
    "states s ! 3 = State_kUnCongested"
    by (simp add: CongestionControl_AddServer_def CongestionControl_init_def k_defs)
  have "cc_reachable rnd64 s" using s(1) by (blast intro: cc_reachable.intros cc_step.intros)
  from rate_limit_recovers [OF r64.fp_rounding_axioms this s(2), of "replicate 30 (\<lambda>_. 7)"] s(1,3)
  show ?thesis by auto
qed

text \<open>
  C22. The multiplicative decrease acts at most once per window: whenever an update lowers the
  rate limit, the server is in the congested state, its last congestion signal came at least
  \<open>kCongestionControlWindowUs\<close> after the previous reaction, the new limit is half the old one
  (never below the floor), and the time of the reaction is recorded.
\<close>

theorem decrease_once_per_window:
  assumes "fp_rounding rnd" "cc_reachable rnd s" "UpdateServerRateLimit rnd s sid now = Inr s'"
    and "cc_rate_limits s' ! sid < cc_rate_limits s ! sid" "congested_at s ! sid < 2 ^ 64"
  shows "states s ! sid = State_kCongested \<and>
    congestion_responded_at s ! sid + kCongestionControlWindowUs \<le> congested_at s ! sid \<and>
    cc_rate_limits s' ! sid = max (kBestCongestedRateLimit rnd) (rnd (cc_rate_limits s ! sid * rnd 0.5)) \<and>
    congestion_responded_at s' ! sid = now"
proof -
  have inv: "cc_inv rnd s" by (rule fp_rounding.cc_reachable_inv [OF assms(1,2)])
  then have wf: "cc_wf s" by (simp add: cc_inv_def)
  note s' = assms(3) [unfolded UpdateServerRateLimit_eq [OF wf]]
  then have sid: "sid < kNumMaxServers" using wf by (auto simp: cc_wf_def)
  let ?r = "cc_rate_limits s ! sid" and ?l = "congestion_responded_at s ! sid"
    and ?c = "congested_at s ! sid"
  have "rate_ok rnd ?r" using inv wf sid by (simp add: cc_inv_def cc_wf_def)
  then have "?r \<le> additive_increase rnd ?r" by (rule fp_rounding.additive_increase_ok(2) [OF assms(1)])
  moreover have lt: "fst (reaction rnd s sid now) < ?r" using assms(4) s' wf sid by (simp add: cc_wf_def)
  ultimately have st: "states s ! sid = State_kCongested"
    by (auto simp: react_def split: ServerCongestionState.splits)
  then have "\<not> ?l \<ge> ?c" "\<not> usub64 ?c ?l < kCongestionControlWindowUs"
    and re: "reaction rnd s sid now = (max (kBestCongestedRateLimit rnd) (rnd (?r * rnd 0.5)), now)"
    using lt by (auto simp: react_def multiplicative_decrease_def fmul_def
        kMultiplicativeDecreaseDelta_def split: if_splits)
  then have "?l + kCongestionControlWindowUs \<le> ?c" using usub64_ge [of ?l ?c] assms(5) by simp
  then show ?thesis using st re s' wf sid by (simp add: cc_wf_def)
qed

theorem decrease_once_per_window_witness:
  "\<exists>s1 s2 s3 s4. CongestionControl_AddServer CongestionControl_init 3 = Inr s1 \<and>
    UpdateAllServers (\<lambda>x. x) s1 (\<lambda>_. 5) = Inr s2 \<and>
    CongestionControl_SignalCongested (\<lambda>x. x) s2 State_kInvalid 3 60000 0 = Inr s3 \<and>
    UpdateServerRateLimit (\<lambda>x. x) s3 3 60001 = Inr s4 \<and>
    cc_rate_limits s3 ! 3 = 1 \<and> cc_rate_limits s4 ! 3 = 1 / 2 \<and> congestion_responded_at s4 ! 3 = 60001"
proof -
  define st where "st rates sts since = \<lparr>cc_servers = {3}, states = (replicate 20 State_kUnCongested)[3 := sts],
    congested_at = (replicate 20 0)[3 := since], congestion_responded_at = replicate 20 0,
    cc_rate_limits = (replicate 20 1)[3 := rates]\<rparr>" for rates sts since
  note ev = CongestionControl_AddServer_def CongestionControl_init_def k_defs UpdateServerRateLimit_def
    react_def additive_increase_def kBestUncongestedRateLimit_def
  have s1: "CongestionControl_AddServer CongestionControl_init 3 = Inr (st 1 State_kUnCongested 0)"
    by (simp add: ev st_def)
  have s2: "UpdateAllServers (\<lambda>x. x) (st 1 State_kUnCongested 0) (\<lambda>_. 5) = Inr (st 1 State_kInvalid 0)"
    by (simp add: ev st_def UpdateAllServers_def)
  have s3: "CongestionControl_SignalCongested (\<lambda>x. x) (st 1 State_kInvalid 0) State_kInvalid 3 60000 0 =
      Inr (st 1 State_kCongested 60000)"
    by (simp add: CongestionControl_SignalCongested_def st_def)
  obtain s4 where s4: "UpdateServerRateLimit (\<lambda>x. x) (st 1 State_kCongested 60000) 3 60001 = Inr s4"
    "cc_rate_limits s4 ! 3 < 1"
    by (simp add: ev st_def multiplicative_decrease_def fmul_def kMultiplicativeDecreaseDelta_def
        usub64_def to_u64_def kBestCongestedRateLimit_def)
  have v: "cc_rate_limits (st 1 State_kCongested 60000) ! 3 = 1"
    "congested_at (st 1 State_kCongested 60000) ! 3 = 60000" by (simp_all add: st_def)
  have "cc_reachable (\<lambda>x. x) (st 1 State_kCongested 60000)"
    by (rule cc_reachable.step [OF _ cc_step.signal [OF s3]],
        rule cc_reachable.step [OF _ cc_step.window [OF s2]],
        rule cc_reachable.step [OF cc_reachable.start cc_step.add [OF s1]])
  from decrease_once_per_window [OF exact.fp_rounding_axioms this s4(1)] v s4(2)
  have "cc_rate_limits s4 ! 3 = 1 / 2 \<and> congestion_responded_at s4 ! 3 = 60001"
    by (simp add: kBestCongestedRateLimit_def)
  with s1 s2 s3 s4(1) v(1) show ?thesis by blast
qed

end
