(* ===== verification/Data_Plane.thy ===== *)
theory Data_Plane
  imports Congestion
begin

text \<open>
  The client-side scheduler (\<open>sandook/scheduler/data_plane\<close>): the valid servers of a weight array,
  the read policies (\<open>random_read.h\<close>, \<open>weighted_read.h\<close>), the write policies (\<open>hash_write.h\<close>,
  \<open>random_write.h\<close>, \<open>weighted_write.h\<close>), the client's view of the servers
  (\<open>server_stats_manager.h\<close>) and the scheduler that puts them together (\<open>scheduler.h\<close>).
  The logging thread is not modelled.

  A \<open>std::set\<close> is the ascending list of its elements where the code iterates over it. An outcome of
  a random distribution of the standard library is a function of an arbitrary number: every number
  gives an outcome the distribution may produce, and every such outcome is given by some number.
  \<open>std::hash<uint64_t>\<close> is a parameter.
\<close>

section \<open>Random choices\<close>

definition uniform_index :: "nat \<Rightarrow> nat \<Rightarrow> nat" where
  "uniform_index n r = r mod n"

text \<open>\<open>std::discrete_distribution\<close> never gives the index of a zero weight, unless all are zero.\<close>

definition discrete_index :: "real list \<Rightarrow> nat \<Rightarrow> nat" where
  "discrete_index ws r =
     (let pos = filter (\<lambda>i. 0 < ws ! i) [0..<length ws]
      in if pos = [] then r mod length ws else pos ! (r mod length pos))"

text \<open>\<open>std::ranges::sample\<close> of a \<open>std::set\<close> keeps the order of the elements.\<close>

definition sample :: "'a list \<Rightarrow> nat \<Rightarrow> nat \<Rightarrow> 'a list" where
  "sample xs n r =
     (let ss = filter (\<lambda>ys. length ys = min n (length xs)) (subseqs xs) in ss ! (r mod length ss))"

lemma uniform_index_less: "0 < n \<Longrightarrow> uniform_index n r < n"
  by (simp add: uniform_index_def)

lemma discrete_index_less: "ws \<noteq> [] \<Longrightarrow> discrete_index ws r < length ws"
proof -
  assume ne: "ws \<noteq> []"
  define pos where "pos = filter (\<lambda>i. 0 < ws ! i) [0..<length ws]"
  have sub: "set pos \<subseteq> {..<length ws}" by (auto simp: pos_def)
  have "pos ! (r mod length pos) \<in> set pos" if "pos \<noteq> []" by (rule nth_mem) (use that in simp)
  then have "pos ! (r mod length pos) < length ws" if "pos \<noteq> []" using sub that by blast
  with ne show ?thesis unfolding discrete_index_def Let_def pos_def [symmetric] by simp
qed

lemma subseqs_take: "take n xs \<in> set (subseqs xs)"
proof (induction xs arbitrary: n)
  case (Cons x xs)
  have "[] \<in> set (subseqs ys)" for ys :: "'a list" by (induction ys) (auto simp: Let_def)
  with Cons show ?case by (cases n) (auto simp: Let_def)
qed simp

lemma subseqs_sub:
  "ys \<in> set (subseqs xs) \<Longrightarrow> set ys \<subseteq> set xs \<and> (distinct xs \<longrightarrow> distinct ys)"
proof (induction xs arbitrary: ys)
  case (Cons x xs)
  then consider "ys \<in> set (subseqs xs)" | zs where "ys = x # zs" "zs \<in> set (subseqs xs)"
    by (auto simp: Let_def)
  then show ?case
  proof cases
    case 1
    then show ?thesis using Cons.IH by auto
  next
    case 2
    then show ?thesis using Cons.IH [of zs] by auto
  qed
qed simp

lemma sample_props:
  shows "length (sample xs n r) = min n (length xs)" "set (sample xs n r) \<subseteq> set xs"
    "distinct xs \<Longrightarrow> distinct (sample xs n r)"
proof -
  let ?ss = "filter (\<lambda>ys. length ys = min n (length xs)) (subseqs xs)"
  have "take n xs \<in> set ?ss" using subseqs_take [of n xs] by (simp add: min.commute)
  then have "?ss \<noteq> []" by (metis empty_iff empty_set)
  then have "sample xs n r \<in> set ?ss" unfolding sample_def Let_def by (intro nth_mem) simp
  then show "length (sample xs n r) = min n (length xs)" "set (sample xs n r) \<subseteq> set xs"
    "distinct xs \<Longrightarrow> distinct (sample xs n r)" using subseqs_sub by auto
qed

section \<open>Valid servers\<close>

type_synonym ServerReplicaList = "ServerID list"

definition GetValidServers :: "ServerWeights \<Rightarrow> ServerID list" where
  "GetValidServers weights =
     filter (\<lambda>i. weights ! i \<noteq> kInvalidServerWeight) [kInvalidServerID + 1..<length weights]"

lemma set_GetValidServers [simp]:
  "set (GetValidServers ws) = {i. 0 < i \<and> i < length ws \<and> ws ! i \<noteq> kInvalidServerWeight}"
  by (auto simp: GetValidServers_def)

lemma distinct_GetValidServers [simp]: "distinct (GetValidServers ws)"
  by (simp add: GetValidServers_def)

section \<open>Read policies\<close>

definition RandomRead_SelectReadServer ::
  "nat \<Rightarrow> ServerWeights \<Rightarrow> ServerID set \<Rightarrow> ServerID status" where
  "RandomRead_SelectReadServer r weights subs =
     (let servers = GetValidServers weights in
      assertS (servers \<noteq> [])
        (let choices = filter (\<lambda>s. s \<in> subs) servers in
         if choices = [] then MakeError ENOENT
         else get_at choices (uniform_index (length choices) r)))"

definition WeightedRead_SelectReadServer ::
  "nat \<Rightarrow> ServerWeights \<Rightarrow> ServerID set \<Rightarrow> ServerID status" where
  "WeightedRead_SelectReadServer r weights subs =
     (let servers = GetValidServers weights in
      assertS (servers \<noteq> [])
        (let choices = filter (\<lambda>s. s \<in> subs) servers in
         if choices = [] then MakeError ENOENT
         else assertS (kInvalidServerID \<notin> set choices)
           (let t_weights = map (\<lambda>choice. weights ! choice) choices
            in get_at choices (discrete_index t_weights r))))"

section \<open>Write policies\<close>

definition remove_at :: "nat \<Rightarrow> 'a list \<Rightarrow> 'a list" where
  "remove_at i xs = take i xs @ drop (Suc i) xs"

definition Hash :: "(u64 \<Rightarrow> u64) \<Rightarrow> u64 \<Rightarrow> u64 \<Rightarrow> u64" where
  "Hash std_hash var1 var2 = std_hash (var1 XOR var2)"

text \<open>The entries of the replica list from \<open>n\<close> on get the first entry.\<close>

definition fill_default :: "nat \<Rightarrow> ServerReplicaList \<Rightarrow> ServerReplicaList status" where
  "fill_default n replicas =
     bindS (get_at replicas 0) (\<lambda>d. Inr (take n replicas @ replicate (length replicas - n) d))"

text \<open>Writing a sequence into the replica list from its start on.\<close>

definition copy_into :: "ServerID list \<Rightarrow> ServerReplicaList \<Rightarrow> ServerReplicaList" where
  "copy_into xs replicas = xs @ drop (length xs) replicas"

text \<open>\<open>hash_loop h n i choices replicas\<close> runs \<open>n\<close> more iterations of the selection loop from index \<open>i\<close>.\<close>

primrec hash_loop ::
  "u64 \<Rightarrow> nat \<Rightarrow> nat \<Rightarrow> ServerID list \<Rightarrow> ServerReplicaList \<Rightarrow> ServerReplicaList status" where
  "hash_loop h 0 i choices replicas = Inr replicas"
| "hash_loop h (Suc n) i choices replicas =
     (let idx = unat h mod length choices in
      bindS (get_at choices idx) (\<lambda>choice.
        bindS (put_at replicas i choice) (hash_loop h n (Suc i) (remove_at idx choices))))"

definition HashWrite_SelectWriteReplicas ::
  "(u64 \<Rightarrow> u64) \<Rightarrow> ServerWeights \<Rightarrow> VolumeID \<Rightarrow> IODesc \<Rightarrow> ServerReplicaList status" where
  "HashWrite_SelectWriteReplicas std_hash weights vol_id iod =
     (let servers = GetValidServers weights; replicas = replicate kNumReplicas 0 in
      assertS (servers \<noteq> [])
        (if length servers = kNumReplicas then Inr (copy_into servers replicas)
         else let n_options = min (length servers) kNumReplicas;
                  h = Hash std_hash (of_nat vol_id) (start_sector iod)
              in bindS (hash_loop h n_options 0 servers replicas) (\<lambda>replicas.
                   if n_options < kNumReplicas then fill_default n_options replicas
                   else Inr replicas)))"

definition RandomWrite_SelectWriteReplicas ::
  "nat \<Rightarrow> ServerWeights \<Rightarrow> VolumeID \<Rightarrow> IODesc \<Rightarrow> ServerReplicaList status" where
  "RandomWrite_SelectWriteReplicas r weights vol_id iod =
     (let servers = GetValidServers weights; replicas = replicate kNumReplicas 0 in
      assertS (servers \<noteq> [])
        (if length servers = kNumReplicas then Inr (copy_into servers replicas)
         else let n_samples = min (length servers) kNumReplicas;
                  replicas = copy_into (sample servers n_samples r) replicas
              in if n_samples < kNumReplicas then fill_default n_samples replicas
                 else Inr replicas))"

text \<open>\<open>rs\<close> gives the outcomes of the successive draws; the loop ends when \<open>i\<close> reaches \<open>kNumReplicas\<close>.\<close>

function weighted_loop ::
  "(nat \<Rightarrow> nat) \<Rightarrow> ServerWeights \<Rightarrow> nat \<Rightarrow> ServerID list \<Rightarrow> ServerReplicaList \<Rightarrow>
     ServerReplicaList status" where
  "weighted_loop rs weights i unique_servers replicas =
     (if \<not> i < kNumReplicas then Inr replicas
      else assertS (kInvalidServerID \<notin> set unique_servers)
        (let idx = discrete_index (map (\<lambda>choice. weights ! choice) unique_servers) (rs i) in
         bindS (get_at unique_servers idx) (\<lambda>choice.
           bindS (put_at replicas i choice) (\<lambda>replicas.
             weighted_loop rs weights (Suc i) (remove_at idx unique_servers) replicas))))"
  by pat_completeness auto
termination
  by (relation "measure (\<lambda>(_, _, i, _, _). kNumReplicas - i)") auto

declare weighted_loop.simps [simp del]

definition WeightedWrite_SelectWriteReplicas ::
  "(nat \<Rightarrow> nat) \<Rightarrow> ServerWeights \<Rightarrow> VolumeID \<Rightarrow> IODesc \<Rightarrow> ServerReplicaList status" where
  "WeightedWrite_SelectWriteReplicas rs weights vol_id iod =
     (let servers = GetValidServers weights; replicas = replicate kNumReplicas 0 in
      assertS (servers \<noteq> [])
        (let n_servers = length servers in
         if n_servers = kNumReplicas then Inr (copy_into servers replicas)
         else if n_servers < kNumReplicas
         then let n_samples = min n_servers kNumReplicas
              in fill_default n_samples (copy_into (sample servers n_samples (rs 0)) replicas)
         else weighted_loop rs weights 0 servers replicas))"

section \<open>The scheduling interfaces\<close>

text \<open>\<open>BaseReadScheduler\<close>: a policy chooses a valid server among the given ones, and fails only if there
  is none.\<close>

locale read_scheduler =
  fixes select :: "ServerWeights \<Rightarrow> ServerID set \<Rightarrow> ServerID status"
  assumes no_valid: "GetValidServers ws = [] \<Longrightarrow> select ws subs = Inl Assertion"
    and none: "GetValidServers ws \<noteq> [] \<Longrightarrow> set (GetValidServers ws) \<inter> subs = {} \<Longrightarrow>
      select ws subs = Inl (Errno ENOENT)"
    and some: "set (GetValidServers ws) \<inter> subs \<noteq> {} \<Longrightarrow>
      \<exists>s \<in> set (GetValidServers ws) \<inter> subs. select ws subs = Inr s"

text \<open>\<open>BaseWriteScheduler\<close>: a policy gives \<open>kNumReplicas\<close> valid servers, different ones if there are
  that many.\<close>

definition good_replicas :: "ServerID list \<Rightarrow> ServerReplicaList \<Rightarrow> bool" where
  "good_replicas servers replicas \<longleftrightarrow> length replicas = kNumReplicas \<and> set replicas \<subseteq> set servers \<and>
     (kNumReplicas \<le> length servers \<longrightarrow> distinct replicas)"

locale write_scheduler =
  fixes select :: "ServerWeights \<Rightarrow> VolumeID \<Rightarrow> IODesc \<Rightarrow> ServerReplicaList status"
  assumes no_valid: "GetValidServers ws = [] \<Longrightarrow> select ws vol iod = Inl Assertion"
    and replicas: "GetValidServers ws \<noteq> [] \<Longrightarrow>
      \<exists>rs. select ws vol iod = Inr rs \<and> good_replicas (GetValidServers ws) rs"

lemma choices_at:
  assumes "choices = filter (\<lambda>s. s \<in> subs) (GetValidServers ws)" "i < length choices"
  shows "\<exists>s \<in> set (GetValidServers ws) \<inter> subs. get_at choices i = Inr s"
  using assms nth_mem [OF assms(2)] by (intro bexI [of _ "choices ! i"]) auto

lemma filter_subset_empty:
  "filter (\<lambda>s. s \<in> subs) xs = [] \<longleftrightarrow> set xs \<inter> subs = {}"
  by (auto simp: filter_empty_conv)

interpretation random_read: read_scheduler "RandomRead_SelectReadServer r" for r
proof
  fix ws subs
  let ?c = "filter (\<lambda>s. s \<in> subs) (GetValidServers ws)"
  show "GetValidServers ws = [] \<Longrightarrow> RandomRead_SelectReadServer r ws subs = Inl Assertion"
    by (simp add: RandomRead_SelectReadServer_def assertS_def)
  show "GetValidServers ws \<noteq> [] \<Longrightarrow> set (GetValidServers ws) \<inter> subs = {} \<Longrightarrow>
      RandomRead_SelectReadServer r ws subs = Inl (Errno ENOENT)"
    by (simp add: RandomRead_SelectReadServer_def filter_subset_empty del: set_GetValidServers)
  assume ne: "set (GetValidServers ws) \<inter> subs \<noteq> {}"
  then have c: "?c \<noteq> []" "GetValidServers ws \<noteq> []" by (auto simp: filter_subset_empty simp del: set_GetValidServers)
  then have "uniform_index (length ?c) r < length ?c" by (intro uniform_index_less) simp
  from choices_at [OF refl this] show "\<exists>s \<in> set (GetValidServers ws) \<inter> subs.
      RandomRead_SelectReadServer r ws subs = Inr s"
    using c by (simp add: RandomRead_SelectReadServer_def Let_def del: set_GetValidServers)
qed

interpretation weighted_read: read_scheduler "WeightedRead_SelectReadServer r" for r
proof
  fix ws subs
  let ?c = "filter (\<lambda>s. s \<in> subs) (GetValidServers ws)"
  show "GetValidServers ws = [] \<Longrightarrow> WeightedRead_SelectReadServer r ws subs = Inl Assertion"
    by (simp add: WeightedRead_SelectReadServer_def assertS_def)
  show "GetValidServers ws \<noteq> [] \<Longrightarrow> set (GetValidServers ws) \<inter> subs = {} \<Longrightarrow>
      WeightedRead_SelectReadServer r ws subs = Inl (Errno ENOENT)"
    by (simp add: WeightedRead_SelectReadServer_def filter_subset_empty del: set_GetValidServers)
  assume ne: "set (GetValidServers ws) \<inter> subs \<noteq> {}"
  then have c: "?c \<noteq> []" "GetValidServers ws \<noteq> []" by (auto simp: filter_subset_empty simp del: set_GetValidServers)
  then have "discrete_index (map ((!) ws) ?c) r < length ?c"
    using discrete_index_less [of "map ((!) ws) ?c" r] by simp
  from choices_at [OF refl this] show "\<exists>s \<in> set (GetValidServers ws) \<inter> subs.
      WeightedRead_SelectReadServer r ws subs = Inr s"
    using c by (auto simp: WeightedRead_SelectReadServer_def Let_def)
qed

lemma length_remove_at: "i < length xs \<Longrightarrow> length (remove_at i xs) = length xs - 1"
  by (simp add: remove_at_def)

lemma set_remove_at: "set (remove_at i xs) \<subseteq> set xs"
  by (auto simp: remove_at_def dest: in_set_takeD in_set_dropD)

lemma remove_at_distinct:
  assumes "distinct xs" "i < length xs" shows "xs ! i \<notin> set (remove_at i xs)"
proof -
  from id_take_nth_drop [OF assms(2)] assms(1) have "distinct (take i xs @ xs ! i # drop (Suc i) xs)"
    by simp
  then show ?thesis by (auto simp: remove_at_def)
qed

lemma pick_two:
  assumes "distinct servers" "i < length servers" "j < length (remove_at i servers)"
  shows "good_replicas servers [servers ! i, remove_at i servers ! j]"
proof -
  have "remove_at i servers ! j \<in> set (remove_at i servers)" by (rule nth_mem [OF assms(3)])
  with remove_at_distinct [OF assms(1,2)] set_remove_at [of i servers] assms(2) show ?thesis
    by (auto simp: good_replicas_def k_defs)
qed

lemma copy_all: "distinct servers \<Longrightarrow> length servers = kNumReplicas \<Longrightarrow>
    good_replicas servers (copy_into servers (replicate kNumReplicas 0))"
  by (simp add: good_replicas_def copy_into_def)

lemma one_server: "good_replicas [x] [x, x]"
  by (simp add: good_replicas_def k_defs)

lemma fill_default_one: "fill_default 1 [x, y] = Inr [x, x]"
  by (simp add: fill_default_def)

lemma replicate_kNumReplicas: "replicate kNumReplicas x = [x, x]" "replicate 2 x = [x, x]"
  by (simp_all add: k_defs numeral_2_eq_2)

text \<open>The number of valid servers decides how a policy proceeds: one, exactly two, or more.\<close>

lemma server_count_cases:
  assumes "servers \<noteq> []"
  obtains (one) x where "servers = [x]" | (two) "length servers = kNumReplicas"
  | (many) "2 < length servers" "length servers \<noteq> kNumReplicas" "min (length servers) kNumReplicas = Suc (Suc 0)"
  using assms by (cases servers; cases "tl servers") (auto simp: k_defs)

lemma sample_one: "sample [x] (Suc 0) r = [x]"
  using sample_props(1,2) [of "[x]" 1 r] by (cases "sample [x] 1 r") auto

lemma hash_loop_two:
  assumes "distinct servers" "2 < length servers"
  shows "\<exists>rs. hash_loop h (Suc (Suc 0)) 0 servers [a, b] = Inr rs \<and> good_replicas servers rs"
proof -
  let ?i = "unat h mod length servers"
  let ?rest = "remove_at ?i servers"
  let ?j = "unat h mod length ?rest"
  have i: "?i < length servers" by (rule mod_less_divisor) (use assms(2) in linarith)
  have "0 < length ?rest" using length_remove_at [OF i] assms(2) by simp
  then have j: "?j < length ?rest" by (rule mod_less_divisor)
  show ?thesis using i j pick_two [OF assms(1) i j] by (simp add: Let_def)
qed

lemma weighted_loop_two:
  assumes "distinct servers" "2 < length servers" "0 \<notin> set servers"
  shows "\<exists>xs. weighted_loop rs ws 0 servers [a, b] = Inr xs \<and> good_replicas servers xs"
proof -
  define i where "i = discrete_index (map ((!) ws) servers) (rs 0)"
  define j where "j = discrete_index (map ((!) ws) (remove_at i servers)) (rs (Suc 0))"
  have "servers \<noteq> []" using assms(2) by (cases servers) auto
  then have i: "i < length servers"
    using discrete_index_less [of "map ((!) ws) servers" "rs 0"] by (simp add: i_def)
  have "remove_at i servers \<noteq> []" using length_remove_at [OF i] assms(2) by auto
  then have j: "j < length (remove_at i servers)"
    using discrete_index_less [of "map ((!) ws) (remove_at i servers)"] by (simp add: j_def)
  have "0 \<notin> set (remove_at i servers)" using assms(3) set_remove_at [of i servers] by blast
  then have "weighted_loop rs ws 0 servers [a, b] = Inr [servers ! i, remove_at i servers ! j]"
    using i j assms(3) by (simp add: weighted_loop.simps k_defs i_def [symmetric] j_def [symmetric])
  then show ?thesis using pick_two [OF assms(1) i j] by blast
qed

interpretation hash_write: write_scheduler "HashWrite_SelectWriteReplicas std_hash" for std_hash
proof
  fix ws vol iod
  let ?v = "GetValidServers ws"
  show "?v = [] \<Longrightarrow> HashWrite_SelectWriteReplicas std_hash ws vol iod = Inl Assertion"
    by (simp add: HashWrite_SelectWriteReplicas_def assertS_def)
  assume ne: "?v \<noteq> []"
  then show "\<exists>rs. HashWrite_SelectWriteReplicas std_hash ws vol iod = Inr rs \<and> good_replicas ?v rs"
  proof (cases rule: server_count_cases)
    case (one x)
    then show ?thesis using one_server [of x]
      by (simp add: HashWrite_SelectWriteReplicas_def replicate_kNumReplicas k_defs
          fill_default_one [simplified])
  next
    case two
    then show ?thesis using ne copy_all [OF distinct_GetValidServers two]
      by (simp add: HashWrite_SelectWriteReplicas_def)
  next
    case many
    obtain rs where "hash_loop (Hash std_hash (of_nat vol) (start_sector iod)) (Suc (Suc 0)) 0 ?v [0, 0] = Inr rs"
      "good_replicas ?v rs" using hash_loop_two [OF distinct_GetValidServers many(1)] by blast
    moreover have "\<not> Suc (Suc 0) < kNumReplicas" by (simp add: k_defs)
    ultimately show ?thesis using ne many(2,3)
      unfolding HashWrite_SelectWriteReplicas_def Let_def replicate_kNumReplicas(1) many(3)
      by (simp del: hash_loop.simps)
  qed
qed

interpretation random_write: write_scheduler "RandomWrite_SelectWriteReplicas r" for r
proof
  fix ws vol iod
  let ?v = "GetValidServers ws"
  show "?v = [] \<Longrightarrow> RandomWrite_SelectWriteReplicas r ws vol iod = Inl Assertion"
    by (simp add: RandomWrite_SelectWriteReplicas_def assertS_def)
  assume ne: "?v \<noteq> []"
  then show "\<exists>rs. RandomWrite_SelectWriteReplicas r ws vol iod = Inr rs \<and> good_replicas ?v rs"
  proof (cases rule: server_count_cases)
    case (one x)
    then show ?thesis using one_server [of x]
      by (simp add: RandomWrite_SelectWriteReplicas_def replicate_kNumReplicas k_defs sample_one
          copy_into_def fill_default_one [simplified])
  next
    case two
    then show ?thesis using ne copy_all [OF distinct_GetValidServers two]
      by (simp add: RandomWrite_SelectWriteReplicas_def)
  next
    case many
    then have "good_replicas ?v (sample ?v (Suc (Suc 0)) r)"
      using sample_props [of ?v 2 r] by (simp add: good_replicas_def k_defs numeral_2_eq_2 del: set_GetValidServers)
    then show ?thesis using ne many sample_props(1) [of ?v 2 r]
      by (simp add: RandomWrite_SelectWriteReplicas_def Let_def k_defs copy_into_def numeral_2_eq_2)
  qed
qed

interpretation weighted_write: write_scheduler "WeightedWrite_SelectWriteReplicas rs" for rs
proof
  fix ws vol iod
  let ?v = "GetValidServers ws"
  show "?v = [] \<Longrightarrow> WeightedWrite_SelectWriteReplicas rs ws vol iod = Inl Assertion"
    by (simp add: WeightedWrite_SelectWriteReplicas_def assertS_def)
  assume ne: "?v \<noteq> []"
  then show "\<exists>xs. WeightedWrite_SelectWriteReplicas rs ws vol iod = Inr xs \<and> good_replicas ?v xs"
  proof (cases rule: server_count_cases)
    case (one x)
    then show ?thesis using one_server [of x]
      by (simp add: WeightedWrite_SelectWriteReplicas_def replicate_kNumReplicas k_defs sample_one
          copy_into_def fill_default_one [simplified])
  next
    case two
    then show ?thesis using ne copy_all [OF distinct_GetValidServers two]
      by (simp add: WeightedWrite_SelectWriteReplicas_def)
  next
    case many
    then show ?thesis using ne weighted_loop_two [OF distinct_GetValidServers many(1)]
      by (simp add: WeightedWrite_SelectWriteReplicas_def replicate_kNumReplicas Let_def k_defs)
  qed
qed

section \<open>The client's view of the servers\<close>

record ClientStats =
  cs_servers :: "ServerID set"
  cs_modes :: ServerModes
  cs_read_weights :: ServerWeights
  cs_write_weights :: ServerWeights
  cs_cc :: CongestionControl

definition kMinReadServers :: nat where "kMinReadServers = 1"

text \<open>The constructor leaves \<open>modes_\<close> uninitialised; its contents are an argument.\<close>

definition ClientStats_init :: "ServerModes \<Rightarrow> ClientStats" where
  "ClientStats_init modes = \<lparr>cs_servers = {}, cs_modes = modes,
     cs_read_weights = replicate kNumMaxServers kInvalidServerWeight,
     cs_write_weights = replicate kNumMaxServers kInvalidServerWeight,
     cs_cc = CongestionControl_init\<rparr>"

definition ClientStats_AddServer :: "ClientStats \<Rightarrow> ServerID \<Rightarrow> ClientStats status" where
  "ClientStats_AddServer s sid =
     (if sid \<in> cs_servers s then MakeError EALREADY
      else bindS (CongestionControl_AddServer (cs_cc s) sid) (\<lambda>cc.
        Inr (s\<lparr>cs_servers := insert sid (cs_servers s), cs_cc := cc\<rparr>)))"

definition ClientStats_SignalCongested ::
  "(real \<Rightarrow> real) \<Rightarrow> ClientStats \<Rightarrow> ServerCongestionState \<Rightarrow> ServerID \<Rightarrow> nat \<Rightarrow> nat \<Rightarrow> ClientStats status" where
  "ClientStats_SignalCongested rnd s cur_state sid now now' =
     bindS (CongestionControl_SignalCongested rnd (cs_cc s) cur_state sid now now') (\<lambda>cc.
       Inr (s\<lparr>cs_cc := cc\<rparr>))"

definition ClientStats_SetCongestionState ::
  "ClientStats \<Rightarrow> ServerID \<Rightarrow> ServerCongestionState \<Rightarrow> ClientStats status" where
  "ClientStats_SetCongestionState s sid state =
     bindS (CongestionControl_SetCongestionState (cs_cc s) sid state) (\<lambda>cc. Inr (s\<lparr>cs_cc := cc\<rparr>))"

definition set_server :: "ServerStats \<Rightarrow> ClientStats \<Rightarrow> ClientStats status" where
  "set_server srv s =
     assertS (server_id srv \<in> cs_servers s)
       (bindS (put_at (cs_modes s) (server_id srv) (committed_mode srv)) (\<lambda>ms.
          bindS (put_at (cs_read_weights s) (server_id srv) (read_weight srv)) (\<lambda>rws.
            bindS (put_at (cs_write_weights s) (server_id srv) (write_weight srv)) (\<lambda>wws.
              ClientStats_SetCongestionState
                (s\<lparr>cs_modes := ms, cs_read_weights := rws, cs_write_weights := wws\<rparr>)
                (server_id srv) (congestion_state srv)))))"

definition SetServerStats :: "ClientStats \<Rightarrow> ServerStatsList \<Rightarrow> ClientStats status" where
  "SetServerStats s servers = foldS set_server servers s"

definition rate_limit_weight ::
  "(real \<Rightarrow> real) \<Rightarrow> CongestionControl \<Rightarrow> ServerID \<Rightarrow> ServerWeights \<Rightarrow> ServerWeights status" where
  "rate_limit_weight rnd cc sid weights =
     bindS (get_at weights sid) (\<lambda>w. bindS (CongestionControl_GetRateLimit cc sid) (\<lambda>r.
       put_at weights sid (fmul rnd w r)))"

definition GetRateLimitedReadWeights :: "(real \<Rightarrow> real) \<Rightarrow> ClientStats \<Rightarrow> ServerWeights status" where
  "GetRateLimitedReadWeights rnd s =
     foldS (rate_limit_weight rnd (cs_cc s)) (sorted_list_of_set (cs_servers s)) (cs_read_weights s)"

definition GetRateLimitedWriteWeights :: "(real \<Rightarrow> real) \<Rightarrow> ClientStats \<Rightarrow> ServerWeights status" where
  "GetRateLimitedWriteWeights rnd s =
     foldS (rate_limit_weight rnd (cs_cc s)) (sorted_list_of_set (cs_servers s)) (cs_write_weights s)"

text \<open>One iteration of a filtering loop: a server that passes the test keeps its weight.\<close>

definition keep_weight ::
  "ClientStats \<Rightarrow> ServerWeights \<Rightarrow> (ServerMode \<Rightarrow> bool) \<Rightarrow> ServerID \<Rightarrow> nat \<times> ServerWeights \<Rightarrow>
     (nat \<times> ServerWeights) status" where
  "keep_weight s all_weights keep sid acc =
     bindS (get_at (cs_modes s) sid) (\<lambda>m.
       if \<not> keep m then Inr acc
       else bindS (get_at all_weights sid) (\<lambda>w.
         bindS (put_at (snd acc) sid w) (\<lambda>ws. Inr (fst acc + 1, ws))))"

definition GetReadOnlyWeights :: "(real \<Rightarrow> real) \<Rightarrow> ClientStats \<Rightarrow> ServerWeights status" where
  "GetReadOnlyWeights rnd s =
     bindS (GetRateLimitedReadWeights rnd s) (\<lambda>all_read_weights.
       bindS (foldS (keep_weight s all_read_weights (\<lambda>m. m = Mode_kRead))
           (sorted_list_of_set (cs_servers s)) (0, replicate kNumMaxServers kInvalidServerWeight))
         (\<lambda>(n_found, filtered_read_weights).
           if n_found \<ge> kMinReadServers then Inr filtered_read_weights else Inr all_read_weights))"

definition GetAllReadWeights :: "(real \<Rightarrow> real) \<Rightarrow> ClientStats \<Rightarrow> ServerWeights status" where
  "GetAllReadWeights rnd s = GetRateLimitedReadWeights rnd s"

definition GetWriteWeights :: "(real \<Rightarrow> real) \<Rightarrow> ClientStats \<Rightarrow> ServerWeights status" where
  "GetWriteWeights rnd s =
     bindS (GetRateLimitedWriteWeights rnd s) (\<lambda>all_write_weights.
       bindS (foldS (keep_weight s all_write_weights (\<lambda>m. m \<noteq> Mode_kRead))
           (sorted_list_of_set (cs_servers s)) (0, replicate kNumMaxServers kInvalidServerWeight))
         (\<lambda>(n_found, filtered_write_weights).
           if n_found \<ge> kNumReplicas then Inr filtered_write_weights else Inr all_write_weights))"

section \<open>The scheduler\<close>

datatype DataPlaneSchedulerType =
  kWeightedReadWrite | kRandomReadWrite | kWeightedReadHashWrite | kRandomReadHashWrite

definition policy_SelectReadServer ::
  "DataPlaneSchedulerType \<Rightarrow> nat \<Rightarrow> ServerWeights \<Rightarrow> ServerID set \<Rightarrow> ServerID status" where
  "policy_SelectReadServer ty r =
     (case ty of kWeightedReadWrite \<Rightarrow> WeightedRead_SelectReadServer r
      | kRandomReadWrite \<Rightarrow> RandomRead_SelectReadServer r
      | kWeightedReadHashWrite \<Rightarrow> WeightedRead_SelectReadServer r
      | kRandomReadHashWrite \<Rightarrow> RandomRead_SelectReadServer r)"

definition policy_SelectWriteReplicas ::
  "(u64 \<Rightarrow> u64) \<Rightarrow> DataPlaneSchedulerType \<Rightarrow> (nat \<Rightarrow> nat) \<Rightarrow> ServerWeights \<Rightarrow> VolumeID \<Rightarrow> IODesc \<Rightarrow>
     ServerReplicaList status" where
  "policy_SelectWriteReplicas std_hash ty rs =
     (case ty of kWeightedReadWrite \<Rightarrow> WeightedWrite_SelectWriteReplicas rs
      | kRandomReadWrite \<Rightarrow> RandomWrite_SelectWriteReplicas (rs 0)
      | kWeightedReadHashWrite \<Rightarrow> HashWrite_SelectWriteReplicas std_hash
      | kRandomReadHashWrite \<Rightarrow> HashWrite_SelectWriteReplicas std_hash)"

record DataPlaneScheduler =
  dps_type :: DataPlaneSchedulerType
  dps_stats :: ClientStats

definition Scheduler_AddServer :: "DataPlaneScheduler \<Rightarrow> ServerID \<Rightarrow> DataPlaneScheduler status" where
  "Scheduler_AddServer d sid =
     bindS (ClientStats_AddServer (dps_stats d) sid) (\<lambda>s. Inr (d\<lparr>dps_stats := s\<rparr>))"

definition Scheduler_SetServerStats ::
  "DataPlaneScheduler \<Rightarrow> ServerStatsList \<Rightarrow> DataPlaneScheduler status" where
  "Scheduler_SetServerStats d servers =
     bindS (SetServerStats (dps_stats d) servers) (\<lambda>s. Inr (d\<lparr>dps_stats := s\<rparr>))"

text \<open>\<open>r\<close> and \<open>r'\<close> are the random outcomes of the two attempts.\<close>

definition Scheduler_SelectReadServer ::
  "(real \<Rightarrow> real) \<Rightarrow> nat \<Rightarrow> nat \<Rightarrow> DataPlaneScheduler \<Rightarrow> ServerID set \<Rightarrow> ServerID status" where
  "Scheduler_SelectReadServer rnd r r' d subs =
     bindS (expected (GetReadOnlyWeights rnd (dps_stats d))) (\<lambda>weights.
       bindS (case weights of
                Some ws \<Rightarrow> expected (policy_SelectReadServer (dps_type d) r ws subs)
              | None \<Rightarrow> Inr None)
         (\<lambda>srv. case srv of
            Some sid \<Rightarrow> Inr sid
          | None \<Rightarrow> bindS (GetAllReadWeights rnd (dps_stats d)) (\<lambda>ws.
              policy_SelectReadServer (dps_type d) r' ws subs)))"

definition Scheduler_SelectWriteReplicas ::
  "(real \<Rightarrow> real) \<Rightarrow> (u64 \<Rightarrow> u64) \<Rightarrow> (nat \<Rightarrow> nat) \<Rightarrow> DataPlaneScheduler \<Rightarrow> VolumeID \<Rightarrow> IODesc \<Rightarrow>
     ServerReplicaList status" where
  "Scheduler_SelectWriteReplicas rnd std_hash rs d vol_id iod =
     bindS (GetWriteWeights rnd (dps_stats d)) (\<lambda>weights.
       policy_SelectWriteReplicas std_hash (dps_type d) rs weights vol_id iod)"

definition Scheduler_SignalCongested ::
  "(real \<Rightarrow> real) \<Rightarrow> DataPlaneScheduler \<Rightarrow> ServerCongestionState \<Rightarrow> ServerID \<Rightarrow> nat \<Rightarrow> nat \<Rightarrow>
     DataPlaneScheduler status" where
  "Scheduler_SignalCongested rnd d cur_state sid now now' =
     bindS (ClientStats_SignalCongested rnd (dps_stats d) cur_state sid now now') (\<lambda>s.
       Inr (d\<lparr>dps_stats := s\<rparr>))"

interpretation read_policy: read_scheduler "policy_SelectReadServer ty r" for ty r
  by (cases ty) (simp_all add: policy_SelectReadServer_def random_read.read_scheduler_axioms
      weighted_read.read_scheduler_axioms)

interpretation write_policy: write_scheduler "policy_SelectWriteReplicas std_hash ty rs" for std_hash ty rs
  by (cases ty) (simp_all add: policy_SelectWriteReplicas_def hash_write.write_scheduler_axioms
      random_write.write_scheduler_axioms weighted_write.write_scheduler_axioms)

section \<open>Reachable states\<close>

definition client_inv :: "(real \<Rightarrow> real) \<Rightarrow> ClientStats \<Rightarrow> bool" where
  "client_inv rnd s \<longleftrightarrow> cc_inv rnd (cs_cc s) \<and> cc_servers (cs_cc s) = cs_servers s \<and>
     length (cs_modes s) = kNumMaxServers \<and> length (cs_read_weights s) = kNumMaxServers \<and>
     length (cs_write_weights s) = kNumMaxServers \<and>
     (\<forall>i < kNumMaxServers. i \<notin> cs_servers s \<longrightarrow>
        cs_read_weights s ! i = kInvalidServerWeight \<and> cs_write_weights s ! i = kInvalidServerWeight)"

text \<open>The steps of the client: the calls of the virtual disk and the window of the congestion
  control thread.\<close>

inductive client_step :: "(real \<Rightarrow> real) \<Rightarrow> ClientStats \<Rightarrow> ClientStats \<Rightarrow> bool" for rnd where
  add: "ClientStats_AddServer s sid = Inr s' \<Longrightarrow> client_step rnd s s'"
| stats: "SetServerStats s servers = Inr s' \<Longrightarrow> client_step rnd s s'"
| signal: "ClientStats_SignalCongested rnd s cur_state sid now now' = Inr s' \<Longrightarrow> client_step rnd s s'"
| window: "UpdateAllServers rnd (cs_cc s) now = Inr cc \<Longrightarrow> client_step rnd s (s\<lparr>cs_cc := cc\<rparr>)"

inductive client_reachable :: "(real \<Rightarrow> real) \<Rightarrow> ClientStats \<Rightarrow> bool" for rnd where
  start: "length modes = kNumMaxServers \<Longrightarrow> client_reachable rnd (ClientStats_init modes)"
| step: "client_reachable rnd s \<Longrightarrow> client_step rnd s s' \<Longrightarrow> client_reachable rnd s'"

lemma UpdateServerRateLimit_servers:
  "UpdateServerRateLimit rnd s sid now = Inr s' \<Longrightarrow> cc_servers s' = cc_servers s"
  by (auto simp: UpdateServerRateLimit_def status_simps Let_def split: if_splits)

lemma cc_step_servers:
  "CongestionControl_SignalCongested rnd s st sid now now' = Inr s' \<Longrightarrow> cc_servers s' = cc_servers s"
  "CongestionControl_SetCongestionState s sid st = Inr s' \<Longrightarrow> cc_servers s' = cc_servers s"
  "CongestionControl_AddServer s sid = Inr s' \<Longrightarrow> cc_servers s' = insert sid (cc_servers s)"
  by (auto simp: CongestionControl_SignalCongested_def CongestionControl_SetCongestionState_def
      CongestionControl_AddServer_def status_simps Let_def split: if_splits
      dest: UpdateServerRateLimit_servers)

lemma UpdateAllServers_servers:
  assumes "UpdateAllServers rnd s now = Inr s'" shows "cc_servers s' = cc_servers s"
  by (rule foldS_invariant [where P = "\<lambda>t. cc_servers t = cc_servers s", OF assms [unfolded UpdateAllServers_def]])
    (auto simp: status_simps dest: UpdateServerRateLimit_servers)

context fp_rounding
begin

lemma set_server_inv:
  assumes "set_server srv s = Inr s'" "client_inv rnd s"
  shows "client_inv rnd s' \<and> cs_servers s' = cs_servers s"
proof -
  from assms(1) obtain ms cc where s':
    "s' = s\<lparr>cs_modes := ms, cs_read_weights := (cs_read_weights s)[server_id srv := read_weight srv],
      cs_write_weights := (cs_write_weights s)[server_id srv := write_weight srv], cs_cc := cc\<rparr>"
    "length ms = length (cs_modes s)" "server_id srv \<in> cs_servers s"
    and cc: "CongestionControl_SetCongestionState (cs_cc s) (server_id srv) (congestion_state srv) = Inr cc"
    by (auto simp: set_server_def ClientStats_SetCongestionState_def status_simps)
  have "cc_inv rnd cc" using cc_step_inv [OF cc_step.report [OF cc]] assms(2) by (simp add: client_inv_def)
  moreover have "ws[server_id srv := w] ! i = ws ! i" if "i \<notin> cs_servers s" for i w and ws :: "real list"
    using that s'(3) by (metis nth_list_update_neq)
  ultimately show ?thesis using s' assms(2) cc_step_servers(2) [OF cc] by (simp add: client_inv_def)
qed

lemma client_step_inv: "client_step rnd s s' \<Longrightarrow> client_inv rnd s \<Longrightarrow> client_inv rnd s'"
proof (induction rule: client_step.induct)
  case (add s sid s')
  then obtain cc where cc: "CongestionControl_AddServer (cs_cc s) sid = Inr cc"
    "s' = s\<lparr>cs_servers := insert sid (cs_servers s), cs_cc := cc\<rparr>"
    by (auto simp: ClientStats_AddServer_def status_simps split: if_splits)
  then show ?case using add.prems cc_step_inv [OF cc_step.add [OF cc(1)]] cc_step_servers(3) [OF cc(1)]
    by (auto simp: client_inv_def)
next
  case (stats s servers s')
  show ?case by (rule foldS_invariant [where P = "client_inv rnd", OF stats(1) [unfolded SetServerStats_def] stats(2)])
      (use set_server_inv in blast)
next
  case (signal s cur_state sid now now' s')
  then obtain cc where cc: "CongestionControl_SignalCongested rnd (cs_cc s) cur_state sid now now' = Inr cc"
    "s' = s\<lparr>cs_cc := cc\<rparr>" by (auto simp: ClientStats_SignalCongested_def status_simps)
  then show ?case using signal.prems cc_step_inv [OF cc_step.signal [OF cc(1)]] cc_step_servers(1) [OF cc(1)]
    by (simp add: client_inv_def)
next
  case (window s now cc)
  then show ?case using UpdateAllServers_inv [OF _ window(1)] UpdateAllServers_servers [OF window(1)]
    by (simp add: client_inv_def)
qed

lemma client_reachable_inv: "client_reachable rnd s \<Longrightarrow> client_inv rnd s"
proof (induction rule: client_reachable.induct)
  case (start modes)
  then show ?case using cc_inv_init
    by (simp add: client_inv_def ClientStats_init_def CongestionControl_init_def)
qed (rule client_step_inv)

end

section \<open>Weights the policies see\<close>

abbreviation limited :: "(real \<Rightarrow> real) \<Rightarrow> ClientStats \<Rightarrow> ServerWeights \<Rightarrow> ServerID \<Rightarrow> real" where
  "limited rnd s ws i \<equiv> fmul rnd (ws ! i) (cc_rate_limits (cs_cc s) ! i)"

lemma rate_limit_fold:
  assumes "distinct xs" "\<forall>i \<in> set xs. i < length ws \<and> i < length (cc_rate_limits cc)"
  shows "\<exists>ws'. foldS (rate_limit_weight rnd cc) xs ws = Inr ws' \<and> length ws' = length ws \<and>
    (\<forall>i. ws' ! i = (if i \<in> set xs then fmul rnd (ws ! i) (cc_rate_limits cc ! i) else ws ! i))"
  using assms
proof (induction xs arbitrary: ws)
  case (Cons x xs)
  then show ?case using Cons.IH [of "ws[x := fmul rnd (ws ! x) (cc_rate_limits cc ! x)]"]
    by (auto simp: rate_limit_weight_def CongestionControl_GetRateLimit_def nth_list_update)
qed simp

lemma keep_weight_fold:
  assumes "\<forall>i \<in> set xs. i < length ws \<and> i < length all_ws \<and> i < length (cs_modes s)"
  shows "\<exists>ws'. foldS (keep_weight s all_ws keep) xs (n, ws) =
      Inr (n + length (filter (\<lambda>i. keep (cs_modes s ! i)) xs), ws') \<and> length ws' = length ws \<and>
    (\<forall>i. ws' ! i = (if i \<in> set xs \<and> keep (cs_modes s ! i) then all_ws ! i else ws ! i))"
  using assms
proof (induction xs arbitrary: n ws)
  case (Cons x xs)
  show ?case
  proof (cases "keep (cs_modes s ! x)")
    case True
    then show ?thesis using Cons.prems Cons.IH [of "ws[x := all_ws ! x]" "n + 1"]
      by (auto simp: keep_weight_def nth_list_update)
  next
    case False
    then show ?thesis using Cons.prems Cons.IH [of ws n] by (auto simp: keep_weight_def)
  qed
qed simp

lemma client_inv_servers:
  assumes "client_inv rnd s"
  shows "finite (cs_servers s)" "set (sorted_list_of_set (cs_servers s)) = cs_servers s"
    "i \<in> cs_servers s \<Longrightarrow> i < kNumMaxServers" "length (cc_rate_limits (cs_cc s)) = kNumMaxServers"
proof -
  have wf: "cc_wf (cs_cc s)" "cc_servers (cs_cc s) = cs_servers s"
    using assms by (auto simp: client_inv_def cc_inv_def)
  then show "finite (cs_servers s)" using cc_servers_finite by metis
  then show "set (sorted_list_of_set (cs_servers s)) = cs_servers s" by simp
  show "i \<in> cs_servers s \<Longrightarrow> i < kNumMaxServers" "length (cc_rate_limits (cs_cc s)) = kNumMaxServers"
    using wf by (auto simp: cc_wf_def)
qed

lemma GetRateLimited_at:
  assumes "client_inv rnd s"
  obtains rs ws where "GetRateLimitedReadWeights rnd s = Inr rs" "length rs = kNumMaxServers"
    "\<forall>i. rs ! i = (if i \<in> cs_servers s then limited rnd s (cs_read_weights s) i else cs_read_weights s ! i)"
    "GetRateLimitedWriteWeights rnd s = Inr ws" "length ws = kNumMaxServers"
    "\<forall>i. ws ! i = (if i \<in> cs_servers s then limited rnd s (cs_write_weights s) i else cs_write_weights s ! i)"
proof -
  note c = client_inv_servers [OF assms]
  have l: "length (cs_read_weights s) = kNumMaxServers" "length (cs_write_weights s) = kNumMaxServers"
    using assms by (auto simp: client_inv_def)
  have d: "distinct (sorted_list_of_set (cs_servers s))" by simp
  show thesis
    using rate_limit_fold [OF d, of "cs_read_weights s" "cs_cc s" rnd]
      rate_limit_fold [OF d, of "cs_write_weights s" "cs_cc s" rnd] c l that
    by (auto simp: GetRateLimitedReadWeights_def GetRateLimitedWriteWeights_def)
qed

lemma kInvalidServerWeight_tiny: "kInvalidServerWeight < 1 / 10 ^ 12"
proof -
  have "(40::nat) \<le> dbl_min_exponent" by (simp add: dbl_min_exponent_def)
  then have "(2::real) ^ 40 \<le> 2 ^ dbl_min_exponent" by (rule power_increasing) simp
  moreover have "(10::real) ^ 12 < 2 ^ 40" by simp
  ultimately have "(10::real) ^ 12 < 2 ^ dbl_min_exponent" by linarith
  then show ?thesis unfolding kInvalidServerWeight_def by (intro divide_strict_left_mono) simp_all
qed

text \<open>A weight that is not tiny stays valid under every rate limit the congestion control can set.\<close>

context fp_rounding
begin

lemma limited_valid:
  assumes "client_inv rnd s" "i \<in> cs_servers s" "1 / 10 ^ 6 \<le> ws ! i"
  shows "limited rnd s ws i \<noteq> kInvalidServerWeight"
proof -
  let ?r = "cc_rate_limits (cs_cc s) ! i"
  have "?r \<in> set (cc_rate_limits (cs_cc s))" using client_inv_servers [OF assms(1)] assms(2) by simp
  then have "rnd 0.001 \<le> ?r"
    using assms(1) by (auto simp: client_inv_def cc_inv_def rate_ok_def kBestCongestedRateLimit_def)
  moreover have "(1 / 1000) * (1 / 2) \<le> rnd 0.001" using rnd_half [of "1 / 1000"] by simp
  ultimately have r: "1 / 2000 \<le> ?r" by simp
  have p: "(1 / 10 ^ 6) * (1 / 2000) \<le> ws ! i * ?r" using assms(3) r by (intro mult_mono) simp_all
  moreover have "ws ! i * ?r * (1 / 2) \<le> rnd (ws ! i * ?r)" by (rule rnd_half) (use p in simp)
  ultimately have "1 / 10 ^ 11 \<le> rnd (ws ! i * ?r)" by simp
  then show ?thesis using kInvalidServerWeight_tiny by (simp add: fmul_def)
qed

end

lemma GetWriteWeights_filtered:
  assumes inv: "client_inv rnd s"
    and two: "kNumReplicas \<le> card {i \<in> cs_servers s. cs_modes s ! i \<noteq> Mode_kRead}"
  obtains ws where "GetWriteWeights rnd s = Inr ws" "length ws = kNumMaxServers"
    "\<forall>i < kNumMaxServers. ws ! i = (if i \<in> cs_servers s \<and> cs_modes s ! i \<noteq> Mode_kRead
       then limited rnd s (cs_write_weights s) i else kInvalidServerWeight)"
proof -
  let ?xs = "sorted_list_of_set (cs_servers s)"
  note c = client_inv_servers [OF inv]
  from GetRateLimited_at [OF inv] obtain al where al: "GetRateLimitedWriteWeights rnd s = Inr al"
    "length al = kNumMaxServers"
    "\<forall>i. al ! i = (if i \<in> cs_servers s then limited rnd s (cs_write_weights s) i else cs_write_weights s ! i)"
    by metis
  have "\<forall>i \<in> set ?xs. i < length (replicate kNumMaxServers kInvalidServerWeight) \<and> i < length al \<and>
      i < length (cs_modes s)" using c al(2) inv by (simp add: client_inv_def)
  from keep_weight_fold [OF this, of "\<lambda>m. m \<noteq> Mode_kRead" 0] obtain ws where
    ws: "foldS (keep_weight s al (\<lambda>m. m \<noteq> Mode_kRead)) ?xs (0, replicate kNumMaxServers kInvalidServerWeight) =
      Inr (length (filter (\<lambda>i. cs_modes s ! i \<noteq> Mode_kRead) ?xs), ws)" "length ws = kNumMaxServers"
    "\<forall>i. ws ! i = (if i \<in> cs_servers s \<and> cs_modes s ! i \<noteq> Mode_kRead then al ! i
       else replicate kNumMaxServers kInvalidServerWeight ! i)" using c(2) by auto
  have "length (filter (\<lambda>i. cs_modes s ! i \<noteq> Mode_kRead) ?xs) =
      card {i \<in> cs_servers s. cs_modes s ! i \<noteq> Mode_kRead}"
    using distinct_card [of "filter (\<lambda>i. cs_modes s ! i \<noteq> Mode_kRead) ?xs"] c(1) by simp
  then have "GetWriteWeights rnd s = Inr ws" using al(1) ws(1) two by (simp add: GetWriteWeights_def)
  then show thesis by (rule that [OF _ ws(2)]) (use ws(3) al(3) in simp)
qed

lemma GetReadOnlyWeights_at:
  assumes inv: "client_inv rnd s"
  obtains ws where "GetReadOnlyWeights rnd s = Inr ws" "length ws = kNumMaxServers"
    "{i \<in> cs_servers s. cs_modes s ! i = Mode_kRead} \<noteq> {} \<Longrightarrow>
      \<forall>i < kNumMaxServers. ws ! i = (if i \<in> cs_servers s \<and> cs_modes s ! i = Mode_kRead
        then limited rnd s (cs_read_weights s) i else kInvalidServerWeight)"
    "{i \<in> cs_servers s. cs_modes s ! i = Mode_kRead} = {} \<Longrightarrow> GetAllReadWeights rnd s = Inr ws"
proof -
  let ?xs = "sorted_list_of_set (cs_servers s)" and ?keep = "\<lambda>m. m = Mode_kRead"
  note c = client_inv_servers [OF inv]
  from GetRateLimited_at [OF inv] obtain al where al: "GetRateLimitedReadWeights rnd s = Inr al"
    "length al = kNumMaxServers"
    "\<forall>i. al ! i = (if i \<in> cs_servers s then limited rnd s (cs_read_weights s) i else cs_read_weights s ! i)"
    by metis
  have "\<forall>i \<in> set ?xs. i < length (replicate kNumMaxServers kInvalidServerWeight) \<and> i < length al \<and>
      i < length (cs_modes s)" using c al(2) inv by (simp add: client_inv_def)
  from keep_weight_fold [OF this, of ?keep 0] obtain ws where
    ws: "foldS (keep_weight s al ?keep) ?xs (0, replicate kNumMaxServers kInvalidServerWeight) =
      Inr (length (filter (\<lambda>i. ?keep (cs_modes s ! i)) ?xs), ws)" "length ws = kNumMaxServers"
    "\<forall>i. ws ! i = (if i \<in> cs_servers s \<and> ?keep (cs_modes s ! i) then al ! i
       else replicate kNumMaxServers kInvalidServerWeight ! i)" using c(2) by auto
  have n: "kMinReadServers \<le> length (filter (\<lambda>i. ?keep (cs_modes s ! i)) ?xs) \<longleftrightarrow>
      {i \<in> cs_servers s. cs_modes s ! i = Mode_kRead} \<noteq> {}"
    using c(2) by (auto simp: kMinReadServers_def Suc_le_eq filter_empty_conv)
  show thesis
  proof (cases "{i \<in> cs_servers s. cs_modes s ! i = Mode_kRead} = {}")
    case True
    show thesis by (rule that [of al]) (use True al ws n in \<open>simp_all add: GetReadOnlyWeights_def GetAllReadWeights_def\<close>)
  next
    case False
    show thesis by (rule that [of ws]) (use False al ws n in \<open>simp_all add: GetReadOnlyWeights_def\<close>)
  qed
qed

lemma GetValidServers_filter:
  assumes "length ws = kNumMaxServers"
    and "\<forall>i < kNumMaxServers. ws ! i = (if i \<in> W then f i else kInvalidServerWeight)"
    and "\<And>i. i \<in> W \<Longrightarrow> f i \<noteq> kInvalidServerWeight \<and> 0 < i \<and> i < kNumMaxServers"
  shows "set (GetValidServers ws) = W"
  using assms by (auto split: if_splits)

definition weights_usable :: "ClientStats \<Rightarrow> ServerWeights \<Rightarrow> bool" where
  "weights_usable s ws \<longleftrightarrow> 0 \<notin> cs_servers s \<and> (\<forall>i \<in> cs_servers s. 1 / 10 ^ 6 \<le> ws ! i)"

context fp_rounding
begin

lemma usable_limited:
  assumes "client_inv rnd s" "weights_usable s ws" "i \<in> cs_servers s"
  shows "limited rnd s ws i \<noteq> kInvalidServerWeight \<and> 0 < i \<and> i < kNumMaxServers"
  using assms limited_valid [OF assms(1,3), of ws] client_inv_servers(3) [OF assms(1,3)]
  by (cases i) (auto simp: weights_usable_def)

end

section \<open>Properties\<close>

lemma SelectWriteReplicas_ok:
  assumes "fp_rounding rnd" "client_reachable rnd (dps_stats d)"
    and "weights_usable (dps_stats d) (cs_write_weights (dps_stats d))"
    and "kNumReplicas \<le> card {i \<in> cs_servers (dps_stats d). cs_modes (dps_stats d) ! i \<noteq> Mode_kRead}"
  shows "\<exists>a b. Scheduler_SelectWriteReplicas rnd std_hash rs d vol iod = Inr [a, b] \<and> a \<noteq> b \<and>
    {a, b} \<subseteq> {i \<in> cs_servers (dps_stats d). cs_modes (dps_stats d) ! i \<noteq> Mode_kRead}"
proof -
  let ?s = "dps_stats d" and ?W = "{i \<in> cs_servers (dps_stats d). cs_modes (dps_stats d) ! i \<noteq> Mode_kRead}"
  have inv: "client_inv rnd ?s" by (rule fp_rounding.client_reachable_inv [OF assms(1,2)])
  from GetWriteWeights_filtered [OF inv assms(4)] obtain ws where ws: "GetWriteWeights rnd ?s = Inr ws"
    "length ws = kNumMaxServers" "\<forall>i < kNumMaxServers. ws ! i =
      (if i \<in> ?W then limited rnd ?s (cs_write_weights ?s) i else kInvalidServerWeight)" by auto
  have valid: "set (GetValidServers ws) = ?W"
  proof (rule GetValidServers_filter [OF ws(2,3)])
    fix i assume "i \<in> ?W"
    then show "limited rnd ?s (cs_write_weights ?s) i \<noteq> kInvalidServerWeight \<and> 0 < i \<and> i < kNumMaxServers"
      using fp_rounding.usable_limited [OF assms(1) inv assms(3)] by simp
  qed
  then have len: "kNumReplicas \<le> length (GetValidServers ws)"
    using assms(4) distinct_card [OF distinct_GetValidServers, of ws] by simp
  then have "GetValidServers ws \<noteq> []" by (auto simp: k_defs)
  from write_policy.replicas [OF this, where std_hash = std_hash and ty = "dps_type d" and rs = rs and
      vol = vol and iod = iod] obtain xs where
    "Scheduler_SelectWriteReplicas rnd std_hash rs d vol iod = Inr xs" "good_replicas (GetValidServers ws) xs"
    using ws(1) by (auto simp: Scheduler_SelectWriteReplicas_def)
  moreover from this(2) len have "length xs = 2" "distinct xs" "set xs \<subseteq> ?W"
    using valid by (auto simp: good_replicas_def k_defs)
  ultimately show ?thesis by (auto simp: length_Suc_conv numeral_2_eq_2)
qed


text \<open>A client with three servers, the third one in read mode, used by the witnesses.\<close>

definition demo_modes :: ServerModes where "demo_modes = replicate 20 Mode_kMix"

definition demo_stats :: ServerStatsList where
  "demo_stats = map (\<lambda>(i, m). zero_stats\<lparr>server_id := i, committed_mode := m, read_weight := 1,
     write_weight := 1\<rparr>) [(1, Mode_kWrite), (2, Mode_kMix), (3, Mode_kRead)]"

definition demo_client :: "ClientStats status" where
  "demo_client = bindS (foldS (\<lambda>i s. ClientStats_AddServer s i) [1, 2, 3] (ClientStats_init demo_modes))
     (\<lambda>s. SetServerStats s demo_stats)"

lemma demo_client_reachable:
  assumes "demo_client = Inr s" shows "client_reachable rnd s"
proof -
  from assms obtain t where t: "foldS (\<lambda>i s. ClientStats_AddServer s i) [1, 2, 3] (ClientStats_init demo_modes) = Inr t"
    "SetServerStats t demo_stats = Inr s" by (auto simp: demo_client_def status_simps)
  have "client_reachable rnd t"
    by (rule foldS_invariant [where P = "client_reachable rnd", OF t(1)])
      (auto intro: client_reachable.start client_reachable.step [OF _ client_step.add] simp: demo_modes_def k_defs)
  then show ?thesis by (rule client_reachable.step [OF _ client_step.stats [OF t(2)]])
qed

lemma demo_client_value:
  obtains s where "demo_client = Inr s" "cs_servers s = {1, 2, 3}"
    "cs_modes s ! 1 = Mode_kWrite" "cs_modes s ! 2 = Mode_kMix" "cs_modes s ! 3 = Mode_kRead"
    "weights_usable s (cs_read_weights s)" "weights_usable s (cs_write_weights s)"
  by (simp add: demo_client_def demo_stats_def demo_modes_def ClientStats_init_def ClientStats_AddServer_def
      CongestionControl_AddServer_def CongestionControl_init_def SetServerStats_def set_server_def
      ClientStats_SetCongestionState_def CongestionControl_SetCongestionState_def k_defs
      weights_usable_def insert_commute)


lemma GetAllReadWeights_valid:
  assumes "fp_rounding rnd" "client_inv rnd s" "weights_usable s (cs_read_weights s)"
  obtains al where "GetAllReadWeights rnd s = Inr al" "set (GetValidServers al) = cs_servers s"
proof -
  obtain al where al: "GetAllReadWeights rnd s = Inr al" "length al = kNumMaxServers"
    "\<forall>i < kNumMaxServers. al ! i = (if i \<in> cs_servers s then limited rnd s (cs_read_weights s) i else kInvalidServerWeight)"
    using GetRateLimited_at [OF assms(2)] assms(2) unfolding client_inv_def by (metis GetAllReadWeights_def)
  have "set (GetValidServers al) = cs_servers s"
    by (rule GetValidServers_filter [OF al(2,3)]) (rule fp_rounding.usable_limited [OF assms])
  then show thesis using that al(1) by blast
qed

lemma GetReadOnlyWeights_valid:
  assumes "fp_rounding rnd" "client_inv rnd s" "weights_usable s (cs_read_weights s)"
  obtains ws where "GetReadOnlyWeights rnd s = Inr ws"
    "set (GetValidServers ws) = (if {i \<in> cs_servers s. cs_modes s ! i = Mode_kRead} = {} then cs_servers s
       else {i \<in> cs_servers s. cs_modes s ! i = Mode_kRead})"
proof -
  let ?R = "{i \<in> cs_servers s. cs_modes s ! i = Mode_kRead}"
  obtain ws where ws: "GetReadOnlyWeights rnd s = Inr ws" "length ws = kNumMaxServers"
    "?R \<noteq> {} \<Longrightarrow> \<forall>i < kNumMaxServers. ws ! i = (if i \<in> ?R then limited rnd s (cs_read_weights s) i else kInvalidServerWeight)"
    "?R = {} \<Longrightarrow> GetAllReadWeights rnd s = Inr ws"
    using GetReadOnlyWeights_at [OF assms(2)] by (smt (verit) mem_Collect_eq)
  obtain al where al: "GetAllReadWeights rnd s = Inr al" "set (GetValidServers al) = cs_servers s"
    using GetAllReadWeights_valid [OF assms] by blast
  have "set (GetValidServers ws) = (if ?R = {} then cs_servers s else ?R)"
  proof (cases "?R = {}")
    case False
    have "set (GetValidServers ws) = ?R"
      by (rule GetValidServers_filter [OF ws(2) ws(3) [OF False]]) (use fp_rounding.usable_limited [OF assms] in simp)
    then show ?thesis unfolding if_not_P [OF False] .
  qed (use ws(4) al in simp)
  then show thesis by (rule that [OF ws(1)])
qed

lemma SelectReadServer_ok:
  assumes "fp_rounding rnd" "client_reachable rnd (dps_stats d)" "cs_servers (dps_stats d) \<noteq> {}"
    and "weights_usable (dps_stats d) (cs_read_weights (dps_stats d))"
  shows "if cs_servers (dps_stats d) \<inter> subs = {}
    then Scheduler_SelectReadServer rnd r r' d subs = Inl (Errno ENOENT)
    else \<exists>sid \<in> cs_servers (dps_stats d) \<inter> subs. Scheduler_SelectReadServer rnd r r' d subs = Inr sid \<and>
      ((\<exists>i \<in> cs_servers (dps_stats d) \<inter> subs. cs_modes (dps_stats d) ! i = Mode_kRead) \<longrightarrow>
        cs_modes (dps_stats d) ! sid = Mode_kRead)"
proof -
  let ?s = "dps_stats d" let ?R = "{i \<in> cs_servers ?s. cs_modes ?s ! i = Mode_kRead}"
  let ?sel = "policy_SelectReadServer (dps_type d)"
  have inv: "client_inv rnd ?s" by (rule fp_rounding.client_reachable_inv [OF assms(1,2)])
  obtain al where al: "GetAllReadWeights rnd ?s = Inr al" and vall: "set (GetValidServers al) = cs_servers ?s"
    using GetAllReadWeights_valid [OF assms(1) inv assms(4)] by blast
  have all_ne: "GetValidServers al \<noteq> []" using vall assms(3) by (metis set_empty)
  obtain ws where ws: "GetReadOnlyWeights rnd ?s = Inr ws" and vws: "set (GetValidServers ws) = (if ?R = {} then cs_servers ?s else ?R)"
    using GetReadOnlyWeights_valid [OF assms(1) inv assms(4)] by blast
  have ws_ne: "GetValidServers ws \<noteq> []" using vws assms(3) by (metis set_empty)
  have first: "(\<exists>sid \<in> set (GetValidServers ws) \<inter> subs. Scheduler_SelectReadServer rnd r r' d subs = Inr sid) \<or>
      set (GetValidServers ws) \<inter> subs = {} \<and> Scheduler_SelectReadServer rnd r r' d subs = ?sel r' al subs"
    using read_policy.none [OF ws_ne, of subs "dps_type d" r] read_policy.some [of ws subs "dps_type d" r] ws al
    by (cases "set (GetValidServers ws) \<inter> subs = {}")
      (auto simp: Scheduler_SelectReadServer_def simp del: set_GetValidServers)
  have second: "if cs_servers ?s \<inter> subs = {} then ?sel r' al subs = Inl (Errno ENOENT)
      else \<exists>sid \<in> cs_servers ?s \<inter> subs. ?sel r' al subs = Inr sid"
    using read_policy.none [OF all_ne, of subs "dps_type d" r'] read_policy.some [of al subs "dps_type d" r']
    unfolding vall by (cases "cs_servers ?s \<inter> subs = {}") auto
  define R where "R = ?R"
  have R: "i \<in> R \<longleftrightarrow> i \<in> cs_servers ?s \<and> cs_modes ?s ! i = Mode_kRead" for i by (simp add: R_def)
  have V: "set (GetValidServers ws) \<subseteq> cs_servers ?s" "R \<subseteq> set (GetValidServers ws)"
    "R \<noteq> {} \<Longrightarrow> set (GetValidServers ws) = R"
    using vws [folded R_def] R by (cases "R = {}"; auto simp del: set_GetValidServers)+
  from first consider (ro) sid where "sid \<in> set (GetValidServers ws)" "sid \<in> subs"
      "Scheduler_SelectReadServer rnd r r' d subs = Inr sid"
    | (any) "set (GetValidServers ws) \<inter> subs = {}"
      "Scheduler_SelectReadServer rnd r r' d subs = ?sel r' al subs" by blast
  then show ?thesis
  proof cases
    case ro
    have "sid \<in> cs_servers ?s \<inter> subs" using ro(1,2) V(1) by blast
    moreover have "sid \<in> R" if "\<exists>i \<in> cs_servers ?s \<inter> subs. cs_modes ?s ! i = Mode_kRead"
      using that R V(3) ro(1) by blast
    ultimately show ?thesis using ro(3) R by auto
  next
    case any
    have "\<not> (\<exists>i \<in> cs_servers ?s \<inter> subs. cs_modes ?s ! i = Mode_kRead)" using any(1) R V(2) by blast
    then show ?thesis using second any(2) by auto
  qed
qed

text \<open>
  C17. Reads go to a replica holder, and to one in read mode when there is one: in every
  reachable state of the client with usable weights, the scheduler returns a registered server
  of the given subset, in read mode whenever the subset has a registered server in read mode;
  it fails, with ENOENT, exactly when no registered server is in the subset.
\<close>

theorem reads_prefer_readers:
  assumes "fp_rounding rnd" "client_reachable rnd (dps_stats d)" "cs_servers (dps_stats d) \<noteq> {}"
    and "weights_usable (dps_stats d) (cs_read_weights (dps_stats d))"
  shows "if cs_servers (dps_stats d) \<inter> subs = {}
    then Scheduler_SelectReadServer rnd r r' d subs = Inl (Errno ENOENT)
    else \<exists>sid \<in> cs_servers (dps_stats d) \<inter> subs. Scheduler_SelectReadServer rnd r r' d subs = Inr sid \<and>
      ((\<exists>i \<in> cs_servers (dps_stats d) \<inter> subs. cs_modes (dps_stats d) ! i = Mode_kRead) \<longrightarrow>
        cs_modes (dps_stats d) ! sid = Mode_kRead)"
  by (rule SelectReadServer_ok [OF assms])

theorem reads_prefer_readers_witness:
  "\<exists>s. demo_client = Inr s \<and>
    Scheduler_SelectReadServer rnd64 4 8 \<lparr>dps_type = kRandomReadHashWrite, dps_stats = s\<rparr> {1, 3, 6} = Inr 3 \<and>
    Scheduler_SelectReadServer rnd64 4 8 \<lparr>dps_type = kRandomReadHashWrite, dps_stats = s\<rparr> {6} = Inl (Errno ENOENT)"
proof -
  from demo_client_value obtain s where s: "demo_client = Inr s" "cs_servers s = {1, 2, 3}"
    "cs_modes s ! 1 = Mode_kWrite" "cs_modes s ! 2 = Mode_kMix" "cs_modes s ! 3 = Mode_kRead"
    "weights_usable s (cs_read_weights s)" by metis
  let ?d = "\<lparr>dps_type = kRandomReadHashWrite, dps_stats = s\<rparr>"
  have "client_reachable rnd64 (dps_stats ?d)" using demo_client_reachable [OF s(1)] by simp
  note r = reads_prefer_readers [OF r64.fp_rounding_axioms this, of _ 4 8]
  have "Scheduler_SelectReadServer rnd64 4 8 ?d {1, 3, 6} = Inr 3" using r [of "{1, 3, 6}"] s(2-6) by auto
  moreover have "Scheduler_SelectReadServer rnd64 4 8 ?d {6} = Inl (Errno ENOENT)"
    using r [of "{6}"] s(2,6) by auto
  ultimately show ?thesis using s(1) by blast
qed

text \<open>
  A server whose weight the control plane left at \<open>kInvalidServerWeight\<close>, the marker of a server
  that must not be chosen, counts as valid again once its rate limit has been halved: the marker is
  compared after the multiplication with the rate limit.
\<close>

theorem rate_limit_hides_invalid_marker:
  assumes "fp_rounding rnd" "client_reachable rnd s" "sid \<in> cs_servers s" "0 < sid"
    and "cs_read_weights s ! sid = kInvalidServerWeight" "cc_rate_limits (cs_cc s) ! sid \<le> 1 / 2"
  shows "\<exists>ws. GetAllReadWeights rnd s = Inr ws \<and> sid \<in> set (GetValidServers ws)"
proof -
  have inv: "client_inv rnd s" by (rule fp_rounding.client_reachable_inv [OF assms(1,2)])
  note c = client_inv_servers [OF inv]
  from GetRateLimited_at [OF inv] assms(3) obtain ws where
    ws: "GetAllReadWeights rnd s = Inr ws" "length ws = kNumMaxServers"
    "ws ! sid = limited rnd s (cs_read_weights s) sid" by (metis GetAllReadWeights_def)
  let ?r = "cc_rate_limits (cs_cc s) ! sid" and ?k = kInvalidServerWeight
  have k: "0 < ?k" by (rule kInvalidServerWeight_bounds)
  have "?k * ?r \<le> ?k * (1 / 2)" by (rule mult_left_mono [OF assms(6)]) (use k in simp)
  then have "rnd (?k * ?r) \<le> rnd (?k * (1 / 2))" by (rule fp_rounding.rnd_mono [OF assms(1)])
  also have "\<dots> \<le> ?k * (1 / 2) + ?k * (1 / 2) / 2 ^ 53"
    by (rule fp_rounding.rnd_upper [OF assms(1)]) (use k in simp)
  also have "\<dots> < ?k"
  proof -
    have "?k * (1 / 2) / 2 ^ 53 < ?k * (1 / 2)"
      using k by (simp add: divide_less_eq)
    then show ?thesis by simp
  qed
  finally have "ws ! sid \<noteq> ?k" using ws(3) assms(5) by (simp add: fmul_def)
  then show ?thesis using ws(1,2) assms(3,4) c(3) by simp
qed

end
