(* ===== verification/Config.thy ===== *)
theory Config
  imports Control_Plane Data_Plane
begin

text \<open>
  The choices in the configuration file (\<open>sandook/config/config.cc\<close>): names of policies, backends and kinds of disks, and
  the affinity of a virtual disk. The JSON library is outside; \<open>cfg\<close> gives the string and \<open>affinity\<close> the number it
  returns for a key.
\<close>

section \<open>Definitions\<close>

datatype ControlPlaneSchedulerType =
  CP_kNoOp | CP_kProfileGuided | CP_kRWIsolationStrict | CP_kRWIsolationWeak | CP_kAdaptiveRWIsolationWeak | CP_kProfileGuidedRWIsolation

datatype VirtualDiskType = VD_kRemote | VD_kLocal

datatype DiskServerBackend = DB_kPOSIX | DB_kMemory | DB_kSPDK

definition kVirtualDiskType :: "(string \<Rightarrow> string) \<Rightarrow> VirtualDiskType status" where
  "kVirtualDiskType cfg =
     (if cfg ''kVirtualDiskType'' = ''Remote'' then Inr VD_kRemote
      else if cfg ''kVirtualDiskType'' = ''Local'' then Inr VD_kLocal
      else Inl Runtime_error)"

text \<open>\<open>affinity < kInvalidServerID\<close> compares unsigned numbers.\<close>

definition kVirtualDiskServerAffinity :: "VirtualDiskType \<Rightarrow> nat \<Rightarrow> ServerID status" where
  "kVirtualDiskServerAffinity ty affinity = (case ty of
     VD_kRemote \<Rightarrow> if affinity < kInvalidServerID \<or> affinity \<ge> kNumMaxServers then Inl Runtime_error else Inr affinity
   | VD_kLocal \<Rightarrow> Inr kInvalidServerID)"

definition kControlPlaneSchedulerType :: "(string \<Rightarrow> string) \<Rightarrow> ControlPlaneSchedulerType status" where
  "kControlPlaneSchedulerType cfg = (let ty = cfg ''kControlPlaneSchedulerType''
     in if ty = ''NoOp'' then Inr CP_kNoOp
        else if ty = ''ProfileGuided'' then Inr CP_kProfileGuided
        else if ty = ''RWIsolationStrict'' then Inr CP_kRWIsolationStrict
        else if ty = ''RWIsolationWeak'' then Inr CP_kRWIsolationWeak
        else if ty = ''AdaptiveRWIsolationWeak'' then Inr CP_kAdaptiveRWIsolationWeak
        else if ty = ''ProfileGuidedRWIsolation'' then Inr CP_kProfileGuidedRWIsolation
        else Inl Runtime_error)"

definition kDataPlaneSchedulerType :: "(string \<Rightarrow> string) \<Rightarrow> DataPlaneSchedulerType status" where
  "kDataPlaneSchedulerType cfg = (let ty = cfg ''kDataPlaneSchedulerType''
     in if ty = ''WeightedReadWrite'' then Inr kWeightedReadWrite
        else if ty = ''RandomReadWrite'' then Inr kRandomReadWrite
        else if ty = ''RandomReadHashWrite'' then Inr kRandomReadHashWrite
        else if ty = ''WeightedReadHashWrite'' then Inr kWeightedReadHashWrite
        else Inl Runtime_error)"

definition kDiskServerBackend :: "(string \<Rightarrow> string) \<Rightarrow> DiskServerBackend status" where
  "kDiskServerBackend cfg = (let ty = cfg ''kDiskServerBackend''
     in if ty = ''POSIX'' then Inr DB_kPOSIX
        else if ty = ''Memory'' then Inr DB_kMemory
        else if ty = ''SPDK'' then Inr DB_kSPDK
        else Inl Runtime_error)"

section \<open>Every choice has exactly one name\<close>

definition control_plane_name :: "ControlPlaneSchedulerType \<Rightarrow> string" where
  "control_plane_name ty = (case ty of CP_kNoOp \<Rightarrow> ''NoOp'' | CP_kProfileGuided \<Rightarrow> ''ProfileGuided''
     | CP_kRWIsolationStrict \<Rightarrow> ''RWIsolationStrict'' | CP_kRWIsolationWeak \<Rightarrow> ''RWIsolationWeak''
     | CP_kAdaptiveRWIsolationWeak \<Rightarrow> ''AdaptiveRWIsolationWeak'' | CP_kProfileGuidedRWIsolation \<Rightarrow> ''ProfileGuidedRWIsolation'')"

definition data_plane_name :: "DataPlaneSchedulerType \<Rightarrow> string" where
  "data_plane_name ty = (case ty of kWeightedReadWrite \<Rightarrow> ''WeightedReadWrite'' | kRandomReadWrite \<Rightarrow> ''RandomReadWrite''
     | kRandomReadHashWrite \<Rightarrow> ''RandomReadHashWrite'' | kWeightedReadHashWrite \<Rightarrow> ''WeightedReadHashWrite'')"

lemma control_plane_choice: "kControlPlaneSchedulerType cfg = Inr ty \<longleftrightarrow> cfg ''kControlPlaneSchedulerType'' = control_plane_name ty"
  by (cases ty) (auto simp: kControlPlaneSchedulerType_def control_plane_name_def Let_def)

lemma data_plane_choice: "kDataPlaneSchedulerType cfg = Inr ty \<longleftrightarrow> cfg ''kDataPlaneSchedulerType'' = data_plane_name ty"
  by (cases ty) (auto simp: kDataPlaneSchedulerType_def data_plane_name_def Let_def)

lemma affinity_in_range: "kVirtualDiskServerAffinity ty affinity = Inr sid \<Longrightarrow> sid < kNumMaxServers"
  by (auto simp: kVirtualDiskServerAffinity_def kNumMaxServers_def split: VirtualDiskType.splits if_splits)

end
