(* ===== verification/Block_Resolver.thy ===== *)
theory Block_Resolver
  imports Sandook_Types "HOL-Library.Multiset"
begin

text \<open>
  The translation from volume blocks to replicated server blocks
  (\<open>sandook/virtual_disk/block_resolver.h\<close>). The locale \<open>block_table\<close> is the contract the virtual
  disk relies on; the interpretation shows that \<open>BlockResolver\<close> provides it. The second half
  follows the blocks a remapping leaves behind through the discard list.
\<close>

section \<open>State and operations\<close>

record BlockResolver =
  nsectors :: nat
  blk_map :: "ServerReplicaBlockInfoList list"
  discard_list :: "ServerReplicaBlockInfoList list"

definition invalid_replicas :: ServerReplicaBlockInfoList where
  "invalid_replicas =
     replicate kNumReplicas (\<lparr>sbi_server_id = kInvalidServerID, sbi_block_addr = 0\<rparr>, False)"

definition BlockResolver_init :: "nat \<Rightarrow> BlockResolver" where
  "BlockResolver_init n = \<lparr>nsectors = n, blk_map = replicate n invalid_replicas, discard_list = []\<rparr>"

definition front_server :: "ServerReplicaBlockInfoList \<Rightarrow> ServerID" where
  "front_server blocks = sbi_server_id (fst (hd blocks))"

definition DiscardExistingBlocks :: "BlockResolver \<Rightarrow> VolumeBlockAddr \<Rightarrow> BlockResolver" where
  "DiscardExistingBlocks r blk_addr =
     (let blocks = blk_map r ! blk_addr; (info, is_dirty) = hd blocks
      in if is_dirty \<and> sbi_server_id info \<noteq> kInvalidServerID
         then r\<lparr>discard_list := discard_list r @ [blocks]\<rparr> else r)"

definition AddMapping ::
  "BlockResolver \<Rightarrow> VolumeBlockAddr \<Rightarrow> ServerReplicaBlockInfoList \<Rightarrow> BlockResolver status" where
  "AddMapping r blk_addr srv_blk =
     assertS (blk_addr < nsectors r)
       (let r' = DiscardExistingBlocks r blk_addr
        in Inr (r'\<lparr>blk_map := (blk_map r')[blk_addr := srv_blk]\<rparr>))"

definition ResolveBlock ::
  "BlockResolver \<Rightarrow> VolumeBlockAddr \<Rightarrow> ServerReplicaBlockInfoList status" where
  "ResolveBlock r blk_addr =
     assertS (blk_addr < nsectors r)
       (let blocks = blk_map r ! blk_addr
        in if front_server blocks = kInvalidServerID then MakeError ENOENT else Inr blocks)"

definition GetAndResetDiscardedBlocks ::
  "BlockResolver \<Rightarrow> (BlockResolver \<times> ServerReplicaBlockInfoList list) status" where
  "GetAndResetDiscardedBlocks r =
     (if discard_list r = [] then MakeError ENOENT
      else Inr (r\<lparr>discard_list := []\<rparr>, discard_list r))"

definition resolver_wf :: "BlockResolver \<Rightarrow> bool" where
  "resolver_wf r \<longleftrightarrow> length (blk_map r) = nsectors r"

lemma resolver_wf_init: "resolver_wf (BlockResolver_init n)"
  by (simp add: resolver_wf_def BlockResolver_init_def)

section \<open>The contract of a block table\<close>

locale block_table =
  fixes lookup_blk :: "'m \<Rightarrow> nat \<Rightarrow> 'v status"
    and update_blk :: "'m \<Rightarrow> nat \<Rightarrow> 'v \<Rightarrow> 'm status"
    and table_size :: "'m \<Rightarrow> nat"
    and table_inv :: "'m \<Rightarrow> bool"
    and usable :: "'v \<Rightarrow> bool"
  assumes update_total: "table_inv m \<Longrightarrow> a < table_size m \<Longrightarrow> \<exists>m'. update_blk m a v = Inr m'"
    and update_inv: "table_inv m \<Longrightarrow> update_blk m a v = Inr m' \<Longrightarrow> table_inv m'"
    and update_size: "update_blk m a v = Inr m' \<Longrightarrow> table_size m' = table_size m"
    and lookup_same:
      "table_inv m \<Longrightarrow> update_blk m a v = Inr m' \<Longrightarrow> usable v \<Longrightarrow> lookup_blk m' a = Inr v"
    and lookup_other:
      "table_inv m \<Longrightarrow> update_blk m a v = Inr m' \<Longrightarrow> a \<noteq> b \<Longrightarrow> lookup_blk m' b = lookup_blk m b"
begin

text \<open>After a sequence of updates every address reads the last value stored there.\<close>

lemma lookup_updates:
  assumes "table_inv m" "foldS (\<lambda>(a, v) m. update_blk m a v) ups m = Inr m'"
    and "\<And>a v. (a, v) \<in> set ups \<Longrightarrow> usable v"
  shows "table_inv m' \<and> lookup_blk m' b =
    (case map_of (rev ups) b of None \<Rightarrow> lookup_blk m b | Some v \<Rightarrow> Inr v)"
  using assms
proof (induction ups arbitrary: m)
  case Nil
  then show ?case by simp
next
  case (Cons u ups)
  obtain a v where u: "u = (a, v)" by (cases u)
  from Cons.prems(2) u obtain m1 where m1: "update_blk m a v = Inr m1"
    "foldS (\<lambda>(a, v) m. update_blk m a v) ups m1 = Inr m'" by (auto simp: bindS_eq_Inr)
  have v: "usable v" using Cons.prems(3) [of a v] u by simp
  have us: "usable v'" if "(a', v') \<in> set ups" for a' v'
    using Cons.prems(3) [of a' v'] that by simp
  note IH = Cons.IH [OF update_inv [OF Cons.prems(1) m1(1)] m1(2)]
  have m1b: "lookup_blk m1 b = (if a = b then Inr v else lookup_blk m b)"
    using lookup_same [OF Cons.prems(1) m1(1) v] lookup_other [OF Cons.prems(1) m1(1), of b] by auto
  have "table_inv m' \<and> lookup_blk m' b =
      (case map_of (rev ups) b of None \<Rightarrow> lookup_blk m1 b | Some v \<Rightarrow> Inr v)"
    by (rule IH) (rule us)
  then show ?case using m1b u by (auto simp: map_add_def split: option.splits)
qed

lemma updates_total:
  assumes "table_inv m" "\<And>a v. (a, v) \<in> set ups \<Longrightarrow> a < table_size m"
  shows "\<exists>m'. foldS (\<lambda>(a, v) m. update_blk m a v) ups m = Inr m' \<and>
    (table_inv m' \<and> table_size m' = table_size m)"
proof (rule foldS_total [where P = "\<lambda>t. table_inv t \<and> table_size t = table_size m"])
  show "table_inv m \<and> table_size m = table_size m" using assms(1) by simp
  fix x t
  assume "x \<in> set ups" and t: "table_inv t \<and> table_size t = table_size m"
  then have "fst x < table_size t" using assms(2) [of "fst x" "snd x"] by simp
  then obtain t' where "update_blk t (fst x) (snd x) = Inr t'" using update_total t by blast
  then show "\<exists>t'. (case x of (a, v) \<Rightarrow> \<lambda>m. update_blk m a v) t = Inr t' \<and>
      table_inv t' \<and> table_size t' = table_size m"
    using update_inv update_size t by (force simp: split_beta)
qed

end

lemma AddMapping_cases:
  "AddMapping r a v = Inr r' \<longleftrightarrow> a < nsectors r \<and>
     r' = r\<lparr>blk_map := (blk_map r)[a := v],
            discard_list := discard_list r @
              (if snd (hd (blk_map r ! a)) \<and> front_server (blk_map r ! a) \<noteq> kInvalidServerID
               then [blk_map r ! a] else [])\<rparr>"
  by (auto simp: AddMapping_def DiscardExistingBlocks_def front_server_def Let_def split_beta
      status_simps)

interpretation resolver: block_table ResolveBlock AddMapping nsectors resolver_wf
  "\<lambda>v. front_server v \<noteq> kInvalidServerID"
  by unfold_locales
    (auto simp: AddMapping_cases resolver_wf_def ResolveBlock_def assertS_def Let_def)

section \<open>Blocks left behind\<close>

text \<open>A mapping that was written through: its front replica is valid and dirty.\<close>

definition written :: "ServerReplicaBlockInfoList \<Rightarrow> bool" where
  "written blocks \<longleftrightarrow> snd (hd blocks) \<and> front_server blocks \<noteq> kInvalidServerID"

definition tracked :: "BlockResolver \<Rightarrow> ServerReplicaBlockInfoList multiset" where
  "tracked r = mset (filter written (blk_map r)) + mset (discard_list r)"

datatype resolver_op = Add_mapping VolumeBlockAddr ServerReplicaBlockInfoList | Collect_discarded

text \<open>A run of the resolver: the state and the discard lists the collector received.\<close>

fun resolver_step ::
  "resolver_op \<Rightarrow> BlockResolver \<times> ServerReplicaBlockInfoList list
     \<Rightarrow> (BlockResolver \<times> ServerReplicaBlockInfoList list) status" where
  "resolver_step (Add_mapping a v) (r, out) = bindS (AddMapping r a v) (\<lambda>r'. Inr (r', out))"
| "resolver_step Collect_discarded (r, out) =
     (case GetAndResetDiscardedBlocks r of Inl _ \<Rightarrow> Inr (r, out) | Inr (r', l) \<Rightarrow> Inr (r', out @ l))"

definition installed :: "resolver_op list \<Rightarrow> ServerReplicaBlockInfoList list" where
  "installed ops =
     concat (map (\<lambda>op. case op of Add_mapping _ v \<Rightarrow> if written v then [v] else [] | _ \<Rightarrow> []) ops)"

lemma mset_filter_update:
  "i < length xs \<Longrightarrow> mset (filter P (xs[i := v])) + (if P (xs ! i) then {#xs ! i#} else {#})
     = mset (filter P xs) + (if P v then {#v#} else {#})"
proof -
  assume i: "i < length xs"
  then obtain N where "mset xs = add_mset (xs ! i) N" by (meson multi_member_split nth_mem_mset)
  then show ?thesis using i by (simp add: mset_update)
qed

lemma tracked_step:
  assumes "resolver_wf r" "resolver_step op (r, out) = Inr (r', out')"
  shows "resolver_wf r' \<and> tracked r' + mset out' = tracked r + mset out + mset (installed [op])"
proof (cases op)
  case (Add_mapping a v)
  with assms(2) have a: "a < nsectors r" and out: "out' = out"
    and r': "r' = r\<lparr>blk_map := (blk_map r)[a := v],
            discard_list := discard_list r @ (if written (blk_map r ! a) then [blk_map r ! a] else [])\<rparr>"
    by (auto simp: bindS_eq_Inr AddMapping_cases written_def)
  with mset_filter_update [of a "blk_map r" written v] assms(1) show ?thesis
    by (auto simp: Add_mapping tracked_def installed_def resolver_wf_def)
next
  case Collect_discarded
  with assms show ?thesis
    by (auto simp: GetAndResetDiscardedBlocks_def tracked_def installed_def resolver_wf_def
        split: if_splits)
qed

lemma installed_Cons: "installed (op # ops) = installed [op] @ installed ops"
  by (simp add: installed_def)

lemma tracked_run:
  assumes "resolver_wf r" "foldS resolver_step ops (r, out) = Inr (r', out')"
  shows "tracked r' + mset out' = tracked r + mset out + mset (installed ops)"
  using assms
proof (induction ops arbitrary: r out)
  case Nil
  then show ?case by (simp add: installed_def)
next
  case (Cons op ops)
  then obtain r1 out1 where s: "resolver_step op (r, out) = Inr (r1, out1)"
    "foldS resolver_step ops (r1, out1) = Inr (r', out')" by (auto simp: bindS_eq_Inr)
  note t = tracked_step [OF Cons.prems(1) s(1)]
  with Cons.IH [of r1 out1] s(2)
  have "tracked r' + mset out' = tracked r + mset out + mset (installed [op]) + mset (installed ops)"
    by simp
  then show ?case by (subst installed_Cons) (simp add: ac_simps)
qed

section \<open>Properties\<close>

text \<open>
  C14. Insert and lookup: after any sequence of \<open>AddMapping\<close> calls with in-range addresses and
  valid servers on a fresh resolver, every call succeeded and \<open>ResolveBlock\<close> of each address of the
  volume returns the last mapping installed there, or ENOENT when there was none.
\<close>

theorem resolver_returns_last_mapping:
  assumes "\<forall>(a, v) \<in> set ups. a < n \<and> front_server v \<noteq> kInvalidServerID"
  shows "\<exists>r. foldS (\<lambda>(a, v) r. AddMapping r a v) ups (BlockResolver_init n) = Inr r \<and>
    (\<forall>b. ResolveBlock r b =
      (if b < n then (case map_of (rev ups) b of None \<Rightarrow> Inl (Errno ENOENT) | Some v \<Rightarrow> Inr v)
       else Inl Assertion))"
proof -
  let ?i = "BlockResolver_init n"
  have u: "a < nsectors ?i" "front_server v \<noteq> kInvalidServerID" if "(a, v) \<in> set ups" for a v
    using assms that by (auto simp: BlockResolver_init_def)
  obtain r where
    r: "foldS (\<lambda>(a, v) m. AddMapping m a v) ups ?i = Inr r" "nsectors r = nsectors ?i"
    using resolver.updates_total [OF resolver_wf_init, of ups n] u(1) by blast
  have init: "ResolveBlock ?i b = (if b < n then Inl (Errno ENOENT) else Inl Assertion)" for b
    by (simp add: ResolveBlock_def BlockResolver_init_def invalid_replicas_def front_server_def
        kNumReplicas_def assertS_def)
  have look: "ResolveBlock r b =
      (case map_of (rev ups) b of None \<Rightarrow> ResolveBlock ?i b | Some v \<Rightarrow> Inr v)" for b
    using resolver.lookup_updates [OF resolver_wf_init r(1)] u(2) by blast
  have out: "ResolveBlock r b = Inl Assertion" if "\<not> b < n" for b
    using that r(2) by (simp add: ResolveBlock_def assertS_def BlockResolver_init_def)
  have "ResolveBlock r b =
      (if b < n then (case map_of (rev ups) b of None \<Rightarrow> Inl (Errno ENOENT) | Some v \<Rightarrow> Inr v)
       else Inl Assertion)" for b
    using look [of b] init [of b] out [of b] by (simp split: option.splits)
  with r(1) show ?thesis by blast
qed

theorem resolver_returns_last_mapping_witness:
  "\<exists>r. foldS (\<lambda>(a, v) r. AddMapping r a v)
       [(1, [(\<lparr>sbi_server_id = 2, sbi_block_addr = 9\<rparr>, True)])] (BlockResolver_init 3) = Inr r \<and>
     ResolveBlock r 1 = Inr [(\<lparr>sbi_server_id = 2, sbi_block_addr = 9\<rparr>, True)] \<and>
     ResolveBlock r 2 = Inl (Errno ENOENT)"
  using resolver_returns_last_mapping
    [of "[(1, [(\<lparr>sbi_server_id = 2, sbi_block_addr = 9\<rparr>, True)])]" 3]
  by (auto simp: front_server_def)



end
