(* ===== verification/Slab.thy ===== *)
theory Slab
  imports Msg
begin

text \<open>
  The slab allocator (\<open>sandook/mem/slab.h\<close>, \<open>slab.cc\<close>): size classes of powers of two, a free list per class
  and core, a global free list per class and a break that is bumped when both are empty. A free list
  is stored in the freed objects themselves, in batches of six pointers. Addresses are natural
  numbers below \<open>2 ^ 64\<close> with \<open>0\<close> for \<open>nullptr\<close>, memory maps addresses to bytes. A call runs with preemption
  disabled on one core and takes the locks it needs, so it is one step. The arrays of lists are
  functions of the core and of the class, which the code keeps within their bounds.
\<close>

section \<open>Memory\<close>

definition bytes_at :: "memory \<Rightarrow> nat \<Rightarrow> nat \<Rightarrow> byte list" where
  "bytes_at m a n = map m [a..<a + n]"

definition store_bytes :: "memory \<Rightarrow> nat \<Rightarrow> byte list \<Rightarrow> memory" where
  "store_bytes m a bs = (\<lambda>x. if a \<le> x \<and> x < a + length bs then bs ! (x - a) else m x)"

definition load64 :: "memory \<Rightarrow> nat \<Rightarrow> nat" where
  "load64 m a = (case take_u64 (bytes_at m a 8) of Inr (x, _) \<Rightarrow> x | Inl _ \<Rightarrow> 0)"

definition store64 :: "memory \<Rightarrow> nat \<Rightarrow> nat \<Rightarrow> memory" where
  "store64 m a x = store_bytes m a (put_u64 x)"

section \<open>Free lists\<close>

abbreviation (input) sizeof_PtrHeader :: nat where "sizeof_PtrHeader \<equiv> 16"

definition kMemAlignment :: nat where "kMemAlignment = 16"
definition kMinSlabClassShift :: nat where "kMinSlabClassShift = 5"
definition kMaxSlabClassShift :: nat where "kMaxSlabClassShift = 35"
definition kMaxCacheSizeBytes :: nat where "kMaxCacheSizeBytes = 32768"
definition kMaxCacheEntries :: nat where "kMaxCacheEntries = 64"
definition kEnableTransferCache :: bool where "kEnableTransferCache = False"
definition kBatchSize :: nat where "kBatchSize = (2 ^ kMinSlabClassShift + sizeof_PtrHeader) div 8"

record FreePtrsList =
  fl_head :: nat
  fl_size :: nat

definition FreePtrsList_init :: FreePtrsList where
  "FreePtrsList_init = \<lparr>fl_head = 0, fl_size = 0\<rparr>"

text \<open>The highest slot from \<open>i\<close> down to \<open>1\<close> that is in use, and the lowest from \<open>i\<close> upwards that is free.\<close>

fun used_slot :: "memory \<Rightarrow> nat \<Rightarrow> nat \<Rightarrow> nat option" where
  "used_slot m h 0 = None"
| "used_slot m h (Suc i) = (if load64 m (h + 8 * Suc i) \<noteq> 0 then Some (Suc i) else used_slot m h i)"

definition free_slot :: "memory \<Rightarrow> nat \<Rightarrow> nat option" where
  "free_slot m h = find (\<lambda>i. load64 m (h + 8 * i) = 0) [1..<kBatchSize]"

definition FreePtrsList_pop :: "memory \<Rightarrow> FreePtrsList \<Rightarrow> (nat \<times> memory \<times> FreePtrsList) status" where
  "FreePtrsList_pop m l =
     (let l = l\<lparr>fl_size := usub64 (fl_size l) 1\<rparr>; h = fl_head l
      in assertS (h \<noteq> 0)
           (case used_slot m h (kBatchSize - 1) of
              Some i \<Rightarrow> Inr (load64 m (h + 8 * i), store64 m (h + 8 * i) 0, l)
            | None \<Rightarrow> Inr (h, m, l\<lparr>fl_head := load64 m h\<rparr>)))"

definition FreePtrsList_push :: "memory \<Rightarrow> FreePtrsList \<Rightarrow> nat \<Rightarrow> memory \<times> FreePtrsList" where
  "FreePtrsList_push m l ptr =
     (let l = l\<lparr>fl_size := to_u64 (fl_size l + 1)\<rparr>; h = fl_head l
      in if h = 0 then (store_bytes m ptr (replicate (8 * kBatchSize) 0), l\<lparr>fl_head := ptr\<rparr>)
         else case free_slot m h of
           Some i \<Rightarrow> (store64 m (h + 8 * i) ptr, l)
         | None \<Rightarrow> (store_bytes (store64 m ptr h) (ptr + 8) (replicate (8 * (kBatchSize - 1)) 0), l\<lparr>fl_head := ptr\<rparr>))"

section \<open>Size classes\<close>

text \<open>The index of the highest bit that is set.\<close>

fun bsr_64 :: "nat \<Rightarrow> nat" where
  "bsr_64 a = (if a \<le> 1 then 0 else Suc (bsr_64 (a div 2)))"

declare bsr_64.simps [simp del]

definition get_slab_shift :: "nat \<Rightarrow> nat" where
  "get_slab_shift data_size = (if data_size \<le> 2 ^ kMinSlabClassShift then kMinSlabClassShift else bsr_64 (data_size - 1) + 1)"

definition get_slab_size :: "nat \<Rightarrow> nat" where
  "get_slab_size slab_shift = 2 ^ slab_shift + sizeof_PtrHeader"

text \<open>\<open>1 << slab_shift\<close> is an \<open>int\<close>: negative, and as a \<open>uint64_t\<close> huge, for shift 31, and undefined from 32 on, where
  \<open>undef\<close> stands for the value the division gives.\<close>

definition get_max_num_cache_entries :: "(nat \<Rightarrow> nat) \<Rightarrow> nat \<Rightarrow> nat" where
  "get_max_num_cache_entries undef slab_shift = min kMaxCacheEntries
     (if slab_shift < 31 then kMaxCacheSizeBytes div 2 ^ slab_shift
      else if slab_shift = 31 then kMaxCacheSizeBytes div (2 ^ 64 - 2 ^ 31) else undef slab_shift)"

section \<open>The allocator\<close>

record SlabAllocator =
  sl_start :: nat
  sl_end :: nat
  sl_cur :: nat
  slab_lists :: "nat \<Rightarrow> FreePtrsList"
  cache_lists :: "nat \<Rightarrow> nat \<Rightarrow> FreePtrsList"
  transferred_caches :: "nat \<Rightarrow> nat \<Rightarrow> FreePtrsList"
  sl_heap :: memory

definition SlabAllocator_new :: "nat \<Rightarrow> nat \<Rightarrow> memory \<Rightarrow> SlabAllocator" where
  "SlabAllocator_new start n m = \<lparr>sl_start = start, sl_end = start + n, sl_cur = start, slab_lists = (\<lambda>_. FreePtrsList_init),
     cache_lists = (\<lambda>_ _. FreePtrsList_init), transferred_caches = (\<lambda>_ _. FreePtrsList_init), sl_heap = m\<rparr>"

text \<open>The lists of the allocator, and one operation on one of them.\<close>

datatype place = Cache nat nat | Global nat | Transferred nat nat

fun list_of :: "SlabAllocator \<Rightarrow> place \<Rightarrow> FreePtrsList" where
  "list_of s (Cache c k) = cache_lists s c k"
| "list_of s (Global k) = slab_lists s k"
| "list_of s (Transferred c k) = transferred_caches s c k"

fun set_list :: "place \<Rightarrow> FreePtrsList \<Rightarrow> SlabAllocator \<Rightarrow> SlabAllocator" where
  "set_list (Cache c k) l s = s\<lparr>cache_lists := (cache_lists s)(c := (cache_lists s c)(k := l))\<rparr>"
| "set_list (Global k) l s = s\<lparr>slab_lists := (slab_lists s)(k := l)\<rparr>"
| "set_list (Transferred c k) l s = s\<lparr>transferred_caches := (transferred_caches s)(c := (transferred_caches s c)(k := l))\<rparr>"

definition pop_from :: "place \<Rightarrow> SlabAllocator \<Rightarrow> (nat \<times> SlabAllocator) status" where
  "pop_from pl s = bindS (FreePtrsList_pop (sl_heap s) (list_of s pl)) (\<lambda>(p, m, l). Inr (p, set_list pl l (s\<lparr>sl_heap := m\<rparr>)))"

definition push_to :: "place \<Rightarrow> nat \<Rightarrow> SlabAllocator \<Rightarrow> SlabAllocator" where
  "push_to pl p s = (case FreePtrsList_push (sl_heap s) (list_of s pl) p of (m, l) \<Rightarrow> set_list pl l (s\<lparr>sl_heap := m\<rparr>))"

text \<open>\<open>while (size of one list > bound) other.push (list.pop ())\<close>: at most \<open>n\<close> entries move from one list to another.\<close>

primrec move_entries :: "nat \<Rightarrow> place \<Rightarrow> place \<Rightarrow> SlabAllocator \<Rightarrow> SlabAllocator status" where
  "move_entries 0 from to s = Inr s"
| "move_entries (Suc n) from to s =
     (if fl_size (list_of s from) = 0 then Inr s
      else bindS (pop_from from s) (\<lambda>(p, s). move_entries n from to (push_to to p s)))"

primrec bump :: "nat \<Rightarrow> nat \<Rightarrow> place \<Rightarrow> SlabAllocator \<Rightarrow> SlabAllocator" where
  "bump 0 slab_size to s = s"
| "bump (Suc n) slab_size to s =
     (if sl_cur s + slab_size \<le> sl_end s
      then bump n slab_size to ((push_to to (sl_cur s) s)\<lparr>sl_cur := sl_cur s + slab_size\<rparr>) else s)"

definition free_to_cache_list :: "(nat \<Rightarrow> nat) \<Rightarrow> nat \<Rightarrow> nat \<Rightarrow> nat \<Rightarrow> SlabAllocator \<Rightarrow> SlabAllocator status" where
  "free_to_cache_list undef cpu hdr slab_shift s =
     (let max_num_cache_entries = get_max_num_cache_entries undef slab_shift; cache = Cache cpu slab_shift;
          s = push_to cache hdr s; n = fl_size (list_of s cache)
      in if n > max_num_cache_entries
         then move_entries (n - max_num_cache_entries div 2) cache (Global slab_shift) s else Inr s)"

definition free_to_transferred_cache_list :: "(nat \<Rightarrow> nat) \<Rightarrow> nat \<Rightarrow> nat \<Rightarrow> SlabAllocator \<Rightarrow> SlabAllocator status" where
  "free_to_transferred_cache_list undef hdr slab_shift s =
     (let max_num_cache_entries = get_max_num_cache_entries undef slab_shift; core = load64 (sl_heap s) (hdr + 8);
          from = Transferred core slab_shift; s = push_to from hdr s;
          total_num = fl_size (list_of s from) + fl_size (list_of s (Cache core slab_shift))
      in if total_num > max_num_cache_entries
         then move_entries (min (fl_size (list_of s from)) (total_num - max_num_cache_entries div 2)) from (Global slab_shift) s
         else Inr s)"

text \<open>The loop of \<open>drain_transferred_cache\<close>, which takes \<open>n\<close> entries.\<close>

primrec drain :: "nat \<Rightarrow> (nat \<Rightarrow> nat) \<Rightarrow> nat \<Rightarrow> nat \<Rightarrow> SlabAllocator \<Rightarrow> SlabAllocator status" where
  "drain 0 undef cpu slab_shift s = Inr s"
| "drain (Suc n) undef cpu slab_shift s =
     bindS (pop_from (Transferred cpu slab_shift) s) (\<lambda>(hdr, s).
     bindS (free_to_cache_list undef cpu hdr slab_shift s) (drain n undef cpu slab_shift))"

definition drain_transferred_cache :: "(nat \<Rightarrow> nat) \<Rightarrow> nat \<Rightarrow> nat \<Rightarrow> SlabAllocator \<Rightarrow> SlabAllocator status" where
  "drain_transferred_cache undef cpu slab_shift s =
     (if kEnableTransferCache then drain (fl_size (list_of s (Transferred cpu slab_shift))) undef cpu slab_shift s else Inr s)"

definition do_free :: "(nat \<Rightarrow> nat) \<Rightarrow> nat \<Rightarrow> nat \<Rightarrow> nat \<Rightarrow> SlabAllocator \<Rightarrow> SlabAllocator status" where
  "do_free undef cpu hdr slab_shift s = bindS (drain_transferred_cache undef cpu slab_shift s) (\<lambda>s.
     if kEnableTransferCache
     then if cpu = load64 (sl_heap s) (hdr + 8) then free_to_cache_list undef cpu hdr slab_shift s
          else free_to_transferred_cache_list undef hdr slab_shift s
     else free_to_cache_list undef cpu hdr slab_shift s)"

text \<open>The slow path of \<open>allocate\<close>: fill the cache of the core from the global list and then by bumping the break.\<close>

definition refill_cache :: "(nat \<Rightarrow> nat) \<Rightarrow> nat \<Rightarrow> nat \<Rightarrow> SlabAllocator \<Rightarrow> SlabAllocator status" where
  "refill_cache undef cpu slab_shift s =
     (let max_num_cache_entries = max (get_max_num_cache_entries undef slab_shift) 1; cache = Cache cpu slab_shift
      in bindS (move_entries (max_num_cache_entries - fl_size (list_of s cache)) (Global slab_shift) cache s) (\<lambda>s.
         Inr (bump (max_num_cache_entries - fl_size (list_of s cache)) (get_slab_size slab_shift) cache s)))"

definition SlabAllocator_allocate :: "(nat \<Rightarrow> nat) \<Rightarrow> nat \<Rightarrow> nat \<Rightarrow> SlabAllocator \<Rightarrow> (nat \<times> SlabAllocator) status" where
  "SlabAllocator_allocate undef cpu sz s =
     (let slab_shift = get_slab_shift sz; cache = Cache cpu slab_shift
      in if sz = 0 \<or> slab_shift > kMaxSlabClassShift then Inr (0, s)
         else bindS (drain_transferred_cache undef cpu slab_shift s) (\<lambda>s.
           bindS (if fl_size (list_of s cache) \<noteq> 0 then Inr s else refill_cache undef cpu slab_shift s) (\<lambda>s.
           if fl_size (list_of s cache) = 0 then Inr (0, s)
           else bindS (pop_from cache s) (\<lambda>(ret, s).
             let s = s\<lparr>sl_heap := store64 (store64 (sl_heap s) ret sz) (ret + 8) cpu\<rparr>; addr = ret + sizeof_PtrHeader
             in assertS (addr mod kMemAlignment = 0) (Inr (addr, s))))))"

definition SlabAllocator_free :: "(nat \<Rightarrow> nat) \<Rightarrow> nat \<Rightarrow> nat \<Rightarrow> SlabAllocator \<Rightarrow> SlabAllocator status" where
  "SlabAllocator_free undef cpu ptr s =
     (if ptr = 0 then Inr s
      else assertS (\<not> ptr < sl_start s) (assertS (\<not> ptr \<ge> sl_cur s)
        (let hdr = ptr - sizeof_PtrHeader; slab_shift = get_slab_shift (load64 (sl_heap s) hdr)
         in assertS (\<not> (slab_shift < kMinSlabClassShift \<or> slab_shift > kMaxSlabClassShift))
              (do_free undef cpu hdr slab_shift s))))"

text \<open>The core may change between the two parts of \<open>reallocate\<close>.\<close>

definition SlabAllocator_reallocate :: "(nat \<Rightarrow> nat) \<Rightarrow> nat \<Rightarrow> nat \<Rightarrow> nat \<Rightarrow> nat \<Rightarrow> SlabAllocator \<Rightarrow> (nat \<times> SlabAllocator) status" where
  "SlabAllocator_reallocate undef cpu cpu' ptr new_size s =
     assertS (\<not> ptr < sl_start s) (assertS (\<not> ptr \<ge> sl_cur s)
       (let hdr = ptr - sizeof_PtrHeader; sz = load64 (sl_heap s) hdr; slab_shift = get_slab_shift sz
        in bindS (SlabAllocator_allocate undef cpu new_size s) (\<lambda>(new_ptr, s).
           if new_ptr = 0 then Inr (0, s)
           else let s = s\<lparr>sl_heap := store_bytes (sl_heap s) new_ptr (bytes_at (sl_heap s) ptr (min sz new_size))\<rparr>
                in bindS (do_free undef cpu' hdr slab_shift s) (\<lambda>s. Inr (new_ptr, s)))))"

definition SlabAllocator_if_own :: "SlabAllocator \<Rightarrow> nat \<Rightarrow> bool" where
  "SlabAllocator_if_own s ptr \<longleftrightarrow> sl_start s \<le> ptr \<and> ptr < sl_end s"

section \<open>Clients\<close>

text \<open>
  What the threads of the program do with the allocator, in any order and on any core. \<open>objs\<close> is the client's view: the
  bytes of every object it holds. It frees and writes only objects it holds, the second within
  their size; other events are skipped. The bytes of a new object are whatever memory holds.
\<close>

datatype slab_event = Allocate nat nat | Free nat nat | Reallocate nat nat nat nat | Write nat nat "byte list"

fun slab_step :: "(nat \<Rightarrow> nat) \<Rightarrow> slab_event \<Rightarrow> SlabAllocator \<times> (nat \<rightharpoonup> byte list) \<Rightarrow> (SlabAllocator \<times> (nat \<rightharpoonup> byte list)) status" where
  "slab_step undef (Allocate cpu n) (s, objs) =
     (if n < 2 ^ 64 then bindS (SlabAllocator_allocate undef cpu n s) (\<lambda>(p, s).
        Inr (s, if p = 0 then objs else objs(p \<mapsto> bytes_at (sl_heap s) p n))) else Inr (s, objs))"
| "slab_step undef (Free cpu p) (s, objs) =
     (if objs p = None then Inr (s, objs) else bindS (SlabAllocator_free undef cpu p s) (\<lambda>s. Inr (s, objs(p := None))))"
| "slab_step undef (Reallocate cpu cpu' p n) (s, objs) =
     (case objs p of None \<Rightarrow> Inr (s, objs)
      | Some old \<Rightarrow> if n < 2 ^ 64 then bindS (SlabAllocator_reallocate undef cpu cpu' p n s) (\<lambda>(q, s). Inr (s,
          if q = 0 then objs else (objs(p := None))(q \<mapsto> take n old @ bytes_at (sl_heap s) (q + length old) (n - length old))))
        else Inr (s, objs))"
| "slab_step undef (Write p i bs) (s, objs) =
     (case objs p of None \<Rightarrow> Inr (s, objs)
      | Some old \<Rightarrow> if i + length bs \<le> length old
          then Inr (s\<lparr>sl_heap := store_bytes (sl_heap s) (p + i) bs\<rparr>, objs(p \<mapsto> take i old @ bs @ drop (i + length bs) old))
          else Inr (s, objs))"

fun slab_run :: "(nat \<Rightarrow> nat) \<Rightarrow> slab_event list \<Rightarrow> SlabAllocator \<times> (nat \<rightharpoonup> byte list) \<Rightarrow>
    (SlabAllocator \<times> (nat \<rightharpoonup> byte list)) status" where
  "slab_run undef [] x = Inr x"
| "slab_run undef (e # es) x = bindS (slab_step undef e x) (slab_run undef es)"

section \<open>Memory lemmas\<close>

lemma length_bytes_at [simp]: "length (bytes_at m a n) = n"
  by (simp add: bytes_at_def)

lemma bytes_at_cong: "(\<And>x. a \<le> x \<Longrightarrow> x < a + n \<Longrightarrow> m' x = m x) \<Longrightarrow> bytes_at m' a n = bytes_at m a n"
  by (simp add: bytes_at_def)

lemma load64_cong: "(\<And>x. a \<le> x \<Longrightarrow> x < a + 8 \<Longrightarrow> m' x = m x) \<Longrightarrow> load64 m' a = load64 m a"
  using bytes_at_cong [of a 8 m' m] by (simp add: load64_def)

lemma store_bytes_other: "x < a \<or> a + length bs \<le> x \<Longrightarrow> store_bytes m a bs x = m x"
  by (auto simp: store_bytes_def)

lemma bytes_at_store: "bytes_at (store_bytes m a bs) a (length bs) = bs"
  by (rule nth_equalityI) (simp_all add: bytes_at_def store_bytes_def)

lemma load_store64 [simp]: "x < 2 ^ 64 \<Longrightarrow> load64 (store64 m a x) a = x"
  using bytes_at_store [of m a "put_u64 x"] take_put_u64 [of x "[]"] by (simp add: load64_def store64_def is_u64_def)

lemma store64_other: "x < a \<or> a + 8 \<le> x \<Longrightarrow> store64 m a v x = m x"
  by (simp add: store64_def store_bytes_other)

lemma load_store64_other: "b + 8 \<le> a \<or> a + 8 \<le> b \<Longrightarrow> load64 (store64 m a v) b = load64 m b"
  by (rule load64_cong) (auto simp: store64_other)

lemma put_le_0: "put_le k 0 = replicate k 0"
  by (induction k) simp_all

lemma load_zero: "a \<le> b \<Longrightarrow> b + 8 \<le> a + n \<Longrightarrow> load64 (store_bytes m a (replicate n 0)) b = 0"
proof -
  assume "a \<le> b" "b + 8 \<le> a + n"
  then have "bytes_at (store_bytes m a (replicate n 0)) b 8 = put_u64 0"
    by (intro nth_equalityI) (simp_all add: bytes_at_def store_bytes_def put_u64_def put_le_0)
  then show ?thesis using take_put_u64 [of 0 "[]"] by (simp add: load64_def is_u64_def)
qed

section \<open>A free list is a stack\<close>

text \<open>
  A batch at \<open>b\<close> holds the pointers \<open>slots\<close> besides its own, and its first word points to the next batch. \<open>fl_rep m l ps\<close>:
  the list \<open>l\<close> holds the pointers \<open>ps\<close>, the one pushed last first. The words of a batch lie in the object it is
  stored in.
\<close>

fun chain :: "memory \<Rightarrow> nat \<Rightarrow> (nat \<times> nat list) list \<Rightarrow> bool" where
  "chain m h [] \<longleftrightarrow> h = 0"
| "chain m h ((b, slots) # bs) \<longleftrightarrow> h = b \<and> b \<noteq> 0 \<and> length slots < kBatchSize \<and> 0 \<notin> set slots \<and>
     (\<forall>i. 0 < i \<and> i < kBatchSize \<longrightarrow> load64 m (b + 8 * i) = (if i \<le> length slots then slots ! (i - 1) else 0)) \<and>
     chain m (load64 m b) bs"

definition stack_of :: "(nat \<times> nat list) list \<Rightarrow> nat list" where
  "stack_of bs = concat (map (\<lambda>(b, slots). rev slots @ [b]) bs)"

definition cells :: "nat \<Rightarrow> nat set" where
  "cells p = {p..<p + 48}"

definition fl_rep :: "memory \<Rightarrow> FreePtrsList \<Rightarrow> nat list \<Rightarrow> bool" where
  "fl_rep m l ps \<longleftrightarrow> (\<exists>bs. chain m (fl_head l) bs \<and> ps = stack_of bs) \<and> fl_size l = length ps"

lemma kBatchSize_6: "kBatchSize = 6"
  by (simp add: kBatchSize_def kMinSlabClassShift_def)

lemma chain_cong:
  "chain m h bs \<Longrightarrow> (\<And>b x. b \<in> fst ` set bs \<Longrightarrow> x \<in> cells b \<Longrightarrow> m' x = m x) \<Longrightarrow> chain m' h bs"
proof (induction bs arbitrary: h)
  case (Cons a bs)
  obtain b slots where a: "a = (b, slots)" by (cases a)
  have "load64 m' (b + 8 * i) = load64 m (b + 8 * i)" if "i < 6" for i
    using Cons.prems(2) [of b] that by (intro load64_cong) (simp add: a cells_def)
  note same = this [of 0] this
  have "chain m' (load64 m b) bs" by (rule Cons.IH) (use Cons.prems in \<open>auto simp: a\<close>)
  then show ?case using same Cons.prems(1) by (simp add: a kBatchSize_6)
qed simp

lemma stack_heads: "fst ` set bs \<subseteq> set (stack_of bs)"
  by (auto simp: stack_of_def)

lemma fl_rep_cong:
  assumes "fl_rep m l ps" "\<And>p x. p \<in> set ps \<Longrightarrow> x \<in> cells p \<Longrightarrow> m' x = m x"
  shows "fl_rep m' l ps"
proof -
  obtain bs where bs: "chain m (fl_head l) bs" "ps = stack_of bs" using assms(1) by (auto simp: fl_rep_def)
  have "chain m' (fl_head l) bs" by (rule chain_cong [OF bs(1)]) (use assms(2) bs(2) stack_heads in blast)
  then show ?thesis using assms(1) bs by (auto simp: fl_rep_def)
qed

lemma fl_rep_init: "fl_rep m FreePtrsList_init []"
  by (auto simp: fl_rep_def FreePtrsList_init_def stack_of_def intro!: exI [of _ "[]"])

text \<open>Objects on a list do not overlap.\<close>

definition separate :: "nat list \<Rightarrow> bool" where
  "separate ps \<longleftrightarrow> distinct ps \<and> (\<forall>p \<in> set ps. 0 < p \<and> p < 2 ^ 64) \<and>
     (\<forall>p \<in> set ps. \<forall>q \<in> set ps. p \<noteq> q \<longrightarrow> cells p \<inter> cells q = {})"

lemma separate_length: "separate ps \<Longrightarrow> length ps < 2 ^ 64"
proof -
  assume s: "separate ps"
  then have "set ps \<subseteq> {1..<2 ^ 64}" by (auto simp: separate_def)
  then have "card (set ps) \<le> card {1..<2 ^ 64 :: nat}" by (intro card_mono) simp_all
  moreover have "card (set ps) = length ps" using s by (simp add: separate_def distinct_card)
  ultimately show ?thesis by simp
qed

lemma batch_word:
  assumes "chain m h ((b, slots) # bs)" "0 < i" "i < kBatchSize"
  shows "load64 m (b + 8 * i) = (if i \<le> length slots then slots ! (i - 1) else 0)"
    and "i \<le> length slots \<Longrightarrow> slots ! (i - 1) \<noteq> 0"
proof -
  show "load64 m (b + 8 * i) = (if i \<le> length slots then slots ! (i - 1) else 0)" using assms by simp
  assume "i \<le> length slots"
  then have "slots ! (i - 1) \<in> set slots" using assms(2) by simp
  then show "slots ! (i - 1) \<noteq> 0" using assms(1) by (metis chain.simps(2))
qed

lemma used_slot_batch:
  assumes "chain m h ((b, slots) # bs)" "i < kBatchSize"
  shows "used_slot m b i = (if slots = [] \<or> i = 0 then None else Some (min i (length slots)))"
  using assms(2)
proof (induction i)
  case (Suc i)
  note w = batch_word [OF assms(1) _ Suc.prems]
  show ?case
  proof (cases "Suc i \<le> length slots")
    case True
    then show ?thesis using w by auto
  next
    case False
    then show ?thesis using Suc w(1) by (auto simp: min_def not_less_eq_eq)
  qed
qed simp

lemma free_slot_batch:
  assumes "chain m h ((b, slots) # bs)"
  shows "free_slot m b = (if length slots < kBatchSize - 1 then Some (Suc (length slots)) else None)"
proof -
  have "(load64 m (b + 8 * i) = 0) = (length slots < i)" if "i \<in> set [1..<kBatchSize]" for i
    using batch_word [OF assms, of i] that by (auto simp: not_less)
  then have "free_slot m b = find (\<lambda>i. length slots < i) [1..<6]"
    unfolding free_slot_def kBatchSize_6 [symmetric] by (intro find_cong) simp_all
  moreover have "length slots < 6" using assms by (simp add: kBatchSize_6)
  ultimately show ?thesis by (simp add: kBatchSize_6 upt_rec numeral_eq_Suc less_Suc_eq)
qed

definition pops :: "memory \<Rightarrow> FreePtrsList \<Rightarrow> nat \<Rightarrow> nat list \<Rightarrow> bool" where
  "pops m l p ps \<longleftrightarrow> (\<exists>m' l'. FreePtrsList_pop m l = Inr (p, m', l') \<and> fl_rep m' l' ps \<and>
    (\<forall>x. (\<forall>q \<in> set (p # ps). x \<notin> cells q) \<longrightarrow> m' x = m x))"

lemma separate_cells:
  "separate ps \<Longrightarrow> q \<in> set ps \<Longrightarrow> r \<in> set ps \<Longrightarrow> q \<noteq> r \<Longrightarrow> x \<in> cells r \<Longrightarrow> x \<notin> cells q"
  unfolding separate_def by blast

lemma pop_size: "separate (p # ps) \<Longrightarrow> fl_size l = Suc (length ps) \<Longrightarrow> usub64 (fl_size l) 1 = length ps"
  using separate_length [of "p # ps"] by (simp add: usub64_ge)

lemma last_used:
  assumes "chain m h ((b, slots) # rest)"
  shows "used_slot m b (kBatchSize - 1) = (if slots = [] then None else Some (length slots))"
proof -
  have "length slots < 6" using assms by (simp add: kBatchSize_6)
  then show ?thesis using used_slot_batch [OF assms, of "kBatchSize - 1"] by (simp add: kBatchSize_6)
qed

text \<open>Other batches keep their words when one batch is changed.\<close>

lemma chain_rest:
  assumes "chain m h rest" "separate (rev slots @ b # stack_of rest)" "\<And>x. x \<notin> cells b \<Longrightarrow> m' x = m x"
  shows "chain m' h rest"
proof (rule chain_cong [OF assms(1)], rule assms(3))
  fix r x assume "r \<in> fst ` set rest" "x \<in> cells r"
  moreover have "r \<in> set (stack_of rest)" "b \<noteq> r" using calculation(1) stack_heads [of rest] assms(2) by (auto simp: separate_def)
  ultimately show "x \<notin> cells b" using separate_cells [OF assms(2), of b r x] by simp
qed

lemma pop_head:
  assumes "chain m (fl_head l) ((b, []) # rest)" "p # ps = stack_of ((b, []) # rest)" "fl_size l = Suc (length ps)" "separate (p # ps)"
  shows "pops m l p ps"
proof -
  let ?l = "l\<lparr>fl_size := length ps, fl_head := load64 m b\<rparr>"
  have p: "p = b" "ps = stack_of rest" using assms(2) by (simp_all add: stack_of_def)
  have "FreePtrsList_pop m l = Inr (p, m, ?l)"
    using last_used [OF assms(1)] assms(1) pop_size [OF assms(4,3)] p by (simp add: FreePtrsList_pop_def Let_def)
  moreover have "fl_rep m ?l ps" using assms(1) p(2) by (auto simp: fl_rep_def)
  ultimately show ?thesis unfolding pops_def by blast
qed

lemma pop_slot:
  assumes "chain m (fl_head l) ((b, slots) # rest)" "slots = ss @ [q]" "p # ps = stack_of ((b, slots) # rest)"
    "fl_size l = Suc (length ps)" "separate (p # ps)"
  shows "pops m l p ps"
proof -
  let ?i = "length slots" and ?m = "store64 m (b + 8 * length slots) 0"
  have st: "p # ps = rev slots @ b # stack_of rest" using assms(3) by (simp add: stack_of_def)
  have p: "q = p" "ps = rev ss @ b # stack_of rest" using st by (simp_all add: assms(2))
  have h: "fl_head l = b" "b \<noteq> 0" "chain m (load64 m b) rest" "length slots < 6" "0 \<notin> set slots" using assms(1) by (simp_all add: kBatchSize_6)
  have v: "load64 m (b + 8 * i) = (if i \<le> ?i then slots ! (i - 1) else 0)" if "0 < i" "i < 6" for i
    using batch_word(1) [OF assms(1) that(1)] that(2) by (simp add: kBatchSize_6)
  have pop: "FreePtrsList_pop m l = Inr (p, ?m, l\<lparr>fl_size := length ps\<rparr>)"
    using last_used [OF assms(1)] h pop_size [OF assms(5,4)] v [of ?i] assms(2) p(1) by (simp add: FreePtrsList_pop_def Let_def)
  have out: "?m x = m x" if "x \<notin> cells b" for x using that h(4) assms(2) by (intro store64_other) (auto simp: cells_def)
  have "chain ?m (load64 m b) rest" by (rule chain_rest [OF h(3) _ out]) (use assms(5) st in \<open>simp_all\<close>)
  moreover have "load64 ?m b = load64 m b" using assms(2) by (intro load_store64_other) simp
  moreover have "load64 ?m (b + 8 * i) = (if i \<le> length ss then ss ! (i - 1) else 0)" if "0 < i" "i < 6" for i
  proof (cases "i = ?i")
    case False
    then have "load64 ?m (b + 8 * i) = load64 m (b + 8 * i)" by (intro load_store64_other) linarith
    moreover have "i - 1 < length ss" if "i \<le> length ss" using that \<open>0 < i\<close> by simp
    ultimately show ?thesis using v [OF that] False by (auto simp: assms(2) nth_append)
  qed (simp add: assms(2))
  ultimately have "chain ?m (fl_head l) ((b, ss) # rest)" using h assms(2) by (simp add: kBatchSize_6)
  moreover have "ps = stack_of ((b, ss) # rest)" by (simp add: p(2) stack_of_def)
  ultimately have "fl_rep ?m (l\<lparr>fl_size := length ps\<rparr>) ps" unfolding fl_rep_def by (simp del: chain.simps) blast
  moreover have "b \<in> set (p # ps)" by (simp add: st)
  ultimately show ?thesis unfolding pops_def using pop out by blast
qed

lemma pop_stack:
  assumes "fl_rep m l (p # ps)" "separate (p # ps)"
  shows "\<exists>m' l'. FreePtrsList_pop m l = Inr (p, m', l') \<and> fl_rep m' l' ps \<and>
    (\<forall>x. (\<forall>q \<in> set (p # ps). x \<notin> cells q) \<longrightarrow> m' x = m x)"
proof -
  obtain bs where bs: "chain m (fl_head l) bs" "p # ps = stack_of bs" "fl_size l = Suc (length ps)"
    using assms(1) by (auto simp: fl_rep_def)
  then obtain b slots rest where b: "bs = (b, slots) # rest" by (cases bs) (auto simp: stack_of_def)
  have "pops m l p ps"
  proof (cases slots rule: rev_cases)
    case Nil
    then show ?thesis using pop_head bs assms(2) by (simp only: b)
  next
    case (snoc ss q)
    then show ?thesis using pop_slot bs assms(2) by (simp only: b)
  qed
  then show ?thesis by (simp only: pops_def)
qed

definition pushes :: "memory \<Rightarrow> FreePtrsList \<Rightarrow> nat \<Rightarrow> nat list \<Rightarrow> bool" where
  "pushes m l p ps \<longleftrightarrow> (\<exists>m' l'. FreePtrsList_push m l p = (m', l') \<and> fl_rep m' l' (p # ps) \<and>
    (\<forall>x. (\<forall>q \<in> set (p # ps). x \<notin> cells q) \<longrightarrow> m' x = m x))"

lemma pushesI:
  assumes "FreePtrsList_push m l p = (m', l')" "chain m' (fl_head l') bs" "p # ps = stack_of bs" "fl_size l' = Suc (length ps)"
    "b \<in> set (p # ps)" "\<And>x. x \<notin> cells b \<Longrightarrow> m' x = m x"
  shows "pushes m l p ps"
proof -
  have "fl_rep m' l' (p # ps)" unfolding fl_rep_def using assms(2-4) by (metis length_Cons)
  then show ?thesis using assms(1,5,6) unfolding pushes_def by blast
qed

lemma push_size: "separate (p # ps) \<Longrightarrow> fl_size l = length ps \<Longrightarrow> to_u64 (fl_size l + 1) = Suc (length ps)"
  using separate_length [of "p # ps"] by (simp add: to_u64_def)

lemma push_empty:
  assumes "fl_head l = 0" "fl_size l = 0" "separate [p]"
  shows "pushes m l p []"
proof (rule pushesI [where b = p])
  let ?m = "store_bytes m p (replicate 48 0)"
  show "FreePtrsList_push m l p = (?m, l\<lparr>fl_size := 1, fl_head := p\<rparr>)"
    using push_size [OF assms(3), of l] assms(1,2) by (simp add: FreePtrsList_push_def Let_def kBatchSize_6)
  show "chain ?m (fl_head (l\<lparr>fl_size := 1, fl_head := p\<rparr>)) [(p, [])]"
    using assms(3) load_zero [of p p 48 m] by (auto simp: separate_def kBatchSize_6 intro!: load_zero)
  show "?m x = m x" if "x \<notin> cells p" for x using that by (intro store_bytes_other) (auto simp: cells_def)
qed (simp_all add: stack_of_def)

lemma push_slot:
  assumes "chain m (fl_head l) ((b, slots) # rest)" "ps = stack_of ((b, slots) # rest)" "fl_size l = length ps"
    "separate (p # ps)" "length slots < 5"
  shows "pushes m l p ps"
proof (rule pushesI [where b = b])
  let ?i = "Suc (length slots)" let ?m = "store64 m (b + 8 * ?i) p"
  have st: "ps = rev slots @ b # stack_of rest" using assms(2) by (simp add: stack_of_def)
  have h: "fl_head l = b" "b \<noteq> 0" "chain m (load64 m b) rest" "0 \<notin> set slots" using assms(1) by (simp_all)
  show "FreePtrsList_push m l p = (?m, l\<lparr>fl_size := Suc (length ps)\<rparr>)"
    using free_slot_batch [OF assms(1)] assms(5) h(1,2) push_size [OF assms(4,3)] by (simp add: FreePtrsList_push_def Let_def kBatchSize_6)
  show out: "?m x = m x" if "x \<notin> cells b" for x using that assms(5) by (intro store64_other) (auto simp: cells_def)
  have "separate (rev slots @ b # stack_of rest)" using assms(4) st by (simp add: separate_def)
  from chain_rest [OF h(3) this out] have "chain ?m (load64 m b) rest" .
  moreover have "load64 ?m b = load64 m b" by (intro load_store64_other) simp
  moreover have "load64 ?m (b + 8 * i) = (if i \<le> ?i then (slots @ [p]) ! (i - 1) else 0)" if "0 < i" "i < 6" for i
  proof (cases "i = ?i")
    case True
    then show ?thesis using assms(4) by (simp add: separate_def)
  next
    case False
    then have "load64 ?m (b + 8 * i) = load64 m (b + 8 * i)" by (intro load_store64_other) presburger
    moreover have "i - 1 < length slots" if "i \<le> length slots" using that \<open>0 < i\<close> by simp
    ultimately show ?thesis using batch_word(1) [OF assms(1) that(1)] that False by (auto simp: nth_append kBatchSize_6)
  qed
  ultimately show "chain ?m (fl_head (l\<lparr>fl_size := Suc (length ps)\<rparr>)) ((b, slots @ [p]) # rest)"
    using h assms(4,5) by (simp add: kBatchSize_6 separate_def)
qed (use assms(2) in \<open>simp_all add: stack_of_def\<close>)

lemma push_batch:
  assumes "chain m (fl_head l) ((b, slots) # rest)" "ps = stack_of ((b, slots) # rest)" "fl_size l = length ps"
    "separate (p # ps)" "\<not> length slots < 5"
  shows "pushes m l p ps"
proof (rule pushesI [where b = p])
  let ?m = "store_bytes (store64 m p b) (p + 8) (replicate 40 0)" let ?l = "l\<lparr>fl_size := Suc (length ps), fl_head := p\<rparr>"
  have h: "fl_head l = b" "b \<noteq> 0" "b \<in> set ps" using assms(1,2) by (simp_all add: stack_of_def)
  then have b: "b < 2 ^ 64" "0 < p" using assms(4) by (simp_all add: separate_def)
  show "FreePtrsList_push m l p = (?m, ?l)"
    using free_slot_batch [OF assms(1)] assms(5) h(1,2) push_size [OF assms(4,3)] by (simp add: FreePtrsList_push_def Let_def kBatchSize_6)
  show out: "?m x = m x" if "x \<notin> cells p" for x
    using that by (subst store_bytes_other) (auto simp: cells_def intro: store64_other)
  have "chain ?m b ((b, slots) # rest)"
  proof (rule chain_cong [OF assms(1) [unfolded h(1)]], rule out)
    fix r x assume "r \<in> fst ` set ((b, slots) # rest)" "x \<in> cells r"
    moreover have "r \<in> set ps" using calculation(1) stack_heads [of "(b, slots) # rest"] assms(2) by blast
    moreover have "p \<noteq> r" using \<open>r \<in> set ps\<close> assms(4) by (auto simp: separate_def)
    ultimately show "x \<notin> cells p" using separate_cells [OF assms(4), of p r x] by simp
  qed
  moreover have "load64 ?m p = b"
    using b(1) by (subst load64_cong [of p ?m "store64 m p b"]) (auto simp: store_bytes_other)
  moreover have "load64 ?m (p + 8 * i) = 0" if "0 < i" "i < 6" for i using that by (intro load_zero) simp_all
  ultimately show "chain ?m (fl_head ?l) ((p, []) # (b, slots) # rest)" using b(2) by (simp add: kBatchSize_6)
qed (use assms(2) in \<open>simp_all add: stack_of_def\<close>)

lemma push_stack:
  assumes "fl_rep m l ps" "separate (p # ps)"
  shows "\<exists>m' l'. FreePtrsList_push m l p = (m', l') \<and> fl_rep m' l' (p # ps) \<and>
    (\<forall>x. (\<forall>q \<in> set (p # ps). x \<notin> cells q) \<longrightarrow> m' x = m x)"
proof -
  obtain bs where bs: "chain m (fl_head l) bs" "ps = stack_of bs" "fl_size l = length ps"
    using assms(1) by (auto simp: fl_rep_def)
  have "pushes m l p ps"
  proof (cases bs)
    case Nil
    then show ?thesis using bs assms(2) push_empty [of l p m] by (simp add: stack_of_def)
  next
    case (Cons a rest)
    then show ?thesis using bs assms(2) push_slot push_batch by (cases a) metis
  qed
  then show ?thesis by (simp only: pushes_def)
qed

section \<open>Ownership of the carved blocks\<close>

text \<open>
  A block that was carved from the region is on a free list, in the hands of an operation or an
  object of a client with its size in the header. A ghost map \<open>g\<close> gives the owner of each block by its address.
\<close>

datatype owner = On place | Held nat | Live nat

fun class_of :: "place \<Rightarrow> nat" where
  "class_of (Cache c k) = k"
| "class_of (Global k) = k"
| "class_of (Transferred c k) = k"

fun shift_of :: "owner \<Rightarrow> nat" where
  "shift_of (On pl) = class_of pl"
| "shift_of (Held k) = k"
| "shift_of (Live sz) = get_slab_shift sz"

fun settled :: "owner \<Rightarrow> bool" where
  "settled (On pl) = False"
| "settled (Held k) = True"
| "settled (Live sz) = True"

definition extent :: "nat \<Rightarrow> owner \<Rightarrow> nat set" where
  "extent p w = {p..<p + get_slab_size (shift_of w)}"

definition carved :: "(nat \<rightharpoonup> owner) \<Rightarrow> SlabAllocator \<Rightarrow> bool" where
  "carved g s \<longleftrightarrow> 0 < sl_start s \<and> sl_end s < 2 ^ 64 \<and> sl_cur s mod 16 = 0 \<and> sl_start s \<le> sl_cur s \<and> sl_cur s \<le> sl_end s \<and>
     (\<forall>p w. g p = Some w \<longrightarrow> p mod 16 = 0 \<and> sl_start s \<le> p \<and> p + get_slab_size (shift_of w) \<le> sl_cur s \<and>
        5 \<le> shift_of w \<and> shift_of w \<le> 35) \<and>
     (\<forall>p w q v. g p = Some w \<and> g q = Some v \<and> p \<noteq> q \<longrightarrow> extent p w \<inter> extent q v = {})"

definition lists_ok :: "(nat \<rightharpoonup> owner) \<Rightarrow> SlabAllocator \<Rightarrow> bool" where
  "lists_ok g s \<longleftrightarrow> (\<forall>pl. \<exists>ps. fl_rep (sl_heap s) (list_of s pl) ps \<and> distinct ps \<and> set ps = {p. g p = Some (On pl)})"

definition headers_ok :: "(nat \<rightharpoonup> owner) \<Rightarrow> SlabAllocator \<Rightarrow> bool" where
  "headers_ok g s \<longleftrightarrow> (\<forall>p sz. g p = Some (Live sz) \<longrightarrow> 0 < sz \<and> load64 (sl_heap s) p = sz)"

definition slab_inv :: "(nat \<rightharpoonup> owner) \<Rightarrow> SlabAllocator \<Rightarrow> bool" where
  "slab_inv g s \<longleftrightarrow> carved g s \<and> lists_ok g s \<and> headers_ok g s"

text \<open>\<open>keeps q g s g' s'\<close>: the invariant holds afterwards, and no block outside the free lists other than \<open>q\<close> was touched.\<close>

definition keeps :: "nat \<Rightarrow> (nat \<rightharpoonup> owner) \<Rightarrow> SlabAllocator \<Rightarrow> (nat \<rightharpoonup> owner) \<Rightarrow> SlabAllocator \<Rightarrow> bool" where
  "keeps q g s g' s' \<longleftrightarrow> slab_inv g' s' \<and> sl_start s' = sl_start s \<and> sl_end s' = sl_end s \<and>
     (\<forall>p w. p \<noteq> q \<and> settled w \<longrightarrow> (g' p = Some w) = (g p = Some w)) \<and>
     (\<forall>p w x. p \<noteq> q \<and> settled w \<and> g p = Some w \<and> x \<in> extent p w \<longrightarrow> sl_heap s' x = sl_heap s x)"

lemma keeps_inv: "keeps q g s g' s' \<Longrightarrow> slab_inv g' s'"
  by (simp add: keeps_def)

lemma keeps_owner: "keeps q g s g' s' \<Longrightarrow> p \<noteq> q \<Longrightarrow> settled w \<Longrightarrow> (g' p = Some w) = (g p = Some w)"
  by (simp add: keeps_def)

lemma keeps_data: "keeps q g s g' s' \<Longrightarrow> p \<noteq> q \<Longrightarrow> settled w \<Longrightarrow> g p = Some w \<Longrightarrow> x \<in> extent p w \<Longrightarrow> sl_heap s' x = sl_heap s x"
  unfolding keeps_def by blast

lemma keeps_refl: "slab_inv g s \<Longrightarrow> keeps q g s g s"
  by (simp add: keeps_def)

lemma keeps_trans: "keeps q g s g' s' \<Longrightarrow> keeps q g' s' g'' s'' \<Longrightarrow> keeps q g s g'' s''"
  unfolding keeps_def by metis

lemma keeps_free:
  assumes "keeps q g s g' s'" "\<And>w. g q = Some w \<Longrightarrow> \<not> settled w" "\<And>w. g' q = Some w \<Longrightarrow> \<not> settled w"
  shows "keeps r g s g' s'"
  using assms unfolding keeps_def by metis

lemma inv_block:
  assumes "slab_inv g s" "g p = Some w"
  shows "0 < p" "p mod 16 = 0" "sl_start s \<le> p" "p + get_slab_size (shift_of w) \<le> sl_cur s" "5 \<le> shift_of w" "shift_of w \<le> 35"
proof -
  have b: "0 < sl_start s" "p mod 16 = 0 \<and> sl_start s \<le> p \<and> p + get_slab_size (shift_of w) \<le> sl_cur s \<and> 5 \<le> shift_of w \<and> shift_of w \<le> 35"
    using assms unfolding slab_inv_def carved_def by blast+
  show "0 < p" "p mod 16 = 0" "sl_start s \<le> p" "p + get_slab_size (shift_of w) \<le> sl_cur s" "5 \<le> shift_of w" "shift_of w \<le> 35"
    using b by linarith+
qed

lemma keeps_any: "keeps 0 g s g' s' \<Longrightarrow> slab_inv g s \<Longrightarrow> keeps r g s g' s'"
  by (rule keeps_free) (use inv_block(1) keeps_inv in blast)+

lemma cells_extent: "slab_inv g s \<Longrightarrow> g p = Some w \<Longrightarrow> cells p \<subseteq> extent p w"
proof -
  assume "slab_inv g s" "g p = Some w"
  then have "5 \<le> shift_of w" by (simp add: slab_inv_def carved_def)
  then have "(2 :: nat) ^ 5 \<le> 2 ^ shift_of w" by (rule power_increasing) simp
  then show ?thesis by (auto simp: cells_def extent_def get_slab_size_def)
qed

lemma extent_disjoint:
  "slab_inv g s \<Longrightarrow> g p = Some w \<Longrightarrow> g q = Some v \<Longrightarrow> p \<noteq> q \<Longrightarrow> x \<in> extent p w \<Longrightarrow> x \<notin> extent q v"
  unfolding slab_inv_def carved_def by blast

lemma inv_separate:
  assumes "slab_inv g s" "distinct ps" "set ps \<subseteq> dom g"
  shows "separate ps"
proof -
  have "0 < p \<and> p < 2 ^ 64" if p: "p \<in> set ps" for p
  proof -
    obtain w where w: "g p = Some w" using p assms(3) by blast
    have "sl_cur s < 2 ^ 64" using assms(1) by (simp add: slab_inv_def carved_def)
    then show ?thesis using inv_block(1,4) [OF assms(1) w] by linarith
  qed
  moreover have "cells p \<inter> cells q = {}" if pq: "p \<in> set ps" "q \<in> set ps" "p \<noteq> q" for p q
  proof -
    obtain w v where "g p = Some w" "g q = Some v" using assms(3) pq by blast
    then show ?thesis using extent_disjoint [OF assms(1)] cells_extent [OF assms(1)] pq(3) by blast
  qed
  ultimately show ?thesis using assms(2) by (simp add: separate_def)
qed

text \<open>An owner may change as long as the class stays.\<close>

lemma carved_upd:
  assumes "carved g s" "g p = Some w" "shift_of v = shift_of w" "sl_start s' = sl_start s" "sl_end s' = sl_end s" "sl_cur s' = sl_cur s"
  shows "carved (g(p \<mapsto> v)) s'"
proof -
  have e: "extent p v = extent p w" using assms(3) by (simp add: extent_def)
  show ?thesis using assms e unfolding carved_def by (auto simp: fun_upd_apply split: if_splits)
qed

lemma list_of_set_list: "list_of (set_list pl l s) pl' = (if pl' = pl then l else list_of s pl')"
  by (cases pl; cases pl') auto

lemma set_list_fields [simp]:
  "sl_start (set_list pl l s) = sl_start s" "sl_end (set_list pl l s) = sl_end s" "sl_cur (set_list pl l s) = sl_cur s"
  "sl_heap (set_list pl l s) = sl_heap s"
  by (cases pl; simp)+

lemma list_of_fields [simp]:
  "list_of (s\<lparr>sl_heap := m\<rparr>) pl = list_of s pl" "list_of (s\<lparr>sl_cur := c\<rparr>) pl = list_of s pl"
  by (cases pl; simp)+

text \<open>One list and the memory of the blocks on it change; the blocks on it are the old ones, or without or with \<open>p\<close>.\<close>

lemma lists_ok_upd:
  assumes "slab_inv g s" "fl_rep m' l' ps" "distinct ps" "set ps = {q. (g(p \<mapsto> w)) q = Some (On pl)}"
    "\<And>pl'. pl' \<noteq> pl \<Longrightarrow> {q. (g(p \<mapsto> w)) q = Some (On pl')} = {q. g q = Some (On pl')}"
    "\<And>x. (\<And>q. q = p \<or> g q = Some (On pl) \<Longrightarrow> x \<notin> cells q) \<Longrightarrow> m' x = sl_heap s x" "g p = Some v" "v = On pl \<or> settled v"
  shows "lists_ok (g(p \<mapsto> w)) (set_list pl l' (s\<lparr>sl_heap := m'\<rparr>))"
  unfolding lists_ok_def
proof
  fix pl'
  show "\<exists>ps. fl_rep (sl_heap (set_list pl l' (s\<lparr>sl_heap := m'\<rparr>))) (list_of (set_list pl l' (s\<lparr>sl_heap := m'\<rparr>)) pl') ps \<and> distinct ps \<and>
    set ps = {q. (g(p \<mapsto> w)) q = Some (On pl')}"
  proof (cases "pl' = pl")
    case False
    obtain ps' where ps': "fl_rep (sl_heap s) (list_of s pl') ps'" "distinct ps'" "set ps' = {q. g q = Some (On pl')}"
      using assms(1) unfolding slab_inv_def lists_ok_def by blast
    have "fl_rep m' (list_of s pl') ps'"
    proof (rule fl_rep_cong [OF ps'(1)], rule assms(6))
      fix q x r assume q: "q \<in> set ps'" "x \<in> cells q" and r: "r = p \<or> g r = Some (On pl)"
      have gq: "g q = Some (On pl')" using q(1) ps'(3) by simp
      obtain u where u: "g r = Some u" "u \<noteq> On pl'" using r False assms(7,8) by (cases v) auto
      then have "q \<noteq> r" using gq by auto
      then show "x \<notin> cells r"
        using extent_disjoint [OF assms(1) gq u(1), of x] cells_extent [OF assms(1) gq] cells_extent [OF assms(1) u(1)] q(2) by blast
    qed
    then show ?thesis using ps' False assms(5) by (auto simp: list_of_set_list)
  qed (use assms(2-4) in \<open>auto simp: list_of_set_list\<close>)
qed

lemma keeps_upd:
  assumes "slab_inv g s" "g p = Some v" "shift_of w = shift_of v" "\<not> settled v \<or> \<not> settled w" "\<And>sz. w \<noteq> Live sz"
    "lists_ok (g(p \<mapsto> w)) (set_list pl l' (s\<lparr>sl_heap := m'\<rparr>))"
    "\<And>x. (\<And>q. q = p \<or> g q = Some (On pl) \<Longrightarrow> x \<notin> cells q) \<Longrightarrow> m' x = sl_heap s x"
  shows "keeps p g s (g(p \<mapsto> w)) (set_list pl l' (s\<lparr>sl_heap := m'\<rparr>))"
proof -
  have same: "m' x = sl_heap s x" if q: "q \<noteq> p" "settled u" "g q = Some u" "x \<in> extent q u" for q u x
  proof (rule assms(7))
    fix r assume r: "r = p \<or> g r = Some (On pl)"
    have t: "q \<noteq> r" using r q(1-3) by auto
    obtain t where t: "g r = Some t" "q \<noteq> r" using t r assms(2) by blast
    then show "x \<notin> cells r" using extent_disjoint [OF assms(1) q(3) t(1)] cells_extent [OF assms(1) t(1)] q(4) by blast
  qed
  have "load64 m' q = load64 (sl_heap s) q" if q: "q \<noteq> p" "g q = Some (Live sz)" for q sz
    using same [OF q(1) _ q(2)] by (intro load64_cong) (simp add: extent_def get_slab_size_def)
  then have "headers_ok (g(p \<mapsto> w)) (set_list pl l' (s\<lparr>sl_heap := m'\<rparr>))"
    using assms(1,5) by (auto simp: headers_ok_def slab_inv_def)
  moreover have "carved (g(p \<mapsto> w)) (set_list pl l' (s\<lparr>sl_heap := m'\<rparr>))"
    using assms(1-3) by (intro carved_upd) (simp_all add: slab_inv_def)
  ultimately show ?thesis using assms(6) same by (auto simp: keeps_def slab_inv_def)
qed

lemma pop_step:
  assumes "slab_inv g s" "fl_size (list_of s pl) \<noteq> 0"
  obtains p s' where "pop_from pl s = Inr (p, s')" "g p = Some (On pl)" "keeps p g s (g(p \<mapsto> Held (class_of pl))) s'"
    "\<And>pl'. fl_size (list_of s' pl') = fl_size (list_of s pl') - (if pl' = pl then 1 else 0)" "sl_cur s' = sl_cur s"
proof -
  obtain qs where qs: "fl_rep (sl_heap s) (list_of s pl) qs" "distinct qs" "set qs = {p. g p = Some (On pl)}"
    using assms(1) unfolding slab_inv_def lists_ok_def by blast
  then obtain p ps where ps: "qs = p # ps" using assms(2) by (cases qs) (auto simp: fl_rep_def)
  have "separate (p # ps)" using inv_separate [OF assms(1) qs(2)] qs(3) by (auto simp: ps)
  from pop_stack [OF qs(1) [unfolded ps] this] obtain m' l' where m: "FreePtrsList_pop (sl_heap s) (list_of s pl) = Inr (p, m', l')"
    "fl_rep m' l' ps" "\<forall>x. (\<forall>q \<in> set (p # ps). x \<notin> cells q) \<longrightarrow> m' x = sl_heap s x" by blast
  let ?w = "Held (class_of pl)" and ?s = "set_list pl l' (s\<lparr>sl_heap := m'\<rparr>)"
  have gp: "g p = Some (On pl)" and on: "q \<in> set (p # ps) \<longleftrightarrow> g q = Some (On pl)" for q using qs(3) by (auto simp: ps)
  have out: "m' x = sl_heap s x" if "\<And>q. q = p \<or> g q = Some (On pl) \<Longrightarrow> x \<notin> cells q" for x using m(3) that on by blast
  have "set ps = {q. (g(p \<mapsto> ?w)) q = Some (On pl)}" using on qs(2) by (auto simp: ps)
  then have "lists_ok (g(p \<mapsto> ?w)) ?s"
    using qs(2) gp by (intro lists_ok_upd [OF assms(1) m(2)] out) (auto simp: ps)
  then have "keeps p g s (g(p \<mapsto> ?w)) ?s" using gp by (intro keeps_upd [OF assms(1) gp] out) auto
  moreover have "pop_from pl s = Inr (p, ?s)" by (simp add: pop_from_def m(1) status_simps)
  moreover have "fl_size (list_of ?s pl') = fl_size (list_of s pl') - (if pl' = pl then 1 else 0)" for pl'
    using m(2) qs(1) by (auto simp: list_of_set_list fl_rep_def ps)
  ultimately show thesis using gp that [of p ?s] by simp
qed

lemma push_step:
  assumes "slab_inv g s" "g p = Some (Held (class_of pl))"
  shows "keeps p g s (g(p \<mapsto> On pl)) (push_to pl p s)"
    and "fl_size (list_of (push_to pl p s) pl') = fl_size (list_of s pl') + (if pl' = pl then 1 else 0)"
    and "sl_cur (push_to pl p s) = sl_cur s"
proof -
  obtain ps where ps: "fl_rep (sl_heap s) (list_of s pl) ps" "distinct ps" "set ps = {p. g p = Some (On pl)}"
    using assms(1) unfolding slab_inv_def lists_ok_def by blast
  have d: "distinct (p # ps)" "set (p # ps) \<subseteq> dom g" using ps assms(2) by auto
  from push_stack [OF ps(1) inv_separate [OF assms(1) d]] obtain m' l' where m: "FreePtrsList_push (sl_heap s) (list_of s pl) p = (m', l')"
    "fl_rep m' l' (p # ps)" "\<forall>x. (\<forall>q \<in> set (p # ps). x \<notin> cells q) \<longrightarrow> m' x = sl_heap s x" by blast
  have s': "push_to pl p s = set_list pl l' (s\<lparr>sl_heap := m'\<rparr>)" by (simp add: push_to_def m(1))
  have out: "m' x = sl_heap s x" if "\<And>q. q = p \<or> g q = Some (On pl) \<Longrightarrow> x \<notin> cells q" for x using m(3) that ps(3) by auto
  have "lists_ok (g(p \<mapsto> On pl)) (set_list pl l' (s\<lparr>sl_heap := m'\<rparr>))"
    using d ps(3) assms(2) by (intro lists_ok_upd [OF assms(1) m(2)] out) auto
  then show "keeps p g s (g(p \<mapsto> On pl)) (push_to pl p s)"
    unfolding s' using assms(2) by (intro keeps_upd [OF assms] out) auto
  show "fl_size (list_of (push_to pl p s) pl') = fl_size (list_of s pl') + (if pl' = pl then 1 else 0)"
    using m(2) ps(1) by (auto simp: s' list_of_set_list fl_rep_def)
  show "sl_cur (push_to pl p s) = sl_cur s" by (simp add: s')
qed

section \<open>The operations keep the invariant\<close>

lemma move_keeps:
  "slab_inv g s \<Longrightarrow> class_of from = class_of to \<Longrightarrow> from \<noteq> to \<Longrightarrow>
    \<exists>s' g'. move_entries n from to s = Inr s' \<and> keeps q g s g' s' \<and> sl_cur s' = sl_cur s \<and>
      (\<forall>pl. pl \<noteq> from \<and> pl \<noteq> to \<longrightarrow> fl_size (list_of s' pl) = fl_size (list_of s pl))"
proof (induction n arbitrary: g s)
  case (Suc n)
  show ?case
  proof (cases "fl_size (list_of s from) = 0")
    case False
    obtain p s1 where p: "pop_from from s = Inr (p, s1)" "g p = Some (On from)" "keeps p g s (g(p \<mapsto> Held (class_of from))) s1"
      "\<And>pl'. fl_size (list_of s1 pl') = fl_size (list_of s pl') - (if pl' = from then 1 else 0)" "sl_cur s1 = sl_cur s"
      using pop_step [OF Suc.prems(1) False] by blast
    note push = push_step [OF keeps_inv [OF p(3)], of p to]
    have "keeps p g s (g(p \<mapsto> On to)) (push_to to p s1)"
      using keeps_trans [OF p(3)] push(1) Suc.prems(2) by (simp add: fun_upd_upd)
    then have k: "keeps q g s (g(p \<mapsto> On to)) (push_to to p s1)" by (rule keeps_free) (auto simp: p(2))
    obtain s' g' where "move_entries n from to (push_to to p s1) = Inr s'" "keeps q (g(p \<mapsto> On to)) (push_to to p s1) g' s'"
      "sl_cur s' = sl_cur (push_to to p s1)"
      "\<forall>pl. pl \<noteq> from \<and> pl \<noteq> to \<longrightarrow> fl_size (list_of s' pl) = fl_size (list_of (push_to to p s1) pl)"
      using Suc.IH [OF keeps_inv [OF k] Suc.prems(2,3)] by blast
    then show ?thesis using keeps_trans [OF k] False p push(2,3) Suc.prems(2) by (auto simp: status_simps)
  qed (use Suc.prems keeps_refl in auto)
qed (use keeps_refl in auto)

lemma carve_step:
  assumes "slab_inv g s" "sl_cur s + get_slab_size k \<le> sl_end s" "5 \<le> k" "k \<le> 35"
  shows "keeps (sl_cur s) g s (g(sl_cur s \<mapsto> Held k)) (s\<lparr>sl_cur := sl_cur s + get_slab_size k\<rparr>)" and "g (sl_cur s) = None"
proof -
  let ?c = "sl_cur s" let ?g = "g(?c \<mapsto> Held k)" let ?s = "s\<lparr>sl_cur := ?c + get_slab_size k\<rparr>"
  have below: "p < ?c" "extent p w \<subseteq> {..<?c}" if "g p = Some w" for p w
    using inv_block(4) [OF assms(1) that] by (auto simp: extent_def get_slab_size_def)
  then show new: "g ?c = None" by (metis less_irrefl not_Some_eq)
  have "(2 :: nat) ^ k = 2 ^ 4 * 2 ^ (k - 4)" using assms(3) by (simp only: power_add [symmetric]) simp
  then have al: "get_slab_size k mod 16 = 0" by (simp add: get_slab_size_def)
  have cur: "sl_cur s mod 16 = 0" "sl_start s \<le> sl_cur s" using assms(1) by (simp_all add: slab_inv_def carved_def)
  have c: "carved g s" "lists_ok g s" "headers_ok g s" using assms(1) by (simp_all add: slab_inv_def)
  have "extent ?c (Held k) \<subseteq> {?c..}" "{..<?c} \<inter> {?c..} = {}" by (auto simp: extent_def)
  then have e: "extent ?c (Held k) \<inter> extent p w = {}" if "g p = Some w" for p w using below(2) [OF that] by blast
  have "carved ?g ?s"
    unfolding carved_def
  proof (intro conjI allI impI)
    show "p mod 16 = 0" "sl_start ?s \<le> p" "p + get_slab_size (shift_of w) \<le> sl_cur ?s" "5 \<le> shift_of w" "shift_of w \<le> 35"
      if "?g p = Some w" for p w
      using that inv_block [OF assms(1), of p w] cur assms(3,4) by (auto split: if_splits intro: trans_le_add1)
    show "extent p w \<inter> extent r v = {}" if "?g p = Some w \<and> ?g r = Some v \<and> p \<noteq> r" for p w r v
      using that e [of p w] e [of r v] c(1) by (auto simp: carved_def split: if_splits)
  qed (use c(1) al assms(2) in \<open>auto simp: carved_def mod_add_eq\<close>)
  moreover have "{p. ?g p = Some (On pl)} = {p. g p = Some (On pl)}" for pl using new by auto
  then have "lists_ok ?g ?s" using c(2) by (simp add: lists_ok_def del: fun_upd_apply)
  moreover have "headers_ok ?g ?s" using c(3) by (auto simp: headers_ok_def)
  ultimately show "keeps ?c g s ?g ?s" using new by (auto simp: keeps_def slab_inv_def)
qed

lemma push_to_cur: "(push_to pl p s)\<lparr>sl_cur := c\<rparr> = push_to pl p (s\<lparr>sl_cur := c\<rparr>)"
  by (cases pl) (simp_all add: push_to_def split: prod.split)

lemma bump_keeps:
  assumes "slab_inv g s" "5 \<le> class_of to" "class_of to \<le> 35"
  shows "\<exists>g'. keeps q g s g' (bump n (get_slab_size (class_of to)) to s) \<and>
    (\<forall>pl. fl_size (list_of s pl) \<le> fl_size (list_of (bump n (get_slab_size (class_of to)) to s) pl)) \<and>
    (0 < n \<and> sl_cur s + get_slab_size (class_of to) \<le> sl_end s \<longrightarrow> fl_size (list_of (bump n (get_slab_size (class_of to)) to s) to) \<noteq> 0)"
  using assms(1)
proof (induction n arbitrary: g s)
  case (Suc n)
  let ?k = "class_of to" let ?c = "sl_cur s"
  show ?case
  proof (cases "?c + get_slab_size ?k \<le> sl_end s")
    case True
    let ?s = "s\<lparr>sl_cur := ?c + get_slab_size ?k\<rparr>"
    note c = carve_step [OF Suc.prems True assms(2,3)]
    note p = push_step [OF keeps_inv [OF c(1)], of ?c to]
    have "keeps ?c g s (g(?c \<mapsto> On to)) (push_to to ?c ?s)" using keeps_trans [OF c(1)] p(1) by simp
    then have k: "keeps q g s (g(?c \<mapsto> On to)) (push_to to ?c ?s)" by (rule keeps_free) (auto simp: c(2))
    obtain g' where g': "keeps q (g(?c \<mapsto> On to)) (push_to to ?c ?s) g' (bump n (get_slab_size ?k) to (push_to to ?c ?s))"
      "\<forall>pl. fl_size (list_of (push_to to ?c ?s) pl) \<le> fl_size (list_of (bump n (get_slab_size ?k) to (push_to to ?c ?s)) pl)"
      using Suc.IH [OF keeps_inv [OF k]] by blast
    have sz: "fl_size (list_of (push_to to ?c ?s) pl) = fl_size (list_of s pl) + (if pl = to then 1 else 0)" for pl
      using p(2) [of pl] by simp
    have "fl_size (list_of s pl) + (if pl = to then 1 else 0) \<le> fl_size (list_of (bump n (get_slab_size ?k) to (push_to to ?c ?s)) pl)" for pl
      unfolding sz [symmetric] using g'(2) by blast
    note le = this this [of to]
    show ?thesis using keeps_trans [OF k g'(1)] True le
      by (auto simp: push_to_cur intro!: exI [of _ g'] intro: order_trans [OF le_add1])
  qed (use Suc.prems keeps_refl in auto)
qed (use keeps_refl in auto)

text \<open>A freed block goes to a list, and entries of that list to the global one.\<close>

definition gives_back :: "nat \<Rightarrow> (nat \<rightharpoonup> owner) \<Rightarrow> SlabAllocator \<Rightarrow> SlabAllocator \<Rightarrow> bool" where
  "gives_back hdr g s s' \<longleftrightarrow> sl_cur s' = sl_cur s \<and> (\<exists>g'. keeps hdr g s g' s' \<and> (\<forall>w. g' hdr = Some w \<longrightarrow> \<not> settled w))"

lemma push_move_keeps:
  assumes "slab_inv g s" "g hdr = Some (Held (class_of pl))" "pl \<noteq> Global (class_of pl)"
  shows "\<exists>s'. move_entries n pl (Global (class_of pl)) (push_to pl hdr s) = Inr s' \<and> gives_back hdr g s s' \<and>
    (\<forall>pl'. pl' \<noteq> pl \<and> pl' \<noteq> Global (class_of pl) \<longrightarrow> fl_size (list_of s' pl') = fl_size (list_of s pl'))"
proof -
  note p = push_step [OF assms(1,2)]
  obtain s' g' where s': "move_entries n pl (Global (class_of pl)) (push_to pl hdr s) = Inr s'"
    "keeps 0 (g(hdr \<mapsto> On pl)) (push_to pl hdr s) g' s'" "sl_cur s' = sl_cur (push_to pl hdr s)"
    "\<forall>pl'. pl' \<noteq> pl \<and> pl' \<noteq> Global (class_of pl) \<longrightarrow> fl_size (list_of s' pl') = fl_size (list_of (push_to pl hdr s) pl')"
    using move_keeps [OF keeps_inv [OF p(1)], of pl "Global (class_of pl)" n 0] assms(3) by auto
  have "\<not> settled w" if "g' hdr = Some w" for w using s'(2) that inv_block(1) [OF assms(1,2)] by (auto simp: keeps_def)
  then have "gives_back hdr g s s'"
    unfolding gives_back_def using keeps_trans [OF p(1) keeps_any [OF s'(2) keeps_inv [OF p(1)]]] s'(3) p(3) by auto
  then show ?thesis using s'(1,4) p(2) by auto
qed

lemma free_to_cache_keeps:
  assumes "slab_inv g s" "g hdr = Some (Held k)"
  shows "\<exists>s'. free_to_cache_list undef cpu hdr k s = Inr s' \<and> gives_back hdr g s s' \<and>
    (\<forall>c k'. fl_size (list_of s' (Transferred c k')) = fl_size (list_of s (Transferred c k')))"
proof -
  define n where "n = (let n = fl_size (list_of (push_to (Cache cpu k) hdr s) (Cache cpu k)); most = get_max_num_cache_entries undef k
    in if n > most then n - most div 2 else 0)"
  have "free_to_cache_list undef cpu hdr k s = move_entries n (Cache cpu k) (Global k) (push_to (Cache cpu k) hdr s)"
    by (simp add: free_to_cache_list_def n_def Let_def)
  then show ?thesis using push_move_keeps [of g s hdr "Cache cpu k" n] assms by (auto simp del: list_of.simps)
qed

lemma free_to_transferred_keeps:
  assumes "slab_inv g s" "g hdr = Some (Held k)"
  shows "\<exists>s'. free_to_transferred_cache_list undef hdr k s = Inr s' \<and> gives_back hdr g s s'"
proof -
  let ?c = "load64 (sl_heap s) (hdr + 8)"
  define n where "n = (let s = push_to (Transferred ?c k) hdr s; most = get_max_num_cache_entries undef k;
      total = fl_size (list_of s (Transferred ?c k)) + fl_size (list_of s (Cache ?c k))
    in if total > most then min (fl_size (list_of s (Transferred ?c k))) (total - most div 2) else 0)"
  have "free_to_transferred_cache_list undef hdr k s = move_entries n (Transferred ?c k) (Global k) (push_to (Transferred ?c k) hdr s)"
    by (simp add: free_to_transferred_cache_list_def n_def Let_def)
  then show ?thesis using push_move_keeps [of g s hdr "Transferred ?c k" n] assms by auto
qed

lemma drain_keeps:
  "slab_inv g s \<Longrightarrow> n \<le> fl_size (list_of s (Transferred cpu k)) \<Longrightarrow> 
    \<exists>s' g'. drain n undef cpu k s = Inr s' \<and> keeps q g s g' s' \<and> sl_cur s' = sl_cur s"
proof (induction n arbitrary: g s)
  case (Suc n)
  let ?t = "Transferred cpu k"
  have "fl_size (list_of s ?t) \<noteq> 0" using Suc.prems(2) by simp
  from pop_step [OF Suc.prems(1) this] obtain p s1 where p: "pop_from ?t s = Inr (p, s1)" "g p = Some (On ?t)"
    "keeps p g s (g(p \<mapsto> Held (class_of ?t))) s1" "\<And>pl'. fl_size (list_of s1 pl') = fl_size (list_of s pl') - (if pl' = ?t then 1 else 0)"
    "sl_cur s1 = sl_cur s" by blast
  have "(g(p \<mapsto> Held (class_of ?t))) p = Some (Held k)" by simp
  from free_to_cache_keeps [OF keeps_inv [OF p(3)] this] obtain s2 g2 where s2: "free_to_cache_list undef cpu p k s1 = Inr s2"
    "keeps p (g(p \<mapsto> Held (class_of ?t))) s1 g2 s2" "\<And>w. g2 p = Some w \<Longrightarrow> \<not> settled w"
    "fl_size (list_of s2 ?t) = fl_size (list_of s1 ?t)" "sl_cur s2 = sl_cur s1" unfolding gives_back_def by blast
  have k: "keeps q g s g2 s2" by (rule keeps_free [OF keeps_trans [OF p(3) s2(2)]]) (use p(2) s2(3) in auto)
  have "n \<le> fl_size (list_of s2 ?t)" using s2(4) p(4) [of ?t] Suc.prems(2) by simp
  then obtain s' g' where "drain n undef cpu k s2 = Inr s'" "keeps q g2 s2 g' s'" "sl_cur s' = sl_cur s2" using Suc.IH [OF keeps_inv [OF k]] by blast
  then show ?case using keeps_trans [OF k] p(1,5) s2(1,5) by (auto simp: status_simps)
qed (use keeps_refl in auto)

lemma drain_transferred_keeps:
  "slab_inv g s \<Longrightarrow> \<exists>s' g'. drain_transferred_cache undef cpu k s = Inr s' \<and> keeps q g s g' s' \<and> sl_cur s' = sl_cur s"
  using keeps_refl drain_keeps [OF _ order_refl] by (auto simp: drain_transferred_cache_def)

lemma do_free_keeps:
  assumes "slab_inv g s" "g hdr = Some (Held k)"
  shows "\<exists>s' g'. do_free undef cpu hdr k s = Inr s' \<and> keeps hdr g s g' s'"
proof -
  obtain s1 g1 where s1: "drain_transferred_cache undef cpu k s = Inr s1" "keeps 0 g s g1 s1"
    using drain_transferred_keeps [OF assms(1)] by blast
  have g1: "g1 hdr = Some (Held k)" using s1(2) assms(2) inv_block(1) [OF assms] by (simp add: keeps_def)
  note inv = keeps_inv [OF s1(2)]
  have "\<exists>s'. do_free undef cpu hdr k s = Inr s' \<and> gives_back hdr g1 s1 s'"
    using free_to_cache_keeps [OF inv g1, of undef cpu] free_to_transferred_keeps [OF inv g1, of undef] s1(1)
    by (auto simp: do_free_def status_simps)
  then show ?thesis unfolding gives_back_def using keeps_trans [OF keeps_any [OF s1(2) assms(1)]] by blast
qed

lemma refill_keeps:
  assumes "slab_inv g s" "5 \<le> k" "k \<le> 35"
  shows "\<exists>s' g'. refill_cache undef cpu k s = Inr s' \<and> keeps q g s g' s' \<and>
    (sl_cur s + get_slab_size k \<le> sl_end s \<longrightarrow> fl_size (list_of s' (Cache cpu k)) \<noteq> 0)"
proof -
  let ?c = "Cache cpu k" and ?max = "max (get_max_num_cache_entries undef k) 1"
  obtain s1 g1 where s1: "move_entries (?max - fl_size (list_of s ?c)) (Global k) ?c s = Inr s1" "keeps q g s g1 s1" "sl_cur s1 = sl_cur s"
    using move_keeps [OF assms(1), of "Global k" ?c "?max - fl_size (list_of s ?c)" q] by auto
  let ?n = "?max - fl_size (list_of s1 ?c)" let ?s = "bump ?n (get_slab_size k) ?c s1"
  obtain g' where g': "keeps q g1 s1 g' ?s" "fl_size (list_of s1 ?c) \<le> fl_size (list_of ?s ?c)"
    "0 < ?n \<and> sl_cur s1 + get_slab_size k \<le> sl_end s1 \<longrightarrow> fl_size (list_of ?s ?c) \<noteq> 0"
    using bump_keeps [OF keeps_inv [OF s1(2)], of ?c q ?n, unfolded class_of.simps, OF assms(2,3)] by blast
  have "fl_size (list_of ?s ?c) \<noteq> 0" if "sl_cur s + get_slab_size k \<le> sl_end s"
  proof (cases "fl_size (list_of s1 ?c) = 0")
    case True
    have "sl_end s1 = sl_end s" using s1(2) by (simp add: keeps_def)
    then show ?thesis using g'(3) True s1(3) that by simp
  qed (use g'(2) in simp)
  then show ?thesis using s1(1) keeps_trans [OF s1(2) g'(1)] by (auto simp: refill_cache_def Let_def status_simps)
qed

lemma bsr_64_bound: "a < 2 ^ Suc (bsr_64 a)"
proof (induction a rule: bsr_64.induct)
  case (1 a)
  show ?case
  proof (cases "a \<le> 1")
    case False
    then have "a div 2 < 2 ^ Suc (bsr_64 (a div 2))" using 1 by simp
    then show ?thesis using False by (subst bsr_64.simps) (simp add: div_less_iff_less_mult)
  qed (simp add: bsr_64.simps)
qed

lemma slab_shift: "5 \<le> get_slab_shift sz" "sz \<le> 2 ^ get_slab_shift sz"
proof -
  have "5 \<le> bsr_64 (sz - 1) + 1" if "32 < sz"
  proof (rule ccontr)
    assume "\<not> 5 \<le> bsr_64 (sz - 1) + 1"
    then have "(2 :: nat) ^ Suc (bsr_64 (sz - 1)) \<le> 2 ^ 5" by (intro power_increasing) simp_all
    then show False using bsr_64_bound [of "sz - 1"] that by simp
  qed
  then show "5 \<le> get_slab_shift sz" by (simp add: get_slab_shift_def kMinSlabClassShift_def)
  show "sz \<le> 2 ^ get_slab_shift sz"
    using bsr_64_bound [of "sz - 1"] unfolding get_slab_shift_def by (auto simp del: power_Suc)
qed

text \<open>The header of a block is written, or data behind it: the lists and the other blocks do not change.\<close>

lemma write_step:
  assumes "slab_inv g s" "g p = Some v" "settled v" "shift_of w = shift_of v" "settled w"
    "\<And>x. x \<notin> extent p v \<Longrightarrow> m x = sl_heap s x" "\<And>sz. w = Live sz \<Longrightarrow> 0 < sz \<and> load64 m p = sz"
  shows "keeps p g s (g(p \<mapsto> w)) (s\<lparr>sl_heap := m\<rparr>)"
proof -
  have same: "m x = sl_heap s x" if "q \<noteq> p" "g q = Some u" "x \<in> extent q u" for q u x
    using assms(6) extent_disjoint [OF assms(1) that(2) assms(2) that(1,3)] by blast
  have on: "{q. (g(p \<mapsto> w)) q = Some (On pl)} = {q. g q = Some (On pl)}" for pl using assms(2,3,5) by auto
  have "lists_ok (g(p \<mapsto> w)) (s\<lparr>sl_heap := m\<rparr>)"
    unfolding lists_ok_def
  proof
    fix pl
    obtain ps where ps: "fl_rep (sl_heap s) (list_of s pl) ps" "distinct ps" "set ps = {q. g q = Some (On pl)}"
      using assms(1) unfolding slab_inv_def lists_ok_def by blast
    have "fl_rep m (list_of s pl) ps"
    proof (rule fl_rep_cong [OF ps(1)])
      fix q x assume q: "q \<in> set ps" "x \<in> cells q"
      then have "g q = Some (On pl)" "q \<noteq> p" using ps(3) assms(2,3) by auto
      then show "m x = sl_heap s x" using same [of q "On pl"] cells_extent [OF assms(1)] q(2) by blast
    qed
    then show "\<exists>ps. fl_rep (sl_heap (s\<lparr>sl_heap := m\<rparr>)) (list_of (s\<lparr>sl_heap := m\<rparr>) pl) ps \<and> distinct ps \<and>
      set ps = {q. (g(p \<mapsto> w)) q = Some (On pl)}" unfolding on using ps by auto
  qed
  moreover have "load64 m q = load64 (sl_heap s) q" if "q \<noteq> p" "g q = Some (Live sz)" for q sz
    using same [OF that] by (intro load64_cong) (simp add: extent_def get_slab_size_def)
  then have "headers_ok (g(p \<mapsto> w)) (s\<lparr>sl_heap := m\<rparr>)" using assms(1,7) by (auto simp: headers_ok_def slab_inv_def)
  moreover have "carved (g(p \<mapsto> w)) (s\<lparr>sl_heap := m\<rparr>)" using assms(1,2,4) by (intro carved_upd) (simp_all add: slab_inv_def)
  ultimately show ?thesis using same by (auto simp: keeps_def slab_inv_def)
qed

lemma kMaxSlabClassShift_35 [simp]: "kMaxSlabClassShift = 35"
  by (simp add: kMaxSlabClassShift_def)

lemma alloc_step:
  assumes "slab_inv g s" "0 < sz" "get_slab_shift sz \<le> 35" "fl_size (list_of s (Cache cpu (get_slab_shift sz))) \<noteq> 0"
  shows "\<exists>p s'. bindS (pop_from (Cache cpu (get_slab_shift sz)) s) (\<lambda>(ret, s).
      let s = s\<lparr>sl_heap := store64 (store64 (sl_heap s) ret sz) (ret + 8) cpu\<rparr>; addr = ret + 16
      in assertS (addr mod kMemAlignment = 0) (Inr (addr, s))) = Inr (p + 16, s') \<and>
    keeps p g s (g(p \<mapsto> Live sz)) s' \<and> g p = Some (On (Cache cpu (get_slab_shift sz)))"
proof -
  let ?k = "get_slab_shift sz" let ?c = "Cache cpu ?k"
  obtain p s1 where p: "pop_from ?c s = Inr (p, s1)" "g p = Some (On ?c)" "keeps p g s (g(p \<mapsto> Held (class_of ?c))) s1"
    using pop_step [OF assms(1,4)] by blast
  let ?m = "store64 (store64 (sl_heap s1) p sz) (p + 8) cpu"
  note inv = keeps_inv [OF p(3)]
  have "sz \<le> 2 ^ 35" by (rule order_trans [OF slab_shift(2)]) (use assms(3) in \<open>intro power_increasing, simp_all\<close>)
  then have "load64 ?m p = sz" by (subst load_store64_other) simp_all
  moreover have "?m x = sl_heap s1 x" if "x \<notin> extent p (Held ?k)" for x
    using that by (subst store64_other; (subst store64_other)?) (auto simp: extent_def get_slab_size_def)
  ultimately have "keeps p (g(p \<mapsto> Held ?k)) s1 ((g(p \<mapsto> Held ?k))(p \<mapsto> Live sz)) (s1\<lparr>sl_heap := ?m\<rparr>)"
    using inv assms(2) by (intro write_step [where v = "Held ?k"]) auto
  then have "keeps p g s (g(p \<mapsto> Live sz)) (s1\<lparr>sl_heap := ?m\<rparr>)" using keeps_trans [OF p(3)] by simp
  moreover have "(p + 16) mod kMemAlignment = 0" using inv_block(2) [OF assms(1) p(2)] by (simp add: kMemAlignment_def)
  ultimately show ?thesis using p(1,2) by (auto simp: status_simps Let_def)
qed

text \<open>A call of \<open>allocate\<close> returns null, or a block that no client had.\<close>

definition allocates :: "(nat \<rightharpoonup> owner) \<Rightarrow> SlabAllocator \<Rightarrow> nat \<Rightarrow> nat \<Rightarrow> SlabAllocator \<Rightarrow> bool" where
  "allocates g s sz p s' \<longleftrightarrow> (\<exists>g'. if p = 0 then keeps 0 g s g' s'
     else 16 \<le> p \<and> keeps (p - 16) g s g' s' \<and> g' (p - 16) = Some (Live sz) \<and> (\<forall>w. g (p - 16) = Some w \<longrightarrow> \<not> settled w))"

lemma allocate_keeps:
  assumes "slab_inv g s"
  shows "\<exists>p s'. SlabAllocator_allocate undef cpu sz s = Inr (p, s') \<and> allocates g s sz p s' \<and>
    (0 < sz \<and> get_slab_shift sz \<le> 35 \<and> sl_cur s + get_slab_size (get_slab_shift sz) \<le> sl_end s \<longrightarrow> p \<noteq> 0)"
proof (cases "sz = 0 \<or> get_slab_shift sz > 35")
  case True
  then show ?thesis using keeps_refl [OF assms, of 0] by (auto simp: SlabAllocator_allocate_def allocates_def)
next
  case False
  let ?k = "get_slab_shift sz" let ?c = "Cache cpu ?k"
  let ?room = "sl_cur s + get_slab_size ?k \<le> sl_end s"
  obtain s1 g1 where s1: "drain_transferred_cache undef cpu ?k s = Inr s1" "keeps 0 g s g1 s1" "sl_cur s1 = sl_cur s"
    using drain_transferred_keeps [OF assms] by blast
  have e: "sl_end s1 = sl_end s" using s1(2) by (simp add: keeps_def)
  obtain s2 g2 where s2: "(if fl_size (list_of s1 ?c) \<noteq> 0 then Inr s1 else refill_cache undef cpu ?k s1) = Inr s2" "keeps 0 g1 s1 g2 s2"
    "?room \<longrightarrow> fl_size (list_of s2 ?c) \<noteq> 0"
  proof (cases "fl_size (list_of s1 ?c) = 0")
    case True
    then show thesis using that refill_keeps [OF keeps_inv [OF s1(2)] slab_shift(1), of sz undef cpu 0] False s1(3) e by auto
  qed (use that keeps_refl [OF keeps_inv [OF s1(2)]] in auto)
  note k = keeps_trans [OF s1(2) s2(2)]
  have run: "SlabAllocator_allocate undef cpu sz s = (if fl_size (list_of s2 ?c) = 0 then Inr (0, s2)
    else bindS (pop_from ?c s2) (\<lambda>(ret, s).
      let s = s\<lparr>sl_heap := store64 (store64 (sl_heap s) ret sz) (ret + 8) cpu\<rparr>; addr = ret + 16
      in assertS (addr mod kMemAlignment = 0) (Inr (addr, s))))"
    using False s1(1) s2(1) by (simp add: SlabAllocator_allocate_def Let_def status_simps del: list_of.simps)
  show ?thesis
  proof (cases "fl_size (list_of s2 ?c) = 0")
    case True
    then show ?thesis using run s2(3) k by (auto simp: allocates_def)
  next
    case c: False
    obtain p s' where p: "SlabAllocator_allocate undef cpu sz s = Inr (p + 16, s')" "keeps p g2 s2 (g2(p \<mapsto> Live sz)) s'" "g2 p = Some (On ?c)"
      using alloc_step [OF keeps_inv [OF k] _ _ c] False run c by auto
    have "keeps p g s (g2(p \<mapsto> Live sz)) s'" using keeps_trans [OF keeps_any [OF k assms] p(2)] .
    moreover have "\<not> settled w" if "g p = Some w" for w using keeps_owner [OF k, of p w] p(3) that inv_block(1) [OF assms that] by auto
    ultimately show ?thesis using p(1) by (intro exI [of _ "p + 16"] exI [of _ s']) (auto simp: allocates_def)
  qed
qed

section \<open>Objects of clients\<close>

definition objects_ok :: "nat \<times> nat \<Rightarrow> (nat \<rightharpoonup> owner) \<Rightarrow> SlabAllocator \<Rightarrow> (nat \<rightharpoonup> byte list) \<Rightarrow> bool" where
  "objects_ok r g s objs \<longleftrightarrow> slab_inv g s \<and> r = (sl_start s, sl_end s) \<and>
     (\<forall>p bs. objs p = Some bs \<longrightarrow> 16 \<le> p \<and> g (p - 16) = Some (Live (length bs)) \<and> bytes_at (sl_heap s) p (length bs) = bs)"

lemma objects_bytes: "objects_ok r g s objs \<Longrightarrow> objs p = Some bs \<Longrightarrow> bytes_at (sl_heap s) p (length bs) = bs"
  by (simp add: objects_ok_def)

lemma payload: "16 \<le> p \<Longrightarrow> p \<le> x \<Longrightarrow> x < p + sz \<Longrightarrow> x \<in> extent (p - 16) (Live sz)"
  using slab_shift(2) [of sz] by (simp add: extent_def get_slab_size_def)

lemma objects_keeps:
  assumes "objects_ok r g s objs" "keeps q g s g' s'"
  shows "objects_ok r g' s' (objs(q + 16 := None))"
proof -
  have "16 \<le> p \<and> g' (p - 16) = Some (Live (length bs)) \<and> bytes_at (sl_heap s') p (length bs) = bs"
    if p: "objs p = Some bs" "p \<noteq> q + 16" for p bs
  proof -
    have o: "16 \<le> p" "g (p - 16) = Some (Live (length bs))" "bytes_at (sl_heap s) p (length bs) = bs"
      using assms(1) p(1) by (auto simp: objects_ok_def)
    have q: "p - 16 \<noteq> q" using o(1) p(2) by linarith
    have "bytes_at (sl_heap s') p (length bs) = bytes_at (sl_heap s) p (length bs)"
      by (rule bytes_at_cong) (use keeps_data [OF assms(2) q _ o(2)] payload [OF o(1)] in simp)
    then show ?thesis using o keeps_owner [OF assms(2) q, of "Live (length bs)"] by simp
  qed
  then show ?thesis using keeps_inv [OF assms(2)] assms by (auto simp: objects_ok_def keeps_def)
qed

lemma objects_add:
  assumes "objects_ok r g s objs" "g p = Some (Live (length bs))" "bytes_at (sl_heap s) (p + 16) (length bs) = bs"
  shows "objects_ok r g s (objs(p + 16 \<mapsto> bs))"
  using assms by (auto simp: objects_ok_def)

lemma objects_no_change: "objs (q + 16) = None \<Longrightarrow> objs(q + 16 := None) = objs"
  by (simp add: fun_upd_idem)

lemma objects_fresh: "objects_ok r g s objs \<Longrightarrow> (\<And>w. g q = Some w \<Longrightarrow> \<not> settled w) \<Longrightarrow> objs (q + 16) = None"
  unfolding objects_ok_def by (metis add_diff_cancel_right' not_Some_eq settled.simps(3))

lemma objects_null:
  assumes "objects_ok r g s objs" "keeps 0 g s g' s'"
  shows "objects_ok r g' s' objs"
proof -
  have "slab_inv g s" using assms(1) by (simp add: objects_ok_def)
  then have "objs (0 + 16) = None" using objects_fresh [OF assms(1), of 0] inv_block(1) [of g s 0] by blast
  then show ?thesis using objects_keeps [OF assms] by (simp only: objects_no_change)
qed

text \<open>An allocation seen by the client.\<close>

lemma objects_allocates:
  assumes "objects_ok r g s objs" "allocates g s sz p s'"
  obtains g' where "if p = 0 then objects_ok r g' s' objs
    else 16 \<le> p \<and> objects_ok r g' s' objs \<and> g' (p - 16) = Some (Live sz) \<and> objs p = None \<and> (\<forall>w. g (p - 16) = Some w \<longrightarrow> \<not> settled w) \<and>
      keeps (p - 16) g s g' s'"
proof (cases "p = 0")
  case True
  then show thesis using assms that objects_null [OF assms(1)] unfolding allocates_def by (metis (full_types))
next
  case False
  then obtain g' where g': "16 \<le> p" "keeps (p - 16) g s g' s'" "g' (p - 16) = Some (Live sz)" "\<And>w. g (p - 16) = Some w \<Longrightarrow> \<not> settled w"
    using assms(2) by (auto simp: allocates_def)
  have none: "objs (p - 16 + 16) = None" by (rule objects_fresh [OF assms(1) g'(4)])
  then have "objects_ok r g' s' objs" using objects_keeps [OF assms(1) g'(2)] by (simp only: objects_no_change)
  then show thesis using that [of g'] False g' none by simp
qed

lemma bytes_at_0 [simp]: "bytes_at m a 0 = []"
  by (simp add: bytes_at_def)

lemma bytes_at_append: "bytes_at m a (i + j) = bytes_at m a i @ bytes_at m (a + i) j"
  by (simp add: bytes_at_def upt_add_eq_append [of a "a + i" j] flip: add.assoc)

lemma bytes_at_split: "bytes_at m a n = bytes_at m a (min k n) @ bytes_at m (a + k) (n - k)"
  using bytes_at_append [of m a k "n - k"] by (cases "n \<le> k") (simp_all add: min_def)

lemma take_bytes_at: "take n (bytes_at m a k) = bytes_at m a (min k n)"
  by (simp add: bytes_at_def take_map min_def take_upt)

lemma free_ok:
  assumes "objects_ok r g s objs" "objs p = Some bs"
  shows "\<exists>s' g'. do_free undef cpu (p - 16) (get_slab_shift (length bs)) s = Inr s' \<and> objects_ok r g' s' (objs(p := None))"
    and "sl_start s \<le> p" "p < sl_cur s" "load64 (sl_heap s) (p - 16) = length bs" "5 \<le> get_slab_shift (length bs)" "get_slab_shift (length bs) \<le> 35"
proof -
  let ?k = "get_slab_shift (length bs)"
  have inv: "slab_inv g s" and o: "16 \<le> p" "g (p - 16) = Some (Live (length bs))" using assms by (auto simp: objects_ok_def)
  note b = inv_block [OF inv o(2)]
  have "0 < (2 :: nat) ^ ?k" by simp
  then show "sl_start s \<le> p" "p < sl_cur s" using b(3,4) o(1) unfolding get_slab_size_def shift_of.simps by linarith+
  show "load64 (sl_heap s) (p - 16) = length bs" using inv o(2) by (simp add: slab_inv_def headers_ok_def)
  show "5 \<le> ?k" "?k \<le> 35" using b(5,6) by simp_all
  have k: "keeps (p - 16) g s (g(p - 16 \<mapsto> Held ?k)) (s\<lparr>sl_heap := sl_heap s\<rparr>)" by (rule write_step [OF inv o(2)]) auto
  then obtain s' g' where s': "do_free undef cpu (p - 16) ?k s = Inr s'" "keeps (p - 16) (g(p - 16 \<mapsto> Held ?k)) s g' s'"
    using do_free_keeps [of "g(p - 16 \<mapsto> Held ?k)" s "p - 16" ?k undef cpu] keeps_inv [OF k] by auto
  have "objects_ok r g' s' (objs(p - 16 + 16 := None))" using keeps_trans k s'(2) by (intro objects_keeps [OF assms(1)]) simp
  then show "\<exists>s' g'. do_free undef cpu (p - 16) ?k s = Inr s' \<and> objects_ok r g' s' (objs(p := None))"
    using s'(1) o(1) by auto
qed

lemma object_write:
  assumes "slab_inv g s" "16 \<le> p" "g (p - 16) = Some (Live sz)" "i + length bs \<le> sz"
  shows "keeps (p - 16) g s g (s\<lparr>sl_heap := store_bytes (sl_heap s) (p + i) bs\<rparr>)"
proof -
  let ?m = "store_bytes (sl_heap s) (p + i) bs"
  have "?m x = sl_heap s x" if "x \<notin> extent (p - 16) (Live sz)" for x
    using that payload [OF assms(2), of x sz] assms(4) by (intro store_bytes_other) linarith
  moreover have "load64 ?m (p - 16) = sz"
    using assms(1-3) by (subst load64_cong [of _ _ "sl_heap s"]) (auto simp: slab_inv_def headers_ok_def intro: store_bytes_other)
  ultimately have "keeps (p - 16) g s (g(p - 16 \<mapsto> Live sz)) (s\<lparr>sl_heap := ?m\<rparr>)"
    using assms(1,3) by (intro write_step [OF assms(1,3)]) (auto simp: slab_inv_def headers_ok_def)
  then show ?thesis using assms(3) by (simp add: fun_upd_idem)
qed

lemma bytes_at_store_part:
  assumes "bytes_at m p (length old) = old" "i + length bs \<le> length old"
  shows "bytes_at (store_bytes m (p + i) bs) p (length old) = take i old @ bs @ drop (i + length bs) old"
proof (rule nth_equalityI)
  have m: "m (p + j) = old ! j" if "j < length old" for j using that arg_cong [OF assms(1), of "\<lambda>xs. xs ! j"] by (simp add: bytes_at_def)
  fix j assume "j < length (bytes_at (store_bytes m (p + i) bs) p (length old))"
  then show "bytes_at (store_bytes m (p + i) bs) p (length old) ! j = (take i old @ bs @ drop (i + length bs) old) ! j"
    using assms(2) m [of j] by (auto simp: bytes_at_def store_bytes_def nth_append)
qed (use assms(2) in simp)

lemma reallocate_ok:
  assumes "objects_ok r g s objs" "objs p = Some old"
  shows "\<exists>q s' g'. SlabAllocator_reallocate undef cpu cpu' p n s = Inr (q, s') \<and> objects_ok r g' s' (if q = 0 then objs
    else (objs(p := None))(q \<mapsto> take n old @ bytes_at (sl_heap s') (q + length old) (n - length old)))"
proof -
  have inv: "slab_inv g s" and o: "16 \<le> p" "g (p - 16) = Some (Live (length old))" "bytes_at (sl_heap s) p (length old) = old"
    using assms by (auto simp: objects_ok_def)
  note f = free_ok [OF assms]
  obtain q s1 where q: "SlabAllocator_allocate undef cpu n s = Inr (q, s1)" "allocates g s n q s1" using allocate_keeps [OF inv] by blast
  obtain g1 where g1: "if q = 0 then objects_ok r g1 s1 objs
    else 16 \<le> q \<and> objects_ok r g1 s1 objs \<and> g1 (q - 16) = Some (Live n) \<and> objs q = None \<and> (\<forall>w. g (q - 16) = Some w \<longrightarrow> \<not> settled w) \<and>
      keeps (q - 16) g s g1 s1"
    using objects_allocates [OF assms(1) q(2)] by blast
  show ?thesis
  proof (cases "q = 0")
    case True
    then show ?thesis using q(1) g1 f(2,3) by (auto simp: SlabAllocator_reallocate_def Let_def status_simps)
  next
    case False
    let ?k = "min (length old) n" let ?bs = "bytes_at (sl_heap s1) p ?k" let ?s2 = "s1\<lparr>sl_heap := store_bytes (sl_heap s1) q ?bs\<rparr>"
    have o1: "objects_ok r g1 s1 objs" and n: "16 \<le> q" "g1 (q - 16) = Some (Live n)" "objs q = None" using g1 False by auto
    have bs: "?bs = take n old" using o1 assms(2) take_bytes_at [of n "sl_heap s1" p "length old"] by (auto simp: objects_ok_def)
    have "slab_inv g1 s1" using o1 by (simp add: objects_ok_def)
    from object_write [OF this n(1,2), of 0 ?bs] have "keeps (q - 16) g1 s1 g1 ?s2" by simp
    from objects_keeps [OF o1 this] have o2: "objects_ok r g1 ?s2 objs" using n(1,3) by (simp add: fun_upd_idem)
    have "bytes_at (sl_heap ?s2) q ?k = take n old" using bytes_at_store [of "sl_heap s1" q ?bs] by (simp add: bs)
    then have new: "bytes_at (sl_heap ?s2) q n = take n old @ bytes_at (sl_heap ?s2) (q + length old) (n - length old)"
      using bytes_at_split [of "sl_heap ?s2" q n "length old"] by simp
    have o3: "objects_ok r g1 ?s2 (objs(q \<mapsto> bytes_at (sl_heap ?s2) q n))"
      using objects_add [OF o2, of "q - 16" "bytes_at (sl_heap ?s2) q n"] n by simp
    have pq: "p \<noteq> q" using n(3) assms(2) by auto
    then obtain s' g' where s': "do_free undef cpu' (p - 16) (get_slab_shift (length old)) ?s2 = Inr s'"
      "objects_ok r g' s' ((objs(q \<mapsto> bytes_at (sl_heap ?s2) q n))(p := None))"
      using free_ok(1) [OF o3, of p old undef cpu'] assms(2) by auto
    have "bytes_at (sl_heap s') q n = bytes_at (sl_heap ?s2) q n"
      using objects_bytes [OF s'(2), of q "bytes_at (sl_heap ?s2) q n"] pq by simp
    then have "bytes_at (sl_heap s') (q + length old) (n - length old) = bytes_at (sl_heap ?s2) (q + length old) (n - length old)"
      using bytes_at_split [of "sl_heap s'" q n "length old"] bytes_at_split [of "sl_heap ?s2" q n "length old"] by simp
    then have "objects_ok r g' s' ((objs(p := None))(q \<mapsto> take n old @ bytes_at (sl_heap s') (q + length old) (n - length old)))"
      using s'(2) pq by (simp add: new [simplified] fun_upd_twist)
    moreover have "SlabAllocator_reallocate undef cpu cpu' p n s = Inr (q, s')"
      using q(1) f(2-4) False s'(1) by (simp add: SlabAllocator_reallocate_def Let_def status_simps)
    ultimately show ?thesis using False by auto
  qed
qed

definition step_ok :: "nat \<times> nat \<Rightarrow> (nat \<Rightarrow> nat) \<Rightarrow> slab_event \<Rightarrow> SlabAllocator \<Rightarrow> (nat \<rightharpoonup> byte list) \<Rightarrow> bool" where
  "step_ok r undef e s objs \<longleftrightarrow> (\<exists>s' objs' g'. slab_step undef e (s, objs) = Inr (s', objs') \<and> objects_ok r g' s' objs')"

lemma step_allocate:
  assumes "objects_ok r g s objs"
  shows "step_ok r undef (Allocate cpu n) s objs"
proof -
  have "slab_inv g s" using assms by (simp add: objects_ok_def)
  then obtain p s1 where p: "SlabAllocator_allocate undef cpu n s = Inr (p, s1)" "allocates g s n p s1" using allocate_keeps by blast
  obtain g1 where "if p = 0 then objects_ok r g1 s1 objs else 16 \<le> p \<and> objects_ok r g1 s1 objs \<and> g1 (p - 16) = Some (Live n)"
    using objects_allocates [OF assms p(2)] by (metis (full_types))
  then show ?thesis using p(1) assms objects_add [of r g1 s1 objs "p - 16" "bytes_at (sl_heap s1) p n"]
    by (cases "p = 0") (auto simp: step_ok_def status_simps)
qed

lemma step_free:
  assumes "objects_ok r g s objs"
  shows "step_ok r undef (Free cpu p) s objs"
proof (cases "objs p")
  case (Some bs)
  note f = free_ok [OF assms Some]
  have "p \<noteq> 0" using assms Some by (fastforce simp: objects_ok_def)
  then show ?thesis using Some f(1) [of undef cpu] f(2-6)
    by (auto simp: step_ok_def SlabAllocator_free_def Let_def status_simps kMinSlabClassShift_def)
qed (use assms in \<open>auto simp: step_ok_def\<close>)

lemma step_reallocate:
  assumes "objects_ok r g s objs"
  shows "step_ok r undef (Reallocate cpu cpu' p n) s objs"
proof (cases "objs p")
  case (Some old)
  obtain q s' g' where q: "SlabAllocator_reallocate undef cpu cpu' p n s = Inr (q, s')" "objects_ok r g' s' (if q = 0 then objs
      else (objs(p := None))(q \<mapsto> take n old @ bytes_at (sl_heap s') (q + length old) (n - length old)))"
    using reallocate_ok [OF assms Some] by blast
  show ?thesis
  proof (cases "n < 2 ^ 64")
    case True
    show ?thesis unfolding step_ok_def by (intro exI, rule conjI [OF _ q(2)]) (use True Some q(1) in \<open>simp add: status_simps\<close>)
  qed (use Some assms in \<open>auto simp: step_ok_def\<close>)
qed (use assms in \<open>auto simp: step_ok_def\<close>)

lemma step_write:
  assumes "objects_ok r g s objs"
  shows "step_ok r undef (Write p i bs) s objs"
proof (cases "\<exists>old. objs p = Some old \<and> i + length bs \<le> length old")
  case True
  then obtain old where old: "objs p = Some old" "i + length bs \<le> length old" by blast
  let ?s = "s\<lparr>sl_heap := store_bytes (sl_heap s) (p + i) bs\<rparr>" let ?new = "take i old @ bs @ drop (i + length bs) old"
  have inv: "slab_inv g s" and o: "16 \<le> p" "g (p - 16) = Some (Live (length old))" "bytes_at (sl_heap s) p (length old) = old"
    using assms old(1) by (auto simp: objects_ok_def)
  have "objects_ok r g ?s (objs(p := None))"
    using objects_keeps [OF assms object_write [OF inv o(1,2) old(2)]] o(1) by simp
  then have "objects_ok r g ?s (objs(p \<mapsto> ?new))"
    using objects_add [of r g ?s "objs(p := None)" "p - 16" ?new] o(1,2) old(2) bytes_at_store_part [OF o(3) old(2)] by simp
  then show ?thesis using old by (auto simp: step_ok_def)
qed (use assms in \<open>auto simp: step_ok_def split: option.split\<close>)

lemma slab_step_ok:
  assumes "objects_ok r g s objs"
  shows "\<exists>s' objs' g'. slab_step undef e (s, objs) = Inr (s', objs') \<and> objects_ok r g' s' objs'"
  using step_allocate [OF assms] step_free [OF assms] step_reallocate [OF assms] step_write [OF assms]
  by (cases e) (simp_all only: step_ok_def)

lemma slab_run_ok:
  "objects_ok r g s objs \<Longrightarrow> \<exists>s' objs' g'. slab_run undef es (s, objs) = Inr (s', objs') \<and> objects_ok r g' s' objs'"
proof (induction es arbitrary: g s objs)
  case (Cons e es)
  obtain s1 objs1 g1 where "slab_step undef e (s, objs) = Inr (s1, objs1)" "objects_ok r g1 s1 objs1"
    using slab_step_ok [OF Cons.prems] by blast
  then show ?case using Cons.IH by (simp add: status_simps)
qed auto

lemma objects_disjoint:
  assumes "objects_ok r g s objs" "objs p = Some bs" "objs q = Some cs" "p \<noteq> q"
  shows "p + length bs \<le> q \<or> q + length cs \<le> p"
proof -
  have o: "16 \<le> p" "g (p - 16) = Some (Live (length bs))" "16 \<le> q" "g (q - 16) = Some (Live (length cs))" and inv: "slab_inv g s"
    using assms(1-3) by (auto simp: objects_ok_def)
  have n: "p - 16 \<noteq> q - 16" using assms(4) o(1,3) by linarith
  have l: "0 < length bs" "0 < length cs" using inv o(2,4) by (auto simp: slab_inv_def headers_ok_def)
  have "\<not> (q \<le> max p q \<and> max p q < q + length cs \<and> p \<le> max p q \<and> max p q < p + length bs)"
    using extent_disjoint [OF inv o(2,4) n] payload [OF o(1)] payload [OF o(3)] by blast
  then show ?thesis using l by linarith
qed

lemma new_ok:
  assumes "0 < start" "start mod 16 = 0" "start + n < 2 ^ 64"
  shows "objects_ok (start, start + n) Map.empty (SlabAllocator_new start n m) Map.empty"
proof -
  have "list_of (SlabAllocator_new start n m) pl = FreePtrsList_init" for pl by (cases pl) (simp_all add: SlabAllocator_new_def)
  then have "lists_ok Map.empty (SlabAllocator_new start n m)" using fl_rep_init by (auto simp: lists_ok_def intro!: exI [of _ "[]"])
  then show ?thesis using assms by (simp add: objects_ok_def slab_inv_def carved_def headers_ok_def SlabAllocator_new_def)
qed

lemma object_place:
  assumes "objects_ok (a, b) g s objs" "objs p = Some bs"
  shows "p mod 16 = 0" "a \<le> p" "p + length bs \<le> b"
proof -
  have inv: "slab_inv g s" and o: "16 \<le> p" "g (p - 16) = Some (Live (length bs))" "a = sl_start s" "b = sl_end s"
    using assms by (auto simp: objects_ok_def)
  note i = inv_block(2-4) [OF inv o(2)]
  have "p = (p - 16) + 16" using o(1) by simp
  then show "p mod 16 = 0" using i(1) by (metis mod_add_self2)
  show "a \<le> p" using i(2) o(3) by simp
  have "sl_cur s \<le> b" using inv o(4) by (simp add: slab_inv_def carved_def)
  then show "p + length bs \<le> b" using i(3) o(1) slab_shift(2) [of "length bs"] by (simp add: get_slab_size_def)
qed

text \<open>C5. The slab allocator keeps the objects of its clients. Whatever threads on any cores allocate, free, reallocate and
  write within their objects, no assertion of the allocator fails, every object holds the bytes its
  owner last wrote there, is aligned to 16 bytes and lies in the region of the allocator, and no two
  objects overlap. As long as the region has room for one more block, an allocation of a size the
  allocator serves does not return null.\<close>

theorem slab_objects:
  assumes "0 < start" "start mod kMemAlignment = 0" "start + n < 2 ^ 64"
  shows "\<exists>s objs. slab_run undef es (SlabAllocator_new start n m, Map.empty) = Inr (s, objs) \<and>
    (\<forall>p bs. objs p = Some bs \<longrightarrow> bytes_at (sl_heap s) p (length bs) = bs \<and> p mod kMemAlignment = 0 \<and>
       start \<le> p \<and> p + length bs \<le> start + n) \<and>
    (\<forall>p bs q cs. objs p = Some bs \<and> objs q = Some cs \<and> p \<noteq> q \<longrightarrow> p + length bs \<le> q \<or> q + length cs \<le> p) \<and>
    (\<forall>cpu sz. 0 < sz \<and> get_slab_shift sz \<le> kMaxSlabClassShift \<and> sl_cur s + get_slab_size (get_slab_shift sz) \<le> start + n \<longrightarrow>
       (\<exists>p s'. SlabAllocator_allocate undef cpu sz s = Inr (p, s') \<and> p \<noteq> 0))"
proof -
  have "start mod 16 = 0" using assms(2) by (simp add: kMemAlignment_def)
  from slab_run_ok [OF new_ok [OF assms(1) this assms(3)]] obtain s objs g
    where run: "slab_run undef es (SlabAllocator_new start n m, Map.empty) = Inr (s, objs)" and o: "objects_ok (start, start + n) g s objs" by blast
  have inv: "slab_inv g s" "sl_end s = start + n" using o by (auto simp: objects_ok_def)
  have "\<exists>p s'. SlabAllocator_allocate undef cpu sz s = Inr (p, s') \<and> p \<noteq> 0"
    if "0 < sz \<and> get_slab_shift sz \<le> kMaxSlabClassShift \<and> sl_cur s + get_slab_size (get_slab_shift sz) \<le> start + n" for cpu sz
    using allocate_keeps [OF inv(1), of undef cpu sz] that inv(2) by auto
  moreover have "bytes_at (sl_heap s) p (length bs) = bs \<and> p mod kMemAlignment = 0 \<and> start \<le> p \<and> p + length bs \<le> start + n"
    if "objs p = Some bs" for p bs
    using objects_bytes [OF o that] object_place [OF o that] by (simp add: kMemAlignment_def)
  ultimately show ?thesis using run objects_disjoint [OF o] by blast
qed

theorem slab_objects_witness:
  "0 < (4096 :: nat) \<and> (4096 :: nat) mod kMemAlignment = 0 \<and> (4096 :: nat) + 65536 < 2 ^ 64 \<and>
   (\<exists>s objs. slab_run (\<lambda>_. 0) [Allocate 0 100, Write 4112 3 [1, 2], Allocate 1 7, Reallocate 0 1 4112 200, Free 1 9]
      (SlabAllocator_new 4096 65536 (\<lambda>_. 0), Map.empty) = Inr (s, objs) \<and>
    (\<forall>p bs. objs p = Some bs \<longrightarrow> bytes_at (sl_heap s) p (length bs) = bs))"
  using slab_objects [of 4096 65536 "\<lambda>_. 0" "[Allocate 0 100, Write 4112 3 [1, 2], Allocate 1 7, Reallocate 0 1 4112 200, Free 1 9]" "\<lambda>_. 0"]
  by (auto simp: kMemAlignment_def)

end
