(* ===== verification/Mem_Hook.thy ===== *)
theory Mem_Hook
  imports Slab
begin

text \<open>
  The replacement of the C and C++ allocation functions (\<open>sandook/mem/mem_hook.cc\<close>): once the runtime is initialised they
  use the slab allocator, before that the functions of the C library, which are parameters. An
  aligned allocation asks for more and keeps the pointer it got in front of the one it returns.
\<close>

unbundle bit_operations_syntax

section \<open>Definitions\<close>

record real_alloc =
  real_malloc :: "nat \<Rightarrow> memory \<Rightarrow> nat \<times> memory"
  real_free :: "nat \<Rightarrow> memory \<Rightarrow> memory"
  real_realloc :: "nat \<Rightarrow> nat \<Rightarrow> memory \<Rightarrow> nat \<times> memory"

definition kHeapSize :: nat where "kHeapSize = 64 * 2 ^ 30"

definition get_global_allocator :: "nat \<Rightarrow> memory \<Rightarrow> SlabAllocator" where
  "get_global_allocator mmap_ptr m = SlabAllocator_new mmap_ptr kHeapSize m"

text \<open>\<open>up\<close> is \<open>RuntimeInitialized ()\<close>.\<close>

definition hook_new :: "real_alloc \<Rightarrow> bool \<Rightarrow> (nat \<Rightarrow> nat) \<Rightarrow> nat \<Rightarrow> nat \<Rightarrow> SlabAllocator \<Rightarrow> (nat \<times> SlabAllocator) status" where
  "hook_new R up undef cpu size_bytes s =
     (if up then SlabAllocator_allocate undef cpu size_bytes s
      else let (p, m) = real_malloc R size_bytes (sl_heap s) in Inr (p, s\<lparr>sl_heap := m\<rparr>))"

definition hook_delete :: "real_alloc \<Rightarrow> bool \<Rightarrow> (nat \<Rightarrow> nat) \<Rightarrow> nat \<Rightarrow> nat \<Rightarrow> SlabAllocator \<Rightarrow> SlabAllocator status" where
  "hook_delete R up undef cpu ptr s =
     (if SlabAllocator_if_own s ptr
      then if up then SlabAllocator_free undef cpu ptr s else Inr s
      else Inr (s\<lparr>sl_heap := real_free R ptr (sl_heap s)\<rparr>))"

definition hook_realloc :: "real_alloc \<Rightarrow> bool \<Rightarrow> (nat \<Rightarrow> nat) \<Rightarrow> nat \<Rightarrow> nat \<Rightarrow> nat \<Rightarrow> nat \<Rightarrow> SlabAllocator \<Rightarrow> (nat \<times> SlabAllocator) status" where
  "hook_realloc R up undef cpu cpu' ptr size_bytes s =
     (if up \<and> SlabAllocator_if_own s ptr then SlabAllocator_reallocate undef cpu cpu' ptr size_bytes s
      else let (p, m) = real_realloc R ptr size_bytes (sl_heap s) in Inr (p, s\<lparr>sl_heap := m\<rparr>))"

definition aligned_addr :: "nat \<Rightarrow> nat \<Rightarrow> nat" where
  "aligned_addr ptr align = unat ((of_nat ptr + 8 + of_nat align - 1) AND NOT (of_nat align - 1) :: u64)"

definition hook_new_aligned :: "real_alloc \<Rightarrow> bool \<Rightarrow> (nat \<Rightarrow> nat) \<Rightarrow> nat \<Rightarrow> nat \<Rightarrow> nat \<Rightarrow> SlabAllocator \<Rightarrow> (nat \<times> SlabAllocator) status" where
  "hook_new_aligned R up undef cpu size_bytes align s =
     (let size_bytes = to_u64 (size_bytes + 8)
      in bindS (hook_new R up undef cpu (to_u64 (size_bytes + align - 1)) s) (\<lambda>(ptr, s).
         let aligned_ptr_addr = aligned_addr ptr align
         in Inr (aligned_ptr_addr, s\<lparr>sl_heap := store64 (sl_heap s) (aligned_ptr_addr - 8) ptr\<rparr>)))"

definition hook_delete_aligned :: "real_alloc \<Rightarrow> bool \<Rightarrow> (nat \<Rightarrow> nat) \<Rightarrow> nat \<Rightarrow> nat \<Rightarrow> SlabAllocator \<Rightarrow> SlabAllocator status" where
  "hook_delete_aligned R up undef cpu ptr s = hook_delete R up undef cpu (load64 (sl_heap s) (ptr - 8)) s"

definition operator_new :: "real_alloc \<Rightarrow> bool \<Rightarrow> (nat \<Rightarrow> nat) \<Rightarrow> nat \<Rightarrow> nat \<Rightarrow> SlabAllocator \<Rightarrow> (nat \<times> SlabAllocator) status" where
  "operator_new R up undef cpu size_bytes s = bindS (hook_new R up undef cpu size_bytes s) (\<lambda>(ptr, s).
     assertS (\<not> (size_bytes \<noteq> 0 \<and> ptr = 0)) (Inr (ptr, s)))"

section \<open>Aligned allocation\<close>

lemma and_not_mask:
  fixes x :: u64
  assumes "k < 64"
  shows "x AND NOT (2 ^ k - 1) = x - take_bit k x"
proof -
  have "x - take_bit k x = x AND NOT (take_bit k x)" by (rule disjunctive_diff) (simp add: bit_take_bit_iff)
  also have "\<dots> = x AND NOT (mask k)" by (rule bit_eqI) (auto simp: bit_and_iff bit_not_iff bit_take_bit_iff bit_mask_iff)
  finally show ?thesis by (simp add: mask_eq_exp_minus_1)
qed

lemma aligned_addr_eq:
  assumes "k < 64" "ptr + 8 + 2 ^ k - 1 < 2 ^ 64"
  shows "aligned_addr ptr (2 ^ k) = (ptr + 8 + 2 ^ k - 1) - (ptr + 8 + 2 ^ k - 1) mod 2 ^ k"
proof -
  let ?x = "of_nat (ptr + 8 + 2 ^ k - 1) :: u64"
  have x: "of_nat ptr + 8 + of_nat (2 ^ k) - 1 = ?x"
    by (simp add: of_nat_diff algebra_simps)
  have u: "unat ?x = ptr + 8 + 2 ^ k - 1" using assms(2) by (intro unat_of_nat_no_wrap) simp
  have t: "unat (take_bit k ?x) = unat ?x mod 2 ^ k" unfolding unsigned_take_bit_eq by (rule take_bit_eq_mod)
  have "take_bit k ?x \<le> ?x" unfolding word_le_nat_alt t by simp
  then have "unat (?x - take_bit k ?x) = unat ?x - unat (take_bit k ?x)" by (rule unat_sub)
  moreover have "aligned_addr ptr (2 ^ k) = unat (?x - take_bit k ?x)"
    unfolding aligned_addr_def x using and_not_mask [OF assms(1), of ?x] by simp
  ultimately show ?thesis by (simp only: t u)
qed

lemma round_up:
  fixes p a :: nat
  assumes "0 < a"
  shows "(p + a - 1 - (p + a - 1) mod a) mod a = 0" "p \<le> p + a - 1 - (p + a - 1) mod a" "p + a - 1 - (p + a - 1) mod a \<le> p + a - 1"
proof -
  show "(p + a - 1 - (p + a - 1) mod a) mod a = 0" by (simp add: minus_mod_eq_mult_div)
  have "(p + a - 1) mod a < a" using assms by simp
  then show "p \<le> p + a - 1 - (p + a - 1) mod a" by linarith
qed simp

text \<open>
  When the slab allocator serves it, an aligned allocation returns an aligned address inside the object it got with room for the
  size in front of its end, and deleting that address frees the object. It touches memory only
  within the object.
\<close>

lemma new_aligned_object:
  assumes "SlabAllocator_allocate undef cpu (n + 8 + 2 ^ k - 1) s = Inr (p, s1)" "p \<noteq> 0" "k < 64" "p + (n + 8 + 2 ^ k - 1) < 2 ^ 64"
  obtains q s2 where "hook_new_aligned R True undef cpu n (2 ^ k) s = Inr (q, s2)" "q mod 2 ^ k = 0" "p + 8 \<le> q"
    "q + n \<le> p + (n + 8 + 2 ^ k - 1)" "s2 = s1\<lparr>sl_heap := store64 (sl_heap s1) (q - 8) p\<rparr>"
    "hook_delete_aligned R up undef cpu' q s2 = hook_delete R up undef cpu' p s2"
proof -
  let ?q = "aligned_addr p (2 ^ k)" let ?s = "s1\<lparr>sl_heap := store64 (sl_heap s1) (?q - 8) p\<rparr>"
  have pos: "(0 :: nat) < 2 ^ k" by simp
  have "p + 8 + 2 ^ k - 1 < 2 ^ 64" using assms(4) by linarith
  note q = aligned_addr_eq [OF assms(3) this] and r = round_up [OF pos, of "p + 8"]
  have n: "to_u64 (n + 8) = n + 8" "to_u64 (n + 8 + 2 ^ k - 1) = n + 8 + 2 ^ k - 1" using assms(4) pos by (intro to_u64_id; linarith)+
  have new: "hook_new_aligned R True undef cpu n (2 ^ k) s = Inr (?q, ?s)"
    using assms(1) n by (simp add: hook_new_aligned_def hook_new_def Let_def)
  have al: "?q mod 2 ^ k = 0" unfolding q by (rule r(1))
  have lo: "p + 8 \<le> ?q" unfolding q by (rule r(2))
  have "?q \<le> p + 8 + 2 ^ k - 1" unfolding q by (rule r(3))
  then have hi: "?q + n \<le> p + (n + 8 + 2 ^ k - 1)" using pos by linarith
  have "hook_delete_aligned R up undef cpu' ?q ?s = hook_delete R up undef cpu' p ?s"
    using assms(4) by (simp add: hook_delete_aligned_def)
  then show thesis by (rule that [OF new al lo hi refl])
qed

text \<open>Without memory \<open>__new_aligned\<close> writes its header next to the null pointer instead of reporting the failure.\<close>

lemma new_aligned_null:
  assumes "SlabAllocator_allocate undef cpu (n + 8 + 16 - 1) s = Inr (0, s1)" "n < 2 ^ 32"
  shows "hook_new_aligned R True undef cpu n 16 s = Inr (16, s1\<lparr>sl_heap := store64 (sl_heap s1) 8 0\<rparr>)"
proof -
  have "aligned_addr 0 16 = 16" using aligned_addr_eq [of 4 0] by simp
  moreover have "to_u64 (n + 8) = n + 8" "to_u64 (n + 8 + 16 - 1) = n + 8 + 16 - 1" using assms(2) by (simp_all add: to_u64_def)
  ultimately show ?thesis using assms(1) by (simp add: hook_new_aligned_def hook_new_def Let_def)
qed

end
