(* ===== verification/Rpc.thy ===== *)
theory Rpc
  imports Vector_IO "HOL-Library.Multiset"
begin

text \<open>
  Remote procedure calls (\<open>sandook/rpc/rpc.h\<close>, \<open>rpc.cc\<close>). A client has one flow, a TCP
  connection, per core. Each flow is served by a sender and a receiver thread that share a
  spin lock: a step of the model is one critical section, or the transfer that follows
  it. The sender's \<open>ThreadWaker\<close> is the phase \<open>Parked\<close>; waking a thread that is not parked
  does nothing. Thread creation and the connection set-up belong to the runtime and are left out.
\<close>

section \<open>Frames\<close>

record RPCHeader =
  rh_demand :: nat
  rh_len :: nat
  rh_completion_data :: nat

abbreviation (input) sizeof_RPCHeader :: nat where "sizeof_RPCHeader \<equiv> 24"

definition CreateRPCHeader :: "nat \<Rightarrow> nat \<Rightarrow> nat \<Rightarrow> RPCHeader" where
  "CreateRPCHeader demand l completion_data = \<lparr>rh_demand = demand, rh_len = l, rh_completion_data = completion_data\<rparr>"

definition put_RPCHeader :: "memory \<Rightarrow> nat \<Rightarrow> RPCHeader \<Rightarrow> byte list" where
  "put_RPCHeader junk off h = put_u32 (rh_demand h) @ pad junk (off + 4) 4 @ put_u64 (rh_len h) @
     put_u64 (rh_completion_data h)"

definition take_RPCHeader :: "byte list \<Rightarrow> (RPCHeader \<times> byte list) status" where
  "take_RPCHeader bs = bindS (take_u32 bs) (\<lambda>(d, bs). bindS (take_bytes 4 bs) (\<lambda>(_, bs).
     bindS (take_u64 bs) (\<lambda>(l, bs). bindS (take_u64 bs) (\<lambda>(c, bs).
       Inr (\<lparr>rh_demand = d, rh_len = l, rh_completion_data = c\<rparr>, bs)))))"

definition ok_RPCHeader :: "RPCHeader \<Rightarrow> bool" where
  "ok_RPCHeader h \<longleftrightarrow> is_u32 (rh_demand h) \<and> is_u64 (rh_len h) \<and> is_u64 (rh_completion_data h)"

interpretation rpc_header: wire_struct put_RPCHeader take_RPCHeader sizeof_RPCHeader ok_RPCHeader
  by unfold_locales (simp_all add: put_RPCHeader_def take_RPCHeader_def ok_RPCHeader_def)

text \<open>
  The buffers of the scatter-gather list of one message: its header, and its payload when it has one.
\<close>

definition frame_buffers :: "memory \<Rightarrow> nat \<Rightarrow> byte list \<Rightarrow> nat \<Rightarrow> byte list list" where
  "frame_buffers junk demand payload completion_data =
     put_RPCHeader junk 0 (CreateRPCHeader demand (length payload) completion_data) #
     (if payload = [] then [] else [payload])"

section \<open>The client's flow\<close>

record req_ctx =
  rq_payload :: "byte list"
  rq_completion :: nat

datatype sender =
  Ready
| Parked
| Sending "req_ctx list" nat
| Closed "req_ctx list"
| Failed

record RPCFlow =
  fl_sender :: sender
  fl_close :: bool
  sent_count :: u32
  recv_count :: u32
  credits :: u32
  reqs :: "req_ctx list"

definition kNumCredits :: u32 where "kNumCredits = 128"

definition RPCFlow_init :: RPCFlow where
  "RPCFlow_init = \<lparr>fl_sender = Ready, fl_close = False, sent_count = 0, recv_count = 0,
     credits = kNumCredits, reqs = []\<rparr>"

definition Wake :: "RPCFlow \<Rightarrow> RPCFlow" where
  "Wake f = (if fl_sender f = Parked then f\<lparr>fl_sender := Ready\<rparr> else f)"

definition RPCFlow_Call :: "byte list \<Rightarrow> nat \<Rightarrow> RPCFlow \<Rightarrow> RPCFlow" where
  "RPCFlow_Call src conn f =
     (let f1 = f\<lparr>reqs := reqs f @ [\<lparr>rq_payload = src, rq_completion = conn\<rparr>]\<rparr>
      in if sent_count f1 - recv_count f1 < credits f1 then Wake f1 else f1)"

definition RPCFlow_destroy :: "RPCFlow \<Rightarrow> RPCFlow" where
  "RPCFlow_destroy f = Wake (f\<lparr>fl_close := True\<rparr>)"

text \<open>Gathering queued requests up to the credit limit.\<close>

fun gather_reqs :: "u32 \<Rightarrow> req_ctx list \<Rightarrow> u32 \<Rightarrow> req_ctx list \<times> req_ctx list \<times> u32" where
  "gather_reqs cr [] inflight = ([], [], inflight)"
| "gather_reqs cr (r # rs) inflight =
     (if inflight < cr then (case gather_reqs cr rs (inflight + 1) of (b, rest, i) \<Rightarrow> (r # b, rest, i))
      else ([], r # rs, inflight))"

text \<open>The critical section of the sender: it parks, or takes a batch, or leaves its loop.\<close>

definition SendWorker_take :: "RPCFlow \<Rightarrow> RPCFlow" where
  "SendWorker_take f =
     (let inflight = sent_count f - recv_count f
      in if (reqs f = [] \<or> credits f \<le> inflight) \<and> \<not> (fl_close f \<and> reqs f = []) then f\<lparr>fl_sender := Parked\<rparr>
         else case gather_reqs (credits f) (reqs f) inflight of (batch, rest, inflight') \<Rightarrow>
           (let f1 = f\<lparr>reqs := rest, sent_count := sent_count f + of_nat (length batch)\<rparr>
            in if fl_close f1 \<and> reqs f1 = [] then f1\<lparr>fl_sender := Closed batch\<rparr>
               else f1\<lparr>fl_sender := Sending batch (unat inflight')\<rparr>))"

definition send_buffers :: "memory \<Rightarrow> nat \<Rightarrow> req_ctx list \<Rightarrow> byte list list" where
  "send_buffers junk demand batch = concat (map (\<lambda>r. frame_buffers junk demand (rq_payload r) (rq_completion r)) batch)"

text \<open>The transfer: \<open>ok\<close> tells whether \<open>WritevFull\<close> succeeded.\<close>

definition SendWorker_write :: "bool \<Rightarrow> RPCFlow \<Rightarrow> RPCFlow" where
  "SendWorker_write ok f = (case fl_sender f of
     Sending batch demand \<Rightarrow> f\<lparr>fl_sender := (if ok then Ready else Failed)\<rparr> | _ \<Rightarrow> f)"

text \<open>The receiver's critical section, after it read the header of a response.\<close>

definition flow_received :: "RPCFlow \<Rightarrow> RPCFlow" where
  "flow_received f =
     (let f1 = f\<lparr>recv_count := recv_count f + 1\<rparr>; inflight = sent_count f1 - recv_count f1
      in if inflight < credits f1 \<and> reqs f1 \<noteq> [] then Wake f1 else f1)"

text \<open>
  The loop of the receiver: it completes the requests named by the tokens in the headers, in the order of
  the responses. It does not end as long as the peer keeps sending.
\<close>

partial_function (option) client_ReceiveWorker ::
    "'w reader \<Rightarrow> RPCFlow \<Rightarrow> 'w \<Rightarrow> ((nat \<times> byte list) list \<times> RPCFlow) option" where
  "client_ReceiveWorker tcp_read f w =
     (case TCPConn_ReadFull tcp_read sizeof_RPCHeader w of
        (Inl _, _) \<Rightarrow> Some ([], f)
      | (Inr hb, w1) \<Rightarrow> (case take_RPCHeader hb of
          Inl _ \<Rightarrow> Some ([], f)
        | Inr (hdr, _) \<Rightarrow>
            if rh_len hdr = 0
            then Option.bind (client_ReceiveWorker tcp_read (flow_received f) w1) (\<lambda>(cs, f').
                   Some ((rh_completion_data hdr, []) # cs, f'))
            else (case TCPConn_ReadFull tcp_read (rh_len hdr) w1 of
                    (Inl _, _) \<Rightarrow> Some ([], flow_received f)
                  | (Inr buf, w2) \<Rightarrow> Option.bind (client_ReceiveWorker tcp_read (flow_received f) w2) (\<lambda>(cs, f').
                      Some ((rh_completion_data hdr, buf) # cs, f')))))"

section \<open>The server's side\<close>

record completion =
  cp_buf :: "byte list"
  cp_completion_data :: nat

record RPCServer =
  srv_sender_parked :: bool
  completions :: "completion list"
  srv_demand :: nat
  srv_close :: bool

definition RPCServer_Return :: "byte list \<Rightarrow> nat \<Rightarrow> RPCServer \<Rightarrow> RPCServer" where
  "RPCServer_Return buf c s = s\<lparr>completions := completions s @ [\<lparr>cp_buf = buf, cp_completion_data = c\<rparr>],
     srv_sender_parked := False\<rparr>"

text \<open>One round of the server's sender; the second component is the batch it sends, \<open>None\<close> when it parks or stops.\<close>

definition server_SendWorker :: "RPCServer \<Rightarrow> RPCServer \<times> completion list option" where
  "server_SendWorker s =
     (if completions s = [] \<and> \<not> srv_close s then (s\<lparr>srv_sender_parked := True\<rparr>, None)
      else let batch = completions s; s1 = s\<lparr>completions := []\<rparr>
           in if srv_close s1 \<and> batch = [] then (s1, None) else (s1, Some batch))"

definition reply_buffers :: "memory \<Rightarrow> nat \<Rightarrow> completion list \<Rightarrow> byte list list" where
  "reply_buffers junk demand cs = concat (map (\<lambda>c. frame_buffers junk demand (cp_buf c) (cp_completion_data c)) cs)"

text \<open>
  The loop that receives requests: every request spawns a handler thread with the token and the
  bytes, which are the results here; the second component is the demand last announced.
\<close>

partial_function (option) server_ReceiveWorker ::
    "'w reader \<Rightarrow> nat \<Rightarrow> 'w \<Rightarrow> ((nat \<times> byte list) list \<times> nat) option" where
  "server_ReceiveWorker tcp_read demand w =
     (case TCPConn_ReadFull tcp_read sizeof_RPCHeader w of
        (Inl _, _) \<Rightarrow> Some ([], demand)
      | (Inr hb, w1) \<Rightarrow> (case take_RPCHeader hb of
          Inl _ \<Rightarrow> Some ([], demand)
        | Inr (hdr, _) \<Rightarrow>
            if rh_len hdr = 0
            then Option.bind (server_ReceiveWorker tcp_read (rh_demand hdr) w1) (\<lambda>(rs, d).
                   Some ((rh_completion_data hdr, []) # rs, d))
            else (case TCPConn_ReadFull tcp_read (rh_len hdr) w1 of
                    (Inl _, _) \<Rightarrow> Some ([], rh_demand hdr)
                  | (Inr buf, w2) \<Rightarrow> Option.bind (server_ReceiveWorker tcp_read (rh_demand hdr) w2) (\<lambda>(rs, d).
                      Some ((rh_completion_data hdr, buf) # rs, d)))))"

section \<open>Frames survive the stream\<close>

lemma frame_bytes:
  "concat (frame_buffers junk demand payload c) = put_RPCHeader junk 0 (CreateRPCHeader demand (length payload) c) @ payload"
  by (simp add: frame_buffers_def)

lemma read_frame:
  assumes "reads_stream tcp_read str" "str w = concat (frame_buffers junk demand payload c) @ rest"
    and "is_u32 demand" "is_u64 (length payload)" "is_u64 c"
  obtains hb w1 w2 r where "TCPConn_ReadFull tcp_read 24 w = (Inr hb, w1)"
    "take_RPCHeader hb = Inr (\<lparr>rh_demand = demand, rh_len = length payload, rh_completion_data = c\<rparr>, r)"
    "payload = [] \<longrightarrow> str w1 = rest"
    "TCPConn_ReadFull tcp_read (length payload) w1 = (Inr payload, w2)" "str w2 = rest"
proof -
  let ?h = "\<lparr>rh_demand = demand, rh_len = length payload, rh_completion_data = c\<rparr>"
  have ok: "ok_RPCHeader ?h" using assms(3-5) by (simp add: ok_RPCHeader_def)
  have str: "str w = put_RPCHeader junk 0 ?h @ payload @ rest"
    using assms(2) by (simp only: frame_bytes CreateRPCHeader_def append_assoc)
  have len: "length (put_RPCHeader junk 0 ?h) = 24" by (rule rpc_header.wput_size [OF ok])
  obtain w1 where w1: "TCPConn_ReadFull tcp_read 24 w = (Inr (take 24 (str w)), w1)" "str w1 = drop 24 (str w)"
    using ReadFull_stream [OF assms(1), of 24 w] str len by auto
  have w1': "take 24 (str w) = put_RPCHeader junk 0 ?h" "str w1 = payload @ rest" using str len w1(2) by simp_all
  obtain w2 where w2: "TCPConn_ReadFull tcp_read (length payload) w1 = (Inr (take (length payload) (str w1)), w2)"
    "str w2 = drop (length payload) (str w1)"
    using ReadFull_stream [OF assms(1), of "length payload" w1] w1' by auto
  show thesis
    by (rule that [OF w1(1)]) (use w1' w2 rpc_header.whole_roundtrip [OF ok, of junk 0] in auto)
qed

text \<open>The values that fit the fields of a header.\<close>

definition ok_frame :: "byte list \<times> nat \<Rightarrow> bool" where
  "ok_frame pc \<longleftrightarrow> is_u64 (length (fst pc)) \<and> is_u64 (snd pc)"

lemma server_receives:
  assumes "reads_stream tcp_read str" "is_u32 demand" "list_all ok_frame pcs"
    and "str w = concat (concat (map (\<lambda>(p, c). frame_buffers junk demand p c) pcs))"
  shows "\<exists>d'. server_ReceiveWorker tcp_read d w = Some (map (\<lambda>(p, c). (c, p)) pcs, d')"
  using assms(3,4)
proof (induction pcs arbitrary: d w)
  case Nil
  then have "\<exists>w'. TCPConn_ReadFull tcp_read 24 w = (MakeError EEOF, w')"
    using ReadFull_closed [OF assms(1), of w 24] by simp
  then show ?case by (auto simp: server_ReceiveWorker.simps)
next
  case (Cons pc pcs)
  obtain p c where pc: "pc = (p, c)" by (cases pc)
  let ?rest = "concat (concat (map (\<lambda>(p, c). frame_buffers junk demand p c) pcs))"
  have k: "str w = concat (frame_buffers junk demand p c) @ ?rest" "is_u64 (length p)" "is_u64 c"
    using Cons.prems pc by (simp_all add: ok_frame_def)
  obtain hb w1 w2 r where fr: "TCPConn_ReadFull tcp_read 24 w = (Inr hb, w1)"
    "take_RPCHeader hb = Inr (\<lparr>rh_demand = demand, rh_len = length p, rh_completion_data = c\<rparr>, r)"
    "p = [] \<longrightarrow> str w1 = ?rest" "TCPConn_ReadFull tcp_read (length p) w1 = (Inr p, w2)" "str w2 = ?rest"
    by (rule read_frame [OF assms(1) k(1) assms(2) k(2,3)])
  have ok: "list_all ok_frame pcs" using Cons.prems(1) by simp
  show ?case
  proof (cases "p = []")
    case True
    then obtain d' where "server_ReceiveWorker tcp_read demand w1 = Some (map (\<lambda>(p, c). (c, p)) pcs, d')"
      using Cons.IH [OF ok fr(3) [rule_format]] by blast
    then show ?thesis using fr True pc by (simp add: server_ReceiveWorker.simps [of _ d])
  next
    case False
    obtain d' where "server_ReceiveWorker tcp_read demand w2 = Some (map (\<lambda>(p, c). (c, p)) pcs, d')"
      using Cons.IH [OF ok fr(5)] by blast
    then show ?thesis using fr False pc by (simp add: server_ReceiveWorker.simps [of _ d])
  qed
qed

lemma client_receives:
  assumes "reads_stream tcp_read str" "is_u32 demand" "list_all ok_frame pcs"
    and "str w = concat (concat (map (\<lambda>(p, c). frame_buffers junk demand p c) pcs))"
  shows "client_ReceiveWorker tcp_read f w = Some (map (\<lambda>(p, c). (c, p)) pcs, (flow_received ^^ length pcs) f)"
  using assms(3,4)
proof (induction pcs arbitrary: f w)
  case Nil
  then have "\<exists>w'. TCPConn_ReadFull tcp_read 24 w = (MakeError EEOF, w')"
    using ReadFull_closed [OF assms(1), of w 24] by simp
  then show ?case by (auto simp: client_ReceiveWorker.simps)
next
  case (Cons pc pcs)
  obtain p c where pc: "pc = (p, c)" by (cases pc)
  let ?rest = "concat (concat (map (\<lambda>(p, c). frame_buffers junk demand p c) pcs))"
  have k: "str w = concat (frame_buffers junk demand p c) @ ?rest" "is_u64 (length p)" "is_u64 c"
    using Cons.prems pc by (simp_all add: ok_frame_def)
  obtain hb w1 w2 r where fr: "TCPConn_ReadFull tcp_read 24 w = (Inr hb, w1)"
    "take_RPCHeader hb = Inr (\<lparr>rh_demand = demand, rh_len = length p, rh_completion_data = c\<rparr>, r)"
    "p = [] \<longrightarrow> str w1 = ?rest" "TCPConn_ReadFull tcp_read (length p) w1 = (Inr p, w2)" "str w2 = ?rest"
    by (rule read_frame [OF assms(1) k(1) assms(2) k(2,3)])
  have ok: "list_all ok_frame pcs" using Cons.prems(1) by simp
  show ?case
  proof (cases "p = []")
    case True
    then show ?thesis using fr pc Cons.IH [OF ok fr(3) [rule_format, OF True], of "flow_received f"]
      by (simp add: client_ReceiveWorker.simps [of _ f] funpow_swap1)
  next
    case False
    then show ?thesis using fr pc Cons.IH [OF ok fr(5), of "flow_received f"]
      by (simp add: client_ReceiveWorker.simps [of _ f] funpow_swap1)
  qed
qed

section \<open>Flow control\<close>

text \<open>
  A flow and the tokens of the requests that were sent and not answered. The peer answers only
  requests it received; a failed transfer may have sent a part of the batch.
\<close>

inductive flow_step :: "RPCFlow \<times> nat list \<Rightarrow> RPCFlow \<times> nat list \<Rightarrow> bool" where
  call: "flow_step (f, ws) (RPCFlow_Call src c f, ws)"
| destroy: "flow_step (f, ws) (RPCFlow_destroy f, ws)"
| take_batch: "fl_sender f = Ready \<Longrightarrow> flow_step (f, ws) (SendWorker_take f, ws)"
| transfer: "fl_sender f = Sending b d \<Longrightarrow> flow_step (f, ws) (SendWorker_write True f, ws @ map rq_completion b)"
| transfer_fails: "fl_sender f = Sending b d \<Longrightarrow>
    flow_step (f, ws) (SendWorker_write False f, ws @ map rq_completion (take k b))"
| receive: "flow_step (f, xs @ c # ys) (flow_received f, xs @ ys)"

inductive flow_reachable :: "RPCFlow \<times> nat list \<Rightarrow> bool" where
  init: "flow_reachable (RPCFlow_init, [])"
| step: "flow_reachable s \<Longrightarrow> flow_step s s' \<Longrightarrow> flow_reachable s'"

definition inflight :: "RPCFlow \<Rightarrow> nat" where
  "inflight f = unat (sent_count f - recv_count f)"

text \<open>Requests that were counted as sent but are not on the wire.\<close>

definition unsent :: "RPCFlow \<Rightarrow> nat" where
  "unsent f = (case fl_sender f of Sending b _ \<Rightarrow> length b | Closed b \<Rightarrow> length b | _ \<Rightarrow> 0)"

definition flow_inv :: "RPCFlow \<times> nat list \<Rightarrow> bool" where
  "flow_inv s \<longleftrightarrow> (case s of (f, ws) \<Rightarrow>
     credits f = kNumCredits \<and> inflight f \<le> 128 \<and>
     (if fl_sender f = Failed then length ws \<le> inflight f else inflight f = length ws + unsent f) \<and>
     (fl_sender f = Parked \<longrightarrow> (reqs f = [] \<or> inflight f = 128) \<and> \<not> (fl_close f \<and> reqs f = [])))"

lemma gather_reqs_props:
  assumes "gather_reqs kNumCredits rs i = (b, rest, i')" "unat i \<le> 128"
  shows "rs = b @ rest \<and> unat i' = unat i + length b \<and> unat i' \<le> 128 \<and>
    (rest = [] \<or> unat i' = 128)"
  using assms
proof (induction rs arbitrary: i b)
  case Nil
  then show ?case by simp
next
  case (Cons r rs)
  show ?case
  proof (cases "i < kNumCredits")
    case True
    then have u: "unat i < 128" by (simp add: kNumCredits_def word_less_nat_alt)
    then have s: "unat (i + 1) = unat i + 1" using unat_add_no_wrap [of i 1] by simp
    obtain b1 where b1: "gather_reqs kNumCredits rs (i + 1) = (b1, rest, i')" "b = r # b1"
      using Cons.prems(1) True by (auto split: prod.splits)
    from Cons.IH [OF b1(1)] u s show ?thesis by (auto simp: b1(2))
  next
    case False
    then have "unat i = 128" using Cons.prems(2) by (simp add: kNumCredits_def word_less_nat_alt)
    then show ?thesis using Cons.prems(1) False by auto
  qed
qed

lemma inflight_cong [simp]:
  "inflight (f\<lparr>fl_sender := x\<rparr>) = inflight f" "inflight (f\<lparr>reqs := y\<rparr>) = inflight f"
  "inflight (f\<lparr>fl_close := z\<rparr>) = inflight f"
  by (simp_all add: inflight_def)

lemma inflight_less: "sent_count f - recv_count f < kNumCredits \<longleftrightarrow> inflight f < 128"
  by (simp add: inflight_def kNumCredits_def word_less_nat_alt)

lemma Wake_inv:
  assumes "fl_sender f \<noteq> Parked \<Longrightarrow> flow_inv (f, ws)" "fl_sender f = Parked \<Longrightarrow> flow_inv (f\<lparr>fl_sender := Ready\<rparr>, ws)"
  shows "flow_inv (Wake f, ws)"
  using assms by (simp add: Wake_def)

lemma flow_inv_unparked: "flow_inv (f, ws) \<Longrightarrow> fl_sender f = Parked \<Longrightarrow> flow_inv (f\<lparr>fl_sender := Ready\<rparr>, ws)"
  by (simp add: flow_inv_def unsent_def)

lemma Call_inv: "flow_inv (f, ws) \<Longrightarrow> flow_inv (RPCFlow_Call src c f, ws)"
  by (auto simp: RPCFlow_Call_def Let_def flow_inv_def Wake_def unsent_def inflight_less)

lemma destroy_inv: "flow_inv (f, ws) \<Longrightarrow> flow_inv (RPCFlow_destroy f, ws)"
  by (auto simp: RPCFlow_destroy_def flow_inv_def Wake_def unsent_def)

lemma take_inv:
  assumes "flow_inv (f, ws)" "fl_sender f = Ready"
  shows "flow_inv (SendWorker_take f, ws)"
proof -
  let ?i = "sent_count f - recv_count f"
  obtain b rest i' where g: "gather_reqs kNumCredits (reqs f) ?i = (b, rest, i')" by (cases "gather_reqs kNumCredits (reqs f) ?i")
  have i: "unat ?i \<le> 128" "credits f = kNumCredits" "inflight f = length ws"
    using assms by (simp_all add: flow_inv_def inflight_def unsent_def)
  note p = gather_reqs_props [OF g i(1)]
  have eq: "sent_count f + of_nat (length b) - recv_count f = ?i + of_nat (length b)" by (simp add: algebra_simps)
  have "unat (of_nat (length b) :: u32) = length b" using p by (intro unat_of_nat_no_wrap) simp
  then have "inflight (f\<lparr>sent_count := sent_count f + of_nat (length b)\<rparr>) = inflight f + length b"
    using p unat_add_no_wrap [of ?i "of_nat (length b)"] by (simp add: inflight_def eq)
  moreover have "inflight f + length b \<le> 128" using p by (simp add: inflight_def)
  moreover have "kNumCredits \<le> ?i \<longleftrightarrow> inflight f = 128"
    using i(1) inflight_less [of f] by (auto simp: inflight_def not_less [symmetric])
  ultimately show ?thesis using assms(1) i g
    by (auto simp: SendWorker_take_def Let_def flow_inv_def unsent_def inflight_def)
qed

lemma received_inv:
  assumes "flow_inv (f, xs @ c # ys)"
  shows "flow_inv (flow_received f, xs @ ys)"
proof -
  let ?f = "f\<lparr>recv_count := recv_count f + 1\<rparr>"
  have "0 < inflight f" using assms by (auto simp: flow_inv_def split: if_splits)
  then have "1 \<le> sent_count f - recv_count f" by (simp add: inflight_def word_le_nat_alt)
  then have "unat (sent_count f - recv_count f - 1) = inflight f - 1" by (simp add: inflight_def unat_sub)
  then have "inflight ?f = inflight f - 1" by (simp add: inflight_def algebra_simps)
  then show ?thesis using assms \<open>0 < inflight f\<close>
    by (auto simp: flow_received_def Let_def flow_inv_def Wake_def unsent_def inflight_less [of ?f, simplified] split: if_splits)
qed

lemma flow_inv_step: "flow_step s s' \<Longrightarrow> flow_inv s \<Longrightarrow> flow_inv s'"
proof (induction rule: flow_step.induct)
  case (transfer f b d ws)
  then show ?case by (auto simp: SendWorker_write_def flow_inv_def unsent_def)
next
  case (transfer_fails f b d ws k)
  then show ?case by (auto simp: SendWorker_write_def flow_inv_def unsent_def)
qed (simp_all add: Call_inv destroy_inv take_inv received_inv)

lemma flow_reachable_inv: "flow_reachable s \<Longrightarrow> flow_inv s"
proof (induction rule: flow_reachable.induct)
  case init
  then show ?case by (simp add: flow_inv_def RPCFlow_init_def inflight_def unsent_def)
qed (rule flow_inv_step)

section \<open>Properties\<close>


text \<open>A stream that hands out one byte at a time.\<close>

definition byte_reader :: "byte list \<Rightarrow> nat \<Rightarrow> (nat + byte list) \<times> byte list" where
  "byte_reader w n = (Inr (take 1 w), drop 1 w)"

lemma byte_reader_stream: "reads_stream byte_reader (\<lambda>w. w)"
  by (auto simp: reads_stream_def byte_reader_def)


text \<open>
  C9. Flow control: in every reachable state of a flow, with counters that wrap at 32 bits, at most
  \<open>kNumCredits\<close> requests are unanswered, and the sender sleeps only when it has nothing
  that it may send: no wake-up is lost between callers, responses and shutdown.
\<close>

theorem sender_sleeps_only_idle:
  assumes "flow_reachable (f, ws)"
  shows "length ws \<le> unat kNumCredits \<and> inflight f \<le> unat kNumCredits \<and>
    (fl_sender f = Parked \<longrightarrow> (reqs f = [] \<or> inflight f = unat kNumCredits) \<and> \<not> (fl_close f \<and> reqs f = []))"
  using flow_reachable_inv [OF assms] by (auto simp: flow_inv_def kNumCredits_def split: if_splits)

lemma demo_flow_reachable:
  "flow_reachable (SendWorker_take (RPCFlow_Call [1] 9 (SendWorker_take RPCFlow_init)), [])"
proof -
  have "flow_reachable (SendWorker_take RPCFlow_init, [])"
    by (rule flow_reachable.step [OF flow_reachable.init take_batch]) (simp add: RPCFlow_init_def)
  then have "flow_reachable (RPCFlow_Call [1] 9 (SendWorker_take RPCFlow_init), [])"
    by (rule flow_reachable.step) (rule call)
  then show ?thesis
    by (rule flow_reachable.step)
      (rule take_batch, simp add: RPCFlow_init_def SendWorker_take_def RPCFlow_Call_def Wake_def kNumCredits_def)
qed

theorem sender_sleeps_only_idle_witness:
  "fl_sender (SendWorker_take RPCFlow_init) = Parked \<and>
   inflight (SendWorker_take (RPCFlow_Call [1] 9 (SendWorker_take RPCFlow_init))) = 1 \<and> (1::nat) \<le> unat kNumCredits"
  using sender_sleeps_only_idle [OF demo_flow_reachable]
  by (simp add: RPCFlow_init_def SendWorker_take_def RPCFlow_Call_def Wake_def kNumCredits_def inflight_def)

text \<open>
  Shutdown is the exception to the delivery of requests: when the flow is closed, the sender takes the
  queued requests, finds the queue empty and leaves its loop before it sends them.
\<close>

theorem close_drops_taken_requests:
  assumes "flow_reachable (f, ws)" "fl_sender f = Ready" "fl_close f" "reqs f = [r]" "inflight f < 128"
  shows "fl_sender (SendWorker_take f) = Closed [r] \<and> reqs (SendWorker_take f) = []"
proof -
  have "credits f = kNumCredits" using flow_reachable_inv [OF assms(1)] by (simp add: flow_inv_def)
  moreover have "sent_count f - recv_count f < kNumCredits" using assms(5) by (simp add: inflight_less)
  ultimately show ?thesis using assms(3,4) by (simp add: SendWorker_take_def Let_def)
qed

end
