(* ===== verification/Sandook_Time.thy ===== *)
theory Sandook_Time
  imports Sandook_Prelude
begin

text \<open>
  Points in time and durations in microseconds (\<open>sandook/base/time.h\<close>). A \<open>Time\<close> is an unsigned and a \<open>Duration\<close> a signed 64-bit
  number, and the arithmetic of the operators wraps. The fields of \<open>timeval\<close> and \<open>timespec\<close> are integers.
\<close>

section \<open>Definitions\<close>

definition kMilliseconds :: u64 where "kMilliseconds = 1000"
definition kSeconds :: u64 where "kSeconds = 1000000"

record timeval =
  tv_sec :: int
  tv_usec :: int

record timespec =
  ts_sec :: int
  ts_nsec :: int

definition timeval_to_us :: "timeval \<Rightarrow> u64" where
  "timeval_to_us tv = word_of_int (tv_sec tv) * kSeconds + word_of_int (tv_usec tv)"

definition us_to_timeval :: "u64 \<Rightarrow> timeval" where
  "us_to_timeval us = \<lparr>tv_sec = sint (us div kSeconds), tv_usec = sint (us mod kSeconds)\<rparr>"

text \<open>\<open>ts.tv_nsec / 1000\<close> is a signed division, which rounds towards zero.\<close>

definition timespec_to_us :: "timespec \<Rightarrow> u64" where
  "timespec_to_us ts = word_of_int (ts_sec ts) * kSeconds + word_of_int (sgn (ts_nsec ts) * (\<bar>ts_nsec ts\<bar> div 1000))"

definition us_to_timespec :: "u64 \<Rightarrow> timespec" where
  "us_to_timespec us = \<lparr>ts_sec = sint (us div kSeconds), ts_nsec = sint ((us mod kSeconds) * 1000)\<rparr>"

text \<open>A \<open>Duration\<close> is the word its \<open>int64_t\<close> is stored in.\<close>

record Duration =
  duration :: u64

record Time =
  time :: u64

definition Duration_Microseconds :: "Duration \<Rightarrow> int" where
  "Duration_Microseconds d = sint (duration d)"

text \<open>\<open>kMilliseconds\<close> is unsigned, hence so is the division.\<close>

definition Duration_Milliseconds :: "Duration \<Rightarrow> int" where
  "Duration_Milliseconds d = sint (duration d div kMilliseconds)"

definition Duration_IsZero :: "Duration \<Rightarrow> bool" where
  "Duration_IsZero d \<longleftrightarrow> duration d = 0"

definition Duration_less :: "Duration \<Rightarrow> Duration \<Rightarrow> bool" where
  "Duration_less d e \<longleftrightarrow> sint (duration d) < sint (duration e)"

definition duration_s :: "u64 \<Rightarrow> Duration" where "duration_s n = \<lparr>duration = n * kSeconds\<rparr>"
definition duration_ms :: "u64 \<Rightarrow> Duration" where "duration_ms n = \<lparr>duration = n * kMilliseconds\<rparr>"
definition duration_us :: "u64 \<Rightarrow> Duration" where "duration_us n = \<lparr>duration = n\<rparr>"

definition Time_Microseconds :: "Time \<Rightarrow> u64" where
  "Time_Microseconds t = time t"

definition Time_Milliseconds :: "Time \<Rightarrow> u64" where
  "Time_Milliseconds t = time t div kMilliseconds"

definition Time_plus :: "Time \<Rightarrow> Duration \<Rightarrow> Time" where
  "Time_plus lhs rhs = \<lparr>time = time lhs + word_of_int (Duration_Microseconds rhs)\<rparr>"

definition Time_minus :: "Time \<Rightarrow> Duration \<Rightarrow> Time" where
  "Time_minus lhs rhs = \<lparr>time = time lhs - word_of_int (Duration_Microseconds rhs)\<rparr>"

definition Time_diff :: "Time \<Rightarrow> Time \<Rightarrow> Duration" where
  "Time_diff lhs rhs = \<lparr>duration = time lhs - time rhs\<rparr>"

definition Duration_Since :: "Time \<Rightarrow> Time \<Rightarrow> Duration" where
  "Duration_Since now t = Time_diff now t"

definition Duration_Until :: "Time \<Rightarrow> Time \<Rightarrow> Duration" where
  "Duration_Until now t = Time_diff t now"

section \<open>Conversions and arithmetic\<close>

lemma sint_small: "uint (x :: u64) < 2 ^ 63 \<Longrightarrow> sint x = uint x"
proof -
  assume "uint x < 2 ^ 63"
  moreover have "- (2 ^ 63) \<le> uint x" by (rule order_trans [OF _ uint_ge_0]) simp
  ultimately show ?thesis by (simp add: sint_uint signed_take_bit_int_eq_self)
qed

lemma seconds_small: "uint (us div kSeconds) < 2 ^ 63" "uint (us mod kSeconds) < 1000000"
proof -
  have "uint us < 2 ^ 64" using unsigned_less [of us] by simp
  then have "uint us div 1000000 < 2 ^ 63" by simp
  then show "uint (us div kSeconds) < 2 ^ 63" by (simp add: uint_div kSeconds_def)
  show "uint (us mod kSeconds) < 1000000" by (simp add: uint_mod kSeconds_def)
qed

lemma timeval_roundtrip: "timeval_to_us (us_to_timeval us) = us"
proof -
  have "sint (us div kSeconds) = uint (us div kSeconds)" "sint (us mod kSeconds) = uint (us mod kSeconds)"
    using seconds_small [of us] by (simp_all add: sint_small)
  then show ?thesis by (simp add: timeval_to_us_def us_to_timeval_def word_mod_div_equality)
qed

lemma timespec_roundtrip: "timespec_to_us (us_to_timespec us) = us"
proof -
  let ?m = "us mod kSeconds"
  have m: "uint ?m < 1000000" "0 \<le> uint ?m" using seconds_small(2) by simp_all
  have "uint (?m * 1000) = uint ?m * 1000" using uint_mult_lem [of ?m 1000] m by simp
  then have n: "sint (?m * 1000) = uint ?m * 1000" using m(1) by (simp add: sint_small)
  have e: "sgn (uint ?m * 1000) * (\<bar>uint ?m * 1000\<bar> div 1000) = uint ?m" using m(2) by (cases "uint ?m = 0") (simp_all add: sgn_mult sgn_if order_less_le)
  have "sint (us div kSeconds) = uint (us div kSeconds)" using seconds_small(1) by (rule sint_small)
  then show ?thesis unfolding timespec_to_us_def us_to_timespec_def timespec.simps n e by (simp add: word_mod_div_equality)
qed

lemma plus_diff: "Time_diff (Time_plus t d) t = d" "Time_plus t (Time_diff t' t) = t'" "Time_minus (Time_plus t d) d = t"
  by (simp_all add: Time_diff_def Time_plus_def Time_minus_def Duration_Microseconds_def)

text \<open>Below \<open>2 ^ 63\<close> microseconds a difference is exact, and negative when the first time is the earlier one.\<close>

lemma Time_diff_exact:
  assumes "uint (time a) < 2 ^ 63" "uint (time b) < 2 ^ 63"
  shows "Duration_Microseconds (Time_diff a b) = uint (time a) - uint (time b)"
proof -
  let ?k = "uint (time a) - uint (time b)"
  have "time a - time b = word_of_int ?k" by simp
  then have "sint (time a - time b) = signed_take_bit 63 ?k" using sint_sbintrunc' [of ?k, where 'a = 64] by simp
  moreover have "- (2 ^ 63) \<le> uint (time a) - uint (time b)" "uint (time a) - uint (time b) < 2 ^ 63"
    using assms uint_ge_0 [of "time a"] uint_ge_0 [of "time b"] by linarith+
  then have "signed_take_bit 63 ?k = ?k" by (intro signed_take_bit_int_eq_self)
  ultimately show ?thesis by (simp add: Duration_Microseconds_def Time_diff_def)
qed

lemma since_until: "Duration_Microseconds (Duration_Since now t) = Duration_Microseconds (Duration_Until t now)"
  by (simp add: Duration_Since_def Duration_Until_def)

text \<open>A negative duration converts to a large number of milliseconds.\<close>

lemma negative_milliseconds_wrong:
  "Duration_Microseconds \<lparr>duration = - 5000\<rparr> = - 5000" "Duration_Milliseconds \<lparr>duration = - 5000\<rparr> = 18446744073709546"
  by (simp_all add: Duration_Microseconds_def Duration_Milliseconds_def kMilliseconds_def)

end
