(* ===== verification/Controller.thy ===== *)
theory Controller
  imports Block_Allocator Control_Plane Msg
begin

text \<open>
  The controller: the agent of \<open>sandook/controller/controller_agent.cc\<close> over the block allocator and
  the control plane scheduler, and the handler of \<open>controller_conn_handler.cc\<close> that decodes
  a request, calls the agent and encodes the reply. A handler returns the agent as the call left it
  and the bytes of the reply; an empty reply is \<open>RPCReturnBuffer{}\<close>. Requests are handled one
  at a time: the agent's two identifiers are atomic and the allocator and the statistics take locks.
\<close>

section \<open>Descriptors\<close>

record ServerDesc =
  sd_id :: nat
  sd_ip :: string
  sd_name :: string
  sd_port :: int
  sd_nsectors :: nat

text \<open>The arrays of the zeroed \<open>ServerInfo\<close> have a fixed size: a longer string is written past their end.\<close>

definition ServerDesc_info :: "ServerDesc \<Rightarrow> ServerInfo status" where
  "ServerDesc_info d = (if length (sd_ip d) \<le> kIPAddrStrLen \<and> length (sd_name d) \<le> kNameStrLen
     then Inr \<lparr>si_ip = strncpy (replicate kIPAddrStrLen 0) (sd_ip d), si_port = sd_port d,
        si_name = strncpy (replicate kNameStrLen 0) (sd_name d), si_id = sd_id d\<rparr>
     else Inl Out_of_range)"

record VolumeDesc =
  vd_id :: nat
  vd_ip :: string
  vd_port :: int
  vd_nsectors :: nat

section \<open>The agent\<close>

record ControllerAgent =
  next_server_id :: nat
  agent_servers :: "ServerID \<rightharpoonup> ServerDesc"
  next_vol_id :: nat
  vols :: "VolumeID \<rightharpoonup> VolumeDesc"
  blk_alloc :: BlockAllocator
  ctl_sched :: ControlPlane

definition ControllerAgent_init :: "policy \<Rightarrow> ControllerAgent" where
  "ControllerAgent_init p = \<lparr>next_server_id = kInvalidServerID + 1, agent_servers = Map.empty,
     next_vol_id = kInvalidVolumeID + 1, vols = Map.empty, blk_alloc = BlockAllocator_init,
     ctl_sched = \<lparr>cp_num_servers = 0, stats_mgr = ServerStatsManager_init, sched = p,
       freeze_weights = False, freeze_modes = False\<rparr>\<rparr>"

type_synonym 'a agent_result = "ControllerAgent \<times> 'a status"

definition RegisterServer :: "(real \<Rightarrow> real) \<Rightarrow> (string \<Rightarrow> LoadLatency option) \<Rightarrow> ControllerAgent \<Rightarrow>
    string \<Rightarrow> int \<Rightarrow> string \<Rightarrow> nat \<Rightarrow> ServerID agent_result" where
  "RegisterServer rnd LoadModel a ip port name n =
     (let sid = next_server_id a; a1 = a\<lparr>next_server_id := to_u32 (sid + 1)\<rparr>
      in if \<not> sid < kNumMaxServers then (a1, Inl Assertion)
         else case expected (BlockAllocator_AddServer (blk_alloc a1) sid n) of
           Inl e \<Rightarrow> (a1, Inl e)
         | Inr None \<Rightarrow> (a1, MakeError EINVAL)
         | Inr (Some ba) \<Rightarrow>
             (let a2 = a1\<lparr>blk_alloc := ba\<rparr>;
                  (cp, r) = ControlPlane_AddServer rnd LoadModel (ctl_sched a2) sid name None;
                  a3 = a2\<lparr>ctl_sched := cp\<rparr>
              in case expected r of
                   Inl e \<Rightarrow> (a3, Inl e)
                 | Inr None \<Rightarrow> (a3, MakeError EINVAL)
                 | Inr (Some _) \<Rightarrow>
                     if agent_servers a3 sid \<noteq> None then (a3, MakeError EINVAL)
                     else (a3\<lparr>agent_servers := (agent_servers a3)(sid \<mapsto>
                             \<lparr>sd_id = sid, sd_ip = ip, sd_name = name, sd_port = port, sd_nsectors = n\<rparr>)\<rparr>,
                           Inr sid)))"

definition RegisterVolume :: "ControllerAgent \<Rightarrow> string \<Rightarrow> int \<Rightarrow> nat \<Rightarrow> VolumeID agent_result" where
  "RegisterVolume a ip port n =
     (let v = next_vol_id a; a1 = a\<lparr>next_vol_id := to_u32 (v + 1)\<rparr>
      in if \<not> v < kNumMaxVolumes then (a1, Inl Assertion)
         else if vols a1 v \<noteq> None then (a1, MakeError EINVAL)
         else (a1\<lparr>vols := (vols a1)(v \<mapsto> \<lparr>vd_id = v, vd_ip = ip, vd_port = port, vd_nsectors = n\<rparr>)\<rparr>, Inr v))"

definition Agent_UpdateServerStats :: "ControllerAgent \<Rightarrow> ServerID \<Rightarrow> ServerStats \<Rightarrow> unit agent_result" where
  "Agent_UpdateServerStats a sid st =
     (if agent_servers a sid = None then (a, Inl Assertion)
      else case ControlPlane_UpdateServerStats (ctl_sched a) sid st False True of
             Inl e \<Rightarrow> (a, Inl e) | Inr cp \<Rightarrow> (a\<lparr>ctl_sched := cp\<rparr>, Inr ()))"

definition Agent_CommitServerMode :: "ControllerAgent \<Rightarrow> ServerID \<Rightarrow> ServerMode \<Rightarrow> unit agent_result" where
  "Agent_CommitServerMode a sid md =
     (if agent_servers a sid = None then (a, Inl Assertion)
      else case ControlPlane_CommitServerMode (ctl_sched a) sid md of
             Inl e \<Rightarrow> (a, Inl e) | Inr cp \<Rightarrow> (a\<lparr>ctl_sched := cp\<rparr>, Inr ()))"

definition Agent_GetServerStats :: "ControllerAgent \<Rightarrow> ServerStatsList status" where
  "Agent_GetServerStats a = GetServerStatsList (stats_mgr (ctl_sched a))"

definition Agent_GetDataPlaneServerStats ::
    "ControllerAgent \<Rightarrow> ServerID \<Rightarrow> (ServerMode \<times> ServerCongestionState \<times> real \<times> real) status" where
  "Agent_GetDataPlaneServerStats a sid =
     ServerStatsManager_GetDataPlaneServerStats (stats_mgr (ctl_sched a)) sid"

text \<open>The batch fills an array of \<open>kAllocationBatch\<close> zeroed entries.\<close>

definition Agent_AllocateBlocks :: "ControllerAgent \<Rightarrow> ServerID \<Rightarrow> ServerBlockInfo list agent_result" where
  "Agent_AllocateBlocks a sid =
     (let server_blks = replicate kAllocationBatch \<lparr>sbi_server_id = 0, sbi_block_addr = 0\<rparr>
      in case BlockAllocator_AllocateBlocks (blk_alloc a) sid (length server_blks) of
           Inl e \<Rightarrow> (a, Inl e)
         | Inr (ba, blks) \<Rightarrow> (a\<lparr>blk_alloc := ba\<rparr>,
             foldS (\<lambda>(i, blk) acc. put_at acc i blk) (enumerate 0 blks) server_blks))"

text \<open>One round of the scheduler's thread.\<close>

definition Agent_Update :: "(real \<Rightarrow> real) \<Rightarrow> ControllerAgent \<Rightarrow> ServerModes \<Rightarrow> ServerWeights \<Rightarrow>
    ServerWeights \<Rightarrow> nat \<Rightarrow> nat \<Rightarrow> ControllerAgent status" where
  "Agent_Update rnd a modes0 r0 w0 now now' =
     bindS (ControlPlane_Update rnd (ctl_sched a) modes0 r0 w0 now now') (\<lambda>cp. Inr (a\<lparr>ctl_sched := cp\<rparr>))"

section \<open>The connection handler\<close>

text \<open>
  What the handlers take from their surroundings: the uninitialised memory of the reply, the bit
  patterns of doubles, the rounding, the model files, the configuration, the clock and the order in
  which the hash table of servers is iterated.
\<close>

record env =
  env_junk :: memory
  env_dc :: dbl_codec
  env_rnd :: "real \<Rightarrow> real"
  env_models :: "string \<Rightarrow> LoadLatency option"
  kDiskServerRejections :: bool
  kDataPlaneSchedulerType :: nat
  env_now :: nat
  env_order :: "ServerID list"

type_synonym buffer = "byte list"

text \<open>\<open>std::isalnum\<close> in the C locale.\<close>

definition isalnum :: "char \<Rightarrow> bool" where
  "isalnum c \<longleftrightarrow> (let k = of_char c :: nat in 48 \<le> k \<and> k \<le> 57 \<or> 65 \<le> k \<and> k \<le> 90 \<or> 97 \<le> k \<and> k \<le> 122)"

definition sanitize :: "string \<Rightarrow> string" where
  "sanitize name = filter (\<lambda>c. c \<noteq> CHR '' '') (filter isalnum name)"

definition HandleAllocateBlocks :: "env \<Rightarrow> ControllerAgent \<Rightarrow> buffer \<Rightarrow> buffer agent_result" where
  "HandleAllocateBlocks E a payload =
     (if length payload \<noteq> sizeof_AllocateBlocksMsg then (a, MakeError EINVAL)
      else case take_AllocateBlocksMsg payload of
        Inl e \<Rightarrow> (a, Inl e)
      | Inr (msg, _) \<Rightarrow> (case Agent_AllocateBlocks a (ab_server_id msg) of
          (a', Inl (Errno _)) \<Rightarrow> (a', Inl Null_pointer)
        | (a', Inl e) \<Rightarrow> (a', Inl e)
        | (a', Inr server_blks) \<Rightarrow> (a', Inr (CreateAllocateBlocksReplyMsg (env_junk E) server_blks))))"

definition HandleRegisterServer :: "env \<Rightarrow> ControllerAgent \<Rightarrow> buffer \<Rightarrow> buffer agent_result" where
  "HandleRegisterServer E a payload =
     (if length payload \<noteq> sizeof_RegisterServerMsg then (a, MakeError EINVAL)
      else case bindS (take_RegisterServerMsg payload) (\<lambda>(msg, _).
             bindS (c_str (drop 20 payload)) (\<lambda>name. bindS (c_str payload) (\<lambda>ip. Inr (msg, name, ip)))) of
        Inl e \<Rightarrow> (a, Inl e)
      | Inr (msg, name, ip) \<Rightarrow>
          (case RegisterServer (env_rnd E) (env_models E) a ip (rs_port msg) (sanitize name) (rs_nsectors msg) of
             (a', Inl e) \<Rightarrow> (a', Inl e)
           | (a', Inr i) \<Rightarrow> (a', Inr (CreateRegisterServerReplyMsg (env_junk E) i (kDiskServerRejections E)))))"

definition add_server_info :: "ControllerAgent \<Rightarrow> ServerID \<Rightarrow> RegisterVolumeReplyMsg \<Rightarrow> RegisterVolumeReplyMsg status" where
  "add_server_info a sid m = (case agent_servers a sid of None \<Rightarrow> Inr m
     | Some d \<Rightarrow> bindS (ServerDesc_info d) (\<lambda>info. AddServer info m))"

definition HandleRegisterVolume :: "env \<Rightarrow> ControllerAgent \<Rightarrow> buffer \<Rightarrow> buffer agent_result" where
  "HandleRegisterVolume E a payload =
     (if length payload \<noteq> sizeof_RegisterVolumeMsg then (a, MakeError EINVAL)
      else case bindS (take_RegisterVolumeMsg payload) (\<lambda>(msg, _).
             bindS (c_str payload) (\<lambda>ip. Inr (msg, ip))) of
        Inl e \<Rightarrow> (a, Inl e)
      | Inr (msg, ip) \<Rightarrow> (case RegisterVolume a ip (rv_port msg) (rv_nsectors msg) of
          (a', Inl e) \<Rightarrow> (a', Inl e)
        | (a', Inr v) \<Rightarrow> (a',
            bindS (foldS (add_server_info a') (env_order E)
              (CreateRegisterVolumeReplyMsg v (kDataPlaneSchedulerType E))) (\<lambda>m.
              Inr (create_msg Msg_kRegisterVolumeReply sizeof_RegisterVolumeReplyMsg
                (put_RegisterVolumeReplyMsg (env_junk E) 16 m))))))"

definition HandleUpdateServerStats :: "env \<Rightarrow> ControllerAgent \<Rightarrow> buffer \<Rightarrow> buffer agent_result" where
  "HandleUpdateServerStats E a payload =
     (if length payload \<noteq> sizeof_UpdateServerStatsMsg then (a, MakeError EINVAL)
      else case take_UpdateServerStatsMsg (env_dc E) payload of
        Inl e \<Rightarrow> (a, Inl e)
      | Inr (msg, _) \<Rightarrow> (case Agent_UpdateServerStats a (us_server_id msg) (us_stats msg) of
          (a', Inl e) \<Rightarrow> (a', Inl e)
        | (a', Inr _) \<Rightarrow> (a',
            case Agent_GetDataPlaneServerStats a' (us_server_id msg) of
              Inl (Errno _) \<Rightarrow> Inl Runtime_error
            | Inl e \<Rightarrow> Inl e
            | Inr (md, c_state, rw, ww) \<Rightarrow> Inr (CreateUpdateServerStatsReplyMsg (env_dc E) (env_junk E)
                (us_server_id msg) md c_state rw ww))))"

definition HandleCommitServerMode :: "env \<Rightarrow> ControllerAgent \<Rightarrow> buffer \<Rightarrow> buffer agent_result" where
  "HandleCommitServerMode E a payload =
     (if length payload \<noteq> sizeof_CommitServerModeMsg then (a, MakeError EINVAL)
      else case take_CommitServerModeMsg payload of
        Inl e \<Rightarrow> (a, Inl e)
      | Inr (msg, _) \<Rightarrow> (case Agent_CommitServerMode a (cm_server_id msg) (cm_mode msg) of
          (a', Inl e) \<Rightarrow> (a', Inl e) | (a', Inr _) \<Rightarrow> (a', Inr [])))"

definition HandleGetServerStats :: "env \<Rightarrow> ControllerAgent \<Rightarrow> buffer \<Rightarrow> buffer agent_result" where
  "HandleGetServerStats E a payload =
     (if length payload \<noteq> sizeof_GetServerStatsMsg then (a, MakeError EINVAL)
      else (a, bindS (take_u32 payload) (\<lambda>(vol_id, _).
        bindS (Agent_GetServerStats a) (\<lambda>server_stats.
        bindS (foldS AddServerStats server_stats (CreateGetServerStatsReplyMsg vol_id)) (\<lambda>m.
          Inr (create_msg Msg_kGetServerStatsReply sizeof_GetServerStatsReplyMsg
            (put_GetServerStatsReplyMsg (env_dc E) (env_junk E) 16 m)))))))"

definition HandleGetControllerTime :: "env \<Rightarrow> ControllerAgent \<Rightarrow> buffer \<Rightarrow> buffer agent_result" where
  "HandleGetControllerTime E a payload =
     (if length payload \<noteq> sizeof_GetControllerTimeMsg then (a, MakeError EINVAL)
      else (a, Inr (CreateGetControllerTimeReplyMsg (env_now E))))"

text \<open>\<open>value_or (RPCReturnBuffer{})\<close>.\<close>

definition value_or_empty :: "buffer agent_result \<Rightarrow> buffer agent_result" where
  "value_or_empty r = (fst r, case snd r of Inl (Errno _) \<Rightarrow> Inr [] | x \<Rightarrow> x)"

definition HandleMsg :: "env \<Rightarrow> ControllerAgent \<Rightarrow> buffer \<Rightarrow> buffer agent_result" where
  "HandleMsg E a payload =
     (if length payload < sizeof_MsgHeader then (a, Inr [])
      else case take_MsgHeader payload of
        Inl e \<Rightarrow> (a, Inl e)
      | Inr (header, msg) \<Rightarrow> (case type header of
          Msg_kAllocateBlocks \<Rightarrow> value_or_empty (HandleAllocateBlocks E a msg)
        | Msg_kUpdateServerStats \<Rightarrow> value_or_empty (HandleUpdateServerStats E a msg)
        | Msg_kGetServerStats \<Rightarrow> value_or_empty (HandleGetServerStats E a msg)
        | Msg_kCommitServerMode \<Rightarrow> value_or_empty (HandleCommitServerMode E a msg)
        | Msg_kGetControllerTime \<Rightarrow> value_or_empty (HandleGetControllerTime E a msg)
        | Msg_kRegisterServer \<Rightarrow> value_or_empty (HandleRegisterServer E a msg)
        | Msg_kRegisterVolume \<Rightarrow> value_or_empty (HandleRegisterVolume E a msg)
        | _ \<Rightarrow> (a, Inr [])))"

section \<open>Invariant\<close>

text \<open>
  The registered servers are \<open>1\<close> to \<open>n\<close> for the agent, its scheduler and its identifiers alike.
\<close>

definition agent_inv :: "ControllerAgent \<Rightarrow> bool" where
  "agent_inv a \<longleftrightarrow> alloc_wf (blk_alloc a) \<and> cp_inv (ctl_sched a) \<and>
     next_server_id a = cp_num_servers (ctl_sched a) + 1 \<and>
     dom (agent_servers a) = {1..cp_num_servers (ctl_sched a)}"

lemma agent_inv_init: "agent_inv (ControllerAgent_init p)"
  using mgr_inv_init by (simp add: agent_inv_def ControllerAgent_init_def BlockAllocator_init_wf cp_inv_def)

lemma Update_cp_inv:
  assumes "cp_inv s" "ControlPlane_Update rnd s modes0 r0 w0 now now' = Inr s'"
  shows "cp_inv s' \<and> cp_num_servers s' = cp_num_servers s"
proof -
  obtain rw ww modes where "cp_num_servers s' = cp_num_servers s"
    "foldS (decide_server rw ww modes) [1..<cp_num_servers s + 1] (stats_mgr s) = Inr (stats_mgr s')"
    by (rule Update_cases [OF assms(2)])
  then show ?thesis using decide_all_eq [of "stats_mgr s" "cp_num_servers s" "cp_num_servers s"] assms(1)
    by (auto simp: cp_inv_def)
qed

lemma ControlPlane_AddServer_ok:
  assumes "cp_inv s" "ControlPlane_AddServer rnd LoadModel s (cp_num_servers s + 1) name model = (s', Inr ())"
    and "cp_num_servers s + 1 < kNumMaxServers"
  shows "cp_inv s' \<and> cp_num_servers s' = cp_num_servers s + 1"
  using assms AddServer_mgr_inv [of "stats_mgr s" "cp_num_servers s"]
  by (auto simp: ControlPlane_AddServer_def cp_inv_def split: prod.splits sum.splits unit.splits)

lemma UpdateServerStats_cp_inv:
  assumes "cp_inv s" "1 \<le> sid" "sid \<le> cp_num_servers s"
    and "ControlPlane_UpdateServerStats s sid st ov upd = Inr s'"
  shows "cp_inv s' \<and> cp_num_servers s' = cp_num_servers s"
proof -
  obtain st' m1 where "stats_mgr s' = m1\<lparr>stats_map := (stats_map m1)[sid := Some st']\<rparr>"
    "server_id st' = sid" "stats_map m1 = stats_map (stats_mgr s)" "servers m1 = servers (stats_mgr s)"
    "cp_num_servers s' = cp_num_servers s"
    using assms(4) by (auto simp: ControlPlane_UpdateServerStats_def ServerStatsManager_UpdateServerStats_def
      Let_def status_simps split: if_splits)
  then show ?thesis using assms mgr_inv_cong [of "stats_mgr s" _ m1] mgr_inv_replace [of m1 _ st' sid]
    by (simp add: cp_inv_def)
qed

lemma CommitServerMode_cp_inv:
  assumes "cp_inv s" "1 \<le> sid" "sid \<le> cp_num_servers s" "ControlPlane_CommitServerMode s sid md = Inr s'"
  shows "cp_inv s' \<and> cp_num_servers s' = cp_num_servers s"
proof -
  obtain st where st: "GetServerStatsOf (stats_mgr s) sid = Inr st" "server_id st = sid"
    using GetServerStatsOf_ok [of "stats_mgr s" _ sid] assms by (auto simp: cp_inv_def)
  then have "s' = s\<lparr>stats_mgr := (stats_mgr s)\<lparr>stats_map := (stats_map (stats_mgr s))[sid :=
      Some (st\<lparr>committed_mode := md\<rparr>)]\<rparr>\<rparr>"
    using assms(4) by (auto simp: ControlPlane_CommitServerMode_def ServerStatsManager_CommitServerMode_def status_simps)
  then show ?thesis using assms st mgr_inv_replace [of "stats_mgr s" _ "st\<lparr>committed_mode := md\<rparr>" sid]
    by (simp add: cp_inv_def)
qed

section \<open>What the operations do to the allocator\<close>

lemma copy_enumerate:
  "length xs \<le> length ys \<Longrightarrow> k + length xs \<le> length ys \<Longrightarrow>
   foldS (\<lambda>(i, x) acc. put_at acc i x) (enumerate k xs) ys = Inr (take k ys @ xs @ drop (k + length xs) ys)"
proof (induction xs arbitrary: k ys)
  case Nil
  then show ?case by simp
next
  case (Cons x xs)
  then have k: "k < length ys" by simp
  then have "take (Suc k) (ys[k := x]) = take k ys @ [x]"
    by (simp add: take_Suc_conv_app_nth)
  then show ?case using Cons k by simp
qed

lemma Agent_AllocateBlocks_eq:
  "Agent_AllocateBlocks a sid = (case BlockAllocator_AllocateBlocks (blk_alloc a) sid kAllocationBatch of
     Inl e \<Rightarrow> (a, Inl e) | Inr (ba, blks) \<Rightarrow> (a\<lparr>blk_alloc := ba\<rparr>, Inr blks))"
proof (cases "BlockAllocator_AllocateBlocks (blk_alloc a) sid kAllocationBatch")
  case (Inr r)
  obtain ba blks where r: "r = (ba, blks)" by (cases r)
  with Inr have "length blks = kAllocationBatch"
    by (auto simp: BlockAllocator_AllocateBlocks_def Let_def status_simps)
  then show ?thesis using Inr r copy_enumerate [of blks "replicate kAllocationBatch \<lparr>sbi_server_id = 0, sbi_block_addr = 0\<rparr>" 0]
    by (simp add: Agent_AllocateBlocks_def)
qed (simp add: Agent_AllocateBlocks_def)

lemma AllocateBlocks_ok_reply:
  assumes "BlockAllocator_AllocateBlocks ba sid kAllocationBatch = Inr (ba', blks)"
  shows "ok_AllocateBlocksReplyMsg blks"
  using assms by (auto simp: BlockAllocator_AllocateBlocks_def Let_def status_simps
      ok_AllocateBlocksReplyMsg_def ok_ServerBlockInfo_def is_u32_def list_all_iff kNumMaxServers_def)

section \<open>Replies\<close>

text \<open>The blocks a reply hands to the client.\<close>

definition allocated :: "buffer \<Rightarrow> ServerBlockInfo list" where
  "allocated r = (case take_MsgHeader r of
     Inr (h, b) \<Rightarrow> if type h = Msg_kAllocateBlocksReply
       then (case take_AllocateBlocksReplyMsg b of Inr (bs, _) \<Rightarrow> bs | Inl _ \<Rightarrow> []) else []
   | Inl _ \<Rightarrow> [])"

lemma allocated_nil [simp]: "allocated [] = []"
  by (simp add: allocated_def take_MsgHeader_def take_u64_def numeral_eq_Suc)

lemma allocated_other: "is_u64 sz \<Longrightarrow> is_msg_type t \<Longrightarrow> t \<noteq> Msg_kAllocateBlocksReply \<Longrightarrow> allocated (create_msg t sz b) = []"
  by (simp add: allocated_def create_msg_header)

lemma allocated_reply: "ok_AllocateBlocksReplyMsg blks \<Longrightarrow> allocated (CreateAllocateBlocksReplyMsg junk blks) = blks"
  by (simp add: allocated_def CreateAllocateBlocksReplyMsg_def create_msg_header allocate_reply.whole_roundtrip
    is_u64_def is_msg_type_def k_defs)

lemmas other_reply = allocated_other [where t = Msg_kRegisterServerReply] allocated_other [where t = Msg_kRegisterVolumeReply]
  allocated_other [where t = Msg_kUpdateServerStatsReply] allocated_other [where t = Msg_kGetServerStatsReply]
  allocated_other [where t = Msg_kGetControllerTimeReply] is_u64_def is_msg_type_def kNumMaxServers_def

text \<open>
  A step that hands out nothing: registered servers keep their pointer, a server that
  registers starts at block 0.
\<close>

definition calm :: "ControllerAgent \<Rightarrow> ControllerAgent \<Rightarrow> bool" where
  "calm a a' \<longleftrightarrow> agent_inv a' \<and> (\<forall>s. agent_servers a s \<noteq> None \<longrightarrow> agent_servers a' s \<noteq> None \<and>
     next_of (blk_alloc a') s = next_of (blk_alloc a) s) \<and>
     (\<forall>s. agent_servers a s = None \<longrightarrow> agent_servers a' s \<noteq> None \<longrightarrow> next_of (blk_alloc a') s = 0)"

lemma calm_refl [simp]: "agent_inv a \<Longrightarrow> calm a a"
  by (simp add: calm_def)

lemma value_or_empty_cases:
  assumes "value_or_empty x = (a', Inr b)"
  obtains (error) c where "x = (a', Inl (Errno c))" "b = []" | (ok) "x = (a', Inr b)"
  using assms by (cases x) (auto simp: value_or_empty_def split: sum.splits fail.splits)

lemma policy_AddServer_no_errno: "policy_AddServer rnd LoadModel p sid name model \<noteq> (p', Inl (Errno c))"
  by (auto simp: policy_AddServer_def ProfileGuided_AddServer_def DiskModel_new_def
      AdaptiveRWIsolationBase_AddServer_def ProfileGuidedRWIsolation_AddServer_def Let_def put_at_def bindS_eq_Inl
      split: policy.splits option.splits sum.splits if_splits prod.splits)

lemma AddServer_no_errno:
  "BlockAllocator_AddServer ba sid n \<noteq> Inl (Errno c)"
  "ControlPlane_AddServer rnd LoadModel cp sid name m \<noteq> (cp', Inl (Errno c))"
  using policy_AddServer_no_errno
  by (auto simp: BlockAllocator_AddServer_def assertS_def ControlPlane_AddServer_def ServerStatsManager_AddServer_def
      bindS_eq_Inl Let_def split: prod.splits sum.splits unit.splits)

lemma RegisterServer_state:
  assumes "agent_servers a (next_server_id a) = None" "RegisterServer rnd LoadModel a ip port name n = (a', Inr sid)"
  obtains ba cp where "next_server_id a < kNumMaxServers" "sid = next_server_id a"
    "BlockAllocator_AddServer (blk_alloc a) sid n = Inr ba"
    "ControlPlane_AddServer rnd LoadModel (ctl_sched a) sid name None = (cp, Inr ())"
    "a' = a\<lparr>next_server_id := to_u32 (sid + 1), blk_alloc := ba, ctl_sched := cp, agent_servers := (agent_servers a)(sid \<mapsto>
       \<lparr>sd_id = sid, sd_ip = ip, sd_name = name, sd_port = port, sd_nsectors = n\<rparr>)\<rparr>"
proof -
  let ?sid = "next_server_id a"
  note reg = assms(2) [unfolded RegisterServer_def Let_def]
  have lt: "?sid < kNumMaxServers" using reg by (auto split: if_splits)
  obtain ba where ba: "BlockAllocator_AddServer (blk_alloc a) ?sid n = Inr ba"
    using reg lt AddServer_no_errno(1) by (cases "BlockAllocator_AddServer (blk_alloc a) ?sid n")
      (auto simp: expected_def split: fail.splits)
  obtain cp r where cp: "ControlPlane_AddServer rnd LoadModel (ctl_sched a) ?sid name None = (cp, r)" by fastforce
  have "r = Inr ()" using reg lt ba cp by (cases r) (auto simp: expected_def split: fail.splits)
  with that [OF lt _ _ _ , of ba cp] show thesis using reg lt ba cp assms(1) by auto
qed

lemma RegisterServer_cases:
  assumes "agent_inv a" "RegisterServer rnd LoadModel a ip port name n = (a', r)"
  shows "r \<noteq> Inl (Errno c)" "r = Inr sid \<Longrightarrow> calm a a' \<and> sid = next_server_id a \<and> agent_servers a sid = None \<and>
    agent_servers a' = (agent_servers a)(sid \<mapsto>
      \<lparr>sd_id = sid, sd_ip = ip, sd_name = name, sd_port = port, sd_nsectors = n\<rparr>)"
proof -
  let ?sid = "next_server_id a"
  have new: "agent_servers a ?sid = None" "?sid = cp_num_servers (ctl_sched a) + 1" "0 < ?sid"
    using assms(1) domIff [of ?sid "agent_servers a"] by (auto simp: agent_inv_def)
  show "r \<noteq> Inl (Errno c)"
    using assms(2) AddServer_no_errno new(1) by (auto simp: RegisterServer_def Let_def expected_def
      split: if_splits sum.splits option.splits prod.splits fail.splits)
  assume r: "r = Inr sid"
  obtain ba cp' where lt: "?sid < kNumMaxServers" and s: "sid = ?sid" and ba: "BlockAllocator_AddServer (blk_alloc a) ?sid n = Inr ba"
    and cp': "ControlPlane_AddServer rnd LoadModel (ctl_sched a) ?sid name None = (cp', Inr ())"
    and a': "a' = a\<lparr>next_server_id := to_u32 (?sid + 1), blk_alloc := ba, ctl_sched := cp',
      agent_servers := (agent_servers a)(?sid \<mapsto>
        \<lparr>sd_id = ?sid, sd_ip = ip, sd_name = name, sd_port = port, sd_nsectors = n\<rparr>)\<rparr>"
    using RegisterServer_state [OF new(1) assms(2) [unfolded r]] by metis
  have inv: "alloc_wf (blk_alloc a)" "cp_inv (ctl_sched a)" "dom (agent_servers a) = {1..?sid - 1}"
    using assms(1) by (simp_all add: agent_inv_def)
  have "cp_inv cp' \<and> cp_num_servers cp' = ?sid"
    using ControlPlane_AddServer_ok [OF inv(2), of rnd LoadModel name None cp'] cp' lt new(2) by simp
  moreover have "insert ?sid {1..?sid - 1} = {1..?sid}" using new(3) by auto
  moreover have "to_u32 (?sid + 1) = ?sid + 1" using lt by (simp add: to_u32_def kNumMaxServers_def)
  ultimately have "agent_inv a'" using AddServer_wf [OF ba inv(1)] inv(3) by (simp add: a' agent_inv_def)
  moreover have "ba ! i = blk_alloc a ! i" if "i \<noteq> ?sid" for i
    using ba that by (auto simp: BlockAllocator_AddServer_def status_simps)
  then have "agent_servers a i \<noteq> None \<longrightarrow> agent_servers a' i \<noteq> None \<and> next_of (blk_alloc a') i = next_of (blk_alloc a) i" for i
    using new(1) by (cases "i = ?sid") (simp_all add: a' next_of_def)
  moreover have "next_allocation (ba ! ?sid) = 0" using ba by (auto simp: BlockAllocator_AddServer_def status_simps)
  then have "agent_servers a i = None \<longrightarrow> agent_servers a' i \<noteq> None \<longrightarrow> next_of (blk_alloc a') i = 0" for i
    by (cases "i = ?sid") (simp_all add: a' next_of_def)
  ultimately show "calm a a' \<and> sid = next_server_id a \<and> agent_servers a sid = None \<and> agent_servers a' = (agent_servers a)(sid \<mapsto>
      \<lparr>sd_id = sid, sd_ip = ip, sd_name = name, sd_port = port, sd_nsectors = n\<rparr>)"
    using new(1) by (simp add: calm_def s) (simp add: a')
qed

lemma calm_cong:
  assumes "agent_inv a" "blk_alloc a' = blk_alloc a" "ctl_sched a' = ctl_sched a"
    and "next_server_id a' = next_server_id a" "agent_servers a' = agent_servers a"
  shows "calm a a'"
  using assms by (simp add: calm_def agent_inv_def)

lemma RegisterVolume_calm:
  assumes "agent_inv a" "RegisterVolume a ip port n = (a', r)"
  shows "calm a a' \<and> agent_servers a' = agent_servers a"
  using assms by (auto simp: RegisterVolume_def Let_def intro!: calm_cong split: if_splits)

lemma registered_range:
  assumes "agent_inv a" "agent_servers a sid \<noteq> None"
  shows "1 \<le> sid" "sid \<le> cp_num_servers (ctl_sched a)" "valid_sid sid"
proof -
  have "sid \<in> {1..cp_num_servers (ctl_sched a)}" using assms by (auto simp: agent_inv_def)
  then show "1 \<le> sid" "sid \<le> cp_num_servers (ctl_sched a)" by simp_all
  then show "valid_sid sid" using assms(1) by (auto simp: agent_inv_def cp_inv_def mgr_inv_def valid_sid_def)
qed

lemma calm_sched:
  assumes "agent_inv a" "cp_inv cp" "cp_num_servers cp = cp_num_servers (ctl_sched a)"
  shows "calm a (a\<lparr>ctl_sched := cp\<rparr>)"
  using assms by (simp add: calm_def agent_inv_def)

lemma report_calm:
  assumes "agent_inv a" "Agent_UpdateServerStats a sid st = (a', r)"
  shows "calm a a'"
proof (cases "agent_servers a sid = None")
  case False
  note rng = registered_range [OF assms(1) False]
  have "cp_inv (ctl_sched a)" using assms(1) by (simp add: agent_inv_def)
  then show ?thesis using assms False UpdateServerStats_cp_inv [OF _ rng(1,2)] calm_sched [OF assms(1)]
    by (fastforce simp: Agent_UpdateServerStats_def split: sum.splits)
qed (use assms in \<open>simp add: Agent_UpdateServerStats_def\<close>)

lemma commit_calm:
  assumes "agent_inv a" "Agent_CommitServerMode a sid md = (a', r)"
  shows "calm a a'"
proof (cases "agent_servers a sid = None")
  case False
  note rng = registered_range [OF assms(1) False]
  have "cp_inv (ctl_sched a)" using assms(1) by (simp add: agent_inv_def)
  then show ?thesis using assms False CommitServerMode_cp_inv [OF _ rng(1,2)] calm_sched [OF assms(1)]
    by (fastforce simp: Agent_CommitServerMode_def split: sum.splits)
qed (use assms in \<open>simp add: Agent_CommitServerMode_def\<close>)

lemma round_calm:
  assumes "agent_inv a" "Agent_Update rnd a modes0 r0 w0 now now' = Inr a'"
  shows "calm a a'"
  using assms Update_cp_inv [of "ctl_sched a"] calm_sched [OF assms(1)]
  by (auto simp: Agent_Update_def status_simps agent_inv_def)

section \<open>Serving requests\<close>

text \<open>Every request but an allocation is calm and hands out no blocks, whatever its bytes.\<close>

lemma HandleRegisterServer_calm:
  assumes "agent_inv a" "value_or_empty (HandleRegisterServer E a p) = (a', Inr r)"
  shows "calm a a' \<and> allocated r = []"
  using assms(2)
proof (cases rule: value_or_empty_cases)
  case (error c)
  have "RegisterServer rnd LoadModel a ip port name n \<noteq> (b, Inl (Errno c))" for rnd LoadModel ip port name n b
    using RegisterServer_cases(1) [OF assms(1)] by blast
  then show ?thesis using error assms(1)
    by (auto simp: HandleRegisterServer_def split: if_splits sum.splits prod.splits)
next
  case ok
  then obtain ip port name n sid where "RegisterServer (env_rnd E) (env_models E) a ip port name n = (a', Inr sid)"
    "r = CreateRegisterServerReplyMsg (env_junk E) sid (kDiskServerRejections E)"
    by (auto simp: HandleRegisterServer_def split: if_splits sum.splits prod.splits)
  then show ?thesis using RegisterServer_cases(2) [OF assms(1)] by (simp add: CreateRegisterServerReplyMsg_def other_reply)
qed

lemma HandleRegisterVolume_calm:
  assumes "agent_inv a" "value_or_empty (HandleRegisterVolume E a p) = (a', Inr r)"
  shows "calm a a' \<and> allocated r = []"
  using assms(2) RegisterVolume_calm [OF assms(1)] assms(1)
  by (cases rule: value_or_empty_cases)
    (fastforce simp: HandleRegisterVolume_def other_reply status_simps split: if_splits sum.splits prod.splits)+

lemma HandleUpdateServerStats_calm:
  assumes "agent_inv a" "value_or_empty (HandleUpdateServerStats E a p) = (a', Inr r)"
  shows "calm a a' \<and> allocated r = []"
  using assms(2) report_calm [OF assms(1)] assms(1)
  by (cases rule: value_or_empty_cases)
    (auto simp: HandleUpdateServerStats_def CreateUpdateServerStatsReplyMsg_def other_reply
      split: if_splits sum.splits prod.splits fail.splits unit.splits)

lemma HandleCommitServerMode_calm:
  assumes "agent_inv a" "value_or_empty (HandleCommitServerMode E a p) = (a', Inr r)"
  shows "calm a a' \<and> allocated r = []"
  using assms(2) commit_calm [OF assms(1)] assms(1)
  by (cases rule: value_or_empty_cases)
    (auto simp: HandleCommitServerMode_def split: if_splits sum.splits prod.splits unit.splits)

lemma HandleGetServerStats_calm:
  assumes "agent_inv a" "value_or_empty (HandleGetServerStats E a p) = (a', Inr r)"
  shows "calm a a' \<and> allocated r = []"
  using assms(2) assms(1)
  by (cases rule: value_or_empty_cases)
    (auto simp: HandleGetServerStats_def status_simps other_reply split: if_splits prod.splits)

lemma HandleGetControllerTime_calm:
  assumes "agent_inv a" "value_or_empty (HandleGetControllerTime E a p) = (a', Inr r)"
  shows "calm a a' \<and> allocated r = []"
  using assms(2) assms(1)
  by (cases rule: value_or_empty_cases)
    (auto simp: HandleGetControllerTime_def CreateGetControllerTimeReplyMsg_def other_reply split: if_splits)

text \<open>The server an allocation request names.\<close>

definition allocation_target :: "buffer \<Rightarrow> ServerID option" where
  "allocation_target p = (case take_MsgHeader p of Inl _ \<Rightarrow> None
     | Inr (h, msg) \<Rightarrow> if type h = Msg_kAllocateBlocks \<and> length msg = sizeof_AllocateBlocksMsg
         then (case take_AllocateBlocksMsg msg of Inr (m, _) \<Rightarrow> Some (ab_server_id m) | Inl _ \<Rightarrow> None) else None)"

lemma HandleAllocateBlocks_cases:
  assumes "agent_inv a" "value_or_empty (HandleAllocateBlocks E a msg) = (a', Inr r)"
    and "take_MsgHeader p = Inr (h, msg)" "type h = Msg_kAllocateBlocks"
  shows "calm a a' \<and> allocated r = [] \<or> (\<exists>sid ba blks. allocation_target p = Some sid \<and>
    BlockAllocator_AllocateBlocks (blk_alloc a) sid kAllocationBatch = Inr (ba, blks) \<and>
    a' = a\<lparr>blk_alloc := ba\<rparr> \<and> allocated r = blks)"
  using assms(2)
proof (cases rule: value_or_empty_cases)
  case (error c)
  then show ?thesis using assms(1)
    by (auto simp: HandleAllocateBlocks_def Agent_AllocateBlocks_eq split: if_splits sum.splits prod.splits fail.splits)
next
  case ok
  then obtain m rest where m: "length msg = 8" "take_AllocateBlocksMsg msg = Inr (m, rest)"
    by (auto simp: HandleAllocateBlocks_def split: if_splits sum.splits prod.splits)
  with ok obtain ba blks where "BlockAllocator_AllocateBlocks (blk_alloc a) (ab_server_id m) kAllocationBatch = Inr (ba, blks)"
    "a' = a\<lparr>blk_alloc := ba\<rparr>" "r = CreateAllocateBlocksReplyMsg (env_junk E) blks"
    by (auto simp: HandleAllocateBlocks_def Agent_AllocateBlocks_eq split: sum.splits prod.splits fail.splits)
  moreover from this(1) have "allocated (CreateAllocateBlocksReplyMsg (env_junk E) blks) = blks"
    by (intro allocated_reply AllocateBlocks_ok_reply)
  ultimately show ?thesis using m assms(3,4) by (auto simp: allocation_target_def)
qed

lemma HandleMsg_cases:
  assumes "agent_inv a" "HandleMsg E a p = (a', Inr r)"
  shows "calm a a' \<and> allocated r = [] \<or> (\<exists>sid ba blks. allocation_target p = Some sid \<and>
    BlockAllocator_AllocateBlocks (blk_alloc a) sid kAllocationBatch = Inr (ba, blks) \<and>
    a' = a\<lparr>blk_alloc := ba\<rparr> \<and> allocated r = blks)"
proof (cases "length p < 16")
  case True
  then show ?thesis using assms by (simp add: HandleMsg_def)
next
  case False
  with assms(2) obtain h msg where h: "take_MsgHeader p = Inr (h, msg)"
    by (auto simp: HandleMsg_def split: sum.splits)
  show ?thesis
  proof (cases "type h")
    case Msg_kAllocateBlocks
    then show ?thesis using assms h False HandleAllocateBlocks_cases [OF assms(1) _ h, of E a' r]
      by (simp add: HandleMsg_def)
  qed (use assms h False in \<open>simp_all add: HandleMsg_def HandleRegisterServer_calm HandleRegisterVolume_calm
      HandleUpdateServerStats_calm HandleCommitServerMode_calm HandleGetServerStats_calm HandleGetControllerTime_calm\<close>)
qed

text \<open>The controller's life: requests of its connections and rounds of its scheduler, in any order.\<close>

datatype ctrl_event =
  Request env buffer
| Round "real \<Rightarrow> real" ServerModes ServerWeights ServerWeights nat nat

fun serve :: "ctrl_event list \<Rightarrow> ControllerAgent \<Rightarrow> (ControllerAgent \<times> buffer list) status" where
  "serve [] a = Inr (a, [])"
| "serve (Request E p # es) a = (case HandleMsg E a p of (a', Inl e) \<Rightarrow> Inl e
     | (a', Inr r) \<Rightarrow> bindS (serve es a') (\<lambda>(b, rs). Inr (b, r # rs)))"
| "serve (Round rnd ms r0 w0 now now' # es) a = bindS (Agent_Update rnd a ms r0 w0 now now') (serve es)"

text \<open>Allocations are requested of servers that are registered when the request arrives.\<close>

fun well_addressed :: "ctrl_event list \<Rightarrow> ControllerAgent \<Rightarrow> bool" where
  "well_addressed [] a \<longleftrightarrow> True"
| "well_addressed (Request E p # es) a \<longleftrightarrow>
     (case allocation_target p of None \<Rightarrow> True | Some sid \<Rightarrow> agent_servers a sid \<noteq> None) \<and>
     well_addressed es (fst (HandleMsg E a p))"
| "well_addressed (Round rnd ms r0 w0 now now' # es) a \<longleftrightarrow>
     (case Agent_Update rnd a ms r0 w0 now now' of Inl _ \<Rightarrow> True | Inr a' \<Rightarrow> well_addressed es a')"

definition room_for :: "nat \<Rightarrow> ControllerAgent \<Rightarrow> bool" where
  "room_for k a \<longleftrightarrow> (\<forall>s. agent_servers a s \<noteq> None \<longrightarrow> next_of (blk_alloc a) s + kAllocationBatch * k < 2 ^ 64)"

definition above :: "ControllerAgent \<Rightarrow> ServerBlockInfo list \<Rightarrow> bool" where
  "above a bs \<longleftrightarrow> (\<forall>b \<in> set bs. agent_servers a (sbi_server_id b) \<noteq> None \<longrightarrow>
     next_of (blk_alloc a) (sbi_server_id b) \<le> unat (sbi_block_addr b))"

lemma above_calm: "calm a a' \<Longrightarrow> above a' bs \<Longrightarrow> above a bs"
  by (auto simp: calm_def above_def)

lemma room_for_calm:
  assumes "calm a a'" "room_for (Suc k) a" "kAllocationBatch * k < 2 ^ 64"
  shows "room_for k a'"
  unfolding room_for_def
proof (intro allI impI)
  fix s
  assume s: "agent_servers a' s \<noteq> None"
  show "next_of (blk_alloc a') s + kAllocationBatch * k < 2 ^ 64"
  proof (cases "agent_servers a s = None")
    case True
    then have "next_of (blk_alloc a') s = 0" using assms(1) s by (simp add: calm_def)
    then show ?thesis using assms(3) by simp
  next
    case False
    then have "next_of (blk_alloc a') s = next_of (blk_alloc a) s" using assms(1) unfolding calm_def by blast
    moreover have "next_of (blk_alloc a) s + kAllocationBatch * Suc k < 2 ^ 64"
      using assms(2) False by (simp add: room_for_def)
    ultimately show ?thesis by simp
  qed
qed

lemma allocation_step:
  assumes "agent_inv a" "agent_servers a sid \<noteq> None" "room_for (Suc k) a"
    and "BlockAllocator_AllocateBlocks (blk_alloc a) sid kAllocationBatch = Inr (ba, blks)"
  shows "agent_inv (a\<lparr>blk_alloc := ba\<rparr>)" "room_for k (a\<lparr>blk_alloc := ba\<rparr>)" "distinct blks" "above a blks"
    and "above (a\<lparr>blk_alloc := ba\<rparr>) bs \<Longrightarrow> above a bs \<and> set blks \<inter> set bs = {}"
proof -
  have wf: "alloc_wf (blk_alloc a)" using assms(1) by (simp add: agent_inv_def)
  note sid = registered_range(3) [OF assms(1,2)]
  have "next_of (blk_alloc a) sid + kAllocationBatch * Suc k < 2 ^ 64"
    using assms(2,3) by (simp add: room_for_def)
  then have room: "next_of (blk_alloc a) sid + kAllocationBatch < 2 ^ 64" by simp
  note addrs = AllocateBlocks_addrs(1) [OF wf sid room assms(4)]
    and nx = next_of_AllocateBlocks [OF wf sid room assms(4)]
  show "agent_inv (a\<lparr>blk_alloc := ba\<rparr>)" using assms(1) AllocateBlocks_wf [OF assms(4) wf]
    by (simp add: agent_inv_def)
  show "room_for k (a\<lparr>blk_alloc := ba\<rparr>)" using assms(3) by (auto simp: room_for_def nx)
  show "distinct blks" using addrs distinct_upt by (metis distinct_map)
  have b: "sbi_server_id b = sid \<and> next_of (blk_alloc a) sid \<le> unat (sbi_block_addr b) \<and>
      unat (sbi_block_addr b) < next_of ba sid" if "b \<in> set blks" for b
  proof -
    have "unat (sbi_block_addr b) \<in> set (map (unat \<circ> sbi_block_addr) blks)" using that by simp
    then show ?thesis unfolding addrs using AllocateBlocks_sid [OF assms(4) that] nx [of sid] by simp
  qed
  then show "above a blks" by (simp add: above_def)
  assume "above (a\<lparr>blk_alloc := ba\<rparr>) bs"
  then show "above a bs \<and> set blks \<inter> set bs = {}"
    using b assms(2) nx by (fastforce simp: above_def)
qed

lemma serve_distinct:
  assumes "serve es a = Inr (a', rs)" "agent_inv a" "well_addressed es a"
    and "room_for (length es) a" "kAllocationBatch * length es < 2 ^ 64"
  shows "agent_inv a' \<and> distinct (concat (map allocated rs)) \<and> above a (concat (map allocated rs))"
  using assms
proof (induction es a arbitrary: a' rs rule: serve.induct)
  case (1 a)
  then show ?case by (simp add: above_def)
next
  case (2 E p es a)
  obtain a1 r rs' where h: "HandleMsg E a p = (a1, Inr r)" "serve es a1 = Inr (a', rs')" "rs = r # rs'"
    using "2.prems"(1) by (auto simp: status_simps split: prod.splits sum.splits)
  have wa: "well_addressed es a1" "allocation_target p = Some sid \<Longrightarrow> agent_servers a sid \<noteq> None" for sid
    using "2.prems"(3) h(1) by auto
  have k: "kAllocationBatch * length es < 2 ^ 64" "room_for (Suc (length es)) a" using "2.prems"(4,5) by simp_all
  note IH = "2.IH" [OF h(1) [symmetric] refl h(2) _ wa(1) _ k(1)]
  from HandleMsg_cases [OF "2.prems"(2) h(1)] show ?case
  proof
    assume c: "calm a a1 \<and> allocated r = []"
    then have "agent_inv a1" "room_for (length es) a1"
      using room_for_calm [OF _ k(2,1), of a1] by (simp_all add: calm_def)
    then show ?case using IH c above_calm [of a a1] h(3) by simp
  next
    assume "\<exists>sid ba blks. allocation_target p = Some sid \<and>
      BlockAllocator_AllocateBlocks (blk_alloc a) sid kAllocationBatch = Inr (ba, blks) \<and>
      a1 = a\<lparr>blk_alloc := ba\<rparr> \<and> allocated r = blks"
    then obtain sid ba blks where t: "allocation_target p = Some sid"
      "BlockAllocator_AllocateBlocks (blk_alloc a) sid kAllocationBatch = Inr (ba, blks)"
      "a1 = a\<lparr>blk_alloc := ba\<rparr>" "allocated r = blks" by blast
    note st = allocation_step [OF "2.prems"(2) wa(2) [OF t(1)] k(2) t(2), folded t(3)]
    show ?case using IH [OF st(1,2)] st(3,4) st(5) [of "concat (map allocated rs')"] t(4) h(3)
      by (auto simp: above_def)
  qed
next
  case (3 rnd ms r0 w0 now now' es a)
  then obtain a1 where a1: "Agent_Update rnd a ms r0 w0 now now' = Inr a1" "serve es a1 = Inr (a', rs)"
    by (auto simp: status_simps)
  have c: "calm a a1" by (rule round_calm [OF "3.prems"(2) a1(1)])
  have k: "kAllocationBatch * length es < 2 ^ 64" "room_for (Suc (length es)) a" using "3.prems"(4,5) by simp_all
  have "agent_inv a1" "room_for (length es) a1" "well_addressed es a1"
    using c room_for_calm [OF c k(2,1)] "3.prems"(3) a1(1) by (simp_all add: calm_def)
  then show ?case using "3.IH" [OF a1(2) _ _ _ k(1)] above_calm [OF c] by simp
qed

section \<open>Requests as the clients create them\<close>

lemma header_reads: "16 \<le> length p \<Longrightarrow> \<exists>h msg. take_MsgHeader p = Inr (h, msg) \<and> length msg = length p - 16"
proof -
  have le: "k \<le> length bs \<Longrightarrow> \<exists>n. take_le k bs = Inr (n, drop k bs)" for k bs
  proof (induction k arbitrary: bs)
    case (Suc k)
    then obtain b bs' n where "bs = b # bs'" "take_le k bs' = Inr (n, drop k bs')" by (cases bs) fastforce+
    then show ?case by simp
  qed simp
  assume p: "16 \<le> length p"
  obtain l where "take_le 8 p = Inr (l, drop 8 p)" using le [of 8 p] p by auto
  moreover obtain s where "take_le 4 (drop 8 p) = Inr (s, drop 12 p)" using le [of 4 "drop 8 p"] p by fastforce
  moreover obtain t where "take_le 4 (drop 12 p) = Inr (t, drop 16 p)" using le [of 4 "drop 12 p"] p by fastforce
  ultimately show ?thesis by (simp add: take_MsgHeader_def take_u64_def take_u32_def)
qed

lemma HandleMsg_create:
  assumes "is_u64 sz" "is_msg_type t"
  shows "HandleMsg E a (create_msg t sz body) = (case t of
          Msg_kAllocateBlocks \<Rightarrow> value_or_empty (HandleAllocateBlocks E a body)
        | Msg_kUpdateServerStats \<Rightarrow> value_or_empty (HandleUpdateServerStats E a body)
        | Msg_kGetServerStats \<Rightarrow> value_or_empty (HandleGetServerStats E a body)
        | Msg_kCommitServerMode \<Rightarrow> value_or_empty (HandleCommitServerMode E a body)
        | Msg_kGetControllerTime \<Rightarrow> value_or_empty (HandleGetControllerTime E a body)
        | Msg_kRegisterServer \<Rightarrow> value_or_empty (HandleRegisterServer E a body)
        | Msg_kRegisterVolume \<Rightarrow> value_or_empty (HandleRegisterVolume E a body)
        | _ \<Rightarrow> (a, Inr []))"
  using assms by (simp add: HandleMsg_def create_msg_header)

text \<open>What the handlers make of the agent's result.\<close>

definition with_reply :: "'a agent_result \<Rightarrow> (ControllerAgent \<Rightarrow> 'a \<Rightarrow> buffer status) \<Rightarrow> buffer agent_result" where
  "with_reply r f = (fst r, bindS (snd r) (f (fst r)))"

lemma AllocateBlocks_no_errno: "BlockAllocator_AllocateBlocks ba sid n \<noteq> Inl (Errno c)"
  by (auto simp: BlockAllocator_AllocateBlocks_def assertS_def bindS_eq_Inl Let_def)

lemma HandleMsg_allocate:
  assumes "is_u32 vol" "is_u32 sid"
  shows "HandleMsg E a (CreateAllocateBlocksMsg junk vol sid) =
    with_reply (Agent_AllocateBlocks a sid) (\<lambda>_ blks. Inr (CreateAllocateBlocksReplyMsg (env_junk E) blks))"
proof -
  let ?m = "\<lparr>ab_vol_id = vol, ab_server_id = sid\<rparr>"
  have "ok_AllocateBlocksMsg ?m" using assms by (simp add: ok_AllocateBlocksMsg_def)
  then show ?thesis using AllocateBlocks_no_errno [of "blk_alloc a" sid kAllocationBatch]
    by (auto simp: CreateAllocateBlocksMsg_def HandleMsg_create is_u64_def is_msg_type_def HandleAllocateBlocks_def
      allocate.wput_size allocate.whole_roundtrip Agent_AllocateBlocks_eq with_reply_def value_or_empty_def
      split: sum.splits fail.splits)
qed

lemma HandleMsg_report:
  assumes "is_u32 sid" "ok_ServerStats (env_dc E) st"
  shows "HandleMsg E a (CreateUpdateServerStatsMsg (env_dc E) junk sid st) =
    value_or_empty (with_reply (Agent_UpdateServerStats a sid (st\<lparr>server_id := sid\<rparr>)) (\<lambda>a' _.
      case Agent_GetDataPlaneServerStats a' sid of Inl (Errno _) \<Rightarrow> Inl Runtime_error | Inl e \<Rightarrow> Inl e
      | Inr (md, c, rw, ww) \<Rightarrow> Inr (CreateUpdateServerStatsReplyMsg (env_dc E) (env_junk E) sid md c rw ww)))"
proof -
  let ?m = "\<lparr>us_server_id = sid, us_stats = st\<lparr>server_id := sid\<rparr>\<rparr>"
  have "ok_UpdateServerStatsMsg (env_dc E) ?m" using assms
    by (simp add: ok_UpdateServerStatsMsg_def ok_ServerStats_def)
  then show ?thesis
    by (simp add: CreateUpdateServerStatsMsg_def HandleMsg_create is_u64_def is_msg_type_def HandleUpdateServerStats_def
      update_stats.wput_size update_stats.whole_roundtrip with_reply_def split: prod.splits sum.splits fail.splits)
qed

lemma HandleMsg_commit:
  assumes "is_u32 sid"
  shows "HandleMsg E a (CreateCommitServerModeMsg junk sid md) =
    value_or_empty (with_reply (Agent_CommitServerMode a sid md) (\<lambda>_ _. Inr []))"
proof -
  have "ok_CommitServerModeMsg \<lparr>cm_server_id = sid, cm_mode = md\<rparr>" using assms by (simp add: ok_CommitServerModeMsg_def)
  then show ?thesis
    by (simp add: CreateCommitServerModeMsg_def HandleMsg_create is_u64_def is_msg_type_def HandleCommitServerMode_def
      commit_mode.wput_size commit_mode.whole_roundtrip with_reply_def split: prod.splits sum.splits)
qed

text \<open>A registration whose address happens to be terminated in the buffer.\<close>

lemma HandleMsg_register:
  assumes "length name < kNameStrLen" "no_nul name" "length ip < kIPAddrStrLen" "no_nul ip"
    and "is_i32 port" "is_u64 n" "CreateRegisterServerMsg (\<lambda>_. 0) ip port name n = Inr msg"
  shows "HandleMsg E a msg = value_or_empty (with_reply
    (RegisterServer (env_rnd E) (env_models E) a ip port (sanitize name) n) (\<lambda>_ i.
      Inr (CreateRegisterServerReplyMsg (env_junk E) i (kDiskServerRejections E))))"
proof -
  let ?m = "\<lparr>rs_ip = strncpy (pad (\<lambda>_. 0) 16 kIPAddrStrLen) ip, rs_port = port,
            rs_name = strncpy (replicate kNameStrLen 0) name, rs_nsectors = n\<rparr>"
  let ?b = "put_RegisterServerMsg (\<lambda>_. 0) 16 ?m"
  have ok: "ok_RegisterServerMsg ?m" using assms by (simp add: ok_RegisterServerMsg_def)
  have zero: "strncpy (replicate k 0) s @ r = bytes_of s @ 0 # replicate (k - length s - 1) 0 @ r"
    if "length s < k" "no_nul s" for k s r
    using that by (cases "k - length s") (simp_all add: strncpy_plain)
  have junk: "pad (\<lambda>_. 0) 16 kIPAddrStrLen = replicate kIPAddrStrLen 0" by (simp add: pad_def map_replicate_const)
  have "drop 20 ?b = strncpy (replicate kNameStrLen 0) name @ put_u64 n"
    using assms(3) by (simp add: put_RegisterServerMsg_def kIPAddrStrLen_def)
  then have "c_str (drop 20 ?b) = Inr name" "c_str ?b = Inr ip"
    using assms(1-4) by (simp_all add: zero c_str_terminated put_RegisterServerMsg_def junk)
  moreover have "msg = create_msg Msg_kRegisterServer 48 ?b"
    using assms(1,3,7) by (simp add: CreateRegisterServerMsg_def)
  ultimately show ?thesis using ok
    by (simp add: HandleMsg_create is_u64_def is_msg_type_def HandleRegisterServer_def
      register_server.wput_size register_server.whole_roundtrip with_reply_def split: prod.splits sum.splits)
qed

section \<open>Properties\<close>

text \<open>
  C2. The controller never gives a block to two clients: over any sequence of
  requests with arbitrary bytes and scheduler rounds that it serves from its start, in which
  allocations name registered servers, the blocks decoded from all its replies are pairwise
  distinct, as long as the number of blocks fits in 64 bits.
\<close>

theorem controller_hands_out_once:
  assumes "serve es (ControllerAgent_init p) = Inr (a, rs)" "well_addressed es (ControllerAgent_init p)"
    and "kAllocationBatch * length es < 2 ^ 64"
  shows "distinct (concat (map allocated rs)) \<and> agent_inv a"
  using serve_distinct [OF assms(1) agent_inv_init assms(2) _ assms(3)]
  by (simp add: room_for_def ControllerAgent_init_def)

text \<open>A concrete run: a server registers, then two clients allocate from it.\<close>

definition demo_env :: env where
  "demo_env = \<lparr>env_junk = (\<lambda>_. 0), env_dc = (\<lambda>_. 0, \<lambda>_. 0), env_rnd = (\<lambda>x. x), env_models = (\<lambda>_. None),
     kDiskServerRejections = True, kDataPlaneSchedulerType = 0, env_now = 0, env_order = []\<rparr>"

definition demo_registration :: buffer where
  "demo_registration = (case CreateRegisterServerMsg (\<lambda>_. 0) ''10.0.0.1'' 5000 ''S3EWNX'' 1000 of Inr m \<Rightarrow> m | Inl _ \<Rightarrow> [])"

definition demo_agent :: ControllerAgent where
  "demo_agent = fst (RegisterServer (\<lambda>x. x) (\<lambda>_. None) (ControllerAgent_init NoOp) ''10.0.0.1'' 5000 ''S3EWNX'' 1000)"

lemma demo_register:
  "RegisterServer (\<lambda>x. x) (\<lambda>_. None) (ControllerAgent_init NoOp) ''10.0.0.1'' 5000 ''S3EWNX'' 1000 = (demo_agent, Inr 1)"
  by (simp add: demo_agent_def RegisterServer_def ControllerAgent_init_def BlockAllocator_AddServer_def BlockAllocator_init_def
      ControlPlane_AddServer_def policy_AddServer_def ServerStatsManager_AddServer_def ServerStatsManager_init_def
      k_defs Let_def assertS_def split: unit.split)

lemma demo_HandleMsg:
  "HandleMsg demo_env (ControllerAgent_init NoOp) demo_registration =
    (demo_agent, Inr (CreateRegisterServerReplyMsg (\<lambda>_. 0) 1 True))"
proof -
  obtain m where m: "CreateRegisterServerMsg (\<lambda>_. 0) ''10.0.0.1'' 5000 ''S3EWNX'' 1000 = Inr m"
    by (simp add: CreateRegisterServerMsg_def kNameStrLen_def kIPAddrStrLen_def)
  have "sanitize ''S3EWNX'' = ''S3EWNX''" by (simp add: sanitize_def isalnum_def Let_def of_char_def)
  then show ?thesis using HandleMsg_register [OF _ _ _ _ _ _ m, of demo_env "ControllerAgent_init NoOp"] demo_register
    by (simp add: demo_registration_def m kNameStrLen_def kIPAddrStrLen_def no_nul_def bytes_of_def is_i32_def is_u64_def
      of_char_def demo_env_def with_reply_def value_or_empty_def)
qed

lemma demo_target:
  "allocation_target (CreateAllocateBlocksMsg (\<lambda>_. 0) 1 1) = Some 1" "allocation_target demo_registration = None"
proof -
  have "ok_AllocateBlocksMsg \<lparr>ab_vol_id = 1, ab_server_id = 1\<rparr>" by (simp add: ok_AllocateBlocksMsg_def is_u32_def)
  then show "allocation_target (CreateAllocateBlocksMsg (\<lambda>_. 0) 1 1) = Some 1"
    by (simp add: allocation_target_def CreateAllocateBlocksMsg_def create_msg_header is_u64_def is_msg_type_def
      allocate.wput_size allocate.whole_roundtrip)
  show "allocation_target demo_registration = None"
    by (simp add: demo_registration_def CreateRegisterServerMsg_def kNameStrLen_def kIPAddrStrLen_def
      allocation_target_def create_msg_header is_u64_def is_msg_type_def)
qed

lemma demo_agent_servers: "agent_servers demo_agent 1 \<noteq> None" "agent_inv demo_agent"
  using RegisterServer_cases(2) [OF agent_inv_init demo_register, of 1] by (auto simp: calm_def)

lemma HandleMsg_allocate_registered:
  assumes "agent_inv a" "agent_servers a 1 \<noteq> None"
  shows "\<exists>a' r. HandleMsg E a (CreateAllocateBlocksMsg (\<lambda>_. 0) 1 1) = (a', Inr r) \<and> agent_inv a' \<and>
    agent_servers a' = agent_servers a"
proof -
  have wf: "alloc_wf (blk_alloc a)" "valid_sid 1" using assms registered_range(3) [OF assms] by (simp_all add: agent_inv_def)
  obtain ba blks where al: "BlockAllocator_AllocateBlocks (blk_alloc a) 1 kAllocationBatch = Inr (ba, blks)"
    using AllocateBlocks_eq [OF wf] by blast
  then have "agent_inv (a\<lparr>blk_alloc := ba\<rparr>)" using assms(1) AllocateBlocks_wf [OF al wf(1)] by (simp add: agent_inv_def)
  then show ?thesis using al by (simp add: HandleMsg_allocate is_u32_def Agent_AllocateBlocks_eq with_reply_def)
qed

theorem controller_hands_out_once_witness:
  "\<exists>a rs. serve [Request demo_env demo_registration, Request demo_env (CreateAllocateBlocksMsg (\<lambda>_. 0) 1 1),
      Request demo_env (CreateAllocateBlocksMsg (\<lambda>_. 0) 1 1)] (ControllerAgent_init NoOp) = Inr (a, rs) \<and>
    distinct (concat (map allocated rs))"
proof -
  let ?q = "Request demo_env (CreateAllocateBlocksMsg (\<lambda>_. 0) 1 1)"
  let ?es = "[Request demo_env demo_registration, ?q, ?q]"
  obtain a1 r1 where 1: "HandleMsg demo_env demo_agent (CreateAllocateBlocksMsg (\<lambda>_. 0) 1 1) = (a1, Inr r1)"
    "agent_inv a1" "agent_servers a1 = agent_servers demo_agent"
    using HandleMsg_allocate_registered [OF demo_agent_servers(2,1)] by blast
  have "agent_servers a1 1 \<noteq> None" using 1(3) demo_agent_servers(1) by simp
  from HandleMsg_allocate_registered [OF 1(2) this, of demo_env]
  obtain a2 r2 where 2: "HandleMsg demo_env a1 (CreateAllocateBlocksMsg (\<lambda>_. 0) 1 1) = (a2, Inr r2)" by blast
  have "serve ?es (ControllerAgent_init NoOp) = Inr (a2, [CreateRegisterServerReplyMsg (\<lambda>_. 0) 1 True, r1, r2])"
    by (simp add: demo_HandleMsg [simplified] 1(1) [simplified] 2 [simplified])
  moreover have "well_addressed ?es (ControllerAgent_init NoOp)"
    using demo_agent_servers(1) 1(3) by (simp add: demo_HandleMsg [simplified] 1(1) [simplified] demo_target [simplified])
  ultimately show ?thesis using controller_hands_out_once [of ?es NoOp a2] by (auto simp: kAllocationBatch_def)
qed



text \<open>The size of the body each request must have.\<close>

definition request_size :: "MsgType \<Rightarrow> nat option" where
  "request_size t = (case t of Msg_kAllocateBlocks \<Rightarrow> Some sizeof_AllocateBlocksMsg
     | Msg_kUpdateServerStats \<Rightarrow> Some sizeof_UpdateServerStatsMsg | Msg_kGetServerStats \<Rightarrow> Some sizeof_GetServerStatsMsg
     | Msg_kCommitServerMode \<Rightarrow> Some sizeof_CommitServerModeMsg | Msg_kGetControllerTime \<Rightarrow> Some sizeof_GetControllerTimeMsg
     | Msg_kRegisterServer \<Rightarrow> Some sizeof_RegisterServerMsg | Msg_kRegisterVolume \<Rightarrow> Some sizeof_RegisterVolumeMsg
     | _ \<Rightarrow> None)"

text \<open>
  C29. The controller survives malformed requests: bytes shorter than a header, a type it does not
  serve, or a body whose size is not the size of the struct, get an empty reply and leave the
  controller as it was.
\<close>

theorem malformed_request_ignored:
  assumes "case take_MsgHeader p of Inl _ \<Rightarrow> True | Inr (h, msg) \<Rightarrow> request_size (type h) \<noteq> Some (length msg)"
  shows "HandleMsg E a p = (a, Inr [])"
proof (cases "length p < 16")
  case True
  then show ?thesis by (simp add: HandleMsg_def)
next
  case False
  then obtain h msg where h: "take_MsgHeader p = Inr (h, msg)" using header_reads [of p] by auto
  then show ?thesis using assms False
    by (cases "type h") (simp_all add: HandleMsg_def request_size_def value_or_empty_def HandleAllocateBlocks_def
      HandleUpdateServerStats_def HandleGetServerStats_def HandleCommitServerMode_def HandleGetControllerTime_def
      HandleRegisterServer_def HandleRegisterVolume_def)
qed

theorem malformed_request_ignored_witness:
  "HandleMsg demo_env demo_agent (create_msg Msg_kAllocateBlocks 8 [1, 0, 0]) = (demo_agent, Inr [])"
  using malformed_request_ignored [of "create_msg Msg_kAllocateBlocks 8 [1, 0, 0]" demo_env demo_agent]
  by (simp add: create_msg_header is_u64_def is_msg_type_def request_size_def)

end
