(* ===== verification/Cluster.thy ===== *)
theory Cluster
  imports Controller Disk_Server
begin

text \<open>
  A disk server and the controller together: the reporting thread of \<open>storage_server.cc\<close> over the
  connection handler of \<open>controller_conn_handler.cc\<close>, with bytes exchanged between them. The RPC
  layer hands each request to the handler and its result back.
\<close>

text \<open>A controller that stops instead of answering sends nothing.\<close>

definition controller_call :: "env \<Rightarrow> ControllerAgent rpc_call" where
  "controller_call E a req = (case HandleMsg E a req of (a', Inr resp) \<Rightarrow> (resp, a') | (a', Inl _) \<Rightarrow> ([], a'))"

definition server_record :: "ControllerAgent \<Rightarrow> ServerID \<Rightarrow> ServerStats option" where
  "server_record a sid = stats_map (stats_mgr (ctl_sched a)) ! sid"

lemma registered_record:
  assumes "agent_inv a" "agent_servers a sid \<noteq> None"
  shows "\<exists>st. server_record a sid = Some st \<and> server_id st = sid \<and>
    GetServerStatsOf (stats_mgr (ctl_sched a)) sid = Inr st \<and> sid < length (stats_map (stats_mgr (ctl_sched a)))"
proof -
  note rng = registered_range [OF assms]
  have m: "mgr_inv (stats_mgr (ctl_sched a)) (cp_num_servers (ctl_sched a))" using assms(1) by (simp add: agent_inv_def cp_inv_def)
  then show ?thesis using GetServerStatsOf_ok [OF m rng(1,2)] rng(2)
    by (auto simp: server_record_def mgr_inv_def)
qed

text \<open>Both requests of the reporting thread, on the record of the server.\<close>

lemma report_record:
  assumes "agent_inv a" "agent_servers a sid \<noteq> None" "server_record a sid = Some old" "server_id st = sid"
  shows "\<exists>a'. Agent_UpdateServerStats a sid st = (a', Inr ()) \<and> agent_inv a' \<and> agent_servers a' = agent_servers a \<and>
    server_record a' sid = Some (st\<lparr>mode := mode old, read_weight := read_weight old, write_weight := write_weight old\<rparr>)"
proof -
  obtain a' r where u: "Agent_UpdateServerStats a sid st = (a', r)" by fastforce
  have "calm a a'" by (rule report_calm [OF assms(1) u])
  moreover have "r = Inr () \<and> agent_servers a' = agent_servers a \<and>
      server_record a' sid = Some (st\<lparr>mode := mode old, read_weight := read_weight old, write_weight := write_weight old\<rparr>)"
    using u registered_record [OF assms(1,2)] assms(2-4)
    by (auto simp: Agent_UpdateServerStats_def ControlPlane_UpdateServerStats_def ServerStatsManager_UpdateServerStats_def
      server_record_def Let_def)
  ultimately show ?thesis using u by (auto simp: calm_def)
qed

lemma commit_record:
  assumes "agent_inv a" "agent_servers a sid \<noteq> None" "server_record a sid = Some old"
  shows "\<exists>a'. Agent_CommitServerMode a sid md = (a', Inr ()) \<and> agent_inv a' \<and> agent_servers a' = agent_servers a \<and>
    server_record a' sid = Some (old\<lparr>committed_mode := md\<rparr>)"
proof -
  obtain a' r where u: "Agent_CommitServerMode a sid md = (a', r)" by fastforce
  have "calm a a'" by (rule commit_calm [OF assms(1) u])
  moreover have "r = Inr () \<and> agent_servers a' = agent_servers a \<and> server_record a' sid = Some (old\<lparr>committed_mode := md\<rparr>)"
    using u registered_record [OF assms(1,2)] assms(2,3)
    by (auto simp: Agent_CommitServerMode_def ControlPlane_CommitServerMode_def ServerStatsManager_CommitServerMode_def
      server_record_def)
  ultimately show ?thesis using u by (auto simp: calm_def)
qed

lemma last_bytes_create_msg:
  "is_u64 sz \<Longrightarrow> is_msg_type t \<Longrightarrow> length body = n \<Longrightarrow> last_bytes n (create_msg t sz body) = Inr body"
  by (simp add: last_bytes_def create_msg_def header.wput_size ok_MsgHeader_def is_u32_def)

lemma HandleUpdateServerStatsReply_create:
  assumes "is_u32 sid" "is_dbl dc rw" "is_dbl dc ww"
  shows "HandleUpdateServerStatsReply dc now s (CreateUpdateServerStatsReplyMsg dc junk sid md c rw ww) =
    Inr (s\<lparr>mon := SetModeAndWeights (mon s) md rw ww now\<rparr>)"
proof -
  let ?m = "\<lparr>ur_server_id = sid, ur_mode = md, ur_congestion_state = c, ur_read_weight = rw, ur_write_weight = ww\<rparr>"
  have "ok_UpdateServerStatsReplyMsg dc ?m" using assms by (simp add: ok_UpdateServerStatsReplyMsg_def)
  then show ?thesis
    by (simp add: HandleUpdateServerStatsReply_def CreateUpdateServerStatsReplyMsg_def last_bytes_create_msg
      update_stats_reply.wput_size update_stats_reply.whole_roundtrip is_u64_def is_msg_type_def)
qed

lemma report_call:
  assumes "agent_inv a" "agent_servers a sid \<noteq> None" "server_record a sid = Some old" "ok_ServerStats (env_dc E) st"
  shows "\<exists>a'. controller_call E a (CreateUpdateServerStatsMsg (env_dc E) junk sid st) =
      (CreateUpdateServerStatsReplyMsg (env_dc E) (env_junk E) sid (mode old) (congestion_state st) (read_weight old)
         (write_weight old), a') \<and> agent_inv a' \<and> agent_servers a' = agent_servers a \<and>
    server_record a' sid = Some (st\<lparr>server_id := sid, mode := mode old, read_weight := read_weight old,
      write_weight := write_weight old\<rparr>)"
proof -
  have u: "is_u32 sid" using registered_range [OF assms(1,2)] by (simp add: valid_sid_def is_u32_def kNumMaxServers_def)
  obtain a' where a': "Agent_UpdateServerStats a sid (st\<lparr>server_id := sid\<rparr>) = (a', Inr ())" "agent_inv a'"
    "agent_servers a' = agent_servers a"
    "server_record a' sid = Some (st\<lparr>server_id := sid, mode := mode old, read_weight := read_weight old,
       write_weight := write_weight old\<rparr>)"
    using report_record [OF assms(1-3), of "st\<lparr>server_id := sid\<rparr>"] by auto
  obtain st' where "server_record a' sid = Some st'" "GetServerStatsOf (stats_mgr (ctl_sched a')) sid = Inr st'"
    using registered_record [OF a'(2), of sid] a'(3) assms(2) by auto
  then have "Agent_GetDataPlaneServerStats a' sid = Inr (mode old, congestion_state st, read_weight old, write_weight old)"
    using a'(4) by (auto simp: Agent_GetDataPlaneServerStats_def ServerStatsManager_GetDataPlaneServerStats_def)
  then show ?thesis using a'
    by (simp add: controller_call_def HandleMsg_report [OF u assms(4)] with_reply_def value_or_empty_def)
qed

lemma commit_call:
  assumes "agent_inv a" "agent_servers a sid \<noteq> None" "server_record a sid = Some old"
  shows "\<exists>a'. controller_call E a (CreateCommitServerModeMsg junk sid md) = ([], a') \<and> agent_inv a' \<and>
    server_record a' sid = Some (old\<lparr>committed_mode := md\<rparr>)"
proof -
  have u: "is_u32 sid" using registered_range [OF assms(1,2)] by (simp add: valid_sid_def is_u32_def kNumMaxServers_def)
  show ?thesis using commit_record [OF assms, of md]
    by (auto simp: controller_call_def HandleMsg_commit [OF u] with_reply_def value_or_empty_def)
qed

text \<open>
  C8. A report brings the controller and the disk server to the same decision. After one round of
  the reporting thread of a registered server, the server runs in the mode and with the weights the
  controller had decided for it, the controller has recorded that mode as committed and the counts
  the server reported, and its decision is unchanged. A server told to serve reads refuses, once the
  grace period is over, every write that does not insist on it.
\<close>

theorem report_round_synchronises:
  assumes "agent_inv a" "agent_servers a (ss_server_id s) \<noteq> None" "server_record a (ss_server_id s) = Some old"
    and "is_dbl (env_dc E) (read_weight old)" "is_dbl (env_dc E) (write_weight old)"
    and "(st, m) = UpdateAndGetServerStats rnd cpu (mon s) now now'" "ok_ServerStats (env_dc E) st"
  shows "\<exists>s' a'. ControllerStatsUpdater_round rnd (env_dc E) junk (controller_call E) cpu now now' now'' s a = Inr (s', a') \<and>
    agent_inv a' \<and> m_mode (mon s') = mode old \<and> m_read_weight (mon s') = read_weight old \<and>
    m_write_weight (mon s') = write_weight old \<and>
    server_record a' (ss_server_id s) = Some (st\<lparr>server_id := ss_server_id s, mode := mode old,
      read_weight := read_weight old, write_weight := write_weight old, committed_mode := mode old\<rparr>) \<and>
    (\<forall>B t x r. mode old = Mode_kRead \<and> be_server B x = s' \<and> \<not> IsModeSwitchGracePeriod (mon s') (t_arrive t) \<and>
       req_op r = Op_kWrite \<and> rq_aff r = kInvalidServerID \<longrightarrow> refuses B t x r)"
proof -
  let ?sid = "ss_server_id s" and ?s1 = "s\<lparr>mon := m\<rparr>"
  obtain a1 where a1: "controller_call E a (CreateUpdateServerStatsMsg (env_dc E) junk ?sid st) =
      (CreateUpdateServerStatsReplyMsg (env_dc E) (env_junk E) ?sid (mode old) (congestion_state st) (read_weight old)
         (write_weight old), a1)" "agent_inv a1" "agent_servers a1 = agent_servers a"
    "server_record a1 ?sid = Some (st\<lparr>server_id := ?sid, mode := mode old, read_weight := read_weight old,
      write_weight := write_weight old\<rparr>)"
    using report_call [OF assms(1-3,7), of junk] by blast
  have u: "is_u32 ?sid" using registered_range [OF assms(1,2)] by (simp add: valid_sid_def is_u32_def kNumMaxServers_def)
  obtain a2 where "controller_call E a1 (CreateCommitServerModeMsg junk ?sid (mode old)) = ([], a2)" "agent_inv a2"
    "server_record a2 ?sid = Some (st\<lparr>server_id := ?sid, mode := mode old, read_weight := read_weight old,
      write_weight := write_weight old, committed_mode := mode old\<rparr>)"
    using commit_call [OF a1(2) _ a1(4), of E junk "mode old"] a1(3) assms(2) by auto
  then show ?thesis using a1(1) HandleUpdateServerStatsReply_create [OF u assms(4,5), of now'' ?s1]
    by (auto simp: ControllerStatsUpdater_round_def SetModeAndWeights_def Let_def refuses_def IsAllowingWrites_def
      simp flip: assms(6))
qed

definition demo_server :: StorageServer where
  "demo_server = \<lparr>ss_name = ''S3EWNX'', ss_server_id = 1, mon = DiskMonitor_init 1\<rparr>"

definition demo_dc :: dbl_codec where
  "demo_dc = ((\<lambda>x. if x = 0 then 0 else 1), (\<lambda>n. if n = 0 then 0 else 1))"

lemma demo_record: "server_record demo_agent 1 = Some (zero_stats\<lparr>server_id := 1, read_weight := 1, write_weight := 1\<rparr>)"
  by (simp add: demo_agent_def server_record_def RegisterServer_def ControllerAgent_init_def BlockAllocator_AddServer_def
    BlockAllocator_init_def ControlPlane_AddServer_def policy_AddServer_def ServerStatsManager_AddServer_def
    ServerStatsManager_init_def k_defs kDefaultServerWeight_def zero_stats_def Let_def assertS_def split: unit.split)

lemma demo_report:
  "\<exists>st m. (st, m) = UpdateAndGetServerStats (\<lambda>x. x) 0 (mon demo_server) 10 11 \<and> ok_ServerStats demo_dc st"
  by (simp add: UpdateAndGetServerStats_def UpdateStats_def Let_def demo_server_def DiskMonitor_init_def GetServerStats_def
    OpCounters_init_def OpLatency_init_def ThreadSafeCounter_init_def get_sum_and_reset_def get_sum_def int_u32_def zero_stats_def
    ok_ServerStats_def is_dbl_def demo_dc_def is_u32_def is_u64_def fdiv_def fof_nat_def)

theorem report_round_synchronises_witness:
  "\<exists>s' a'. ControllerStatsUpdater_round (\<lambda>x. x) demo_dc (\<lambda>_. 0) (controller_call (demo_env\<lparr>env_dc := demo_dc\<rparr>)) 0 10 11 12
      demo_server demo_agent = Inr (s', a') \<and> agent_inv a' \<and> m_mode (mon s') = Mode_kMix \<and> m_read_weight (mon s') = 1"
proof -
  obtain st m where "(st, m) = UpdateAndGetServerStats (\<lambda>x. x) 0 (mon demo_server) 10 11" "ok_ServerStats demo_dc st"
    using demo_report by blast
  then show ?thesis
    using report_round_synchronises [of demo_agent demo_server "zero_stats\<lparr>server_id := 1, read_weight := 1, write_weight := 1\<rparr>"
      "demo_env\<lparr>env_dc := demo_dc\<rparr>" st m "\<lambda>x. x" 0 10 11 "\<lambda>_. 0" 12]
      demo_agent_servers demo_record
    by (auto simp: demo_server_def zero_stats_def is_dbl_def demo_dc_def)
qed

end
