(* ===== verification/Virtual_Disk.thy ===== *)
theory Virtual_Disk
  imports Virtual_Disk_Base Block_Resolver Data_Plane Counter
begin

text \<open>
  The remote virtual disk (\<open>sandook/virtual_disk/virtual_disk_remote.cc\<close>): it turns a one-sector request
  on the volume into requests to disk servers. Reads go to a replica of the block, writes to freshly allocated
  blocks on several servers. What lies outside (the controller, the disk servers, random numbers, the
  clock, the core a thread runs on and the order in which the threads of a write run) is a record
  of functions on a state \<open>'w\<close>. An operation returns \<open>None\<close> when it does not return; retries are
  bounded by fuel. The thread that writes one replica is an atomic step.
\<close>

section \<open>Computations\<close>

type_synonym ('s, 'a) comp = "'s \<Rightarrow> ('a status \<times> 's) option"

definition bindM :: "('s, 'a) comp \<Rightarrow> ('a \<Rightarrow> ('s, 'b) comp) \<Rightarrow> ('s, 'b) comp" where
  "bindM m f s = (case m s of None \<Rightarrow> None | Some (Inl e, s') \<Rightarrow> Some (Inl e, s') | Some (Inr x, s') \<Rightarrow> f x s')"

definition liftM :: "'a status \<Rightarrow> ('s, 'a) comp" where
  "liftM r s = Some (r, s)"

text \<open>A \<open>Status\<close> whose error the caller looks at.\<close>

definition tryM :: "('s, 'a) comp \<Rightarrow> ('s, int + 'a) comp" where
  "tryM m s = (case m s of None \<Rightarrow> None
     | Some (Inl (Errno code), s') \<Rightarrow> Some (Inr (Inl code), s')
     | Some (Inl e, s') \<Rightarrow> Some (Inl e, s')
     | Some (Inr x, s') \<Rightarrow> Some (Inr (Inr x), s'))"

section \<open>State\<close>

record 'w net =
  net_junk :: memory
  net_rnd :: "real \<Rightarrow> real"
  net_hash :: "u64 \<Rightarrow> u64"
  net_dc :: dbl_codec
  ctrl_rpc :: "'w \<Rightarrow> byte list \<Rightarrow> byte list \<times> 'w"
  server_rpc :: "ServerID \<Rightarrow> 'w \<Rightarrow> byte list \<Rightarrow> byte list \<times> 'w"
  outcomes :: "'w \<Rightarrow> (nat \<Rightarrow> nat) \<times> 'w"
  cores :: "'w \<Rightarrow> (nat \<Rightarrow> nat) \<times> 'w"
  clock :: "'w \<Rightarrow> nat \<times> 'w"
  thread_order :: "'w \<Rightarrow> nat list \<times> 'w"

record 'w VirtualDiskRemote =
  vd_sched :: DataPlaneScheduler
  vd_servers :: "ServerID set"
  vd_affinity :: ServerID
  vd_vol_id :: VolumeID
  blk_res :: BlockResolver
  blk_caches :: "ServerBlockInfo CoreLocalCache option list"
  num_read_rejections :: ThreadSafeCounter
  num_write_rejections :: ThreadSafeCounter
  num_read_retries :: ThreadSafeCounter
  num_write_retries :: ThreadSafeCounter
  num_reads_submitted :: ThreadSafeCounter
  num_writes_submitted :: ThreadSafeCounter
  n_disk_blocks_gc :: nat
  vmem :: ram
  world :: 'w

type_synonym ('w, 'a) vm = "('w VirtualDiskRemote, 'a) comp"

definition from_world :: "('w \<Rightarrow> 'a \<times> 'w) \<Rightarrow> ('w, 'a) vm" where
  "from_world f s = (case f (world s) of (x, w) \<Rightarrow> Some (Inr x, s\<lparr>world := w\<rparr>))"

text \<open>\<open>inc_local ()\<close> on the core the thread runs on.\<close>

definition count_op :: "'w net \<Rightarrow> ((ThreadSafeCounter \<Rightarrow> ThreadSafeCounter) \<Rightarrow> 'w VirtualDiskRemote \<Rightarrow> 'w VirtualDiskRemote) \<Rightarrow>
    ('w, unit) vm" where
  "count_op N upd = bindM (from_world (cores N)) (\<lambda>cpus s. Some (Inr (), upd (inc_local (cpus 0) 1) s))"

section \<open>Blocks\<close>

definition HandleAllocateBlocksReply :: "byte list \<Rightarrow> ServerBlockInfo list status" where
  "HandleAllocateBlocksReply payload =
     (if length payload < sizeof_AllocateBlocksReplyMsg then MakeError EINVAL
      else bindS (take_AllocateBlocksReplyMsg (drop sizeof_MsgHeader payload)) (\<lambda>(blks, _). Inr blks))"

text \<open>The allocation function of a cache. It runs inside the loops of the cache, which go on for ever once
  the process has stopped (\<open>Inl\<close>).\<close>

definition AllocateBlocks :: "'w net \<Rightarrow> VolumeID \<Rightarrow> ServerID \<Rightarrow> fail + 'w \<Rightarrow> (fail + 'w) \<times> ServerBlockInfo list" where
  "AllocateBlocks N vol_id sid x = (case x of
     Inl e \<Rightarrow> (Inl e, [])
   | Inr w \<Rightarrow> (case ctrl_rpc N w (CreateAllocateBlocksMsg (net_junk N) vol_id sid) of (resp, w') \<Rightarrow>
       (case HandleAllocateBlocksReply resp of
          Inl (Errno _) \<Rightarrow> (Inr w', []) | Inl e \<Rightarrow> (Inl e, []) | Inr blks \<Rightarrow> (Inr w', blks))))"

definition cache_get :: "'w net \<Rightarrow> ServerID \<Rightarrow> ('w, ServerBlockInfo) vm" where
  "cache_get N sid s =
     (case bindS (get_at (blk_caches s) sid) deref of
        Inl e \<Rightarrow> Some (Inl e, s)
      | Inr c \<Rightarrow> (case cores N (world s) of (cpus, w) \<Rightarrow>
          (case CoreLocalCache_get (AllocateBlocks N (vd_vol_id s) sid) cpus c (Inr w) of
             None \<Rightarrow> None
           | Some (b, c', Inl e) \<Rightarrow> Some (Inl e, s)
           | Some (b, c', Inr w') \<Rightarrow> Some (Inr b, s\<lparr>blk_caches := (blk_caches s)[sid := Some c'], world := w'\<rparr>))))"

fun get_each :: "'w net \<Rightarrow> bool \<Rightarrow> ServerID list \<Rightarrow> ('w, ServerReplicaBlockInfoList) vm" where
  "get_each N set_dirty [] = liftM (Inr [])"
| "get_each N set_dirty (sid # sids) = bindM (cache_get N sid) (\<lambda>b.
     bindM (get_each N set_dirty sids) (\<lambda>blks. liftM (Inr ((b, set_dirty) # blks))))"

definition GetBlocksWithAffinity :: "'w net \<Rightarrow> bool \<Rightarrow> ('w, ServerReplicaBlockInfoList) vm" where
  "GetBlocksWithAffinity N set_dirty s = get_each N set_dirty (replicate kNumReplicas (vd_affinity s)) s"

definition GetBlocks :: "'w net \<Rightarrow> IODesc \<Rightarrow> bool \<Rightarrow> ('w, ServerReplicaBlockInfoList) vm" where
  "GetBlocks N iod set_dirty s =
     (if vd_affinity s \<noteq> kInvalidServerID then GetBlocksWithAffinity N set_dirty s
      else bindM (from_world (outcomes N)) (\<lambda>rs. bindM
        (\<lambda>s. Some (Scheduler_SelectWriteReplicas (net_rnd N) (net_hash N) rs (vd_sched s) (vd_vol_id s) iod, s))
        (get_each N set_dirty)) s)"

definition AddMappingM :: "VolumeBlockAddr \<Rightarrow> ServerReplicaBlockInfoList \<Rightarrow> ('w, unit) vm" where
  "AddMappingM blk_addr blks s = (case AddMapping (blk_res s) blk_addr blks of
     Inl e \<Rightarrow> Some (Inl e, s) | Inr r \<Rightarrow> Some (Inr (), s\<lparr>blk_res := r\<rparr>))"

section \<open>Storage operations\<close>

definition ProcessStorageOp :: "'w net \<Rightarrow> ServerID \<Rightarrow> IODesc \<Rightarrow> nat \<Rightarrow> ('w, byte list) vm" where
  "ProcessStorageOp N sid iod req_id =
     (let send = (\<lambda>data s. from_world (\<lambda>w. server_rpc N sid w
             (CreateStorageOpMsg (net_junk N) iod req_id (vd_affinity s) data)) s)
      in if get_op iod = Op_kWrite
         then bindM (count_op N num_writes_submitted_update) (\<lambda>_ s. send (peek (vmem s) (addr iod) (unat (op_len iod))) s)
         else bindM (count_op N num_reads_submitted_update) (\<lambda>_. send []))"

definition SignalCongestedM :: "'w net \<Rightarrow> ServerID \<Rightarrow> ('w, unit) vm" where
  "SignalCongestedM N sid s =
     (if sid = vd_affinity s then Some (Inr (), s)
      else bindM (from_world (clock N)) (\<lambda>now. bindM (from_world (clock N)) (\<lambda>now' s.
        case bindS (get_at (states (cs_cc (dps_stats (vd_sched s)))) sid) (\<lambda>cur_state.
          Scheduler_SignalCongested (net_rnd N) (vd_sched s) cur_state sid now now') of
          Inl e \<Rightarrow> Some (Inl e, s) | Inr d \<Rightarrow> Some (Inr (), s\<lparr>vd_sched := d\<rparr>))) s)"

definition reply_offset :: nat where
  "reply_offset = sizeof_MsgHeader + sizeof_StorageOpReplyMsg"

definition HandleStorageOpReply :: "'w net \<Rightarrow> byte list \<Rightarrow> ServerID \<Rightarrow> ('w, int) vm" where
  "HandleStorageOpReply N payload sid =
     (if length payload < sizeof_StorageOpReplyMsg then liftM (MakeError EINVAL)
      else bindM (liftM (take_StorageOpReplyMsg (drop sizeof_MsgHeader payload))) (\<lambda>(msg, _).
        let iod = sr_iod msg; code = sr_code msg; success = code \<in> {Code_kSuccess, Code_kSuccessCongested}
        in bindM (if code = Code_kSuccessCongested then SignalCongestedM N sid else liftM (Inr ())) (\<lambda>_.
          case get_op iod of
            Op_kRead \<Rightarrow>
              if success then (\<lambda>s.
                let n = unat (op_len iod)
                in if n > 0 \<and> addr iod \<noteq> 0
                   then if length payload < reply_offset + n then Some (Inl Out_of_range, s)
                        else Some (Inr (sr_res msg), s\<lparr>vmem := poke (vmem s) (addr iod) (take n (drop reply_offset payload))\<rparr>)
                   else Some (Inr (sr_res msg), s))
              else if code = Code_kRejectDeviceBusy then bindM (SignalCongestedM N sid) (\<lambda>_. liftM (MakeError EBUSY))
              else if code = Code_kFailure then liftM (MakeError EINVAL)
              else liftM (Inl Runtime_error)
          | Op_kWrite \<Rightarrow>
              if success then liftM (Inr (sr_res msg))
              else if code = Code_kRejectDeviceBusy then bindM (SignalCongestedM N sid) (\<lambda>_. liftM (MakeError EBUSY))
              else if code = Code_kRejectModeMismatch then liftM (MakeError EROFS)
              else if code = Code_kFailure then liftM (MakeError EINVAL)
              else liftM (Inl Runtime_error)
          | _ \<Rightarrow> liftM (Inl Runtime_error))))"

definition GetRPCClientForServer :: "ServerID \<Rightarrow> ('w, unit) vm" where
  "GetRPCClientForServer sid s = Some (assertS (sid \<in> vd_servers s) (Inr ()), s)"

section \<open>Requests\<close>

text \<open>
  \<open>ProcessReadOp\<close>: \<open>ids\<close> is the set of servers left to try in the current round, and every iteration
  of either loop takes one unit of fuel. \<open>retry\<close> is the recursive call of \<open>ProcessRequest\<close>.
\<close>

definition replica_ids :: "ServerReplicaBlockInfoList \<Rightarrow> ServerID set" where
  "replica_ids servers = set (map (\<lambda>blk. sbi_server_id (fst blk)) servers)"

fun replica_loop :: "nat \<Rightarrow> 'w net \<Rightarrow> (IODesc \<Rightarrow> ('w, int) vm) \<Rightarrow> ServerReplicaBlockInfoList \<Rightarrow> IODesc \<Rightarrow> nat \<Rightarrow>
    ServerID set \<Rightarrow> ('w, int) vm" where
  "replica_loop 0 N retry servers iod req_id ids = (\<lambda>s. None)"
| "replica_loop (Suc n) N retry servers iod req_id ids =
     (if ids = {} then replica_loop n N retry servers iod req_id (replica_ids servers)
      else bindM (from_world (outcomes N)) (\<lambda>rs.
        bindM (tryM (\<lambda>s. Some (Scheduler_SelectReadServer (net_rnd N) (rs 0) (rs 1) (vd_sched s) ids, s))) (\<lambda>sel.
          case sel of
            Inl _ \<Rightarrow> retry iod
          | Inr sid \<Rightarrow> bindM (GetRPCClientForServer sid) (\<lambda>_.
              case filter (\<lambda>blk. sbi_server_id (fst blk) = sid) servers of
                [] \<Rightarrow> liftM (Inl Out_of_range)
              | blk # _ \<Rightarrow>
                  bindM (ProcessStorageOp N sid (iod\<lparr>start_sector := sbi_block_addr (fst blk)\<rparr>) req_id) (\<lambda>resp.
                  bindM (tryM (HandleStorageOpReply N resp sid)) (\<lambda>res.
                    case res of
                      Inr x \<Rightarrow> liftM (Inr x)
                    | Inl code \<Rightarrow> bindM (count_op N (if code = EBUSY then num_read_rejections_update
                          else num_read_retries_update)) (\<lambda>_.
                        replica_loop n N retry servers iod req_id (ids - {sid}))))))))"

definition ProcessReadOp :: "nat \<Rightarrow> 'w net \<Rightarrow> (IODesc \<Rightarrow> ('w, int) vm) \<Rightarrow> ServerReplicaBlockInfoList \<Rightarrow> IODesc \<Rightarrow> nat \<Rightarrow>
    ('w, int) vm" where
  "ProcessReadOp n N retry servers iod req_id = replica_loop n N retry servers iod req_id (replica_ids servers)"

text \<open>The thread of one replica; the flag it exchanges is threaded through.\<close>

definition write_thread :: "'w net \<Rightarrow> (IODesc \<Rightarrow> ('w, int) vm) \<Rightarrow> IODesc \<Rightarrow> nat \<Rightarrow> ServerBlockInfo \<Rightarrow> bool \<Rightarrow> ('w, bool) vm" where
  "write_thread N retry iod req_id srv_info is_retrying =
     bindM (GetRPCClientForServer (sbi_server_id srv_info)) (\<lambda>_.
     bindM (ProcessStorageOp N (sbi_server_id srv_info) (iod\<lparr>start_sector := sbi_block_addr srv_info\<rparr>) req_id) (\<lambda>resp.
     bindM (tryM (HandleStorageOpReply N resp (sbi_server_id srv_info))) (\<lambda>res.
       case res of
         Inr _ \<Rightarrow> liftM (Inr is_retrying)
       | Inl code \<Rightarrow> bindM (count_op N (if code = EROFS then num_write_rejections_update else num_write_retries_update)) (\<lambda>_.
           if is_retrying then liftM (Inr True)
           else bindM (tryM (retry iod)) (\<lambda>_. liftM (Inr True))))))"

fun write_threads :: "'w net \<Rightarrow> (IODesc \<Rightarrow> ('w, int) vm) \<Rightarrow> IODesc \<Rightarrow> nat \<Rightarrow> ServerReplicaBlockInfoList \<Rightarrow> nat list \<Rightarrow>
    bool \<Rightarrow> ('w, unit) vm" where
  "write_threads N retry iod req_id servers [] is_retrying = liftM (Inr ())"
| "write_threads N retry iod req_id servers (i # is) is_retrying =
     bindM (liftM (get_at servers i)) (\<lambda>srv_info.
     bindM (write_thread N retry iod req_id (fst srv_info) is_retrying)
       (write_threads N retry iod req_id servers is))"

definition replica_order :: "nat list \<Rightarrow> nat list" where
  "replica_order os = remdups (filter (\<lambda>i. i < kNumReplicas) os @ [0..<kNumReplicas])"

definition ProcessWriteOp :: "'w net \<Rightarrow> (IODesc \<Rightarrow> ('w, int) vm) \<Rightarrow> ServerReplicaBlockInfoList \<Rightarrow> IODesc \<Rightarrow> nat \<Rightarrow> ('w, int) vm" where
  "ProcessWriteOp N retry servers iod req_id =
     bindM (from_world (thread_order N)) (\<lambda>os.
     bindM (write_threads N retry iod req_id servers (replica_order os) False) (\<lambda>_.
       liftM (Inr (wrap_i32 (sint (num_sectors iod) * 2 ^ kSectorShift)))))"

fun allocate_loop :: "'w net \<Rightarrow> IODesc \<Rightarrow> nat list \<Rightarrow> ('w, int) vm" where
  "allocate_loop N iod [] = liftM (Inr 0)"
| "allocate_loop N iod (v # vs) =
     bindM (GetBlocks N (iod\<lparr>start_sector := of_nat v\<rparr>) False) (\<lambda>blks.
     bindM (AddMappingM v blks) (\<lambda>_. allocate_loop N iod vs))"

definition request_body :: "nat \<Rightarrow> 'w net \<Rightarrow> (IODesc \<Rightarrow> ('w, int) vm) \<Rightarrow> IODesc \<Rightarrow> ('w, int) vm" where
  "request_body n N retry iod =
     (let req_id = 0; v = unat (start_sector iod)
      in case get_op iod of
           Op_kRead \<Rightarrow> bindM (\<lambda>s. Some (ResolveBlock (blk_res s) v, s)) (\<lambda>blks. ProcessReadOp n N retry blks iod req_id)
         | Op_kWrite \<Rightarrow> bindM (GetBlocks N iod True) (\<lambda>blks. bindM (AddMappingM v blks) (\<lambda>_.
             ProcessWriteOp N retry blks iod req_id))
         | Op_kAllocate \<Rightarrow> allocate_loop N iod [v..<unat (start_sector iod + ucast (num_sectors iod))]
         | _ \<Rightarrow> liftM (MakeError EINVAL))"

primrec ProcessRequest :: "nat \<Rightarrow> 'w net \<Rightarrow> IODesc \<Rightarrow> ('w, int) vm" where
  "ProcessRequest 0 N iod = (\<lambda>s. None)"
| "ProcessRequest (Suc n) N iod = request_body n N (ProcessRequest n N) iod"

section \<open>Registration and statistics\<close>

definition Scheduler_new :: "nat \<Rightarrow> ServerModes \<Rightarrow> DataPlaneScheduler status" where
  "Scheduler_new sched_type modes =
     (let mk = (\<lambda>ty. Inr \<lparr>dps_type = ty, dps_stats = ClientStats_init modes\<rparr>)
      in if sched_type = 0 then mk kWeightedReadWrite else if sched_type = 1 then mk kRandomReadWrite
         else if sched_type = 2 then mk kRandomReadHashWrite else if sched_type = 3 then mk kWeightedReadHashWrite
         else Inl Runtime_error)"

text \<open>Adding one server of the reply: its address must be terminated to be read as a string, and no server
  may be named twice.\<close>

definition add_remote :: "ServerInfo \<Rightarrow> ServerID set \<times> DataPlaneScheduler \<Rightarrow> (ServerID set \<times> DataPlaneScheduler) status" where
  "add_remote srv acc = bindS (c_str (si_ip srv)) (\<lambda>_.
     if si_id srv \<in> fst acc then Inl Runtime_error
     else case Scheduler_AddServer (snd acc) (si_id srv) of
            Inl (Errno _) \<Rightarrow> Inl Runtime_error | Inl e \<Rightarrow> Inl e
          | Inr d \<Rightarrow> Inr (insert (si_id srv) (fst acc), d))"

definition HandleRegisterVolumeReply :: "ServerModes \<Rightarrow> byte list \<Rightarrow> (VolumeID \<times> ServerID set \<times> DataPlaneScheduler) status" where
  "HandleRegisterVolumeReply modes payload =
     (if length payload < sizeof_RegisterVolumeReplyMsg then MakeError EINVAL
      else bindS (take_RegisterVolumeReplyMsg (drop sizeof_MsgHeader payload)) (\<lambda>(msg, _).
        bindS (Scheduler_new (rvr_sched_type msg) modes) (\<lambda>d.
        bindS (foldS add_remote (rvr_servers msg) ({}, d)) (\<lambda>(servers, d).
          Inr (rvr_vol_id msg, servers, d)))))"

definition HandleGetServerStatsReply :: "dbl_codec \<Rightarrow> DataPlaneScheduler \<Rightarrow> byte list \<Rightarrow> DataPlaneScheduler status" where
  "HandleGetServerStatsReply dc d payload =
     (if length payload < sizeof_GetServerStatsReplyMsg then MakeError EINVAL
      else bindS (take_GetServerStatsReplyMsg dc (drop sizeof_MsgHeader payload)) (\<lambda>(msg, _).
        Scheduler_SetServerStats d (gr_servers msg)))"

definition UpdateServerStats :: "'w net \<Rightarrow> ('w, unit) vm" where
  "UpdateServerStats N s =
     (case ctrl_rpc N (world s) (CreateGetServerStatsMsg (vd_vol_id s)) of (resp, w) \<Rightarrow>
        (let s1 = s\<lparr>world := w\<rparr>
         in case HandleGetServerStatsReply (net_dc N) (vd_sched s) resp of
              Inl (Errno _) \<Rightarrow> Some (Inr (), s1) | Inl e \<Rightarrow> Some (Inl e, s1)
            | Inr d \<Rightarrow> Some (Inr (), s1\<lparr>vd_sched := d\<rparr>)))"

section \<open>Clock calibration\<close>

definition kWarmupCalibrationRounds :: nat where "kWarmupCalibrationRounds = 1000"
definition kCalibrationRounds :: nat where "kCalibrationRounds = 10000"

definition wrap_i64 :: "int \<Rightarrow> int" where
  "wrap_i64 x = sint (word_of_int x :: u64)"

text \<open>The deltas are \<open>uint64_t\<close> differences read as \<open>int64_t\<close>; integer division truncates towards zero.\<close>

fun calibration_rounds :: "'w net \<Rightarrow> nat \<Rightarrow> int \<Rightarrow> 'w \<Rightarrow> int status \<times> 'w" where
  "calibration_rounds N 0 deltas w = (Inr deltas, w)"
| "calibration_rounds N (Suc n) deltas w =
     (let (server_start_time, w1) = clock N w;
          (resp, w2) = ctrl_rpc N w1 (CreateGetControllerTimeMsg (net_junk N));
          (server_end_time, w3) = clock N w2
      in if length resp < sizeof_GetControllerTimeReplyMsg then (MakeError EINVAL, w3)
         else case bindS (last_bytes sizeof_GetControllerTimeReplyMsg resp) take_u64 of
           Inl e \<Rightarrow> (Inl e, w3)
         | Inr (microtime, _) \<Rightarrow>
             let single_trip = usub64 server_end_time server_start_time div 2;
                 client_start_time = usub64 microtime single_trip;
                 delta = wrap_i64 (int (usub64 client_start_time server_start_time))
             in calibration_rounds N n (wrap_i64 (deltas + delta)) w3)"

definition CalibrationWorker :: "'w net \<Rightarrow> nat \<Rightarrow> 'w \<Rightarrow> int status \<times> 'w" where
  "CalibrationWorker N rounds w = (case calibration_rounds N rounds 0 w of
     (Inl e, w') \<Rightarrow> (Inl e, w') | (Inr deltas, w') \<Rightarrow> (Inr (sgn deltas * (\<bar>deltas\<bar> div int rounds)), w'))"

definition CalibrateTimeWithController :: "'w net \<Rightarrow> 'w \<Rightarrow> int status \<times> 'w" where
  "CalibrateTimeWithController N w = (case CalibrationWorker N kWarmupCalibrationRounds w of
     (Inl e, w') \<Rightarrow> (Inl e, w') | (Inr _, w') \<Rightarrow> CalibrationWorker N kCalibrationRounds w')"

definition CalibratedMicroTime :: "nat \<Rightarrow> int \<Rightarrow> nat" where
  "CalibratedMicroTime micro_time calibration = nat ((int micro_time + calibration) mod 2 ^ 64)"

section \<open>Construction\<close>

definition kPerCoreCachedBlocks :: nat where "kPerCoreCachedBlocks = kAllocationBatch"

definition Register :: "'w net \<Rightarrow> ServerModes \<Rightarrow> string \<Rightarrow> int \<Rightarrow> nat \<Rightarrow> 'w \<Rightarrow>
    (int \<times> VolumeID \<times> ServerID set \<times> DataPlaneScheduler) status \<times> 'w" where
  "Register N modes ip port n_sectors w =
     (case CalibrateTimeWithController N w of
        (Inl (Errno _), w') \<Rightarrow> (Inl Runtime_error, w') | (Inl e, w') \<Rightarrow> (Inl e, w')
      | (Inr delta_us, w') \<Rightarrow> (case CreateRegisterVolumeMsg (net_junk N) ip port n_sectors of
          Inl e \<Rightarrow> (Inl e, w')
        | Inr msg \<Rightarrow> (case ctrl_rpc N w' msg of (resp, w'') \<Rightarrow>
            (case HandleRegisterVolumeReply modes resp of
               Inl (Errno _) \<Rightarrow> (Inl Runtime_error, w'') | Inl e \<Rightarrow> (Inl e, w'')
             | Inr r \<Rightarrow> (Inr (delta_us, r), w'')))))"

text \<open>The cache of one server, filled from the controller. \<open>max_cores\<close> is the number of cores of the runtime.\<close>

definition add_cache :: "'w net \<Rightarrow> nat \<Rightarrow> nat \<Rightarrow> ServerID \<Rightarrow> ('w, unit) vm" where
  "add_cache N kMaxNumCores max_cores sid s =
     (if vd_affinity s \<noteq> kInvalidServerID \<and> sid \<noteq> vd_affinity s then Some (Inr (), s)
      else case get_at (blk_caches s) sid of
        Inl e \<Rightarrow> Some (Inl e, s)
      | Inr _ \<Rightarrow> (case CoreLocalCache_reserve (AllocateBlocks N (vd_vol_id s) sid)
              (CoreLocalCache_init kMaxNumCores kPerCoreCachedBlocks) (max_cores * kPerCoreCachedBlocks) (Inr (world s)) of
          None \<Rightarrow> None
        | Some (c, Inl e) \<Rightarrow> Some (Inl e, s)
        | Some (c, Inr w) \<Rightarrow> Some (Inr (), s\<lparr>blk_caches := (blk_caches s)[sid := Some c], world := w\<rparr>)))"

fun add_caches :: "'w net \<Rightarrow> nat \<Rightarrow> nat \<Rightarrow> ServerID list \<Rightarrow> ('w, unit) vm" where
  "add_caches N kMaxNumCores max_cores [] = liftM (Inr ())"
| "add_caches N kMaxNumCores max_cores (sid # sids) =
     bindM (add_cache N kMaxNumCores max_cores sid) (\<lambda>_. add_caches N kMaxNumCores max_cores sids)"

definition VirtualDiskRemote_init :: "'w net \<Rightarrow> ServerModes \<Rightarrow> nat \<Rightarrow> nat \<Rightarrow> string \<Rightarrow> int \<Rightarrow> ServerID \<Rightarrow> ram \<Rightarrow> nat \<Rightarrow> 'w \<Rightarrow>
    ((int \<times> 'w VirtualDiskRemote) status) option" where
  "VirtualDiskRemote_init N modes kMaxNumCores max_cores ip port affinity mem n_sectors w =
     (case Register N modes ip port n_sectors w of
        (Inl e, _) \<Rightarrow> Some (Inl e)
      | (Inr (delta_us, vol, servers, d), w') \<Rightarrow>
          (let z = ThreadSafeCounter_init kMaxNumCores;
               s = \<lparr>vd_sched = d, vd_servers = servers, vd_affinity = affinity, vd_vol_id = vol,
                    blk_res = BlockResolver_init n_sectors, blk_caches = replicate kNumMaxServers None,
                    num_read_rejections = z, num_write_rejections = z, num_read_retries = z, num_write_retries = z,
                    num_reads_submitted = z, num_writes_submitted = z, n_disk_blocks_gc = 0, vmem = mem, world = w'\<rparr>
           in case add_caches N kMaxNumCores max_cores (sorted_list_of_set servers) s of
                None \<Rightarrow> None | Some (Inl e, _) \<Rightarrow> Some (Inl e) | Some (Inr _, s') \<Rightarrow> Some (Inr (delta_us, s'))))"

section \<open>Garbage collection\<close>

text \<open>The collected blocks of a server in batches; \<open>undef\<close> is what the rest of the array holds.\<close>

function discard_batches :: "'w net \<Rightarrow> ServerBlockAddr list \<Rightarrow> ServerID \<Rightarrow> ServerBlockAddr list \<Rightarrow> ('w, unit) vm" where
  "discard_batches N undef sid blks =
     (if blks = [] then liftM (Inr ())
      else let n = min (length blks) kDiscardBatch; blocks = take n blks @ drop n undef
           in bindM (liftM (CreateDiscardBlocksMsg (net_junk N) blocks n)) (\<lambda>msg.
              bindM (from_world (\<lambda>w. server_rpc N sid w msg)) (\<lambda>_.
              bindM (\<lambda>s. Some (Inr (), s\<lparr>n_disk_blocks_gc := to_u64 (n_disk_blocks_gc s + n)\<rparr>)) (\<lambda>_.
                discard_batches N undef sid (drop n blks)))))"
  by pat_completeness auto
termination
  by (relation "measure (\<lambda>(N, undef, sid, blks). length blks)") (auto simp: kDiscardBatch_def)

definition blocks_of_server :: "ServerID \<Rightarrow> ServerReplicaBlockInfoList list \<Rightarrow> ServerBlockAddr list" where
  "blocks_of_server sid discarded =
     map (\<lambda>r. sbi_block_addr (fst r)) (filter (\<lambda>r. sbi_server_id (fst r) = sid) (concat discarded))"

fun discard_servers :: "'w net \<Rightarrow> ServerBlockAddr list \<Rightarrow> ServerReplicaBlockInfoList list \<Rightarrow> ServerID list \<Rightarrow> ('w, unit) vm" where
  "discard_servers N undef discarded [] = liftM (Inr ())"
| "discard_servers N undef discarded (sid # sids) =
     bindM (GetRPCClientForServer sid) (\<lambda>_. bindM (discard_batches N undef sid (blocks_of_server sid discarded)) (\<lambda>_.
       discard_servers N undef discarded sids))"

text \<open>The servers are visited in the order of the hash table; the model visits them by number.\<close>

definition RunGarbageCollector :: "'w net \<Rightarrow> ServerBlockAddr list \<Rightarrow> ('w, unit) vm" where
  "RunGarbageCollector N undef s = (case GetAndResetDiscardedBlocks (blk_res s) of
     Inl (Errno _) \<Rightarrow> Some (Inr (), s)
   | Inl e \<Rightarrow> Some (Inl e, s)
   | Inr (r, discarded) \<Rightarrow> discard_servers N undef discarded
       (sorted_list_of_set (replica_ids (concat discarded))) (s\<lparr>blk_res := r\<rparr>))"

definition kGarbageCollectionIntervalUs :: nat where "kGarbageCollectionIntervalUs = 0"

definition GarbageCollector_round :: "'w net \<Rightarrow> ServerBlockAddr list \<Rightarrow> ('w, unit) vm" where
  "GarbageCollector_round N undef =
     (if kGarbageCollectionIntervalUs = 0 then liftM (Inr ()) else RunGarbageCollector N undef)"

end
