(* ===== verification/Volume.thy ===== *)
theory Volume
  imports Virtual_Disk
begin

text \<open>
  Correctness of the remote virtual disk over any controller and disk servers that keep the contract of
  the locale \<open>volume_net\<close>: allocations are fresh, a block written is read back, a server may
  refuse a write. Inside it: the blocks in the caches and the blocks mapped by the volume are
  all different, so a write, with all its retries, changes the content of its own sector only.
\<close>

section \<open>The scheduler of a volume\<close>

definition sched_ready :: "(real \<Rightarrow> real) \<Rightarrow> DataPlaneScheduler \<Rightarrow> bool" where
  "sched_ready rnd d \<longleftrightarrow> client_reachable rnd (dps_stats d) \<and>
     weights_usable (dps_stats d) (cs_read_weights (dps_stats d)) \<and>
     weights_usable (dps_stats d) (cs_write_weights (dps_stats d)) \<and>
     kNumReplicas \<le> card {i \<in> cs_servers (dps_stats d). cs_modes (dps_stats d) ! i \<noteq> Mode_kRead}"

lemma ready_servers:
  assumes "fp_rounding rnd" "sched_ready rnd d" "sid \<in> cs_servers (dps_stats d)"
  shows "sid < kNumMaxServers" "sid \<noteq> kInvalidServerID" "sid \<in> cc_servers (cs_cc (dps_stats d))" "cc_inv rnd (cs_cc (dps_stats d))"
proof -
  have inv: "client_inv rnd (dps_stats d)"
    using fp_rounding.client_reachable_inv [OF assms(1)] assms(2) by (simp add: sched_ready_def)
  then show cc: "cc_inv rnd (cs_cc (dps_stats d))" "sid \<in> cc_servers (cs_cc (dps_stats d))"
    using assms(3) by (simp_all add: client_inv_def)
  then show "sid < kNumMaxServers" by (auto simp: cc_inv_def cc_wf_def)
  have "0 \<notin> cs_servers (dps_stats d)" using assms(2) by (simp add: sched_ready_def weights_usable_def)
  then show "sid \<noteq> kInvalidServerID" using assms(3) by metis
qed

lemma SignalCongested_ready:
  assumes "fp_rounding rnd" "sched_ready rnd d" "sid \<in> cs_servers (dps_stats d)"
  shows "\<exists>d'. bindS (get_at (states (cs_cc (dps_stats d))) sid) (\<lambda>cur. Scheduler_SignalCongested rnd d cur sid now now') = Inr d' \<and>
    sched_ready rnd d' \<and> cs_servers (dps_stats d') = cs_servers (dps_stats d)"
proof -
  let ?cc = "cs_cc (dps_stats d)"
  note r = ready_servers [OF assms]
  have len: "sid < length (states ?cc)" "sid < length (congested_at ?cc)" using r by (simp_all add: cc_inv_def cc_wf_def)
  have wf: "cc_wf (?cc\<lparr>states := (states ?cc)[sid := st], congested_at := (congested_at ?cc)[sid := now]\<rparr>)" for st
    using r(4) by (simp add: cc_inv_def cc_wf_def)
  have "\<exists>cc. UpdateServerRateLimit rnd (?cc\<lparr>states := (states ?cc)[sid := State_kCongested],
      congested_at := (congested_at ?cc)[sid := now]\<rparr>) sid now' = Inr cc"
    using UpdateServerRateLimit_eq [OF wf, of rnd State_kCongested sid now'] r(3) by simp
  then obtain cc where cc: "CongestionControl_SignalCongested rnd ?cc (states ?cc ! sid) sid now now' = Inr cc"
    using len by (cases "states ?cc ! sid = State_kUnCongested") (auto simp: CongestionControl_SignalCongested_def Let_def)
  let ?d = "d\<lparr>dps_stats := (dps_stats d)\<lparr>cs_cc := cc\<rparr>\<rparr>"
  have sig: "ClientStats_SignalCongested rnd (dps_stats d) (states ?cc ! sid) sid now now' = Inr ((dps_stats d)\<lparr>cs_cc := cc\<rparr>)"
    by (simp add: ClientStats_SignalCongested_def cc)
  have "client_reachable rnd (dps_stats ?d)"
    using client_reachable.step [OF _ client_step.signal [OF sig]] assms(2) by (simp add: sched_ready_def)
  then have "sched_ready rnd ?d" using assms(2) by (simp add: sched_ready_def weights_usable_def)
  then show ?thesis using len sig by (intro exI [of _ ?d]) (simp add: Scheduler_SignalCongested_def)
qed

section \<open>Blocks of a volume\<close>

definition cached_blocks :: "'w VirtualDiskRemote \<Rightarrow> ServerBlockInfo list" where
  "cached_blocks s = concat (map (\<lambda>c. case c of None \<Rightarrow> [] | Some c \<Rightarrow> CoreLocalCache_destroy c) (blk_caches s))"

definition entry_blocks :: "ServerReplicaBlockInfoList \<Rightarrow> ServerBlockInfo list" where
  "entry_blocks blocks = (if front_server blocks = kInvalidServerID then [] else map fst blocks)"

definition mapped_blocks :: "'w VirtualDiskRemote \<Rightarrow> ServerBlockInfo list" where
  "mapped_blocks s = concat (map entry_blocks (blk_map (blk_res s)))"

definition block_targets :: "'w VirtualDiskRemote \<Rightarrow> ServerID set" where
  "block_targets s = (if vd_affinity s \<noteq> kInvalidServerID then {vd_affinity s} else cs_servers (dps_stats (vd_sched s)))"

definition cache_ok :: "nat \<Rightarrow> ServerID \<Rightarrow> ServerBlockInfo CoreLocalCache \<Rightarrow> bool" where
  "cache_ok ncores sid c \<longleftrightarrow> length (clc_locals c) = ncores \<and> per_core_capacity c = kPerCoreCachedBlocks \<and>
     (\<forall>b \<in> set (CoreLocalCache_destroy c). sbi_server_id b = sid)"

lemma cache_ok_init: "cache_ok ncores sid (CoreLocalCache_init ncores kPerCoreCachedBlocks)"
  by (simp add: cache_ok_def init_holds_nothing) (simp add: CoreLocalCache_init_def)

lemma blocks_world [simp]:
  "cached_blocks (s\<lparr>world := w\<rparr>) = cached_blocks s" "mapped_blocks (s\<lparr>world := w\<rparr>) = mapped_blocks s"
  "block_targets (s\<lparr>world := w\<rparr>) = block_targets s"
  by (simp_all add: cached_blocks_def mapped_blocks_def block_targets_def)

lemma blocks_cong:
  "blk_caches s' = blk_caches s \<Longrightarrow> cached_blocks s' = cached_blocks s"
  "blk_res s' = blk_res s \<Longrightarrow> mapped_blocks s' = mapped_blocks s"
  "vd_affinity s' = vd_affinity s \<Longrightarrow> cs_servers (dps_stats (vd_sched s')) = cs_servers (dps_stats (vd_sched s)) \<Longrightarrow>
    block_targets s' = block_targets s"
  by (simp_all add: cached_blocks_def mapped_blocks_def block_targets_def)

section \<open>Sequences of requests\<close>

text \<open>One-sector requests with the address of their buffer, processed one after the other with fuel \<open>n\<close> each, and the disk
  that a volume should be: sectors and the memory of the application.\<close>

datatype vol_op = Write_sector u64 u64 | Read_sector u64 u64

definition vol_iod :: "vol_op \<Rightarrow> IODesc" where
  "vol_iod x = (case x of
     Write_sector v a \<Rightarrow> \<lparr>op_flags = op_flags_of Op_kWrite, num_sectors = 1, start_sector = v, addr = a, callback_args = 0, callback = 0\<rparr>
   | Read_sector v a \<Rightarrow> \<lparr>op_flags = op_flags_of Op_kRead, num_sectors = 1, start_sector = v, addr = a, callback_args = 0, callback = 0\<rparr>)"

fun vol_run :: "nat \<Rightarrow> 'w net \<Rightarrow> vol_op list \<Rightarrow> ('w, int list) vm" where
  "vol_run n N [] = liftM (Inr [])"
| "vol_run n N (x # xs) = bindM (ProcessRequest n N (vol_iod x)) (\<lambda>r. bindM (vol_run n N xs) (\<lambda>rs. liftM (Inr (r # rs))))"

fun vol_spec :: "vol_op list \<Rightarrow> (nat \<rightharpoonup> byte list) \<Rightarrow> ram \<Rightarrow> (nat \<rightharpoonup> byte list) \<times> ram" where
  "vol_spec [] d m = (d, m)"
| "vol_spec (Write_sector v a # xs) d m = vol_spec xs (d(unat v \<mapsto> peek m a 4096)) m"
| "vol_spec (Read_sector v a # xs) d m = vol_spec xs d (poke m a (the (d (unat v))))"

text \<open>Requests to sectors of the volume; a sector is written before it is read.\<close>

fun vol_ok :: "nat \<Rightarrow> nat set \<Rightarrow> vol_op list \<Rightarrow> bool" where
  "vol_ok n written_sectors [] = True"
| "vol_ok n written_sectors (Write_sector v a # xs) \<longleftrightarrow> unat v < n \<and> vol_ok n (insert (unat v) written_sectors) xs"
| "vol_ok n written_sectors (Read_sector v a # xs) \<longleftrightarrow> unat v \<in> written_sectors \<and> a \<noteq> 0 \<and> vol_ok n written_sectors xs"

lemma vol_iod_simps [simp]:
  "get_op (vol_iod (Write_sector v a)) = Op_kWrite" "get_op (vol_iod (Read_sector v a)) = Op_kRead"
  "num_sectors (vol_iod x) = 1" "start_sector (vol_iod (Write_sector v a)) = v" "start_sector (vol_iod (Read_sector v a)) = v"
  "addr (vol_iod (Write_sector v a)) = a" "addr (vol_iod (Read_sector v a)) = a"
  by (simp_all add: vol_iod_def get_op_def op_flags_of_def op_code_def op_of_code_def split: vol_op.split)

lemma one_sector: "num_sectors iod = 1 \<Longrightarrow> unat (op_len iod) = 4096"
  by (simp add: op_len_def kSectorShift_def)

section \<open>The contract\<close>

locale volume_net =
  fixes N :: "'w net" and vol :: VolumeID and ncores :: nat
    and live :: "'w \<Rightarrow> bool" and accepting :: "'w \<Rightarrow> bool"
    and issued :: "'w \<Rightarrow> ServerBlockInfo set" and room :: "'w \<Rightarrow> ServerID \<Rightarrow> nat"
    and content :: "'w \<Rightarrow> ServerBlockInfo \<Rightarrow> byte list"
  assumes rounding: "fp_rounding (net_rnd N)"
    and cores_less: "fst (cores N w) k < ncores"
    and quiet: "live w \<Longrightarrow> w' \<in> {snd (outcomes N w), snd (cores N w), snd (clock N w), snd (thread_order N w)} \<Longrightarrow>
      live w' \<and> accepting w' = accepting w \<and> issued w' = issued w \<and> room w' = room w \<and> content w' = content w"
    and batch: "live w \<Longrightarrow> 0 < room w sid \<Longrightarrow> \<exists>w' bs. AllocateBlocks N vol sid (Inr w) = (Inr w', bs) \<and>
      live w' \<and> accepting w' = accepting w \<and> content w' = content w \<and> length bs = kAllocationBatch \<and> distinct bs \<and>
      set bs \<inter> issued w = {} \<and> issued w' = issued w \<union> set bs \<and> (\<forall>b \<in> set bs. sbi_server_id b = sid) \<and>
      room w sid \<le> Suc (room w' sid) \<and> (\<forall>i. i \<noteq> sid \<longrightarrow> room w' i = room w i)"
    and store: "live w \<Longrightarrow> b \<in> issued w \<Longrightarrow> get_op iod = Op_kWrite \<Longrightarrow> num_sectors iod = 1 \<Longrightarrow>
      start_sector iod = sbi_block_addr b \<Longrightarrow> length data = 4096 \<Longrightarrow> is_u32 aff \<Longrightarrow>
      \<exists>junk c r w'. server_rpc N (sbi_server_id b) w (CreateStorageOpMsg (net_junk N) iod 0 aff data) =
          (CreateStorageOpReplyMsg junk iod 0 [] r c, w') \<and> is_i32 r \<and>
        c \<in> {Code_kSuccess, Code_kSuccessCongested, Code_kRejectModeMismatch} \<and> live w' \<and> accepting w' = accepting w \<and>
        issued w' = issued w \<and> room w' = room w \<and>
        content w' = (if c = Code_kRejectModeMismatch then content w else (content w)(b := data)) \<and>
        (accepting w \<or> aff \<noteq> kInvalidServerID \<longrightarrow> c \<noteq> Code_kRejectModeMismatch)"
    and fetch: "live w \<Longrightarrow> b \<in> issued w \<Longrightarrow> get_op iod = Op_kRead \<Longrightarrow> num_sectors iod = 1 \<Longrightarrow>
      start_sector iod = sbi_block_addr b \<Longrightarrow> is_u32 aff \<Longrightarrow>
      \<exists>junk c w'. server_rpc N (sbi_server_id b) w (CreateStorageOpMsg (net_junk N) iod 0 aff []) =
          (CreateStorageOpReplyMsg junk iod 0 (content w b) 4096 c, w') \<and> length (content w b) = 4096 \<and>
        c \<in> {Code_kSuccess, Code_kSuccessCongested} \<and> live w' \<and> accepting w' = accepting w \<and>
        issued w' = issued w \<and> room w' = room w \<and> content w' = content w"
begin

text \<open>The controller as the source of one cache: the room counts only while the rest of the world is as in
  \<open>w0\<close> and the new blocks belong to the server.\<close>

definition source_room :: "'w \<Rightarrow> ServerID \<Rightarrow> fail + 'w \<Rightarrow> nat" where
  "source_room w0 sid x = (case x of Inl _ \<Rightarrow> 0
     | Inr w \<Rightarrow> if live w \<and> content w = content w0 \<and> accepting w = accepting w0 \<and>
           (\<forall>i. i \<noteq> sid \<longrightarrow> room w i = room w0 i) \<and> issued w \<subseteq> issued w0 \<union> {b. sbi_server_id b = sid}
         then room w sid else 0)"

definition source_issued :: "fail + 'w \<Rightarrow> ServerBlockInfo set" where
  "source_issued x = (case x of Inl _ \<Rightarrow> {} | Inr w \<Rightarrow> issued w)"

lemma source_roomD:
  assumes "0 < source_room w0 sid x"
  obtains w where "x = Inr w" "live w" "content w = content w0" "accepting w = accepting w0"
    "\<forall>i. i \<noteq> sid \<longrightarrow> room w i = room w0 i" "issued w \<subseteq> issued w0 \<union> {b. sbi_server_id b = sid}" "source_room w0 sid x = room w sid"
  using assms by (auto simp: source_room_def split: sum.splits if_splits)

lemma source_batch:
  assumes "0 < source_room w0 sid x" "AllocateBlocks N vol sid x = (x', bs)"
  shows "\<exists>w w'. x = Inr w \<and> x' = Inr w' \<and> length bs = kAllocationBatch \<and> distinct bs \<and> set bs \<inter> issued w = {} \<and>
    issued w' = issued w \<union> set bs \<and> source_room w0 sid x \<le> Suc (source_room w0 sid x')"
proof -
  obtain w where w: "x = Inr w" "live w" "content w = content w0" "accepting w = accepting w0"
    "\<forall>i. i \<noteq> sid \<longrightarrow> room w i = room w0 i" "issued w \<subseteq> issued w0 \<union> {b. sbi_server_id b = sid}" "source_room w0 sid x = room w sid"
    using source_roomD [OF assms(1)] .
  then obtain w' where "AllocateBlocks N vol sid (Inr w) = (Inr w', bs)" "live w'" "accepting w' = accepting w"
    "content w' = content w" "length bs = kAllocationBatch" "distinct bs" "set bs \<inter> issued w = {}" "issued w' = issued w \<union> set bs"
    "\<forall>b \<in> set bs. sbi_server_id b = sid" "room w sid \<le> Suc (room w' sid)" "\<forall>i. i \<noteq> sid \<longrightarrow> room w' i = room w i"
    using batch [of w sid] assms by auto
  moreover from this have "source_room w0 sid (Inr w') = room w' sid" using w by (auto simp: source_room_def)
  ultimately show ?thesis using w(1,7) assms(2) by auto
qed

sublocale src: block_source "AllocateBlocks N vol sid" source_issued "source_room w0 sid" kAllocationBatch for sid w0
proof
  show "0 < kAllocationBatch" by (simp add: kAllocationBatch_def)
qed (drule (1) source_batch, force simp: source_issued_def)+

section \<open>Invariant and frames\<close>

definition vd_inv :: "'w VirtualDiskRemote \<Rightarrow> bool" where
  "vd_inv s \<longleftrightarrow> live (world s) \<and> vd_vol_id s = vol \<and> is_u32 (vd_affinity s) \<and> sched_ready (net_rnd N) (vd_sched s) \<and>
     cs_servers (dps_stats (vd_sched s)) \<subseteq> vd_servers s \<and> block_targets s \<subseteq> cs_servers (dps_stats (vd_sched s)) \<and>
     length (blk_caches s) = kNumMaxServers \<and> (\<forall>sid \<in> block_targets s. blk_caches s ! sid \<noteq> None) \<and>
     (\<forall>sid c. sid < kNumMaxServers \<longrightarrow> blk_caches s ! sid = Some c \<longrightarrow> cache_ok ncores sid c) \<and>
     resolver_wf (blk_res s) \<and> distinct (cached_blocks s @ mapped_blocks s) \<and>
     set (cached_blocks s @ mapped_blocks s) \<subseteq> issued (world s) \<and>
     (\<forall>b \<in> set (mapped_blocks s). sbi_server_id b \<in> cs_servers (dps_stats (vd_sched s)))"

text \<open>The sector \<open>v\<close> is mapped and all its replicas contain \<open>d\<close>.\<close>

definition holds_at :: "'w VirtualDiskRemote \<Rightarrow> nat \<Rightarrow> byte list \<Rightarrow> bool" where
  "holds_at s v d \<longleftrightarrow> v < nsectors (blk_res s) \<and> entry_blocks (blk_map (blk_res s) ! v) \<noteq> [] \<and>
     (\<forall>b \<in> set (entry_blocks (blk_map (blk_res s) ! v)). content (world s) b = d)"

text \<open>Between \<open>s\<close> and \<open>s'\<close> only the mapping of \<open>v\<close> and the content of \<open>F\<close> and of cached or new blocks may have
  changed, and at most \<open>k\<close> batches were taken from each server.\<close>

definition frame :: "ServerBlockInfo set \<Rightarrow> nat \<Rightarrow> nat \<Rightarrow> 'w VirtualDiskRemote \<Rightarrow> 'w VirtualDiskRemote \<Rightarrow> bool" where
  "frame F v k s s' \<longleftrightarrow> vmem s' = vmem s \<and> vd_affinity s' = vd_affinity s \<and> vd_servers s' = vd_servers s \<and>
     cs_servers (dps_stats (vd_sched s')) = cs_servers (dps_stats (vd_sched s)) \<and>
     accepting (world s') = accepting (world s) \<and> issued (world s) \<subseteq> issued (world s') \<and>
     set (cached_blocks s') \<subseteq> set (cached_blocks s) \<union> - issued (world s) \<and>
     nsectors (blk_res s') = nsectors (blk_res s) \<and>
     (\<forall>u. u \<noteq> v \<longrightarrow> blk_map (blk_res s') ! u = blk_map (blk_res s) ! u) \<and>
     (\<forall>b \<in> issued (world s) - set (cached_blocks s) - F. content (world s') b = content (world s) b) \<and>
     (\<forall>sid. room (world s) sid \<le> room (world s') sid + k)"

lemma frame_refl: "frame F v 0 s s"
  by (auto simp: frame_def)

lemma frame_mono:
  assumes "frame F v k s s'" "k \<le> l"
  shows "frame F v l s s'"
proof -
  have "room (world s) sid \<le> room (world s') sid + l" for sid
  proof -
    have "room (world s) sid \<le> room (world s') sid + k" using assms(1) by (simp add: frame_def)
    then show ?thesis using assms(2) by linarith
  qed
  then show ?thesis using assms(1) by (simp add: frame_def)
qed

lemma frame_trans:
  assumes "frame F v k s s'" "frame G v l s' s''" "G \<subseteq> F \<union> set (cached_blocks s) \<union> - issued (world s)"
  shows "frame F v (k + l) s s''"
proof -
  have "\<forall>b \<in> issued (world s) - set (cached_blocks s) - F. content (world s'') b = content (world s) b"
  proof
    fix b assume b: "b \<in> issued (world s) - set (cached_blocks s) - F"
    then have "b \<in> issued (world s') - set (cached_blocks s') - G" using assms(1,3) by (auto simp: frame_def)
    then show "content (world s'') b = content (world s) b" using assms(1,2) b by (simp add: frame_def)
  qed
  moreover have "room (world s) sid \<le> room (world s'') sid + (k + l)" for sid
  proof -
    have "room (world s) sid \<le> room (world s') sid + k" "room (world s') sid \<le> room (world s'') sid + l"
      using assms(1,2) by (simp_all add: frame_def)
    then show ?thesis by linarith
  qed
  moreover have "issued (world s) \<subseteq> issued (world s'')" "set (cached_blocks s'') \<subseteq> set (cached_blocks s) \<union> - issued (world s)"
    using assms(1,2) by (auto simp: frame_def)
  ultimately show ?thesis using assms(1,2) by (simp add: frame_def)
qed

text \<open>More than \<open>k\<close> batches are left on each server the volume takes blocks from.\<close>

definition has_room :: "nat \<Rightarrow> 'w VirtualDiskRemote \<Rightarrow> bool" where
  "has_room k s \<longleftrightarrow> (\<forall>sid \<in> block_targets s. k < room (world s) sid)"

lemma has_room_less: "has_room (k + l) s \<Longrightarrow> has_room k s"
  by (auto simp: has_room_def)

lemma has_room_vmem [simp]: "has_room k (s\<lparr>vmem := m\<rparr>) = has_room k s"
  by (simp add: has_room_def block_targets_def)

lemma has_room_frame:
  assumes "frame F v k s s'" "has_room (k + l) s"
  shows "has_room l s'"
  unfolding has_room_def
proof
  fix sid assume "sid \<in> block_targets s'"
  then have "sid \<in> block_targets s" using assms(1) blocks_cong(3) [of s' s] by (simp add: frame_def)
  then have "k + l < room (world s) sid" using assms(2) by (simp add: has_room_def)
  moreover have "room (world s) sid \<le> room (world s') sid + k" using assms(1) by (simp add: frame_def)
  ultimately show "l < room (world s') sid" by linarith
qed

lemma mapped_at: "v < nsectors (blk_res s) \<Longrightarrow> vd_inv s \<Longrightarrow> set (entry_blocks (blk_map (blk_res s) ! v)) \<subseteq> set (mapped_blocks s)"
  by (force simp: mapped_blocks_def vd_inv_def resolver_wf_def)

lemma frame_holds:
  assumes "frame F v k s s'" "vd_inv s" "u \<noteq> v" "holds_at s u d" "F \<inter> set (mapped_blocks s) = {}"
  shows "holds_at s' u d"
proof -
  have m: "set (entry_blocks (blk_map (blk_res s) ! u)) \<subseteq> set (mapped_blocks s)"
    using assms(4) by (intro mapped_at [OF _ assms(2)]) (simp add: holds_at_def)
  have "content (world s') b = d" if "b \<in> set (entry_blocks (blk_map (blk_res s) ! u))" for b
  proof -
    have "b \<in> issued (world s) - set (cached_blocks s) - F" using that m assms(2,5) by (auto simp: vd_inv_def)
    then show ?thesis using that assms(1,4) by (simp add: frame_def holds_at_def)
  qed
  then show ?thesis using assms(1,3,4) by (simp add: frame_def holds_at_def)
qed

text \<open>Steps that change neither blocks nor content.\<close>

definition quiet_step :: "'w VirtualDiskRemote \<Rightarrow> 'w VirtualDiskRemote \<Rightarrow> bool" where
  "quiet_step s s' \<longleftrightarrow> vd_inv s' \<and> vmem s' = vmem s \<and> vd_affinity s' = vd_affinity s \<and> vd_servers s' = vd_servers s \<and>
     cs_servers (dps_stats (vd_sched s')) = cs_servers (dps_stats (vd_sched s)) \<and> blk_res s' = blk_res s \<and>
     blk_caches s' = blk_caches s \<and> accepting (world s') = accepting (world s) \<and> issued (world s') = issued (world s) \<and>
     room (world s') = room (world s) \<and> content (world s') = content (world s)"

lemma quiet_step_trans: "quiet_step s s' \<Longrightarrow> quiet_step s' s'' \<Longrightarrow> quiet_step s s''"
  by (simp add: quiet_step_def)

lemma quiet_cached: "quiet_step s s' \<Longrightarrow> cached_blocks s' = cached_blocks s \<and> mapped_blocks s' = mapped_blocks s"
  by (simp add: quiet_step_def cached_blocks_def mapped_blocks_def)

lemma quiet_frame: "quiet_step s s' \<Longrightarrow> frame F v 0 s s'"
  using quiet_cached [of s s'] by (auto simp: frame_def quiet_step_def)

lemma quiet_holds: "quiet_step s s' \<Longrightarrow> holds_at s' v d = holds_at s v d"
  by (simp add: quiet_step_def holds_at_def)

lemma quiet_room: "quiet_step s s' \<Longrightarrow> has_room k s \<Longrightarrow> has_room k s'"
  using has_room_frame [OF quiet_frame [of s s' "{}" 0]] by simp

lemma vd_invD:
  assumes "vd_inv s"
  shows "live (world s)" "sched_ready (net_rnd N) (vd_sched s)" "resolver_wf (blk_res s)"
    "set (cached_blocks s) \<subseteq> issued (world s)" "set (mapped_blocks s) \<subseteq> issued (world s)"
    "set (cached_blocks s) \<inter> set (mapped_blocks s) = {}" "is_u32 (vd_affinity s)"
    "cs_servers (dps_stats (vd_sched s)) \<subseteq> vd_servers s"
  using assms by (simp_all add: vd_inv_def)

lemma vd_inv_cong:
  assumes "vd_inv s" "live (world s')" "issued (world s') = issued (world s)" "vd_vol_id s' = vd_vol_id s"
    "vd_affinity s' = vd_affinity s" "vd_servers s' = vd_servers s" "blk_caches s' = blk_caches s" "blk_res s' = blk_res s"
    "sched_ready (net_rnd N) (vd_sched s')" "cs_servers (dps_stats (vd_sched s')) = cs_servers (dps_stats (vd_sched s))"
  shows "vd_inv s'"
  using assms(1) unfolding vd_inv_def assms(3-8,10) blocks_cong(1) [OF assms(7)] blocks_cong(2) [OF assms(8)]
    blocks_cong(3) [OF assms(5,10)] by (simp add: assms(2,9))

lemma from_world_quiet:
  assumes "vd_inv s" "snd (f (world s)) \<in> {snd (outcomes N (world s)), snd (cores N (world s)), snd (clock N (world s)),
    snd (thread_order N (world s))}"
  shows "quiet_step s (s\<lparr>world := snd (f (world s))\<rparr>)"
    and "from_world f s = Some (Inr (fst (f (world s))), s\<lparr>world := snd (f (world s))\<rparr>)"
proof -
  have l: "live (world s)" "sched_ready (net_rnd N) (vd_sched s)" using assms(1) by (simp_all add: vd_inv_def)
  note q = quiet [OF l(1) assms(2)]
  have "vd_inv (s\<lparr>world := snd (f (world s))\<rparr>)" by (rule vd_inv_cong [OF assms(1)]) (simp_all add: q l(2))
  then show "quiet_step s (s\<lparr>world := snd (f (world s))\<rparr>)" by (simp add: quiet_step_def q)
qed (simp add: from_world_def split: prod.split)

lemma count_quiet:
  assumes "vd_inv s" "upd \<in> {num_read_rejections_update, num_write_rejections_update, num_read_retries_update,
    num_write_retries_update, num_reads_submitted_update, num_writes_submitted_update}"
  shows "\<exists>s'. count_op N upd s = Some (Inr (), s') \<and> quiet_step s s'"
proof -
  let ?s = "s\<lparr>world := snd (cores N (world s))\<rparr>"
  have q: "quiet_step s ?s" "from_world (cores N) s = Some (Inr (fst (cores N (world s))), ?s)"
    by (rule from_world_quiet [OF assms(1)]; simp)+
  have "vd_inv ?s" using q(1) by (simp add: quiet_step_def)
  note inv = this vd_invD [OF this]
  have "quiet_step ?s (upd f ?s)" for f
  proof -
    have "vd_inv (upd f ?s)" by (rule vd_inv_cong [OF inv(1)]) (use assms(2) inv in auto)
    then show ?thesis using assms(2) by (auto simp: quiet_step_def)
  qed
  then show ?thesis using q(2) quiet_step_trans [OF q(1)] by (simp add: count_op_def bindM_def)
qed

section \<open>Taking blocks\<close>

lemma cached_update_blocks:
  assumes "sid < length (blk_caches s)" "blk_caches s ! sid = Some c" "cached c' + {#b#} = cached c + mset new"
  shows "mset (b # cached_blocks (s\<lparr>blk_caches := (blk_caches s)[sid := Some c'], world := w\<rparr>)) = mset (cached_blocks s @ new)"
proof -
  let ?f = "\<lambda>c. case c of None \<Rightarrow> [] | Some c \<Rightarrow> CoreLocalCache_destroy c"
  have "mset (concat ((map ?f (blk_caches s))[sid := CoreLocalCache_destroy c'])) + mset (CoreLocalCache_destroy c) =
      mset (concat (map ?f (blk_caches s))) + mset (CoreLocalCache_destroy c')"
    using mset_concat_update [of sid "map ?f (blk_caches s)" "CoreLocalCache_destroy c'"] assms(1,2) by simp
  then have "mset (cached_blocks (s\<lparr>blk_caches := (blk_caches s)[sid := Some c'], world := w\<rparr>)) + cached c =
      mset (cached_blocks s) + cached c'"
    by (simp add: cached_blocks_def map_update destroy_cached)
  then have "mset (cached_blocks (s\<lparr>blk_caches := (blk_caches s)[sid := Some c'], world := w\<rparr>)) + {#b#} + cached c =
      mset (cached_blocks s) + mset new + cached c"
    using assms(3) by (metis add.assoc add.commute)
  then show ?thesis by simp
qed

definition took :: "nat \<Rightarrow> ServerID \<Rightarrow> ServerBlockInfo \<Rightarrow> 'w VirtualDiskRemote \<Rightarrow> 'w VirtualDiskRemote \<Rightarrow> bool" where
  "took v sid b s s' \<longleftrightarrow> vd_inv s' \<and> frame {} v 1 s s' \<and> sbi_server_id b = sid \<and> b \<in> issued (world s') \<and>
     b \<notin> set (cached_blocks s' @ mapped_blocks s') \<and> b \<in> set (cached_blocks s) \<union> - issued (world s) \<and>
     blk_res s' = blk_res s \<and> block_targets s' = block_targets s"

lemma took_drawn:
  assumes inv: "vd_inv s" and c: "blk_caches s ! sid = Some c" "sid < length (blk_caches s)" "cache_ok ncores sid c"
    and c': "cached c' + {#b#} = cached c + mset new" "length (clc_locals c') = length (clc_locals c)" "per_core_capacity c' = per_core_capacity c"
    and new: "distinct new" "set new \<inter> issued (world s) = {}" "issued w' = issued (world s) \<union> set new" "\<forall>x \<in> set new. sbi_server_id x = sid"
    and w': "live w'" "content w' = content (world s)" "accepting w' = accepting (world s)" "\<forall>i. room (world s) i \<le> room w' i + 1"
  shows "took v sid b s (s\<lparr>blk_caches := (blk_caches s)[sid := Some c'], world := w'\<rparr>)"
proof -
  let ?s = "s\<lparr>blk_caches := (blk_caches s)[sid := Some c'], world := w'\<rparr>"
  have ms: "mset (b # cached_blocks ?s) = mset (cached_blocks s @ new)" by (rule cached_update_blocks [OF c(2,1) c'(1)])
  have all: "set (b # cached_blocks ?s) = set (cached_blocks s) \<union> set new" using mset_eq_setD [OF ms] by simp
  have inv': "distinct (cached_blocks s @ mapped_blocks s)" "set (cached_blocks s @ mapped_blocks s) \<subseteq> issued (world s)"
    using inv by (simp_all add: vd_inv_def)
  then have "distinct (cached_blocks s @ new)" using new by auto
  then have dist: "distinct (b # cached_blocks ?s)" using mset_eq_imp_distinct_iff [OF ms] by blast
  have disj: "set (b # cached_blocks ?s) \<inter> set (mapped_blocks s) = {}" using all inv' new by auto
  have "mset (b # CoreLocalCache_destroy c') = mset (CoreLocalCache_destroy c @ new)" using c'(1) by (simp add: destroy_cached)
  then have "set (b # CoreLocalCache_destroy c') = set (CoreLocalCache_destroy c @ new)" by (rule mset_eq_setD)
  then have own: "\<forall>x \<in> set (b # CoreLocalCache_destroy c'). sbi_server_id x = sid" using c(3) new(4) by (auto simp: cache_ok_def)
  then have cok: "cache_ok ncores sid c'" using c(3) c'(2,3) by (simp add: cache_ok_def)
  have m: "mapped_blocks ?s = mapped_blocks s" and t: "block_targets ?s = block_targets s" by (simp_all add: mapped_blocks_def block_targets_def)
  have inv'': "vd_inv ?s" using inv cok c(2) w'(1) new(3) dist disj all unfolding vd_inv_def m t
    by (auto simp: nth_list_update)
  have fr: "frame {} v 1 s ?s" using all new w' by (auto simp: frame_def)
  have "b \<in> set (cached_blocks s) \<union> set new" "set (cached_blocks s) \<subseteq> issued (world s)" using all inv'(2) by auto
  then have "b \<in> issued (world ?s)" "b \<in> set (cached_blocks s) \<union> - issued (world s)" using new(2,3) by auto
  then show ?thesis using inv'' fr own dist disj m t by (simp add: took_def)
qed

lemma cache_get_ok:
  assumes inv: "vd_inv s" and sid: "sid \<in> block_targets s" "1 < room (world s) sid"
  shows "\<exists>b s'. cache_get N sid s = Some (Inr b, s') \<and> took v sid b s s'"
proof -
  let ?w = "snd (cores N (world s))" and ?cpus = "fst (cores N (world s))"
  have lt: "sid < kNumMaxServers" using inv sid(1) ready_servers(1) [OF rounding vd_invD(2) [OF inv]] by (auto simp: vd_inv_def)
  then obtain c where c: "blk_caches s ! sid = Some c" "cache_ok ncores sid c" "sid < length (blk_caches s)"
    using inv sid(1) by (auto simp: vd_inv_def)
  have q: "live ?w" "accepting ?w = accepting (world s)" "issued ?w = issued (world s)" "room ?w = room (world s)"
    "content ?w = content (world s)" using quiet [OF vd_invD(1) [OF inv], of ?w] by auto
  have room: "source_room ?w sid (Inr ?w) = room (world s) sid" using q by (simp add: source_room_def)
  have one: "src.batches (per_core_capacity c) = 1"
    unfolding src.batches_def using c(2) by (simp add: cache_ok_def kPerCoreCachedBlocks_def kAllocationBatch_def)
  obtain b c' x' new where g: "CoreLocalCache_get (AllocateBlocks N vol sid) ?cpus c (Inr ?w) = Some (b, c', x')"
    "src.got ?w sid c (Inr ?w) b c' x' new"
    using src.get_total [of ?cpus c ?w sid "Inr ?w"] c(2) cores_less room sid(2) unfolding one
    by (auto simp: cache_ok_def kPerCoreCachedBlocks_def kAllocationBatch_def)
  note d = g(2) [unfolded src.got_def src.drawn_def]
  have "0 < source_room ?w sid x'" using one d room sid(2) c(2) by (auto simp: cache_ok_def)
  then obtain w' where w': "x' = Inr w'" "live w'" "content w' = content ?w" "accepting w' = accepting ?w"
    "\<forall>i. i \<noteq> sid \<longrightarrow> room w' i = room ?w i" "issued w' \<subseteq> issued ?w \<union> {b. sbi_server_id b = sid}"
    "source_room ?w sid x' = room w' sid" using source_roomD by blast
  let ?s = "s\<lparr>blk_caches := (blk_caches s)[sid := Some c'], world := w'\<rparr>"
  have new: "distinct new" "set new \<inter> issued (world s) = {}" "issued w' = issued (world s) \<union> set new"
    using d w'(1) q(3) by (auto simp: source_issued_def)
  moreover have "\<forall>x \<in> set new. sbi_server_id x = sid" using new w'(6) q(3) by auto
  moreover have "room (world s) i \<le> room w' i + 1" for i using w' q(4) d room one by (cases "i = sid") auto
  ultimately have "took v sid b s ?s" using d w' q by (intro took_drawn [OF inv c(1,3,2)]) auto
  moreover have "vd_vol_id s = vol" using inv by (simp add: vd_inv_def)
  ultimately show ?thesis using g(1) w'(1) c(1,3)
    by (intro exI [of _ b] exI [of _ ?s]) (simp add: cache_get_def case_prod_unfold)
qed

text \<open>Two blocks for a write: different, issued, neither cached nor mapped.\<close>

definition fresh_pair :: "nat \<Rightarrow> ServerBlockInfo \<Rightarrow> ServerBlockInfo \<Rightarrow> 'w VirtualDiskRemote \<Rightarrow> 'w VirtualDiskRemote \<Rightarrow> bool" where
  "fresh_pair v b b' s s' \<longleftrightarrow> vd_inv s' \<and> frame {} v 2 s s' \<and> b \<noteq> b' \<and>
     {b, b'} \<subseteq> issued (world s') - set (cached_blocks s' @ mapped_blocks s') \<and>
     {b, b'} \<subseteq> set (cached_blocks s) \<union> - issued (world s) \<and> blk_res s' = blk_res s \<and>
     {sbi_server_id b, sbi_server_id b'} \<subseteq> cs_servers (dps_stats (vd_sched s'))"

lemma vd_inv_targets: "vd_inv s \<Longrightarrow> block_targets s \<subseteq> cs_servers (dps_stats (vd_sched s))"
  by (simp add: vd_inv_def)

lemma get_each_two:
  assumes inv: "vd_inv s" and sids: "{a, c} \<subseteq> block_targets s" "has_room 2 s"
  shows "\<exists>b b' s'. get_each N dirty [a, c] s = Some (Inr [(b, dirty), (b', dirty)], s') \<and> fresh_pair v b b' s s'"
proof -
  have more: "2 < room (world s) a" "2 < room (world s) c"
    using sids by (simp_all add: has_room_def)
  then have "1 < room (world s) a" by linarith
  then obtain b s1 where 1: "cache_get N a s = Some (Inr b, s1)" "took v a b s s1"
    using cache_get_ok [OF inv, of a v] sids(1) by auto
  note t1 = 1(2) [unfolded took_def]
  have "room (world s) c \<le> room (world s1) c + 1" using t1 by (simp add: frame_def)
  then have "1 < room (world s1) c" using more(2) by linarith
  then obtain b' s2 where 2: "cache_get N c s1 = Some (Inr b', s2)" "took v c b' s1 s2"
    using cache_get_ok [of s1 c v] t1 sids(1) by auto
  note t2 = 2(2) [unfolded took_def]
  have fr: "frame {} v 2 s s2" unfolding one_add_one [symmetric]
    by (rule frame_trans [where G = "{}"]) (use t1 t2 in auto)
  have "b \<notin> set (cached_blocks s2)" "b \<noteq> b'" using t1 t2 by (auto simp: frame_def)
  moreover have "b \<in> issued (world s2)" "mapped_blocks s2 = mapped_blocks s1" "b' \<in> set (cached_blocks s) \<union> - issued (world s)"
    using t1 t2 by (auto simp: frame_def mapped_blocks_def)
  moreover have "{a, c} \<subseteq> cs_servers (dps_stats (vd_sched s2))"
    using t1 t2 sids(1) vd_inv_targets [of s2] by auto
  ultimately have "fresh_pair v b b' s s2" using t1 t2 fr by (auto simp: fresh_pair_def)
  then show ?thesis using 1(1) 2(1) by (simp add: bindM_def liftM_def)
qed

lemma fresh_pair_quiet: "quiet_step s s' \<Longrightarrow> fresh_pair v b b' s' s'' \<Longrightarrow> fresh_pair v b b' s s''"
  using quiet_cached [of s s'] frame_trans [OF quiet_frame [of s s' "{}" v], where G = "{}" and s'' = s'']
  by (fastforce simp: fresh_pair_def quiet_step_def)

lemma GetBlocks_ok:
  assumes inv: "vd_inv s" and room: "has_room 2 s"
  shows "\<exists>b b' s'. GetBlocks N iod dirty s = Some (Inr [(b, dirty), (b', dirty)], s') \<and> fresh_pair v b b' s s'"
proof (cases "vd_affinity s = kInvalidServerID")
  case True
  let ?s = "s\<lparr>world := snd (outcomes N (world s))\<rparr>" and ?rs = "fst (outcomes N (world s))"
  have q: "quiet_step s ?s" "from_world (outcomes N) s = Some (Inr ?rs, ?s)" by (rule from_world_quiet [OF inv]; simp)+
  have "sched_ready (net_rnd N) (vd_sched ?s)" using vd_invD(2) [OF inv] by simp
  then obtain a c where sel: "Scheduler_SelectWriteReplicas (net_rnd N) (net_hash N) ?rs (vd_sched ?s) (vd_vol_id ?s) iod = Inr [a, c]"
    "{a, c} \<subseteq> cs_servers (dps_stats (vd_sched ?s))"
    using SelectWriteReplicas_ok [OF rounding, of "vd_sched ?s" "net_hash N" ?rs "vd_vol_id ?s" iod] by (auto simp: sched_ready_def)
  have "{a, c} \<subseteq> block_targets ?s" using sel(2) True by (simp add: block_targets_def)
  then obtain b b' s' where "get_each N dirty [a, c] ?s = Some (Inr [(b, dirty), (b', dirty)], s')" "fresh_pair v b b' ?s s'"
    using get_each_two [of ?s a c dirty v] q(1) quiet_room [OF q(1) room] by (auto simp: quiet_step_def)
  then show ?thesis using True q(2) sel(1) fresh_pair_quiet [OF q(1)]
    by (auto simp: GetBlocks_def bindM_def simp del: get_each.simps)
next
  case False
  have "replicate kNumReplicas (vd_affinity s) = [vd_affinity s, vd_affinity s]" by (simp add: kNumReplicas_def numeral_2_eq_2)
  then show ?thesis using get_each_two [OF inv _ room, of "vd_affinity s" "vd_affinity s" dirty v] False
    by (simp add: GetBlocks_def GetBlocksWithAffinity_def block_targets_def del: get_each.simps)
qed

section \<open>Writing\<close>

lemma AddMapping_ok:
  assumes pair: "fresh_pair v b b' s0 s" and v: "v < nsectors (blk_res s)"
  shows "\<exists>s'. AddMappingM v [(b, dirty), (b', dirty)] s = Some (Inr (), s') \<and> vd_inv s' \<and> frame {} v 0 s s' \<and>
    world s' = world s \<and> blk_caches s' = blk_caches s \<and> vd_sched s' = vd_sched s \<and>
    entry_blocks (blk_map (blk_res s') ! v) = [b, b'] \<and> set (mapped_blocks s') \<subseteq> set (mapped_blocks s) \<union> {b, b'}"
proof -
  note p = pair [unfolded fresh_pair_def]
  have inv: "vd_inv s" and wf: "length (blk_map (blk_res s)) = nsectors (blk_res s)"
    using p by (auto simp: vd_inv_def resolver_wf_def)
  define r where "r = DiscardExistingBlocks (blk_res s) v"
  have r: "blk_map r = blk_map (blk_res s)" "nsectors r = nsectors (blk_res s)"
    by (auto simp: r_def DiscardExistingBlocks_def Let_def split: prod.splits)
  let ?e = "[(b, dirty), (b', dirty)]"
  define s' where "s' = s\<lparr>blk_res := r\<lparr>blk_map := (blk_map r)[v := ?e]\<rparr>\<rparr>"
  have am: "AddMappingM v ?e s = Some (Inr (), s')"
    using v by (simp add: AddMappingM_def AddMapping_def s'_def r_def Let_def)
  have "sbi_server_id b \<noteq> kInvalidServerID" using p ready_servers(2) [OF rounding vd_invD(2) [OF inv], of "sbi_server_id b"] by auto
  then have e: "entry_blocks ?e = [b, b']" by (simp add: entry_blocks_def front_server_def)
  have "mset (mapped_blocks s') + mset (entry_blocks (blk_map (blk_res s) ! v)) = mset (mapped_blocks s) + mset [b, b']"
    using mset_concat_update [of v "map entry_blocks (blk_map (blk_res s))" "[b, b']"] v wf
    by (simp add: mapped_blocks_def s'_def r map_update e)
  then have ms: "mset (mapped_blocks s' @ entry_blocks (blk_map (blk_res s) ! v)) = mset (mapped_blocks s @ [b, b'])" by simp
  have "distinct (mapped_blocks s @ [b, b'])" using p inv by (auto simp: vd_inv_def)
  then have dist: "distinct (mapped_blocks s')" using mset_eq_imp_distinct_iff [OF ms] by simp
  have sub: "set (mapped_blocks s') \<subseteq> set (mapped_blocks s) \<union> {b, b'}" using mset_eq_setD [OF ms] by auto
  have cb: "cached_blocks s' = cached_blocks s" "block_targets s' = block_targets s"
    by (simp_all add: s'_def cached_blocks_def block_targets_def)
  have inv': "vd_inv s'" unfolding vd_inv_def cb
  proof (intro conjI)
    show "distinct (cached_blocks s @ mapped_blocks s')" "set (cached_blocks s @ mapped_blocks s') \<subseteq> issued (world s')"
      "\<forall>x \<in> set (mapped_blocks s'). sbi_server_id x \<in> cs_servers (dps_stats (vd_sched s'))"
      using p inv sub dist by (auto simp: vd_inv_def s'_def)
    show "resolver_wf (blk_res s')" using wf by (simp add: resolver_wf_def s'_def r)
  qed (use inv in \<open>simp_all add: vd_inv_def s'_def\<close>)
  have "frame {} v 0 s s'" unfolding frame_def cb by (auto simp: s'_def r)
  moreover have "entry_blocks (blk_map (blk_res s') ! v) = [b, b']" using v wf e by (simp add: s'_def r)
  ultimately show ?thesis using am inv' sub by (auto simp: s'_def)
qed

text \<open>The reply to a one-sector request, as the client decodes it.\<close>

lemma take_reply:
  assumes "c \<in> {Code_kSuccess, Code_kSuccessCongested, Code_kRejectModeMismatch}" "is_i32 r" "length out \<le> 4096"
  shows "\<exists>d. take_StorageOpReplyMsg (drop 16 (CreateStorageOpReplyMsg junk iod 0 out r c)) =
      Inr (\<lparr>sr_iod = iod, sr_req_id = 0, sr_code = c, sr_res = r\<rparr>, d) \<and>
    drop reply_offset (CreateStorageOpReplyMsg junk iod 0 out r c) = out \<and>
    length (CreateStorageOpReplyMsg junk iod 0 out r c) = reply_offset + length out"
proof -
  have ok: "ok_StorageOpReplyMsg \<lparr>sr_iod = iod, sr_req_id = 0, sr_code = c, sr_res = r\<rparr>"
    "ok_MsgHeader \<lparr>len = 56 + length out, payload_size = 0, type = Msg_kStorageOpReply\<rparr>"
    using assms by (auto simp: ok_StorageOpReplyMsg_def ok_MsgHeader_def is_u64_def is_u32_def is_msg_type_def)
  then show ?thesis
    by (simp add: CreateStorageOpReplyMsg_def header.wput_size storage_reply.wtake_wput storage_reply.wput_size reply_offset_def)
qed

lemma SignalCongestedM_quiet:
  assumes "vd_inv s" "sid \<in> cs_servers (dps_stats (vd_sched s))"
  shows "\<exists>s'. SignalCongestedM N sid s = Some (Inr (), s') \<and> quiet_step s s'"
proof (cases "sid = vd_affinity s")
  case True
  then show ?thesis using assms(1) by (simp add: SignalCongestedM_def quiet_step_def)
next
  case False
  let ?s1 = "s\<lparr>world := snd (clock N (world s))\<rparr>"
  let ?s2 = "?s1\<lparr>world := snd (clock N (world ?s1))\<rparr>"
  have q1: "quiet_step s ?s1" "from_world (clock N) s = Some (Inr (fst (clock N (world s))), ?s1)"
    by (rule from_world_quiet [OF assms(1)]; simp)+
  then have "vd_inv ?s1" by (simp add: quiet_step_def)
  then have q2: "quiet_step ?s1 ?s2" "from_world (clock N) ?s1 = Some (Inr (fst (clock N (world ?s1))), ?s2)"
    by (rule from_world_quiet; simp)+
  then have inv: "vd_inv ?s2" by (simp add: quiet_step_def)
  obtain d' where d: "bindS (get_at (states (cs_cc (dps_stats (vd_sched ?s2)))) sid) (\<lambda>cur. Scheduler_SignalCongested (net_rnd N)
      (vd_sched ?s2) cur sid (fst (clock N (world s))) (fst (clock N (world ?s1)))) = Inr d'"
    "sched_ready (net_rnd N) d'" "cs_servers (dps_stats d') = cs_servers (dps_stats (vd_sched ?s2))"
    using SignalCongested_ready [OF rounding vd_invD(2) [OF inv], of sid] assms(2) by force
  have "vd_inv (?s2\<lparr>vd_sched := d'\<rparr>)" by (rule vd_inv_cong [OF inv]) (use d vd_invD(1) [OF inv] in simp_all)
  then have "quiet_step ?s2 (?s2\<lparr>vd_sched := d'\<rparr>)" using d by (simp add: quiet_step_def)
  then have "quiet_step s (?s2\<lparr>vd_sched := d'\<rparr>)" using q1 q2 quiet_step_trans by blast
  then show ?thesis using False q1(2) q2(2) d(1)
    by (intro exI [of _ "?s2\<lparr>vd_sched := d'\<rparr>"]) (simp add: SignalCongestedM_def bindM_def)
qed

text \<open>One replica: the block is written, or the server refused and nothing changed.\<close>

definition wrote :: "ServerBlockInfo \<Rightarrow> byte list \<Rightarrow> int + int \<Rightarrow> 'w VirtualDiskRemote \<Rightarrow> 'w VirtualDiskRemote \<Rightarrow> bool" where
  "wrote b data res s s' \<longleftrightarrow> vd_inv s' \<and> vmem s' = vmem s \<and> vd_affinity s' = vd_affinity s \<and> vd_servers s' = vd_servers s \<and>
     cs_servers (dps_stats (vd_sched s')) = cs_servers (dps_stats (vd_sched s)) \<and> blk_res s' = blk_res s \<and>
     blk_caches s' = blk_caches s \<and> accepting (world s') = accepting (world s) \<and> issued (world s') = issued (world s) \<and>
     room (world s') = room (world s) \<and>
     (case res of Inr _ \<Rightarrow> content (world s') = (content (world s))(b := data)
      | Inl code \<Rightarrow> content (world s') = content (world s) \<and> \<not> accepting (world s) \<and> vd_affinity s = kInvalidServerID)"

lemma wrote_quiet:
  "quiet_step s s' \<Longrightarrow> wrote b data res s' s'' \<Longrightarrow> wrote b data res s s''"
  "wrote b data res s s' \<Longrightarrow> quiet_step s' s'' \<Longrightarrow> wrote b data res s s''"
  by (auto simp: wrote_def quiet_step_def split: sum.splits)

lemma wrote_frame: "wrote b data res s s' \<Longrightarrow> frame {b} v 0 s s'"
  by (auto simp: wrote_def frame_def cached_blocks_def split: sum.splits)

lemma write_block:
  assumes inv: "vd_inv s" and b: "b \<in> issued (world s)" "sbi_server_id b \<in> cs_servers (dps_stats (vd_sched s))"
    and iod: "get_op iod = Op_kWrite" "num_sectors iod = 1"
  shows "\<exists>resp s1 res s2. ProcessStorageOp N (sbi_server_id b) (iod\<lparr>start_sector := sbi_block_addr b\<rparr>) 0 s = Some (Inr resp, s1) \<and>
    tryM (HandleStorageOpReply N resp (sbi_server_id b)) s1 = Some (Inr res, s2) \<and>
    wrote b (peek (vmem s) (addr iod) 4096) res s s2"
proof -
  let ?iod = "iod\<lparr>start_sector := sbi_block_addr b\<rparr>" and ?sid = "sbi_server_id b"
  let ?data = "peek (vmem s) (addr iod) 4096"
  have op: "get_op ?iod = Op_kWrite" "num_sectors ?iod = 1" "unat (op_len ?iod) = 4096"
    using iod one_sector [of ?iod] by (simp_all add: get_op_def)
  obtain s0 where s0: "count_op N num_writes_submitted_update s = Some (Inr (), s0)" "quiet_step s s0"
    using count_quiet [OF inv] by auto
  have "vd_inv s0" and o: "b \<in> issued (world s0)" "vmem s0 = vmem s" "?sid \<in> cs_servers (dps_stats (vd_sched s0))"
    using s0(2) b by (simp_all add: quiet_step_def)
  note i0 = this(1) vd_invD(1,7) [OF this(1)] o
  obtain junk c r w where st: "server_rpc N ?sid (world s0) (CreateStorageOpMsg (net_junk N) ?iod 0 (vd_affinity s0) ?data) =
      (CreateStorageOpReplyMsg junk ?iod 0 [] r c, w)" "is_i32 r"
    "c \<in> {Code_kSuccess, Code_kSuccessCongested, Code_kRejectModeMismatch}" "live w" "accepting w = accepting (world s0)"
    "issued w = issued (world s0)" "room w = room (world s0)"
    "content w = (if c = Code_kRejectModeMismatch then content (world s0) else (content (world s0))(b := ?data))"
    "accepting (world s0) \<or> vd_affinity s0 \<noteq> kInvalidServerID \<longrightarrow> c \<noteq> Code_kRejectModeMismatch"
    using store [OF i0(2,4) op(1,2) _ _ i0(3), of ?data] by auto
  let ?s1 = "s0\<lparr>world := w\<rparr>" and ?resp = "CreateStorageOpReplyMsg junk ?iod 0 [] r c"
  have ps: "ProcessStorageOp N ?sid ?iod 0 s = Some (Inr ?resp, ?s1)"
    using s0(1) st(1) op i0(5) by (simp add: ProcessStorageOp_def bindM_def from_world_def)
  have inv1: "vd_inv ?s1" by (rule vd_inv_cong [OF i0(1)]) (use st vd_invD(2) [OF i0(1)] in simp_all)
  obtain d where rep: "take_StorageOpReplyMsg (drop 16 ?resp) = Inr (\<lparr>sr_iod = ?iod, sr_req_id = 0, sr_code = c, sr_res = r\<rparr>, d)"
    "length ?resp = reply_offset" using take_reply [OF st(3,2), of "[]" junk ?iod] by auto
  obtain s2 where s2: "SignalCongestedM N ?sid ?s1 = Some (Inr (), s2)" "quiet_step ?s1 s2"
    using SignalCongestedM_quiet [OF inv1, of ?sid] i0(6) by auto
  have h: "tryM (HandleStorageOpReply N ?resp ?sid) ?s1 = Some (if c = Code_kRejectModeMismatch then (Inr (Inl EROFS), ?s1)
      else (Inr (Inr r), if c = Code_kSuccessCongested then s2 else ?s1))"
    using st(3) rep s2(1) op(1)
    by (auto simp: HandleStorageOpReply_def tryM_def bindM_def liftM_def reply_offset_def Let_def)
  have w1: "wrote b ?data (if c = Code_kRejectModeMismatch then Inl EROFS else Inr r) s0 ?s1"
    using inv1 st i0 by (auto simp: wrote_def)
  show ?thesis
  proof (cases "c = Code_kSuccessCongested")
    case True
    then show ?thesis using ps h wrote_quiet(1) [OF s0(2) wrote_quiet(2) [OF w1 s2(2)]] by auto
  next
    case False
    then show ?thesis using ps h wrote_quiet(1) [OF s0(2) w1] by auto
  qed
qed

text \<open>What a nested call of \<open>ProcessRequest\<close> does for the write of sector \<open>v\<close>; it may not return.\<close>

definition retry_ok :: "(IODesc \<Rightarrow> ('w, int) vm) \<Rightarrow> IODesc \<Rightarrow> nat \<Rightarrow> nat \<Rightarrow> bool" where
  "retry_ok retry iod v k \<longleftrightarrow> (\<forall>s. vd_inv s \<longrightarrow> v < nsectors (blk_res s) \<longrightarrow> has_room k s \<longrightarrow>
     retry iod s = None \<or> (\<exists>x s'. retry iod s = Some (Inr x, s') \<and> vd_inv s' \<and> frame {} v k s s' \<and>
       holds_at s' v (peek (vmem s) (addr iod) 4096)))"

text \<open>The state while the threads of a write run: \<open>F\<close> are its blocks, \<open>W\<close> those written. Once a retry was made
  the sector is stored, on other blocks.\<close>

definition writing :: "ServerBlockInfo set \<Rightarrow> nat \<Rightarrow> nat \<Rightarrow> byte list \<Rightarrow> 'w VirtualDiskRemote \<Rightarrow> ServerBlockInfo set \<Rightarrow> bool \<Rightarrow>
    'w VirtualDiskRemote \<Rightarrow> bool" where
  "writing F v k data s0 W rt s \<longleftrightarrow> vd_inv s \<and> frame F v (if rt then k else 0) s0 s \<and> F \<subseteq> issued (world s) - set (cached_blocks s) \<and>
     (if rt then holds_at s v data else blk_res s = blk_res s0 \<and> (\<forall>b \<in> W. content (world s) b = data))"

lemma writing_wrote:
  assumes "writing F v k data s0 W rt s" "wrote b data (Inr x) s s'" "b \<in> F"
  shows "writing F v k data s0 (insert b W) rt s'"
proof -
  have "frame F v (if rt then k else 0) s0 s'"
    using frame_trans [OF _ wrote_frame [OF assms(2)], of F v "if rt then k else 0" s0] assms(1,3) by (simp add: writing_def)
  moreover have "cached_blocks s' = cached_blocks s" using assms(2) by (simp add: wrote_def cached_blocks_def)
  ultimately show ?thesis using assms by (auto simp: writing_def wrote_def holds_at_def)
qed

lemma writing_quiet:
  assumes "writing F v k data s0 W rt s" "quiet_step s s'"
  shows "writing F v k data s0 W rt s'"
proof -
  have "frame F v (if rt then k else 0) s0 s'"
    using frame_trans [OF _ quiet_frame [OF assms(2)], of F v "if rt then k else 0" s0 "{}"] assms(1) by (simp add: writing_def)
  then show ?thesis using assms quiet_cached [OF assms(2)] quiet_holds [OF assms(2)]
    by (auto simp: writing_def quiet_step_def)
qed

lemma writing_retry:
  assumes "writing F v k data s0 W False s" "vd_inv s'" "frame {} v k s s'" "holds_at s' v data"
  shows "writing F v k data s0 W' True s'"
proof -
  have "frame F v (0 + k) s0 s'" by (rule frame_trans [OF _ assms(3)]) (use assms(1) in \<open>simp_all add: writing_def\<close>)
  moreover have "F \<subseteq> issued (world s') - set (cached_blocks s')" using assms(1,3) by (auto simp: writing_def frame_def)
  ultimately show ?thesis using assms by (simp add: writing_def)
qed

lemma writing_D:
  assumes "writing F v k data s0 W rt s" "v < nsectors (blk_res s0)" "has_room k s0" "data = peek (vmem s0) a 4096"
  shows "vd_inv s" "v < nsectors (blk_res s)" "data = peek (vmem s) a 4096" "cs_servers (dps_stats (vd_sched s)) = cs_servers (dps_stats (vd_sched s0))"
    "F \<subseteq> issued (world s)" "accepting (world s) = accepting (world s0)" "vd_affinity s = vd_affinity s0"
    "\<not> rt \<Longrightarrow> has_room k s"
proof -
  show "has_room k s" if "\<not> rt" using has_room_frame [of F v 0 s0 s k] that assms(1,3) by (simp add: writing_def)
qed (use assms in \<open>auto simp: writing_def frame_def\<close>)

lemma write_thread_retry:
  assumes w: "writing F v k data s0 W rt s" and retry: "retry_ok retry iod v k"
    and ctx: "v < nsectors (blk_res s0)" "has_room k s0" "data = peek (vmem s0) (addr iod) 4096"
    and t: "t = (if rt then Some (Inr True, s) else bindM (tryM (retry iod)) (\<lambda>_. liftM (Inr True)) s)"
  shows "t = None \<or> (\<exists>s'. t = Some (Inr True, s') \<and> writing F v k data s0 (insert b W) True s')"
proof (cases rt)
  case True
  then have "writing F v k data s0 (insert b W) True s" using w by (simp add: writing_def)
  then show ?thesis using t True by auto
next
  case False
  note d = writing_D [OF w ctx]
  from retry d(1,2,3,8) False
  consider "retry iod s = None" | x s' where "retry iod s = Some (Inr x, s')" "vd_inv s'" "frame {} v k s s'" "holds_at s' v data"
    unfolding retry_ok_def by metis
  then show ?thesis
  proof cases
    case 1
    then show ?thesis using t False by (simp add: bindM_def tryM_def)
  next
    case 2
    have "writing F v k data s0 (insert b W) True s'" using w False by (intro writing_retry [OF _ 2(2-4)]) simp
    then show ?thesis using t False 2(1) by (auto simp: bindM_def tryM_def liftM_def)
  qed
qed

lemma write_thread_ok:
  assumes wr: "writing F v k data s0 W rt s" "b \<in> F" "sbi_server_id b \<in> cs_servers (dps_stats (vd_sched s0))"
    and ctx: "v < nsectors (blk_res s0)" "has_room k s0" "data = peek (vmem s0) (addr iod) 4096"
    and iod: "get_op iod = Op_kWrite" "num_sectors iod = 1" and retry: "retry_ok retry iod v k"
  shows "(write_thread N retry iod 0 b rt s = None \<and> \<not> accepting (world s0) \<and> vd_affinity s0 = kInvalidServerID) \<or>
    (\<exists>rt' s'. write_thread N retry iod 0 b rt s = Some (Inr rt', s') \<and> writing F v k data s0 (insert b W) rt' s')"
proof -
  note d = writing_D [OF wr(1) ctx]
  have b: "b \<in> issued (world s)" "sbi_server_id b \<in> cs_servers (dps_stats (vd_sched s))" using d(4,5) wr(2,3) by auto
  then have srv: "sbi_server_id b \<in> vd_servers s" using vd_invD(8) [OF d(1)] by auto
  obtain resp s1 res s2 where w: "ProcessStorageOp N (sbi_server_id b) (iod\<lparr>start_sector := sbi_block_addr b\<rparr>) 0 s = Some (Inr resp, s1)"
    "tryM (HandleStorageOpReply N resp (sbi_server_id b)) s1 = Some (Inr res, s2)" "wrote b data res s s2"
    using write_block [OF d(1) b iod] d(3) by auto
  show ?thesis
  proof (cases res)
    case (Inr x)
    then have "write_thread N retry iod 0 b rt s = Some (Inr rt, s2)"
      using w(1,2) srv by (simp add: write_thread_def GetRPCClientForServer_def bindM_def liftM_def)
    then show ?thesis using writing_wrote [OF wr(1) _ wr(2)] w(3) Inr by blast
  next
    case (Inl code)
    have q: "quiet_step s s2" and na: "\<not> accepting (world s0)" "vd_affinity s0 = kInvalidServerID"
      using w(3) d(6,7) by (auto simp: Inl wrote_def quiet_step_def)
    then have "vd_inv s2" by (simp add: quiet_step_def)
    then obtain s3 where s3: "count_op N (if code = EROFS then num_write_rejections_update else num_write_retries_update) s2 =
        Some (Inr (), s3)" "quiet_step s2 s3"
      using count_quiet [OF \<open>vd_inv s2\<close>, of num_write_rejections_update] count_quiet [OF \<open>vd_inv s2\<close>, of num_write_retries_update]
      by (cases "code = EROFS") auto
    have q3: "quiet_step s s3" using quiet_step_trans [OF q s3(2)] .
    have wt: "write_thread N retry iod 0 b rt s = (if rt then Some (Inr True, s3) else
        bindM (tryM (retry iod)) (\<lambda>_. liftM (Inr True)) s3)"
      using w(1,2) srv s3(1) Inl by (simp add: write_thread_def GetRPCClientForServer_def bindM_def liftM_def)
    show ?thesis using write_thread_retry [OF writing_quiet [OF wr(1) q3] retry ctx wt, of b] na by blast
  qed
qed

lemma write_threads_ok:
  assumes ctx: "v < nsectors (blk_res s0)" "has_room k s0" "data = peek (vmem s0) (addr iod) 4096"
    and iod: "get_op iod = Op_kWrite" "num_sectors iod = 1" and retry: "retry_ok retry iod v k"
    and srv: "F = fst ` set servers" "\<forall>b \<in> F. sbi_server_id b \<in> cs_servers (dps_stats (vd_sched s0))"
    and "writing F v k data s0 W rt s" "\<forall>i \<in> set is. i < length servers"
  shows "(write_threads N retry iod 0 servers is rt s = None \<and> \<not> accepting (world s0) \<and> vd_affinity s0 = kInvalidServerID) \<or>
    (\<exists>rt' s'. write_threads N retry iod 0 servers is rt s = Some (Inr (), s') \<and>
      writing F v k data s0 (W \<union> (\<lambda>i. fst (servers ! i)) ` set is) rt' s')"
  using assms(9,10)
proof (induction "is" arbitrary: W rt s)
  case Nil
  then show ?case by (auto simp: liftM_def)
next
  case (Cons i "is")
  let ?b = "fst (servers ! i)"
  have i: "i < length servers" "?b \<in> F" using Cons.prems(2) srv(1) by auto
  have get: "get_at servers i = Inr (servers ! i)" using i(1) by simp
  consider "write_thread N retry iod 0 ?b rt s = None" "\<not> accepting (world s0)" "vd_affinity s0 = kInvalidServerID"
    | rt' s' where "write_thread N retry iod 0 ?b rt s = Some (Inr rt', s')" "writing F v k data s0 (insert ?b W) rt' s'"
    using write_thread_ok [OF Cons.prems(1) i(2) _ ctx iod retry] srv(2) i(2) by auto
  then show ?case
  proof cases
    case 1
    then show ?thesis by (simp add: bindM_def liftM_def get)
  next
    case 2
    then show ?thesis using Cons.IH [OF 2(2)] Cons.prems(2) by (simp add: bindM_def liftM_def get)
  qed
qed

lemma replica_order_set: "set (replica_order os) = {0, 1}"
  by (auto simp: replica_order_def kNumReplicas_def)

lemma prepare_write:
  assumes inv: "vd_inv s" "v < nsectors (blk_res s)" and room: "has_room (2 + k) s"
  obtains b b' s1 s2 os s3 where "GetBlocks N iod True s = Some (Inr [(b, True), (b', True)], s1)"
    "AddMappingM v [(b, True), (b', True)] s1 = Some (Inr (), s2)" "from_world (thread_order N) s2 = Some (Inr os, s3)"
    "frame {} v 2 s s3" "writing {b, b'} v k data s3 {} False s3" "has_room k s3"
    "{sbi_server_id b, sbi_server_id b'} \<subseteq> cs_servers (dps_stats (vd_sched s3))"
    "{b, b'} \<subseteq> set (cached_blocks s) \<union> - issued (world s)" "entry_blocks (blk_map (blk_res s3) ! v) = [b, b']"
proof -
  let ?K = "2::nat"
  obtain b b' s1 where 1: "GetBlocks N iod True s = Some (Inr [(b, True), (b', True)], s1)" "fresh_pair v b b' s s1"
    using GetBlocks_ok [OF inv(1) has_room_less [OF room], of iod True v] by blast
  note p = 1(2) [unfolded fresh_pair_def]
  obtain s2 where 2: "AddMappingM v [(b, True), (b', True)] s1 = Some (Inr (), s2)" "vd_inv s2" "frame {} v 0 s1 s2"
    "world s2 = world s1" "blk_caches s2 = blk_caches s1" "vd_sched s2 = vd_sched s1"
    "entry_blocks (blk_map (blk_res s2) ! v) = [b, b']"
    using AddMapping_ok [OF 1(2), of True] inv(2) p by (auto simp: frame_def)
  let ?s3 = "s2\<lparr>world := snd (thread_order N (world s2))\<rparr>" and ?os = "fst (thread_order N (world s2))"
  have q: "quiet_step s2 ?s3" "from_world (thread_order N) s2 = Some (Inr ?os, ?s3)" by (rule from_world_quiet [OF 2(2)]; simp)+
  have "frame {} v (?K + 0 + 0) s ?s3"
    by (rule frame_trans [OF frame_trans [OF _ 2(3)] quiet_frame [OF q(1), of "{}"]]) (use p in auto)
  then have fr: "frame {} v ?K s ?s3" by simp
  have F: "{b, b'} \<subseteq> issued (world ?s3) - set (cached_blocks ?s3)" "vd_inv ?s3"
    using p q(1) 2(4,5) blocks_cong(1) [OF 2(5)] by (auto simp: quiet_step_def)
  have "writing {b, b'} v k data ?s3 {} False ?s3" using F by (auto simp: writing_def frame_refl)
  moreover have "{sbi_server_id b, sbi_server_id b'} \<subseteq> cs_servers (dps_stats (vd_sched ?s3))"
    "{b, b'} \<subseteq> set (cached_blocks s) \<union> - issued (world s)" using p 2(6) by simp_all
  moreover have "entry_blocks (blk_map (blk_res ?s3) ! v) = [b, b']" using 2(7) by simp
  ultimately show ?thesis using that [OF 1(1) 2(1) q(2) fr _ has_room_frame [OF fr room]] by blast
qed

lemma write_request:
  assumes inv: "vd_inv s" "v = unat (start_sector iod)" "v < nsectors (blk_res s)" "get_op iod = Op_kWrite" "num_sectors iod = 1"
    and room: "has_room (2 + k) s" and retry: "retry_ok retry iod v k"
  shows "(request_body n N retry iod s = None \<and> \<not> accepting (world s) \<and> vd_affinity s = kInvalidServerID) \<or>
    (\<exists>s'. request_body n N retry iod s = Some (Inr 4096, s') \<and> vd_inv s' \<and> frame {} v (2 + k) s s' \<and>
       holds_at s' v (peek (vmem s) (addr iod) 4096))"
proof -
  let ?K = "2::nat" and ?data = "peek (vmem s) (addr iod) 4096"
  obtain b b' s1 s2 os s3 where p: "GetBlocks N iod True s = Some (Inr [(b, True), (b', True)], s1)"
    "AddMappingM v [(b, True), (b', True)] s1 = Some (Inr (), s2)" "from_world (thread_order N) s2 = Some (Inr os, s3)"
    "frame {} v ?K s s3" "writing {b, b'} v k ?data s3 {} False s3" "has_room k s3"
    "{sbi_server_id b, sbi_server_id b'} \<subseteq> cs_servers (dps_stats (vd_sched s3))"
    "{b, b'} \<subseteq> set (cached_blocks s) \<union> - issued (world s)" "entry_blocks (blk_map (blk_res s3) ! v) = [b, b']"
    by (rule prepare_write [OF inv(1,3) room, of iod ?data])
  let ?threads = "write_threads N retry iod 0 [(b, True), (b', True)] (replica_order os) False s3"
  have f: "nsectors (blk_res s3) = nsectors (blk_res s)" "vmem s3 = vmem s" "accepting (world s3) = accepting (world s)"
    "vd_affinity s3 = vd_affinity s" using p(4) by (simp_all add: frame_def)
  have all: "{} \<union> (\<lambda>i. fst ([(b, True), (b', True)] ! i)) ` set (replica_order os) = {b, b'}"
    by (simp add: replica_order_set)
  have "(?threads = None \<and> \<not> accepting (world s3) \<and> vd_affinity s3 = kInvalidServerID) \<or>
      (\<exists>rt s4. ?threads = Some (Inr (), s4) \<and> writing {b, b'} v k ?data s3 {b, b'} rt s4)"
    unfolding all [symmetric] by (rule write_threads_ok [OF _ p(6) _ inv(4,5) retry])
      (use inv(3) f p(5,7) in \<open>simp_all add: replica_order_set\<close>)
  then consider (none) "?threads = None" "\<not> accepting (world s)" "vd_affinity s = kInvalidServerID"
    | (some) rt s4 where "?threads = Some (Inr (), s4)" "writing {b, b'} v k ?data s3 {b, b'} rt s4"
    unfolding f(3,4) by (elim disjE exE conjE)
  then show ?thesis
  proof cases
    case none
    then show ?thesis using p(1-3) inv(2,4) by (simp add: request_body_def ProcessWriteOp_def bindM_def)
  next
    case some
    have "holds_at s4 v ?data" using some(2) p(9) inv(3) f(1)
      by (auto simp: writing_def holds_at_def frame_def split: if_splits)
    moreover have "frame {} v (?K + (if rt then k else 0)) s s4"
      by (rule frame_trans [OF p(4), of "{b, b'}"]) (use some(2) p(8) in \<open>auto simp: writing_def\<close>)
    then have "frame {} v (?K + k) s s4" by (rule frame_mono) simp
    moreover have "request_body n N retry iod s = Some (Inr 4096, s4)"
      using p(1-3) some(1) inv(2,4,5)
      by (simp add: request_body_def ProcessWriteOp_def bindM_def liftM_def kSectorShift_def wrap_i32_def)
    ultimately show ?thesis using some(2) by (simp add: writing_def)
  qed
qed

lemma ProcessRequest_retry_ok:
  assumes "v = unat (start_sector iod)" "get_op iod = Op_kWrite" "num_sectors iod = 1"
  shows "retry_ok (ProcessRequest n N) iod v (2 * n)"
proof (induction n)
  case 0
  then show ?case by (simp add: retry_ok_def)
next
  case (Suc n)
  show ?case unfolding retry_ok_def
    using write_request [OF _ assms(1) _ assms(2,3) _ Suc.IH, of _ n] by (fastforce simp: add.commute)
qed

section \<open>Reading\<close>

lemma HandleStorageOpReply_read:
  assumes inv: "vd_inv s" "sid \<in> cs_servers (dps_stats (vd_sched s))"
    and iod: "get_op iod = Op_kRead" "num_sectors iod = 1" "addr iod \<noteq> 0"
    and data: "length data = 4096" "c \<in> {Code_kSuccess, Code_kSuccessCongested}"
  shows "\<exists>s'. tryM (HandleStorageOpReply N (CreateStorageOpReplyMsg junk iod 0 data 4096 c) sid) s =
      Some (Inr (Inr 4096), s'\<lparr>vmem := poke (vmem s) (addr iod) data\<rparr>) \<and> quiet_step s s'"
proof -
  define resp where "resp = CreateStorageOpReplyMsg junk iod 0 data 4096 c"
  have op: "unat (op_len iod) = 4096" using one_sector [OF iod(2)] by simp
  have "is_i32 4096" by (simp add: is_i32_def)
  then obtain d where rep: "take_StorageOpReplyMsg (drop 16 resp) = Inr (\<lparr>sr_iod = iod, sr_req_id = 0, sr_code = c, sr_res = 4096\<rparr>, d)"
    "drop reply_offset resp = data" "length resp = reply_offset + 4096"
    using take_reply [of c 4096 data junk iod] data unfolding resp_def by auto
  obtain s2 where s2: "SignalCongestedM N sid s = Some (Inr (), s2)" "quiet_step s s2"
    using SignalCongestedM_quiet [OF inv(1), of sid] inv(2) by auto
  let ?s3 = "if c = Code_kSuccessCongested then s2 else s"
  have q3: "quiet_step s ?s3" using s2(2) inv(1) by (simp add: quiet_step_def)
  have len: "\<not> length resp < 56" "\<not> length resp < reply_offset + 4096" using rep(3) by (simp_all add: reply_offset_def)
  have out: "take 4096 (drop reply_offset resp) = data" using rep(2) data(1) by simp
  have "tryM (HandleStorageOpReply N resp sid) s = Some (Inr (Inr 4096), ?s3\<lparr>vmem := poke (vmem ?s3) (addr iod) data\<rparr>)"
  proof (cases "c = Code_kSuccessCongested")
    case True
    show ?thesis using len rep(1) s2(1) op iod out unfolding True
      by (simp add: HandleStorageOpReply_def tryM_def bindM_def liftM_def Let_def)
  next
    case False
    then have "c = Code_kSuccess" using data(2) by simp
    then show ?thesis using len rep(1) op iod out
      by (simp add: HandleStorageOpReply_def tryM_def bindM_def liftM_def Let_def)
  qed
  moreover have "vmem ?s3 = vmem s" using q3 by (simp add: quiet_step_def)
  ultimately show ?thesis using q3 unfolding resp_def [symmetric] by auto
qed

lemma read_block:
  assumes inv: "vd_inv s" and b: "b \<in> issued (world s)" "sbi_server_id b \<in> cs_servers (dps_stats (vd_sched s))"
    and iod: "get_op iod = Op_kRead" "num_sectors iod = 1" "addr iod \<noteq> 0"
  shows "\<exists>resp s1 s2. ProcessStorageOp N (sbi_server_id b) (iod\<lparr>start_sector := sbi_block_addr b\<rparr>) 0 s = Some (Inr resp, s1) \<and>
    tryM (HandleStorageOpReply N resp (sbi_server_id b)) s1 =
      Some (Inr (Inr 4096), s2\<lparr>vmem := poke (vmem s) (addr iod) (content (world s) b)\<rparr>) \<and> quiet_step s s2"
proof -
  let ?iod = "iod\<lparr>start_sector := sbi_block_addr b\<rparr>" and ?sid = "sbi_server_id b"
  have op: "get_op ?iod = Op_kRead" "num_sectors ?iod = 1" "unat (op_len ?iod) = 4096" "addr ?iod = addr iod"
    using iod one_sector [of ?iod] by (simp_all add: get_op_def)
  obtain s0 where s0: "count_op N num_reads_submitted_update s = Some (Inr (), s0)" "quiet_step s s0"
    using count_quiet [OF inv] by auto
  have "vd_inv s0" and o: "b \<in> issued (world s0)" "vmem s0 = vmem s" "content (world s0) = content (world s)"
    "?sid \<in> cs_servers (dps_stats (vd_sched s0))"
    using s0(2) b by (simp_all add: quiet_step_def)
  note i0 = this(1) vd_invD(1,7) [OF this(1)] o
  obtain junk c w where st: "server_rpc N ?sid (world s0) (CreateStorageOpMsg (net_junk N) ?iod 0 (vd_affinity s0) []) =
      (CreateStorageOpReplyMsg junk ?iod 0 (content (world s0) b) 4096 c, w)" "length (content (world s0) b) = 4096"
    "c \<in> {Code_kSuccess, Code_kSuccessCongested}" "live w" "accepting w = accepting (world s0)"
    "issued w = issued (world s0)" "room w = room (world s0)" "content w = content (world s0)"
    using fetch [OF i0(2,4) op(1,2) _ i0(3)] by auto
  let ?s1 = "s0\<lparr>world := w\<rparr>" and ?resp = "CreateStorageOpReplyMsg junk ?iod 0 (content (world s0) b) 4096 c"
  have ps: "ProcessStorageOp N ?sid ?iod 0 s = Some (Inr ?resp, ?s1)"
    using s0(1) st(1) op by (simp add: ProcessStorageOp_def bindM_def from_world_def)
  have inv1: "vd_inv ?s1" by (rule vd_inv_cong [OF i0(1)]) (use st vd_invD(2) [OF i0(1)] in simp_all)
  then have q1: "quiet_step s0 ?s1" using st by (simp add: quiet_step_def)
  have "?sid \<in> cs_servers (dps_stats (vd_sched ?s1))" using i0(7) by simp
  from HandleStorageOpReply_read [OF inv1 this op(1,2) _ st(2,3), of junk] obtain s2 where
    "tryM (HandleStorageOpReply N ?resp ?sid) ?s1 =
      Some (Inr (Inr 4096), s2\<lparr>vmem := poke (vmem s) (addr iod) (content (world s) b)\<rparr>)" "quiet_step ?s1 s2"
    using iod(3) i0(5,6) by auto
  then show ?thesis using ps quiet_step_trans [OF s0(2) q1] quiet_step_trans [of s ?s1 s2] by blast
qed

lemma read_request:
  assumes inv: "vd_inv s" "v = unat (start_sector iod)" "get_op iod = Op_kRead" "num_sectors iod = 1" "addr iod \<noteq> 0"
    and d: "holds_at s v d"
  shows "\<exists>s'. ProcessRequest (Suc (Suc n)) N iod s = Some (Inr 4096, s'\<lparr>vmem := poke (vmem s) (addr iod) d\<rparr>) \<and> quiet_step s s'"
proof -
  let ?bl = "blk_map (blk_res s) ! v" and ?d = "vd_sched s"
  let ?s = "s\<lparr>world := snd (outcomes N (world s))\<rparr>" and ?rs = "fst (outcomes N (world s))"
  have q: "quiet_step s ?s" "from_world (outcomes N) s = Some (Inr ?rs, ?s)" by (rule from_world_quiet [OF inv(1)]; simp)+
  have v: "v < nsectors (blk_res s)" "front_server ?bl \<noteq> kInvalidServerID" "entry_blocks ?bl = map fst ?bl" "?bl \<noteq> []"
    using d by (auto simp: holds_at_def entry_blocks_def split: if_splits)
  have res: "ResolveBlock (blk_res s) v = Inr ?bl" using v by (simp add: ResolveBlock_def Let_def)
  have ids: "replica_ids ?bl \<subseteq> cs_servers (dps_stats ?d)" "replica_ids ?bl \<noteq> {}"
    using mapped_at [OF v(1) inv(1)] inv(1) v(3,4) by (auto simp: replica_ids_def vd_inv_def)
  then have ne: "cs_servers (dps_stats ?d) \<noteq> {}" "cs_servers (dps_stats ?d) \<inter> replica_ids ?bl \<noteq> {}" by auto
  obtain sid where sid: "Scheduler_SelectReadServer (net_rnd N) (?rs 0) (?rs 1) ?d (replica_ids ?bl) = Inr sid" "sid \<in> replica_ids ?bl"
    using SelectReadServer_ok [OF rounding _ ne(1), of "replica_ids ?bl" "?rs 0" "?rs 1"] ne(2) vd_invD(2) [OF inv(1)]
    by (auto simp: sched_ready_def)
  then obtain blk rest where f: "filter (\<lambda>blk. sbi_server_id (fst blk) = sid) ?bl = blk # rest"
    by (cases "filter (\<lambda>blk. sbi_server_id (fst blk) = sid) ?bl") (auto simp: replica_ids_def filter_empty_conv)
  then have "blk \<in> set (filter (\<lambda>blk. sbi_server_id (fst blk) = sid) ?bl)" by simp
  then have blk: "fst blk \<in> set (entry_blocks ?bl)" "sbi_server_id (fst blk) = sid" unfolding v(3) by auto
  then have b: "fst blk \<in> issued (world ?s)" "sbi_server_id (fst blk) \<in> cs_servers (dps_stats (vd_sched ?s))" "vd_inv ?s"
    using mapped_at [OF v(1) inv(1)] vd_invD(5) [OF inv(1)] q(1) ids(1) sid(2) by (auto simp: quiet_step_def)
  obtain resp s1 s2 where r: "ProcessStorageOp N (sbi_server_id (fst blk)) (iod\<lparr>start_sector := sbi_block_addr (fst blk)\<rparr>) 0 ?s = Some (Inr resp, s1)"
    "tryM (HandleStorageOpReply N resp (sbi_server_id (fst blk))) s1 =
      Some (Inr (Inr 4096), s2\<lparr>vmem := poke (vmem ?s) (addr iod) (content (world ?s) (fst blk))\<rparr>)" "quiet_step ?s s2"
    using read_block [OF b(3,1,2) inv(3-5)] by blast
  have c: "content (world ?s) (fst blk) = d" "vmem ?s = vmem s" using q(1) d blk(1) by (simp_all add: holds_at_def quiet_step_def)
  have srv: "sbi_server_id (fst blk) \<in> vd_servers ?s" using vd_invD(8) [OF b(3)] b(2) by auto
  let ?retry = "ProcessRequest (Suc n) N"
  have "ProcessRequest (Suc (Suc n)) N iod s = replica_loop (Suc n) N ?retry ?bl iod 0 (replica_ids ?bl) s"
    unfolding ProcessRequest.simps(2) [of "Suc n"] using res inv(2,3)
    by (simp add: request_body_def ProcessReadOp_def bindM_def del: ProcessRequest.simps replica_loop.simps)
  also have "\<dots> = Some (Inr 4096, s2\<lparr>vmem := poke (vmem s) (addr iod) d\<rparr>)"
    using ids(2) q(2) sid(1) f r(1,2) srv c unfolding blk(2) [symmetric]
    by (simp add: bindM_def tryM_def liftM_def GetRPCClientForServer_def del: ProcessRequest.simps)
  finally show ?thesis using quiet_step_trans [OF q(1) r(3)] by blast
qed

section \<open>A volume is a disk\<close>

definition vol_rel :: "(nat \<rightharpoonup> byte list) \<Rightarrow> ram \<Rightarrow> 'w VirtualDiskRemote \<Rightarrow> bool" where
  "vol_rel d m s \<longleftrightarrow> vd_inv s \<and> vmem s = m \<and> (\<forall>v x. d v = Some x \<longrightarrow> holds_at s v x)"

text \<open>A volume with empty caches and no mapping holds no sector.\<close>

lemma vol_rel_fresh:
  assumes "live (world s)" "vd_vol_id s = vol" "is_u32 (vd_affinity s)" "sched_ready (net_rnd N) (vd_sched s)"
    and "cs_servers (dps_stats (vd_sched s)) \<subseteq> vd_servers s" "block_targets s \<subseteq> cs_servers (dps_stats (vd_sched s))"
    and "blk_caches s = map (\<lambda>sid. if sid \<in> block_targets s then Some (CoreLocalCache_init ncores kPerCoreCachedBlocks) else None)
      [0..<kNumMaxServers]"
    and "blk_res s = BlockResolver_init k" "vmem s = m"
  shows "vol_rel Map.empty m s"
proof -
  have m: "mapped_blocks s = []"
    by (simp add: mapped_blocks_def assms(8) BlockResolver_init_def entry_blocks_def front_server_def invalid_replicas_def k_defs)
  have c: "cached_blocks s = []" by (auto simp: cached_blocks_def assms(7) init_holds_nothing)
  have "block_targets s \<subseteq> {..<kNumMaxServers}" using ready_servers(1) [OF rounding assms(4)] assms(6) by blast
  then have "vd_inv s" unfolding vd_inv_def m c using assms
    by (auto simp: cache_ok_init resolver_wf_init split: if_splits)
  then show ?thesis using assms(9) by (simp add: vol_rel_def)
qed

definition may_stall :: "'w VirtualDiskRemote \<Rightarrow> bool" where
  "may_stall s \<longleftrightarrow> \<not> accepting (world s) \<and> vd_affinity s = kInvalidServerID"

lemma vol_write:
  assumes "vol_rel d m s" "unat v < nsectors (blk_res s)" "has_room (2 * Suc n) s"
  shows "(ProcessRequest (Suc n) N (vol_iod (Write_sector v a)) s = None \<and> may_stall s) \<or>
    (\<exists>s'. ProcessRequest (Suc n) N (vol_iod (Write_sector v a)) s = Some (Inr 4096, s') \<and>
      vol_rel (d(unat v \<mapsto> peek m a 4096)) m s' \<and> frame {} (unat v) (2 * Suc n) s s')"
proof -
  let ?iod = "vol_iod (Write_sector v a)" and ?K = "2::nat"
  have inv: "vd_inv s" "vmem s = m" using assms(1) by (simp_all add: vol_rel_def)
  have "retry_ok (ProcessRequest n N) ?iod (unat v) (?K * n)" by (rule ProcessRequest_retry_ok) simp_all
  then consider "ProcessRequest (Suc n) N ?iod s = None" "may_stall s"
    | s' where "ProcessRequest (Suc n) N ?iod s = Some (Inr 4096, s')" "vd_inv s'" "frame {} (unat v) (?K * Suc n) s s'"
      "holds_at s' (unat v) (peek m a 4096)"
    using write_request [OF inv(1), of "unat v" ?iod "?K * n" "ProcessRequest n N" n] assms(2,3) inv(2)
    by (auto simp: may_stall_def)
  then show ?thesis
  proof cases
    case 2
    have "holds_at s' u x" if "(d(unat v \<mapsto> peek m a 4096)) u = Some x" for u x
    proof (cases "u = unat v")
      case False
      then show ?thesis using that assms(1) frame_holds [OF 2(3) inv(1) False] by (simp add: vol_rel_def)
    qed (use that 2(4) in simp)
    moreover have "vmem s' = m" using 2(3) inv(2) by (simp add: frame_def)
    ultimately show ?thesis using 2 by (simp add: vol_rel_def)
  qed simp
qed

lemma vol_read:
  assumes "vol_rel d m s" "d (unat v) = Some x" "a \<noteq> 0"
  shows "\<exists>s'. ProcessRequest (Suc (Suc n)) N (vol_iod (Read_sector v a)) s = Some (Inr 4096, s') \<and>
    vol_rel d (poke m a x) s' \<and> frame {} 0 0 s (s'\<lparr>vmem := vmem s\<rparr>)"
proof -
  have inv: "vd_inv s" "vmem s = m" "holds_at s (unat v) x" using assms(1,2) by (simp_all add: vol_rel_def)
  obtain s' where s': "ProcessRequest (Suc (Suc n)) N (vol_iod (Read_sector v a)) s = Some (Inr 4096, s'\<lparr>vmem := poke (vmem s) a x\<rparr>)"
    "quiet_step s s'" using read_request [OF inv(1) _ _ _ _ inv(3), of "vol_iod (Read_sector v a)" n] assms(3) by auto
  let ?s = "s'\<lparr>vmem := poke (vmem s) a x\<rparr>"
  have "vd_inv s'" using s'(2) by (simp add: quiet_step_def)
  then have "vd_inv ?s" by (rule vd_inv_cong) (use vd_invD [OF \<open>vd_inv s'\<close>] in simp_all)
  moreover have "holds_at ?s u y = holds_at s u y" for u y using quiet_holds [OF s'(2)] by (simp add: holds_at_def)
  moreover have "s'\<lparr>vmem := vmem s\<rparr> = s'" using s'(2) by (simp add: quiet_step_def)
  ultimately show ?thesis using s'(1) quiet_frame [OF s'(2), of "{}" 0] assms(1) inv(2) by (auto simp: vol_rel_def)
qed

text \<open>What the rest of a run needs of the state after its first request.\<close>

lemma frame_next:
  assumes "frame {} v k s s'" "has_room (k + l) s"
  shows "nsectors (blk_res s') = nsectors (blk_res s)" "may_stall s' = may_stall s" "has_room l s'"
  using assms(1) has_room_frame [OF assms] by (simp_all add: frame_def may_stall_def)

lemma vol_run_refines:
  assumes "vol_rel d m s" "vol_ok (nsectors (blk_res s)) (dom d) ops"
    and "has_room (length ops * (2 * Suc (Suc n))) s"
  shows "(vol_run (Suc (Suc n)) N ops s = None \<and> may_stall s) \<or>
    (\<exists>s'. vol_run (Suc (Suc n)) N ops s = Some (Inr (replicate (length ops) 4096), s') \<and>
      vol_rel (fst (vol_spec ops d m)) (snd (vol_spec ops d m)) s')"
  using assms
proof (induction ops arbitrary: d m s)
  case Nil
  then show ?case by (simp add: liftM_def)
next
  case (Cons x ops)
  let ?n = "Suc (Suc n)" let ?K = "2 * ?n"
  have room: "has_room (?K + length ops * ?K) s" using Cons.prems(3) by (simp only: length_Cons mult_Suc)
  have step: ?case if st: "ProcessRequest ?n N (vol_iod x) s = Some (Inr 4096, s1)" "vol_rel d1 m1 s1"
      "vol_spec (x # ops) d m = vol_spec ops d1 m1" "vol_ok (nsectors (blk_res s)) (dom d1) ops"
      "nsectors (blk_res s1) = nsectors (blk_res s)" "may_stall s1 = may_stall s" "has_room (length ops * ?K) s1"
    for s1 d1 m1
    using Cons.IH [OF st(2)] st by (auto simp: bindM_def liftM_def simp del: ProcessRequest.simps)
  show ?case
  proof (cases x)
    case (Write_sector v a)
    have v: "unat v < nsectors (blk_res s)" using Cons.prems(2) by (simp add: Write_sector)
    from vol_write [OF Cons.prems(1) v has_room_less [OF room], of a] show ?thesis
    proof (elim disjE exE conjE)
      assume "ProcessRequest ?n N (vol_iod (Write_sector v a)) s = None" "may_stall s"
      then show ?thesis by (simp add: bindM_def Write_sector del: ProcessRequest.simps)
    next
      fix s1 assume s1: "ProcessRequest ?n N (vol_iod (Write_sector v a)) s = Some (Inr 4096, s1)"
        "vol_rel (d(unat v \<mapsto> peek m a 4096)) m s1" "frame {} (unat v) ?K s s1"
      show ?thesis
        by (rule step [OF _ s1(2)]) (use s1(1) Cons.prems(2) frame_next [OF s1(3) room] in \<open>simp_all add: Write_sector del: ProcessRequest.simps\<close>)
    qed
  next
    case (Read_sector v a)
    obtain y where y: "d (unat v) = Some y" "a \<noteq> 0" using Cons.prems(2) by (auto simp: Read_sector)
    obtain s1 where s1: "ProcessRequest ?n N (vol_iod (Read_sector v a)) s = Some (Inr 4096, s1)" "vol_rel d (poke m a y) s1"
      "frame {} 0 0 s (s1\<lparr>vmem := vmem s\<rparr>)" using vol_read [OF Cons.prems(1) y] by blast
    have "has_room (0 + length ops * ?K) s" using room has_room_less [of "length ops * ?K" ?K] by (simp add: add.commute)
    from frame_next [OF s1(3) this] have "nsectors (blk_res s1) = nsectors (blk_res s)" "may_stall s1 = may_stall s"
      "has_room (length ops * ?K) s1" by (simp_all add: may_stall_def)
    then show ?thesis
      by (intro step [OF _ s1(2)]) (use s1(1) Cons.prems(2) y(1) in \<open>simp_all add: Read_sector del: ProcessRequest.simps\<close>)
  qed
qed

end

end
