(* ===== verification/System.thy ===== *)
theory System
  imports Cluster Volume
begin

text \<open>
  The whole system: a volume (\<open>virtual_disk_remote.cc\<close>) over the controller's connection handler
  (\<open>controller_conn_handler.cc\<close>) and in-memory disk servers (\<open>disk_conn_handler.cc\<close>,
  \<open>mem_server.cc\<close>), exchanging the bytes of their messages. It keeps the contract of
  \<open>volume_net\<close>, so a volume is a disk.
\<close>

section \<open>The cluster as the network of a volume\<close>

text \<open>What is outside the processes, as functions of the number of events so far: the clock, the random numbers,
  the cores threads run on, the order in which they run and the surroundings of the handlers.\<close>

record surroundings =
  sy_junk :: memory
  sy_rnd :: "real \<Rightarrow> real"
  sy_hash :: "u64 \<Rightarrow> u64"
  sy_dc :: dbl_codec
  sy_ctl :: "nat \<Rightarrow> env"
  sy_disk_junk :: "nat \<Rightarrow> memory"
  sy_tick :: "nat \<Rightarrow> tick"
  sy_random :: "nat \<Rightarrow> nat \<Rightarrow> nat"
  sy_cores :: "nat \<Rightarrow> nat \<Rightarrow> nat"
  sy_clock :: "nat \<Rightarrow> nat"
  sy_order :: "nat \<Rightarrow> nat list"

record cluster =
  ctl :: ControllerAgent
  disks :: "ServerID \<rightharpoonup> MemServer"
  events :: nat

definition observe :: "(nat \<Rightarrow> 'a) \<Rightarrow> cluster \<Rightarrow> 'a \<times> cluster" where
  "observe f w = (f (events w), w\<lparr>events := Suc (events w)\<rparr>)"

text \<open>A process that is not there, or stops instead of answering, sends nothing.\<close>

definition call_controller :: "surroundings \<Rightarrow> cluster \<Rightarrow> byte list \<Rightarrow> byte list \<times> cluster" where
  "call_controller S w req = (case controller_call (sy_ctl S (events w)) (ctl w) req of
     (resp, a) \<Rightarrow> (resp, w\<lparr>ctl := a, events := Suc (events w)\<rparr>))"

definition call_disk :: "surroundings \<Rightarrow> ServerID \<Rightarrow> cluster \<Rightarrow> byte list \<Rightarrow> byte list \<times> cluster" where
  "call_disk S sid w req = (case disks w sid of
     None \<Rightarrow> ([], w)
   | Some d \<Rightarrow> (case Disk_HandleMsg mem_backend (sy_disk_junk S (events w)) (sy_tick S (events w)) d req of
       (d', r) \<Rightarrow> (case r of Inr resp \<Rightarrow> resp | Inl _ \<Rightarrow> [],
                   w\<lparr>disks := (disks w)(sid \<mapsto> d'), events := Suc (events w)\<rparr>)))"

definition cluster_net :: "surroundings \<Rightarrow> cluster net" where
  "cluster_net S = \<lparr>net_junk = sy_junk S, net_rnd = sy_rnd S, net_hash = sy_hash S, net_dc = sy_dc S,
     ctrl_rpc = call_controller S, server_rpc = call_disk S,
     outcomes = observe (sy_random S), cores = observe (sy_cores S), clock = observe (sy_clock S),
     thread_order = observe (sy_order S)\<rparr>"

lemma cluster_net_simps [simp]:
  "net_junk (cluster_net S) = sy_junk S" "net_rnd (cluster_net S) = sy_rnd S" "ctrl_rpc (cluster_net S) = call_controller S"
  "server_rpc (cluster_net S) = call_disk S" "outcomes (cluster_net S) = observe (sy_random S)"
  "cores (cluster_net S) = observe (sy_cores S)" "clock (cluster_net S) = observe (sy_clock S)"
  "thread_order (cluster_net S) = observe (sy_order S)" "net_dc (cluster_net S) = sy_dc S"
  by (simp_all add: cluster_net_def)

section \<open>Its blocks\<close>

definition registered :: "cluster \<Rightarrow> ServerID \<Rightarrow> bool" where
  "registered w sid \<longleftrightarrow> agent_servers (ctl w) sid \<noteq> None"

definition next_block :: "cluster \<Rightarrow> ServerID \<Rightarrow> nat" where
  "next_block w sid = next_of (blk_alloc (ctl w)) sid"

definition disk_bytes :: "cluster \<Rightarrow> ServerID \<Rightarrow> byte list" where
  "disk_bytes w sid = (case disks w sid of None \<Rightarrow> [] | Some d \<Rightarrow> ms_buf d)"

text \<open>Every registered server runs, and no block beyond its disk was handed out. The bounds checks of the
  server are strict, so the last block is not usable.\<close>

definition cluster_live :: "cluster \<Rightarrow> bool" where
  "cluster_live w \<longleftrightarrow> agent_inv (ctl w) \<and> (\<forall>sid. registered w sid \<longrightarrow> disks w sid \<noteq> None \<and>
     next_block w sid * kBlockSizeBytes < length (disk_bytes w sid) \<and> length (disk_bytes w sid) \<le> 2 ^ 64)"

definition cluster_accepting :: "cluster \<Rightarrow> bool" where
  "cluster_accepting w \<longleftrightarrow> (\<forall>sid d. registered w sid \<longrightarrow> disks w sid = Some d \<longrightarrow> m_mode (mon (ms_server d)) \<noteq> Mode_kRead)"

definition cluster_issued :: "cluster \<Rightarrow> ServerBlockInfo set" where
  "cluster_issued w = {b. registered w (sbi_server_id b) \<and> unat (sbi_block_addr b) < next_block w (sbi_server_id b)}"

text \<open>How many more batches fit on the disk of a server.\<close>

definition cluster_room :: "cluster \<Rightarrow> ServerID \<Rightarrow> nat" where
  "cluster_room w sid = (if registered w sid
     then (length (disk_bytes w sid) - 1 - next_block w sid * kBlockSizeBytes) div (kAllocationBatch * kBlockSizeBytes) else 0)"

definition cluster_content :: "cluster \<Rightarrow> ServerBlockInfo \<Rightarrow> byte list" where
  "cluster_content w b = take kBlockSizeBytes
     (drop (unat (sbi_block_addr b) * kBlockSizeBytes) (disk_bytes w (sbi_server_id b)))"

lemmas cluster_defs = registered_def next_block_def disk_bytes_def cluster_live_def cluster_accepting_def cluster_issued_def
  cluster_room_def cluster_content_def

lemma observe_quiet:
  assumes "cluster_live w"
  shows "cluster_live (snd (observe f w))" "cluster_accepting (snd (observe f w)) = cluster_accepting w"
    "cluster_issued (snd (observe f w)) = cluster_issued w" "cluster_room (snd (observe f w)) = cluster_room w"
    "cluster_content (snd (observe f w)) = cluster_content w"
  using assms by (simp_all add: observe_def cluster_defs fun_eq_iff)

section \<open>Allocation\<close>

lemma AllocateBlocks_call:
  assumes "BlockAllocator_AllocateBlocks (blk_alloc (ctl w)) sid kAllocationBatch = Inr (ba, bs)" "is_u32 vol" "is_u32 sid"
  shows "AllocateBlocks (cluster_net S) vol sid (Inr w) =
    (Inr (w\<lparr>ctl := (ctl w)\<lparr>blk_alloc := ba\<rparr>, events := Suc (events w)\<rparr>), bs)"
proof -
  note ok = AllocateBlocks_ok_reply [OF assms(1)]
  have "HandleAllocateBlocksReply (CreateAllocateBlocksReplyMsg junk bs) = Inr bs" for junk
    using ok
    by (simp add: HandleAllocateBlocksReply_def CreateAllocateBlocksReplyMsg_def create_msg_def header.wput_size
      allocate_reply.wput_size allocate_reply.whole_roundtrip ok_MsgHeader_def is_u32_def is_u64_def is_msg_type_def k_defs)
  then show ?thesis using assms
    by (simp add: AllocateBlocks_def call_controller_def controller_call_def HandleMsg_allocate Agent_AllocateBlocks_eq
      with_reply_def)
qed

lemma cluster_room_pos:
  assumes "0 < cluster_room w sid"
  shows "registered w sid" "(next_block w sid + kAllocationBatch) * kBlockSizeBytes < length (disk_bytes w sid)"
proof -
  let ?b = "kAllocationBatch * kBlockSizeBytes" and ?l = "length (disk_bytes w sid)"
  show r: "registered w sid" using assms by (simp add: cluster_room_def split: if_splits)
  have "?b \<le> ?l - 1 - next_block w sid * kBlockSizeBytes"
    using assms r by (simp add: cluster_room_def div_greater_zero_iff)
  moreover have "0 < ?b" by (simp add: kAllocationBatch_def kBlockSizeBytes_def)
  ultimately have "next_block w sid * kBlockSizeBytes + ?b < ?l" by linarith
  then show "(next_block w sid + kAllocationBatch) * kBlockSizeBytes < ?l" by (simp add: distrib_right)
qed

lemma room_step:
  assumes "0 < b" "(k + n) * b < l"
  shows "(l - 1 - k * b) div (n * b) \<le> Suc ((l - 1 - (k + n) * b) div (n * b))"
proof (cases "n = 0")
  case False
  have "l - 1 - k * b = n * b + (l - 1 - (k + n) * b)" using assms(2) by (simp add: distrib_right)
  then show ?thesis using False assms(1) by simp
qed simp

lemma cluster_batch:
  assumes live: "cluster_live w" and room: "0 < cluster_room w sid" and vol: "is_u32 vol"
  shows "\<exists>w' bs. AllocateBlocks (cluster_net S) vol sid (Inr w) = (Inr w', bs) \<and> cluster_live w' \<and>
    cluster_accepting w' = cluster_accepting w \<and> cluster_content w' = cluster_content w \<and>
    length bs = kAllocationBatch \<and> distinct bs \<and> set bs \<inter> cluster_issued w = {} \<and>
    cluster_issued w' = cluster_issued w \<union> set bs \<and> (\<forall>b \<in> set bs. sbi_server_id b = sid) \<and>
    cluster_room w sid \<le> Suc (cluster_room w' sid) \<and> (\<forall>i. i \<noteq> sid \<longrightarrow> cluster_room w' i = cluster_room w i)"
proof -
  let ?a = "blk_alloc (ctl w)" and ?n = "next_block w sid"
  note p = cluster_room_pos [OF room]
  have inv: "agent_inv (ctl w)" "length (disk_bytes w sid) \<le> 2 ^ 64" using live p(1) by (simp_all add: cluster_live_def)
  have "valid_sid sid" using registered_range(3) [OF inv(1)] p(1) by (simp add: registered_def)
  then have sid: "alloc_wf ?a" "valid_sid sid" "is_u32 sid"
    using inv(1) by (auto simp: agent_inv_def valid_sid_def is_u32_def k_defs)
  have nb: "?n + kAllocationBatch < 2 ^ 64" using p(2) inv(2) by (simp add: kBlockSizeBytes_def)
  then have n: "next_of ?a sid + kAllocationBatch < 2 ^ 64" by (simp add: next_block_def)
  obtain ba bs where al: "BlockAllocator_AllocateBlocks ?a sid kAllocationBatch = Inr (ba, bs)" using AllocateBlocks_eq [OF sid(1,2)] by blast
  note addrs = AllocateBlocks_addrs(1) [OF sid(1,2) n al] and nx = next_of_AllocateBlocks [OF sid(1,2) n al]
  let ?w = "w\<lparr>ctl := (ctl w)\<lparr>blk_alloc := ba\<rparr>, events := Suc (events w)\<rparr>"
  have same: "registered ?w = registered w" "disk_bytes ?w = disk_bytes w" "disks ?w = disks w"
    "next_block ?w i = next_block w i + (if i = sid then kAllocationBatch else 0)" for i
    by (simp_all add: registered_def disk_bytes_def next_block_def nx fun_eq_iff)
  have "agent_inv (ctl ?w)" using inv(1) AllocateBlocks_wf [OF al sid(1)] by (simp add: agent_inv_def)
  then have "cluster_live ?w" using live p(2) by (auto simp: cluster_live_def same)
  moreover have "cluster_accepting ?w = cluster_accepting w" "cluster_content ?w = cluster_content w"
    by (simp_all add: cluster_accepting_def cluster_content_def same fun_eq_iff)
  moreover have "cluster_room w sid \<le> Suc (cluster_room ?w sid)"
    using room_step [OF _ p(2)] p(1) by (simp add: cluster_room_def same kBlockSizeBytes_def)
  moreover have "\<forall>i. i \<noteq> sid \<longrightarrow> cluster_room ?w i = cluster_room w i" by (simp add: cluster_room_def same)
  moreover have "distinct bs" "length bs = kAllocationBatch"
    using addrs distinct_upt by (metis distinct_map, metis length_map length_upt diff_add_inverse)
  moreover have bs: "b \<in> set bs \<longleftrightarrow> sbi_server_id b = sid \<and> ?n \<le> unat (sbi_block_addr b) \<and>
      unat (sbi_block_addr b) < ?n + kAllocationBatch" for b
  proof -
    have x: "(\<exists>c \<in> set bs. unat (sbi_block_addr c) = x) \<longleftrightarrow> ?n \<le> x \<and> x < ?n + kAllocationBatch" for x
      using arg_cong [OF addrs, of "\<lambda>l. x \<in> set l"] by (auto simp: next_block_def)
    have "c = b" if "c \<in> set bs" "sbi_server_id b = sid" "unat (sbi_block_addr c) = unat (sbi_block_addr b)" for c
      using that AllocateBlocks_sid [OF al that(1)] by (simp add: word_unat_eq_iff)
    then show ?thesis using x [of "unat (sbi_block_addr b)"] AllocateBlocks_sid [OF al, of b] by blast
  qed
  then have "set bs \<inter> cluster_issued w = {}" "\<forall>b \<in> set bs. sbi_server_id b = sid" by (auto simp: cluster_issued_def)
  moreover have "b \<in> cluster_issued ?w \<longleftrightarrow> b \<in> cluster_issued w \<union> set bs" for b
    unfolding Un_iff bs using p(1) by (cases "sbi_server_id b = sid") (auto simp: cluster_issued_def same)
  then have "cluster_issued ?w = cluster_issued w \<union> set bs" by blast
  ultimately show ?thesis using AllocateBlocks_call [OF al vol sid(3)] by blast
qed

section \<open>Storage\<close>

lemma block_update:
  fixes k :: nat
  assumes "length data = k" "a * k + k \<le> length xs"
  shows "take k (drop (a' * k) (take (a * k) xs @ data @ drop (a * k + k) xs)) = (if a' = a then data else take k (drop (a' * k) xs))"
proof -
  consider "a' = a" | "a' * k + k \<le> a * k" "a' \<noteq> a" | "a * k + k \<le> a' * k" "a' \<noteq> a"
  proof -
    have "a' < a \<Longrightarrow> Suc a' * k \<le> a * k" "a < a' \<Longrightarrow> Suc a * k \<le> a' * k" by (intro mult_le_mono1, simp)+
    then show ?thesis using that by (cases a a' rule: linorder_cases) auto
  qed
  then show ?thesis
  proof cases
    case 2
    then have "min k (a * k - a' * k) = k" "k - (a * k - a' * k) = 0" "a' * k - a * k = 0" "min (length xs) (a * k) = a * k"
      using assms(2) by linarith+
    then show ?thesis using 2(2) by (simp add: drop_take)
  next
    case 3
    then have "a * k + k + (a' * k - (a * k + k)) = a' * k" "length (take (a * k) xs) \<le> a' * k" "a * k - a' * k = 0"
      unfolding length_take by linarith+
    then show ?thesis using 3 assms by (simp add: add.commute)
  qed (use assms in simp)
qed

text \<open>Serving requests does not change the mode of a server.\<close>

lemma HandleMsg_mode:
  "m_mode (mon (ms_server (fst (Disk_HandleMsg mem_backend junk t d p)))) = m_mode (mon (ms_server d))"
proof -
  have h: "m_mode (mon (hooked_read t s r)) = m_mode (mon s)" "m_mode (mon (hooked_write t s x)) = m_mode (mon s)"
    "m_mode (mon (HandleRejection c op s)) = m_mode (mon s)" for s c op and r :: "byte list status" and x :: "unit status"
    by (simp_all add: hooked_read_def hooked_write_def HandleRejection_def ReadStarted_def WriteStarted_def ReadCompleted_def
      WriteCompleted_def ReadRejected_def WriteRejected_def Let_def split: OpType.splits)
  have 1: "m_mode (mon (ms_server d')) = m_mode (mon (ms_server d))" if "MemServer_HandleStorageOp t d m pl n = (d', r)" for m pl n d' r
    using that by (auto simp: MemServer_HandleStorageOp_def Let_def h split: OpType.splits sum.splits if_splits)
  have 2: "m_mode (mon (ms_server d')) = m_mode (mon (ms_server d))" if "Disk_HandleStorageOp mem_backend junk t d hd pl = (d', r)" for hd pl d' r
    using that by (auto simp: Disk_HandleStorageOp_def RejectStorageOp_def mem_backend_def h
      split: sum.splits prod.splits if_splits dest: 1)
  have 3: "d' = d" if "Disk_HandleDiscardBlocks mem_backend d hd pl = (d', r)" for hd pl d' r
    using that by (auto simp: Disk_HandleDiscardBlocks_def mem_backend_def MakeError_def split: sum.splits prod.splits if_splits)
  obtain d' r where "Disk_HandleMsg mem_backend junk t d p = (d', r)" by fastforce
  then show ?thesis
    by (auto simp: Disk_HandleMsg_def split: sum.splits prod.splits MsgType.splits fail.splits dest: 2 3)
qed

text \<open>A one-sector request for a block that was handed out.\<close>

definition block_req :: "IODesc \<Rightarrow> ServerID \<Rightarrow> byte list \<Rightarrow> disk_req" where
  "block_req iod aff data = \<lparr>rq_iod = iod, rq_id = 0, rq_aff = aff, rq_data = data\<rparr>"

lemma block_req_wf:
  assumes "cluster_live w" "b \<in> cluster_issued w" "get_op iod \<in> {Op_kRead, Op_kWrite}" "num_sectors iod = 1"
    and "start_sector iod = sbi_block_addr b" "length data = (if get_op iod = Op_kWrite then 4096 else 0)" "is_u32 aff"
  shows "wf_req (length (disk_bytes w (sbi_server_id b))) (block_req iod aff data)"
    and "unat (sbi_block_addr b) * kBlockSizeBytes + kBlockSizeBytes < length (disk_bytes w (sbi_server_id b))"
proof -
  let ?sid = "sbi_server_id b" and ?a = "unat (sbi_block_addr b)"
  have l: "next_block w ?sid * kBlockSizeBytes < length (disk_bytes w ?sid)" "length (disk_bytes w ?sid) \<le> 2 ^ 64" "?a < next_block w ?sid"
    using assms(1,2) by (simp_all add: cluster_live_def cluster_issued_def)
  have "Suc ?a * kBlockSizeBytes \<le> next_block w ?sid * kBlockSizeBytes" using l(3) by (intro mult_le_mono1) simp
  then show m: "?a * kBlockSizeBytes + kBlockSizeBytes < length (disk_bytes w ?sid)" using l(1) by simp
  have "?a * kBlockSizeBytes + kBlockSizeBytes < 2 ^ 64" using m l(2) by linarith
  then show "wf_req (length (disk_bytes w ?sid)) (block_req iod aff data)"
    using assms(3-7) m one_sector [OF assms(4)]
    by (auto simp: wf_req_def block_req_def req_op_def req_off_def req_len_def is_u64_def kBlockSizeBytes_def)
qed

text \<open>The cluster after the disk of a registered server changed in content but not in size or mode.\<close>

lemma cluster_disk_update:
  assumes "cluster_live w" "registered w sid" "disks w sid = Some d" "length (ms_buf d') = length (ms_buf d)"
    and "m_mode (mon (ms_server d')) = m_mode (mon (ms_server d))"
  defines "w' \<equiv> w\<lparr>disks := (disks w)(sid \<mapsto> d'), events := Suc (events w)\<rparr>"
  shows "cluster_live w'" "cluster_accepting w' = cluster_accepting w" "cluster_issued w' = cluster_issued w"
    "cluster_room w' = cluster_room w"
proof -
  have r: "registered w' = registered w" "next_block w' = next_block w" "ctl w' = ctl w"
    by (simp_all add: w'_def registered_def next_block_def fun_eq_iff)
  have l: "length (disk_bytes w' i) = length (disk_bytes w i)" "disks w' i = None \<longleftrightarrow> disks w i = None" for i
    using assms(3,4) by (auto simp: disk_bytes_def w'_def)
  show "cluster_live w'" "cluster_issued w' = cluster_issued w" "cluster_room w' = cluster_room w"
    using assms(1) by (simp_all add: cluster_live_def cluster_issued_def cluster_room_def r l fun_eq_iff)
  have "(\<forall>d. disks w' i = Some d \<longrightarrow> m_mode (mon (ms_server d)) \<noteq> Mode_kRead) \<longleftrightarrow>
      (\<forall>d. disks w i = Some d \<longrightarrow> m_mode (mon (ms_server d)) \<noteq> Mode_kRead)" for i
    using assms(3,5) by (simp add: w'_def)
  then show "cluster_accepting w' = cluster_accepting w" unfolding cluster_accepting_def r(1) by blast
qed

lemma cluster_store:
  assumes live: "cluster_live w" and b: "b \<in> cluster_issued w" and iod: "get_op iod = Op_kWrite" "num_sectors iod = 1"
    "start_sector iod = sbi_block_addr b" and data: "length data = 4096" and aff: "is_u32 aff"
  shows "\<exists>junk c r w'. call_disk S (sbi_server_id b) w (CreateStorageOpMsg (sy_junk S) iod 0 aff data) =
      (CreateStorageOpReplyMsg junk iod 0 [] r c, w') \<and> is_i32 r \<and>
    c \<in> {Code_kSuccess, Code_kSuccessCongested, Code_kRejectModeMismatch} \<and> cluster_live w' \<and>
    cluster_accepting w' = cluster_accepting w \<and> cluster_issued w' = cluster_issued w \<and> cluster_room w' = cluster_room w \<and>
    cluster_content w' = (if c = Code_kRejectModeMismatch then cluster_content w else (cluster_content w)(b := data)) \<and>
    (cluster_accepting w \<or> aff \<noteq> kInvalidServerID \<longrightarrow> c \<noteq> Code_kRejectModeMismatch)"
proof -
  let ?sid = "sbi_server_id b" and ?r = "block_req iod aff data" and ?junk = "sy_disk_junk S (events w)"
  have reg: "registered w ?sid" using b by (simp add: cluster_issued_def)
  then obtain d where d: "disks w ?sid = Some d" "disk_bytes w ?sid = ms_buf d" using live by (auto simp: cluster_live_def disk_bytes_def)
  have wf: "wf_req (length (ms_buf d)) ?r" and fit: "unat (sbi_block_addr b) * kBlockSizeBytes + kBlockSizeBytes < length (ms_buf d)"
    using block_req_wf [OF live b _ iod(2,3) _ aff] iod(1) data d(2) by auto
  obtain d' c where h: "Disk_HandleMsg mem_backend ?junk (sy_tick S (events w)) d (req_msg (sy_junk S) ?r) =
      (d', Inr (reply_msg ?junk ?r c []))" "ms_buf d' = (if c = Code_kRejectModeMismatch then ms_buf d else fst (disk_spec (ms_buf d) ?r))"
    "c = Code_kRejectModeMismatch \<longleftrightarrow> refuses mem_backend (sy_tick S (events w)) d ?r"
    "c \<in> {Code_kSuccess, Code_kSuccessCongested, Code_kRejectModeMismatch}"
    using mem_store.handle_ok [OF TrueI wf, of ?junk "sy_tick S (events w)" "sy_junk S"] iod(1)
    by (auto simp: disk_spec_def req_op_def block_req_def split: if_splits)
  let ?w = "w\<lparr>disks := (disks w)(?sid \<mapsto> d'), events := Suc (events w)\<rparr>"
  have len: "length (ms_buf d') = length (ms_buf d)" using h(2) mem_store.disk_spec_length [OF wf] by simp
  have "m_mode (mon (ms_server d')) = m_mode (mon (ms_server d))"
    using HandleMsg_mode [of ?junk "sy_tick S (events w)" d "req_msg (sy_junk S) ?r"] h(1) by simp
  note upd = cluster_disk_update [OF live reg d(1) len this]
  have "cluster_content ?w x = (if c \<noteq> Code_kRejectModeMismatch \<and> x = b then data else cluster_content w x)" for x
    using block_update [of data kBlockSizeBytes "unat (sbi_block_addr b)" "ms_buf d" "unat (sbi_block_addr x)"] fit data
      h(2) d iod one_sector [OF iod(2)]
    by (cases "sbi_server_id x = ?sid") (auto simp: cluster_content_def disk_bytes_def disk_spec_def block_req_def req_op_def req_off_def
      req_len_def kBlockSizeBytes_def word_unat_eq_iff)
  then have "cluster_content ?w = (if c = Code_kRejectModeMismatch then cluster_content w else (cluster_content w)(b := data))"
    by (auto simp: fun_eq_iff)
  moreover have "cluster_accepting w \<or> aff \<noteq> kInvalidServerID \<longrightarrow> c \<noteq> Code_kRejectModeMismatch"
    using h(3) reg d(1) by (auto simp: refuses_def block_req_def cluster_accepting_def IsAllowingWrites_def mem_backend_def)
  moreover have "call_disk S ?sid w (CreateStorageOpMsg (sy_junk S) iod 0 aff data) =
      (CreateStorageOpReplyMsg ?junk iod 0 [] (if c = Code_kRejectModeMismatch then 0 else sint (op_len iod)) c, ?w)"
    using h(1) d(1) by (simp add: call_disk_def req_msg_def reply_msg_def block_req_def)
  moreover have "is_i32 (if c = Code_kRejectModeMismatch then 0 else sint (op_len iod))"
    using sint_ge [of "op_len iod"] sint_lt [of "op_len iod"] by (simp add: is_i32_def)
  ultimately show ?thesis using upd h(4) by blast
qed

lemma cluster_fetch:
  assumes live: "cluster_live w" and b: "b \<in> cluster_issued w" and iod: "get_op iod = Op_kRead" "num_sectors iod = 1"
    "start_sector iod = sbi_block_addr b" and aff: "is_u32 aff"
  shows "\<exists>junk c w'. call_disk S (sbi_server_id b) w (CreateStorageOpMsg (sy_junk S) iod 0 aff []) =
      (CreateStorageOpReplyMsg junk iod 0 (cluster_content w b) 4096 c, w') \<and> length (cluster_content w b) = 4096 \<and>
    c \<in> {Code_kSuccess, Code_kSuccessCongested} \<and> cluster_live w' \<and> cluster_accepting w' = cluster_accepting w \<and>
    cluster_issued w' = cluster_issued w \<and> cluster_room w' = cluster_room w \<and> cluster_content w' = cluster_content w"
proof -
  let ?sid = "sbi_server_id b" and ?r = "block_req iod aff []" and ?junk = "sy_disk_junk S (events w)"
  have reg: "registered w ?sid" using b by (simp add: cluster_issued_def)
  then obtain d where d: "disks w ?sid = Some d" "disk_bytes w ?sid = ms_buf d" using live by (auto simp: cluster_live_def disk_bytes_def)
  have wf: "wf_req (length (ms_buf d)) ?r" and fit: "unat (sbi_block_addr b) * kBlockSizeBytes + kBlockSizeBytes < length (ms_buf d)"
    using block_req_wf [OF live b _ iod(2,3) _ aff, of "[]"] iod(1) d(2) by auto
  have op: "req_op ?r = Op_kRead" "rq_iod ?r = iod" "rq_id ?r = 0" using iod(1) by (simp_all add: req_op_def block_req_def)
  obtain d' c where h: "Disk_HandleMsg mem_backend ?junk (sy_tick S (events w)) d (req_msg (sy_junk S) ?r) =
      (d', Inr (reply_msg ?junk ?r c (if c = Code_kRejectModeMismatch then [] else snd (disk_spec (ms_buf d) ?r))))"
    "ms_buf d' = (if c = Code_kRejectModeMismatch then ms_buf d else fst (disk_spec (ms_buf d) ?r))"
    "c = Code_kRejectModeMismatch \<longleftrightarrow> refuses mem_backend (sy_tick S (events w)) d ?r"
    "c \<in> {Code_kSuccess, Code_kSuccessCongested, Code_kRejectModeMismatch}"
    using mem_store.handle_ok [OF TrueI wf, of ?junk "sy_tick S (events w)" "sy_junk S"] by blast
  have c: "c \<noteq> Code_kRejectModeMismatch" using h(3) op(1) by (simp add: refuses_def)
  have buf: "ms_buf d' = ms_buf d" using h(2) c op(1) by (simp add: disk_spec_def)
  have out: "snd (disk_spec (ms_buf d) ?r) = cluster_content w b"
    using op(1) d(2) iod(3) one_sector [OF iod(2)]
    by (simp add: disk_spec_def cluster_content_def req_off_def req_len_def block_req_def kBlockSizeBytes_def)
  let ?w = "w\<lparr>disks := (disks w)(?sid \<mapsto> d'), events := Suc (events w)\<rparr>"
  have "m_mode (mon (ms_server d')) = m_mode (mon (ms_server d))"
    using HandleMsg_mode [of ?junk "sy_tick S (events w)" d "req_msg (sy_junk S) ?r"] h(1) by simp
  note upd = cluster_disk_update [OF live reg d(1) arg_cong [OF buf, of length] this]
  have "sint (op_len iod) = 4096" using iod(2) by (simp add: op_len_def kSectorShift_def)
  then have "call_disk S ?sid w (CreateStorageOpMsg (sy_junk S) iod 0 aff []) =
      (CreateStorageOpReplyMsg ?junk iod 0 (cluster_content w b) 4096 c, ?w)"
    using h(1) d(1) c op(2,3) by (simp add: call_disk_def req_msg_def reply_msg_def out) (simp add: block_req_def)
  moreover have "length (cluster_content w b) = 4096" using fit d(2) by (simp add: cluster_content_def kBlockSizeBytes_def)
  moreover have "cluster_content ?w = cluster_content w"
    using d buf by (auto simp: cluster_content_def disk_bytes_def fun_eq_iff)
  ultimately show ?thesis using upd h(4) c by blast
qed

section \<open>A volume of the cluster is a disk\<close>

lemma cluster_volume_net:
  assumes "fp_rounding (sy_rnd S)" "\<And>t k. sy_cores S t k < ncores" "is_u32 vol"
  shows "volume_net (cluster_net S) vol ncores cluster_live cluster_accepting cluster_issued cluster_room cluster_content"
proof (rule volume_net.intro)
  show "fp_rounding (net_rnd (cluster_net S))" using assms(1) by simp
  show "fst (cores (cluster_net S) w) k < ncores" for w k using assms(2) by (simp add: observe_def)
  show "cluster_live w' \<and> cluster_accepting w' = cluster_accepting w \<and> cluster_issued w' = cluster_issued w \<and>
      cluster_room w' = cluster_room w \<and> cluster_content w' = cluster_content w"
    if "cluster_live w" "w' \<in> {snd (outcomes (cluster_net S) w), snd (cores (cluster_net S) w), snd (clock (cluster_net S) w),
      snd (thread_order (cluster_net S) w)}" for w w'
    using that(2) by (auto simp: observe_quiet [OF that(1)])
qed (use cluster_batch [OF _ _ assms(3)] cluster_store cluster_fetch in \<open>simp_all\<close>)

text \<open>
  The state \<open>s\<close> of a volume of the cluster holds the sectors \<open>d\<close>, with the memory \<open>m\<close> of its application: its
  scheduler has usable weights, its cached and mapped blocks are different blocks handed out by the
  controller, and every replica of a sector in \<open>d\<close> contains its bytes.
\<close>

definition volume_state :: "surroundings \<Rightarrow> VolumeID \<Rightarrow> nat \<Rightarrow> (nat \<rightharpoonup> byte list) \<Rightarrow> ram \<Rightarrow> cluster VirtualDiskRemote \<Rightarrow> bool" where
  "volume_state S vol ncores = volume_net.vol_rel (cluster_net S) vol ncores cluster_live cluster_issued cluster_content"

text \<open>
  C1. A volume is a disk. Whatever sequence of one-sector writes and reads is submitted to a volume of a cluster
  with room for them, every request succeeds and the application's memory ends up as with a disk that
  stores what was written last to each sector, through placement by the scheduler, allocation by the
  controller, the encoding of the messages, both replicas, rejections and retries. Only while a server
  refuses writes may a request not return within its fuel.
\<close>

theorem volume_is_a_disk:
  assumes "fp_rounding (sy_rnd S)" "\<forall>t k. sy_cores S t k < ncores" "is_u32 vol"
    and "volume_state S vol ncores d m s" "vol_ok (nsectors (blk_res s)) (dom d) ops"
    and "\<forall>sid \<in> block_targets s. length ops * (2 * (n + 2)) < cluster_room (world s) sid"
  shows "(vol_run (n + 2) (cluster_net S) ops s = None \<and> \<not> cluster_accepting (world s) \<and> vd_affinity s = kInvalidServerID) \<or>
    (\<exists>s'. vol_run (n + 2) (cluster_net S) ops s = Some (Inr (replicate (length ops) 4096), s') \<and>
      vmem s' = snd (vol_spec ops d m) \<and> volume_state S vol ncores (fst (vol_spec ops d m)) (snd (vol_spec ops d m)) s')"
proof -
  note V = cluster_volume_net [OF assms(1) _ assms(3), of ncores]
  have net: "volume_net (cluster_net S) vol ncores cluster_live cluster_accepting cluster_issued cluster_room cluster_content"
    by (rule V) (use assms(2) in simp)
  have "volume_net.has_room cluster_room (length ops * (2 * Suc (Suc n))) s"
    using assms(6) by (simp add: volume_net.has_room_def [OF net])
  from volume_net.vol_run_refines [OF net assms(4) [unfolded volume_state_def] assms(5) this] show ?thesis
    by (auto simp: volume_state_def volume_net.may_stall_def [OF net] volume_net.vol_rel_def [OF net] simp del: vol_run.simps)
qed

text \<open>A cluster of three servers, freshly registered, and a volume on it.\<close>

lemma RegisterServer_NoOp:
  assumes "agent_inv a" "sched (ctl_sched a) = NoOp" "next_server_id a < kNumMaxServers"
  shows "\<exists>a'. RegisterServer rnd LoadModel a ip port name n = (a', Inr (next_server_id a)) \<and> agent_inv a' \<and>
    sched (ctl_sched a') = NoOp \<and> next_server_id a' = Suc (next_server_id a) \<and>
    (\<forall>i. agent_servers a' i \<noteq> None \<longleftrightarrow> i = next_server_id a \<or> agent_servers a i \<noteq> None) \<and>
    ((\<forall>i. agent_servers a i \<noteq> None \<longrightarrow> next_of (blk_alloc a) i = 0) \<longrightarrow>
     (\<forall>i. agent_servers a' i \<noteq> None \<longrightarrow> next_of (blk_alloc a') i = 0))"
proof -
  let ?sid = "next_server_id a"
  have inv: "alloc_wf (blk_alloc a)" "mgr_inv (stats_mgr (ctl_sched a)) (cp_num_servers (ctl_sched a))" "0 < ?sid"
    "agent_servers a ?sid = None" using assms(1) domIff [of ?sid "agent_servers a"] by (auto simp: agent_inv_def cp_inv_def)
  then obtain ba mg where m: "BlockAllocator_AddServer (blk_alloc a) ?sid n = Inr ba"
    "ServerStatsManager_AddServer (stats_mgr (ctl_sched a)) ?sid = Inr mg"
    using assms(3) by (simp add: BlockAllocator_AddServer_def alloc_wf_def ServerStatsManager_AddServer_def mgr_inv_def)
  have "to_u32 (Suc ?sid) = Suc ?sid" using assms(3) by (simp add: to_u32_def k_defs)
  moreover have "ControlPlane_AddServer rnd LoadModel (ctl_sched a) ?sid name None = ((ctl_sched a)\<lparr>sched := NoOp, stats_mgr := mg,
      cp_num_servers := cp_num_servers (ctl_sched a) + 1\<rparr>, Inr ())"
    using assms(2) m(2) by (simp add: ControlPlane_AddServer_def policy_AddServer_def split: unit.split)
  ultimately obtain a' where r: "RegisterServer rnd LoadModel a ip port name n = (a', Inr ?sid)" "sched (ctl_sched a') = NoOp"
    "next_server_id a' = Suc ?sid"
    using assms(3) inv(4) m(1) by (simp add: RegisterServer_def Let_def)
  have c: "calm a a'" "agent_servers a' = (agent_servers a)(?sid \<mapsto>
      \<lparr>sd_id = ?sid, sd_ip = ip, sd_name = name, sd_port = port, sd_nsectors = n\<rparr>)" "agent_inv a'"
    using RegisterServer_cases(2) [OF assms(1) r(1)] by (simp_all add: calm_def)
  have "next_of (blk_alloc a') i = 0" if "\<forall>i. agent_servers a i \<noteq> None \<longrightarrow> next_of (blk_alloc a) i = 0" "agent_servers a' i \<noteq> None" for i
    using c(1) that unfolding calm_def by metis
  then show ?thesis using r c(2,3) by auto
qed

definition demo_surroundings :: surroundings where
  "demo_surroundings = \<lparr>sy_junk = (\<lambda>_. 0), sy_rnd = rnd64, sy_hash = (\<lambda>x. x), sy_dc = demo_dc, sy_ctl = (\<lambda>_. demo_env),
     sy_disk_junk = (\<lambda>_ _. 0), sy_tick = (\<lambda>t. \<lparr>t_cpu = 0, t_arrive = t, t_start = t, t_end = t\<rparr>),
     sy_random = (\<lambda>t k. t + k), sy_cores = (\<lambda>t k. t mod 4), sy_clock = (\<lambda>t. t), sy_order = (\<lambda>t. [t mod 2])\<rparr>"

interpretation demo_volume: volume_net "cluster_net demo_surroundings" 1 4 cluster_live cluster_accepting cluster_issued
  cluster_room cluster_content
  by (rule cluster_volume_net) (simp_all add: demo_surroundings_def r64.fp_rounding_axioms is_u32_def)

lemma demo_three:
  obtains a where "agent_inv a" "\<forall>i. agent_servers a i \<noteq> None \<longleftrightarrow> i \<in> {3, 2, 1}"
    "\<forall>i. agent_servers a i \<noteq> None \<longrightarrow> next_of (blk_alloc a) i = 0"
proof -
  let ?a0 = "ControllerAgent_init NoOp"
  have 0: "agent_inv ?a0" "sched (ctl_sched ?a0) = NoOp" "next_server_id ?a0 = 1" "\<forall>i. agent_servers ?a0 i = None"
    by (rule agent_inv_init, simp_all add: ControllerAgent_init_def)
  note R = RegisterServer_NoOp [where rnd = "\<lambda>x. x" and LoadModel = "\<lambda>_. None" and ip = "''10.0.0.1''" and port = 5000
    and name = "''S3EWNX''" and n = 1000]
  obtain a1 where 1: "agent_inv a1" "sched (ctl_sched a1) = NoOp" "next_server_id a1 = 2"
    "\<forall>i. agent_servers a1 i \<noteq> None \<longleftrightarrow> i = 1" "\<forall>i. agent_servers a1 i \<noteq> None \<longrightarrow> next_of (blk_alloc a1) i = 0"
    using R [OF 0(1,2)] 0(3,4) by (auto simp: k_defs)
  obtain a2 where 2: "agent_inv a2" "sched (ctl_sched a2) = NoOp" "next_server_id a2 = 3"
    "\<forall>i. agent_servers a2 i \<noteq> None \<longleftrightarrow> i \<in> {2, 1}" "\<forall>i. agent_servers a2 i \<noteq> None \<longrightarrow> next_of (blk_alloc a2) i = 0"
    using R [OF 1(1,2)] 1(3-5) by (auto simp: k_defs)
  show ?thesis using R [OF 2(1,2)] 2(3-5) that by (auto simp: k_defs)
qed

definition demo_cluster :: "ControllerAgent \<Rightarrow> cluster" where
  "demo_cluster a = \<lparr>ctl = a, disks = (\<lambda>i. if i \<in> {1, 2, 3} then Some \<lparr>ms_server = \<lparr>ss_name = ''mem'', ss_server_id = i,
     mon = DiskMonitor_init 4\<rparr>, ms_buf = replicate kCapacityBytes 0\<rparr> else None), events = 0\<rparr>"

definition demo_volume_of :: "ClientStats \<Rightarrow> ControllerAgent \<Rightarrow> cluster VirtualDiskRemote" where
  "demo_volume_of c a = (let z = ThreadSafeCounter_init 4 in
     \<lparr>vd_sched = \<lparr>dps_type = kWeightedReadWrite, dps_stats = c\<rparr>, vd_servers = {1, 2, 3}, vd_affinity = kInvalidServerID, vd_vol_id = 1,
      blk_res = BlockResolver_init 16,
      blk_caches = map (\<lambda>sid. if sid \<in> {1, 2, 3} then Some (CoreLocalCache_init 4 kPerCoreCachedBlocks) else None) [0..<kNumMaxServers],
      num_read_rejections = z, num_write_rejections = z, num_read_retries = z, num_write_retries = z,
      num_reads_submitted = z, num_writes_submitted = z, n_disk_blocks_gc = 0, vmem = (\<lambda>_. 7), world = demo_cluster a\<rparr>)"

lemma demo_cluster_ready:
  assumes "agent_inv a" "\<forall>i. agent_servers a i \<noteq> None \<longleftrightarrow> i \<in> {3, 2, 1}"
    "\<forall>i. agent_servers a i \<noteq> None \<longrightarrow> next_of (blk_alloc a) i = 0"
  shows "cluster_live (demo_cluster a)" "cluster_accepting (demo_cluster a)" "i \<in> {1, 2, 3} \<Longrightarrow> cluster_room (demo_cluster a) i = 1023"
proof -
  have r: "registered (demo_cluster a) i \<longleftrightarrow> i \<in> {1, 2, 3}" for i
    unfolding registered_def demo_cluster_def using assms(2) by auto
  have n: "next_block (demo_cluster a) i = 0" "disks (demo_cluster a) i \<noteq> None" "length (disk_bytes (demo_cluster a) i) = 2 ^ 33"
    if "i \<in> {1, 2, 3}" for i
    using that assms(2,3) by (auto simp: next_block_def disk_bytes_def demo_cluster_def kCapacityBytes_def)
  show "cluster_live (demo_cluster a)" using assms(1) r n by (simp add: cluster_live_def) (simp add: demo_cluster_def)
  show "cluster_accepting (demo_cluster a)" by (auto simp: cluster_accepting_def demo_cluster_def DiskMonitor_init_def split: if_splits)
  show "i \<in> {1, 2, 3} \<Longrightarrow> cluster_room (demo_cluster a) i = 1023"
    using r n by (simp add: cluster_room_def kAllocationBatch_def kBlockSizeBytes_def)
qed

theorem volume_is_a_disk_witness:
  "let ops = [Write_sector 5 64, Write_sector 3 8192, Read_sector 5 8192] in
   \<exists>c a s'. vol_run 2 (cluster_net demo_surroundings) ops (demo_volume_of c a) = Some (Inr [4096, 4096, 4096], s') \<and>
     vmem s' = snd (vol_spec ops Map.empty (\<lambda>_. 7))"
proof -
  let ?ops = "[Write_sector 5 64, Write_sector 3 8192, Read_sector 5 8192]"
  obtain c where c: "demo_client = Inr c" "cs_servers c = {1, 2, 3}" "cs_modes c ! 1 = Mode_kWrite" "cs_modes c ! 2 = Mode_kMix"
    "cs_modes c ! 3 = Mode_kRead" "weights_usable c (cs_read_weights c)" "weights_usable c (cs_write_weights c)"
    by (rule demo_client_value)
  obtain a where a: "agent_inv a" "\<forall>i. agent_servers a i \<noteq> None \<longleftrightarrow> i \<in> {3, 2, 1}"
    "\<forall>i. agent_servers a i \<noteq> None \<longrightarrow> next_of (blk_alloc a) i = 0" by (rule demo_three)
  note w = demo_cluster_ready [OF a]
  let ?s = "demo_volume_of c a"
  have t: "block_targets ?s = {1, 2, 3}" by (simp add: block_targets_def demo_volume_of_def c(2) Let_def)
  have "{i \<in> {1, 2, 3}. cs_modes c ! i \<noteq> Mode_kRead} = {1, 2}" using c(3-5) by auto
  then have "sched_ready rnd64 (vd_sched ?s)"
    using c(2,6,7) demo_client_reachable [OF c(1)] by (simp add: sched_ready_def demo_volume_of_def Let_def kNumReplicas_def)
  then have "volume_state demo_surroundings 1 4 Map.empty (\<lambda>_. 7) ?s" unfolding volume_state_def
    by (intro demo_volume.vol_rel_fresh [where k = 16])
      (use t w(1) c(2) in \<open>simp_all add: demo_volume_of_def Let_def is_u32_def demo_surroundings_def\<close>)
  moreover have "fp_rounding (sy_rnd demo_surroundings)" "\<forall>t k. sy_cores demo_surroundings t k < 4"
    by (simp_all add: demo_surroundings_def r64.fp_rounding_axioms)
  moreover have "vol_ok (nsectors (blk_res ?s)) (dom Map.empty) ?ops" by (simp add: demo_volume_of_def Let_def BlockResolver_init_def)
  moreover have "\<forall>sid \<in> block_targets ?s. length ?ops * (2 * (0 + 2)) < cluster_room (world ?s) sid"
    unfolding t using w(3) by (simp add: demo_volume_of_def Let_def)
  moreover have "cluster_accepting (world ?s)" using w(2) by (simp add: demo_volume_of_def Let_def)
  moreover have "is_u32 1" by (simp add: is_u32_def)
  ultimately have "\<exists>s'. vol_run (0 + 2) (cluster_net demo_surroundings) ?ops ?s = Some (Inr (replicate (length ?ops) 4096), s') \<and>
      vmem s' = snd (vol_spec ?ops Map.empty (\<lambda>_. 7))"
    using volume_is_a_disk [of demo_surroundings 4 1 Map.empty "\<lambda>_. 7" ?s ?ops 0] by blast
  then obtain s' where "vol_run 2 (cluster_net demo_surroundings) ?ops ?s = Some (Inr (replicate (length ?ops) 4096), s')"
    "vmem s' = snd (vol_spec ?ops Map.empty (\<lambda>_. 7))" unfolding add_0 by blast
  moreover have "replicate (length ?ops) 4096 = [4096, 4096, 4096 :: int]" by simp
  ultimately show ?thesis unfolding Let_def by metis
qed

end
