(* ===== verification/Telemetry.thy ===== *)
theory Telemetry
  imports Sandook_Prelude
begin

text \<open>
  The buffered stream of telemetry records (\<open>sandook/telemetry/telemetry_stream.h\<close>): records are appended to one of two
  buffers, the flusher swaps the buffers under the lock and then writes the full one to the file,
  without repeating empty records. The buffers are modelled by the entries below the index; a
  flush is two steps, so that records may be added between the swap and the writing.
\<close>

section \<open>Definitions\<close>

definition Telemetry_kMaxBufferEntries :: nat where "Telemetry_kMaxBufferEntries = 2 ^ 23"

record 'a TelemetryStream =
  buf_active :: "'a list"
  buf_inactive :: "'a list"
  ts_stream :: "'a list"
  last_empty :: bool

definition TelemetryStream_new :: "'a TelemetryStream" where
  "TelemetryStream_new = \<lparr>buf_active = [], buf_inactive = [], ts_stream = [], last_empty = False\<rparr>"

definition TraceBuffered :: "'a \<Rightarrow> 'a TelemetryStream \<Rightarrow> 'a TelemetryStream" where
  "TraceBuffered obj s = (if length (buf_active s) = Telemetry_kMaxBufferEntries then s else s\<lparr>buf_active := buf_active s @ [obj]\<rparr>)"

text \<open>The first critical section of \<open>Flush\<close>; what the buffer that becomes active held has been written before.\<close>

definition Flush_swap :: "'a TelemetryStream \<Rightarrow> 'a TelemetryStream" where
  "Flush_swap s = s\<lparr>buf_active := [], buf_inactive := buf_active s\<rparr>"

fun Flush_entries :: "('a \<Rightarrow> bool) \<Rightarrow> 'a list \<Rightarrow> 'a TelemetryStream \<Rightarrow> 'a TelemetryStream" where
  "Flush_entries IsEmpty [] s = s"
| "Flush_entries IsEmpty (x # xs) s =
     (if IsEmpty x
      then if last_empty s then Flush_entries IsEmpty xs s
           else Flush_entries IsEmpty xs (s\<lparr>last_empty := True, ts_stream := ts_stream s @ [x]\<rparr>)
      else Flush_entries IsEmpty xs (s\<lparr>last_empty := False, ts_stream := ts_stream s @ [x]\<rparr>))"

definition Flush_write :: "('a \<Rightarrow> bool) \<Rightarrow> 'a TelemetryStream \<Rightarrow> 'a TelemetryStream" where
  "Flush_write IsEmpty s = (Flush_entries IsEmpty (buf_inactive s) s)\<lparr>buf_inactive := []\<rparr>"

text \<open>The flusher alternates the two halves, other threads add records at any time. \<open>pending\<close> tells that the second half is due;
  the log collects the records that found room.\<close>

datatype 'a telemetry_event = Record 'a | Flusher

fun telemetry_step :: "('a \<Rightarrow> bool) \<Rightarrow> 'a telemetry_event \<Rightarrow> 'a TelemetryStream \<times> bool \<times> 'a list \<Rightarrow> 'a TelemetryStream \<times> bool \<times> 'a list" where
  "telemetry_step IsEmpty (Record x) (s, pending, taken) =
     (TraceBuffered x s, pending, if length (buf_active s) = Telemetry_kMaxBufferEntries then taken else taken @ [x])"
| "telemetry_step IsEmpty Flusher (s, pending, taken) =
     (if pending then (Flush_write IsEmpty s, False, taken) else (Flush_swap s, True, taken))"

section \<open>The file is the log without repeated empty records\<close>

fun squeeze :: "('a \<Rightarrow> bool) \<Rightarrow> bool \<Rightarrow> 'a list \<Rightarrow> 'a list" where
  "squeeze E b [] = []"
| "squeeze E b (x # xs) = (if E x \<and> b then squeeze E b xs else x # squeeze E (E x) xs)"

definition ends_empty :: "('a \<Rightarrow> bool) \<Rightarrow> bool \<Rightarrow> 'a list \<Rightarrow> bool" where
  "ends_empty E b xs = (if xs = [] then b else E (last xs))"

lemma ends_empty_Nil [simp]: "ends_empty E b [] = b"
  by (simp add: ends_empty_def)

lemma squeeze_append: "squeeze E b (xs @ ys) = squeeze E b xs @ squeeze E (ends_empty E b xs) ys"
  by (induction xs arbitrary: b) (auto simp: ends_empty_def)

lemma ends_empty_append: "ends_empty E b (xs @ ys) = ends_empty E (ends_empty E b xs) ys"
  by (simp add: ends_empty_def)

lemma Flush_entries_squeeze:
  "Flush_entries E xs s = s\<lparr>ts_stream := ts_stream s @ squeeze E (last_empty s) xs, last_empty := ends_empty E (last_empty s) xs\<rparr>"
  by (induction E xs s rule: Flush_entries.induct) (auto simp: ends_empty_def)

definition stream_inv :: "('a \<Rightarrow> bool) \<Rightarrow> 'a TelemetryStream \<times> bool \<times> 'a list \<Rightarrow> bool" where
  "stream_inv E x \<longleftrightarrow> (case x of (s, pending, taken) \<Rightarrow> (pending \<or> buf_inactive s = []) \<and>
     (\<exists>written. taken = written @ buf_inactive s @ buf_active s \<and> ts_stream s = squeeze E False written \<and>
       last_empty s = ends_empty E False written))"

lemma stream_inv_step:
  assumes "stream_inv E x"
  shows "stream_inv E (telemetry_step E e x)"
proof -
  obtain s pending taken where x: "x = (s, pending, taken)" by (cases x)
  obtain w where w: "pending \<or> buf_inactive s = []" "taken = w @ buf_inactive s @ buf_active s" "ts_stream s = squeeze E False w"
    "last_empty s = ends_empty E False w"
    using assms by (auto simp: stream_inv_def x)
  show ?thesis
  proof (cases e)
    case (Record y)
    then show ?thesis using w by (auto simp: x stream_inv_def TraceBuffered_def)
  next
    case Flusher
    then show ?thesis using w
      by (auto simp: x stream_inv_def Flush_swap_def Flush_write_def Flush_entries_squeeze squeeze_append ends_empty_append
          intro: exI [of _ w] exI [of _ "w @ buf_inactive s"])
  qed
qed

lemma stream_inv_run: "stream_inv E x \<Longrightarrow> stream_inv E (fold (telemetry_step E) es x)"
  by (induction es arbitrary: x) (simp_all add: stream_inv_step)

text \<open>Whatever the interleaving, the file holds a prefix of the records that found room, in their order and with runs of empty
  records shortened to one; two further steps of the flusher complete it.\<close>

lemma stream_complete:
  fixes es :: "'a telemetry_event list"
  assumes "fold (telemetry_step E) es (TelemetryStream_new, False, []) = (s, pending, taken)"
  shows "\<exists>written unwritten. taken = written @ unwritten \<and> ts_stream s = squeeze E False written"
    and "\<not> pending \<Longrightarrow> ts_stream (Flush_write E (Flush_swap s)) = squeeze E False taken"
proof -
  have "stream_inv E (TelemetryStream_new, False, [])" by (simp add: stream_inv_def TelemetryStream_new_def ends_empty_def)
  then have "stream_inv E (s, pending, taken)" using stream_inv_run [of E _ es] assms by metis
  then obtain w where w: "pending \<or> buf_inactive s = []" "taken = w @ buf_inactive s @ buf_active s" "ts_stream s = squeeze E False w"
    "last_empty s = ends_empty E False w"
    by (auto simp: stream_inv_def)
  then show "\<exists>written unwritten. taken = written @ unwritten \<and> ts_stream s = squeeze E False written" by blast
  assume "\<not> pending"
  then show "ts_stream (Flush_write E (Flush_swap s)) = squeeze E False taken"
    using w by (simp add: Flush_write_def Flush_swap_def Flush_entries_squeeze squeeze_append)
qed

end
