(* ===== verification/Threads.thy ===== *)
theory Threads
  imports Sandook_Prelude
begin

text \<open>
  Joining and detaching a thread (\<open>sandook/bindings/thread.cc\<close>, \<open>sync.h\<close>): the child and the owner of a \<open>Thread\<close> meet
  in a \<open>join_data\<close> that lives in the buffer of the child, under its spin lock. Every access to it is a step of its
  own. Touching it after the child destroyed it, a failing assertion of its destructors and making
  a thread ready that is not parked are faults.
\<close>

section \<open>Definitions\<close>

datatype party = Owner | Child_thread

datatype fault = Use_after_destroy | Assertion_failed | Not_parked

record join_data =
  jd_lock :: "party option"
  jd_waker :: "party option"
  jd_done :: bool

text \<open>The next statement of the child in \<open>ThreadTrampolineWithJoin\<close> and of the owner in \<open>Join\<close> and \<open>Detach\<close>.\<close>

datatype child_pc = C_run | C_lock | C_check | C_wake | C_unlock | C_arm | C_store | C_park | C_parked | C_destroy | C_exited

datatype owner_pc =
  J_lock | J_check | J_unlock | J_wake | J_arm | J_store | J_park | J_parked
| D_lock | D_check | D_wake | D_store | D_unlock
| Returned

text \<open>\<open>jd\<close> is None once the data is destroyed; \<open>ran\<close> tells that the function of the thread has returned.\<close>

record join_state =
  jd :: "join_data option"
  child :: child_pc
  owner :: owner_pc
  ran :: bool

definition Thread_new :: "owner_pc \<Rightarrow> join_state" where
  "Thread_new pc = \<lparr>jd = Some \<lparr>jd_lock = None, jd_waker = None, jd_done = False\<rparr>, child = C_run, owner = pc, ran = False\<rparr>"

text \<open>An access to the data; None means that the thread has to wait.\<close>

definition access :: "join_state \<Rightarrow> (join_data \<Rightarrow> (fault + join_state) option) \<Rightarrow> (fault + join_state) option" where
  "access s k = (case jd s of None \<Rightarrow> Some (Inl Use_after_destroy) | Some d \<Rightarrow> k d)"

definition Spin_Lock :: "party \<Rightarrow> join_state \<Rightarrow> (fault + join_state) option" where
  "Spin_Lock t s = access s (\<lambda>d. if jd_lock d = None then Some (Inr (s\<lparr>jd := Some (d\<lparr>jd_lock := Some t\<rparr>)\<rparr>)) else None)"

definition Spin_Unlock :: "join_state \<Rightarrow> (fault + join_state) option" where
  "Spin_Unlock s = access s (\<lambda>d. Some (Inr (s\<lparr>jd := Some (d\<lparr>jd_lock := None\<rparr>)\<rparr>)))"

definition ThreadWaker_Arm :: "party \<Rightarrow> join_state \<Rightarrow> (fault + join_state) option" where
  "ThreadWaker_Arm t s = access s (\<lambda>d. Some (Inr (s\<lparr>jd := Some (d\<lparr>jd_waker := Some t\<rparr>)\<rparr>)))"

definition thread_ready :: "party \<Rightarrow> join_state \<Rightarrow> fault + join_state" where
  "thread_ready t s = (case t of
     Owner \<Rightarrow> if owner s = J_parked then Inr (s\<lparr>owner := Returned\<rparr>) else Inl Not_parked
   | Child_thread \<Rightarrow> if child s = C_parked then Inr (s\<lparr>child := C_destroy\<rparr>) else Inl Not_parked)"

definition ThreadWaker_Wake :: "join_state \<Rightarrow> (fault + join_state) option" where
  "ThreadWaker_Wake s = access s (\<lambda>d. case jd_waker d of
     None \<Rightarrow> Some (Inr s) | Some t \<Rightarrow> Some (thread_ready t (s\<lparr>jd := Some (d\<lparr>jd_waker := None\<rparr>)\<rparr>)))"

definition store_done :: "join_state \<Rightarrow> (fault + join_state) option" where
  "store_done s = access s (\<lambda>d. Some (Inr (s\<lparr>jd := Some (d\<lparr>jd_done := True\<rparr>)\<rparr>)))"

definition destroy_data :: "join_state \<Rightarrow> (fault + join_state) option" where
  "destroy_data s = access s (\<lambda>d. Some (if jd_lock d \<noteq> None \<or> jd_waker d \<noteq> None then Inl Assertion_failed else Inr (s\<lparr>jd := None\<rparr>)))"

text \<open>A statement, after which the thread goes on at \<open>pc\<close>.\<close>

definition child_goto :: "child_pc \<Rightarrow> (fault + join_state) option \<Rightarrow> (fault + join_state) option" where
  "child_goto pc = map_option (map_sum id (\<lambda>s. s\<lparr>child := pc\<rparr>))"

definition owner_goto :: "owner_pc \<Rightarrow> (fault + join_state) option \<Rightarrow> (fault + join_state) option" where
  "owner_goto pc = map_option (map_sum id (\<lambda>s. s\<lparr>owner := pc\<rparr>))"

definition ThreadTrampolineWithJoin :: "join_state \<Rightarrow> (fault + join_state) option" where
  "ThreadTrampolineWithJoin s = (case child s of
     C_run \<Rightarrow> Some (Inr (s\<lparr>ran := True, child := C_lock\<rparr>))
   | C_lock \<Rightarrow> child_goto C_check (Spin_Lock Child_thread s)
   | C_check \<Rightarrow> access s (\<lambda>d. child_goto (if jd_done d then C_wake else C_arm) (Some (Inr s)))
   | C_wake \<Rightarrow> child_goto C_unlock (ThreadWaker_Wake s)
   | C_unlock \<Rightarrow> child_goto C_destroy (Spin_Unlock s)
   | C_arm \<Rightarrow> child_goto C_store (ThreadWaker_Arm Child_thread s)
   | C_store \<Rightarrow> child_goto C_park (store_done s)
   | C_park \<Rightarrow> child_goto C_parked (Spin_Unlock s)
   | C_destroy \<Rightarrow> child_goto C_exited (destroy_data s)
   | _ \<Rightarrow> None)"

definition Thread_Join :: "join_state \<Rightarrow> (fault + join_state) option" where
  "Thread_Join s = (case owner s of
     J_lock \<Rightarrow> owner_goto J_check (Spin_Lock Owner s)
   | J_check \<Rightarrow> access s (\<lambda>d. owner_goto (if jd_done d then J_unlock else J_arm) (Some (Inr s)))
   | J_unlock \<Rightarrow> owner_goto J_wake (Spin_Unlock s)
   | J_wake \<Rightarrow> owner_goto Returned (ThreadWaker_Wake s)
   | J_arm \<Rightarrow> owner_goto J_store (ThreadWaker_Arm Owner s)
   | J_store \<Rightarrow> owner_goto J_park (store_done s)
   | J_park \<Rightarrow> owner_goto J_parked (Spin_Unlock s)
   | _ \<Rightarrow> None)"

definition Thread_Detach :: "join_state \<Rightarrow> (fault + join_state) option" where
  "Thread_Detach s = (case owner s of
     D_lock \<Rightarrow> owner_goto D_check (Spin_Lock Owner s)
   | D_check \<Rightarrow> access s (\<lambda>d. owner_goto (if jd_done d then D_wake else D_store) (Some (Inr s)))
   | D_wake \<Rightarrow> owner_goto D_unlock (ThreadWaker_Wake s)
   | D_store \<Rightarrow> owner_goto D_unlock (store_done s)
   | D_unlock \<Rightarrow> owner_goto Returned (Spin_Unlock s)
   | _ \<Rightarrow> None)"

text \<open>A schedule says which thread runs next; a thread that has to wait keeps its turn unused.\<close>

fun thread_step :: "party \<Rightarrow> join_state \<Rightarrow> (fault + join_state) option" where
  "thread_step Owner s = (case Thread_Join s of None \<Rightarrow> Thread_Detach s | r \<Rightarrow> r)"
| "thread_step Child_thread s = ThreadTrampolineWithJoin s"

fun join_run :: "party list \<Rightarrow> join_state \<Rightarrow> fault + join_state" where
  "join_run [] s = Inr s"
| "join_run (t # ts) s = (case thread_step t s of None \<Rightarrow> join_run ts s | Some (Inl f) \<Rightarrow> Inl f | Some (Inr s') \<Rightarrow> join_run ts s')"

lemmas step_defs = ThreadTrampolineWithJoin_def Thread_Join_def Thread_Detach_def child_goto_def owner_goto_def access_def
  Spin_Lock_def Spin_Unlock_def ThreadWaker_Arm_def ThreadWaker_Wake_def thread_ready_def store_done_def destroy_data_def

section \<open>The join protocol\<close>

text \<open>The data in every pair of positions that a join can reach.\<close>

definition join_phase :: "child_pc \<Rightarrow> owner_pc \<Rightarrow> join_data option" where
  "join_phase c p =
     (let d = \<lambda>l w dn. Some \<lparr>jd_lock = l, jd_waker = w, jd_done = dn\<rparr>
      in if c \<in> {C_run, C_lock} then (case p of
             J_lock \<Rightarrow> d None None False | J_check \<Rightarrow> d (Some Owner) None False | J_arm \<Rightarrow> d (Some Owner) None False
           | J_store \<Rightarrow> d (Some Owner) (Some Owner) False | J_park \<Rightarrow> d (Some Owner) (Some Owner) True
           | J_parked \<Rightarrow> d None (Some Owner) True | _ \<Rightarrow> None)
         else if c \<in> {C_check, C_wake, C_arm, C_store, C_park} then (case p of
             J_lock \<Rightarrow> if c = C_wake then None
               else d (Some Child_thread) (if c \<in> {C_store, C_park} then Some Child_thread else None) (c = C_park)
           | J_parked \<Rightarrow> if c \<in> {C_check, C_wake} then d (Some Child_thread) (Some Owner) True else None
           | _ \<Rightarrow> None)
         else if c = C_parked then (case p of
             J_lock \<Rightarrow> d None (Some Child_thread) True | J_check \<Rightarrow> d (Some Owner) (Some Child_thread) True
           | J_unlock \<Rightarrow> d (Some Owner) (Some Child_thread) True | J_wake \<Rightarrow> d None (Some Child_thread) True | _ \<Rightarrow> None)
         else if p = Returned then (if c = C_unlock then d (Some Child_thread) None True else d None None True)
         else None)"

definition join_inv :: "join_state \<Rightarrow> bool" where
  "join_inv s \<longleftrightarrow> join_phase (child s) (owner s) \<noteq> None \<and>
     jd s = (if child s = C_exited then None else join_phase (child s) (owner s)) \<and> (ran s \<longleftrightarrow> child s \<noteq> C_run)"

text \<open>How many statements are left.\<close>

fun child_left :: "child_pc \<Rightarrow> nat" where
  "child_left C_run = 8" | "child_left C_lock = 7" | "child_left C_check = 6" | "child_left C_arm = 5" | "child_left C_store = 4"
| "child_left C_park = 3" | "child_left C_wake = 3" | "child_left C_parked = 2" | "child_left C_unlock = 2"
| "child_left C_destroy = 1" | "child_left C_exited = 0"

fun owner_left :: "owner_pc \<Rightarrow> nat" where
  "owner_left J_lock = 7" | "owner_left J_check = 6" | "owner_left J_arm = 5" | "owner_left J_store = 4" | "owner_left J_park = 3"
| "owner_left J_unlock = 3" | "owner_left J_parked = 2" | "owner_left J_wake = 2" | "owner_left _ = 0"

definition left :: "join_state \<Rightarrow> nat" where
  "left s = child_left (child s) + owner_left (owner s)"

lemma join_step:
  assumes "join_inv s"
  shows "thread_step t s = None \<or> (\<exists>s'. thread_step t s = Some (Inr s') \<and> join_inv s' \<and> left s' < left s)"
  using assms by (cases t; cases "child s"; cases "owner s") (simp_all add: join_inv_def join_phase_def Let_def step_defs left_def)

lemma join_progress:
  assumes "join_inv s" "left s \<noteq> 0"
  shows "\<exists>t. thread_step t s \<noteq> None"
proof -
  have "thread_step Owner s \<noteq> None \<or> thread_step Child_thread s \<noteq> None"
    using assms by (cases "child s"; cases "owner s") (simp_all add: join_inv_def join_phase_def Let_def step_defs left_def)
  then show ?thesis by blast
qed

lemma join_run_inv: "join_inv s \<Longrightarrow> \<exists>s'. join_run ts s = Inr s' \<and> join_inv s' \<and> left s' \<le> left s"
proof (induction ts arbitrary: s)
  case (Cons t ts)
  show ?case
  proof (cases "thread_step t s = None")
    case False
    then obtain s1 where "thread_step t s = Some (Inr s1)" "join_inv s1" "left s1 < left s" using join_step [OF Cons.prems, of t] by auto
    then show ?thesis using Cons.IH [of s1] by auto
  qed (use Cons in auto)
qed auto

lemma join_run_append: "join_run (xs @ ys) s = (case join_run xs s of Inl f \<Rightarrow> Inl f | Inr s' \<Rightarrow> join_run ys s')"
  by (induction xs arbitrary: s) (auto split: option.split sum.split)

lemma join_round:
  assumes "join_inv s" "left s \<noteq> 0"
  shows "\<exists>s'. join_run [Owner, Child_thread] s = Inr s' \<and> join_inv s' \<and> left s' < left s"
proof (cases "thread_step Owner s = None")
  case True
  then obtain s1 where "thread_step Child_thread s = Some (Inr s1)" "join_inv s1" "left s1 < left s"
    using join_progress [OF assms] join_step [OF assms(1), of Child_thread] by (metis party.exhaust)
  then show ?thesis using True by simp
next
  case False
  then obtain s1 where s1: "thread_step Owner s = Some (Inr s1)" "join_inv s1" "left s1 < left s" using join_step [OF assms(1), of Owner] by auto
  obtain s2 where "join_run [Child_thread] s1 = Inr s2" "join_inv s2" "left s2 \<le> left s1" using join_run_inv [OF s1(2)] by blast
  then show ?thesis using s1 by auto
qed

lemma join_rounds:
  "join_inv s \<Longrightarrow> left s \<le> n \<Longrightarrow> \<exists>s'. join_run (concat (replicate n [Owner, Child_thread])) s = Inr s' \<and> join_inv s' \<and> left s' = 0"
proof (induction n arbitrary: s)
  case (Suc n)
  show ?case
  proof (cases "left s = 0")
    case True
    then show ?thesis using join_run_inv [OF Suc.prems(1), of "concat (replicate (Suc n) [Owner, Child_thread])"] by auto
  next
    case False
    obtain s1 where s1: "join_run [Owner, Child_thread] s = Inr s1" "join_inv s1" "left s1 < left s" using join_round [OF Suc.prems(1) False] by blast
    then obtain s' where "join_run (concat (replicate n [Owner, Child_thread])) s1 = Inr s'" "join_inv s'" "left s' = 0"
      using Suc.IH [of s1] Suc.prems(2) by auto
    then show ?thesis using s1(1) join_run_append [of "[Owner, Child_thread]" "concat (replicate n [Owner, Child_thread])" s] by auto
  qed
qed auto

text \<open>C10. Joining a thread is safe and ends. Under every interleaving of the statements of the thread and of its owner, \<open>Join\<close>
  touches no destroyed data, violates no assertion and wakes only a parked thread; it returns only
  after the function of the thread has returned; and from every point 15 rounds in which both get a
  turn bring it to its end, with the data destroyed.\<close>

theorem join_waits_and_ends:
  "\<exists>s. join_run sched (Thread_new J_lock) = Inr s \<and> (owner s = Returned \<longrightarrow> ran s) \<and>
    (\<exists>s'. join_run (sched @ concat (replicate 15 [Owner, Child_thread])) (Thread_new J_lock) = Inr s' \<and>
      owner s' = Returned \<and> child s' = C_exited \<and> ran s' \<and> jd s' = None)"
proof -
  have init: "join_inv (Thread_new J_lock)" "left (Thread_new J_lock) = 15"
    by (simp_all add: join_inv_def join_phase_def Thread_new_def Let_def left_def)
  obtain s where s: "join_run sched (Thread_new J_lock) = Inr s" "join_inv s" "left s \<le> 15" using join_run_inv [OF init(1)] init(2) by auto
  obtain s' where s': "join_run (concat (replicate 15 [Owner, Child_thread])) s = Inr s'" "join_inv s'" "left s' = 0"
    using join_rounds [OF s(2,3)] by blast
  have "owner s' = Returned \<and> child s' = C_exited \<and> ran s' \<and> jd s' = None"
    using s'(2,3) by (cases "child s'"; cases "owner s'") (simp_all add: join_inv_def join_phase_def left_def)
  moreover have "ran s" if "owner s = Returned" using s(2) that by (cases "child s") (simp_all add: join_inv_def join_phase_def Let_def)
  ultimately show ?thesis using s(1) s'(1) by (auto simp: join_run_append)
qed

theorem join_waits_and_ends_witness:
  "\<exists>s. join_run [Child_thread, Owner, Owner] (Thread_new J_lock) = Inr s \<and> owner s = J_arm \<and> ran s \<and>
    (\<exists>s'. join_run ([Child_thread, Owner, Owner] @ concat (replicate 15 [Owner, Child_thread])) (Thread_new J_lock) = Inr s' \<and>
      owner s' = Returned \<and> child s' = C_exited \<and> ran s' \<and> jd s' = None)"
  using join_waits_and_ends [of "[Child_thread, Owner, Owner]"] by (simp add: Thread_new_def step_defs)

text \<open>\<open>Detach\<close> wakes the child while it still holds the lock: the child can destroy the lock that is held, and \<open>Detach\<close> then
  unlocks memory that is gone.\<close>

lemma detach_races_with_destruction:
  "join_run ([Child_thread, Child_thread, Child_thread, Child_thread, Child_thread, Child_thread, Owner, Owner, Owner, Child_thread])
     (Thread_new D_lock) = Inl Assertion_failed"
  by (simp add: Thread_new_def step_defs)

end
