(* ===== verification/Spec2Isabelle.thy ===== *)
theory Spec2Isabelle
  imports Blk_Dev Config Core_Local_Cache Block_Resolver Control_Plane Data_Plane Disk_Monitor Mem_Hook Rpc Sandook_Time System
    Telemetry Threads
begin

text \<open>
  A verification library for Sandook, a storage system that pools the SSDs of a cluster. Disk servers
  store blocks, a controller registers servers, hands out blocks, and decides which servers take reads
  and which take writes, and a virtual disk in the client turns reads and writes of a volume into
  requests to the servers, with two replicas of every block.

  \<^bold>\<open>Parts and how they interact.\<close>
  A virtual disk asks the controller for batches of blocks of one server at a time, keeps them in
  caches per core, and maps a sector of the volume to the blocks its last write went to. Every write
  goes to fresh blocks on two servers that its scheduler selects by weight; a server that changed
  its mode refuses a write, and the write is retried elsewhere. A read goes to one of the replicas.
  Disk servers report loads and latencies to the controller and receive their mode and weights in
  the reply, virtual disks fetch them from there. All of this travels as messages in a fixed
  binary layout over remote procedure calls with credits.

  \<^bold>\<open>Theories and sources\<close> (paths under \<open>src/sandook\<close> unless given in full).

  \<^item> Shared vocabulary: \<open>Sandook_Prelude\<close> (results of calls, array access, integers at their width),
    \<open>Double_Rounding\<close> (doubles as reals with a rounding function; the locale \<open>fp_rounding\<close> and its
    instance \<open>rnd64\<close>), \<open>Sandook_Types\<close> (\<open>base/constants.h\<close>, \<open>types.h\<close>, \<open>server_stats.h\<close>, \<open>io_desc.h\<close>),
    \<open>Sandook_Time\<close> (\<open>base/time.h\<close>), \<open>Config\<close> (\<open>config/config.cc\<close>).
  \<^item> Blocks: \<open>Block_Allocator\<close> (\<open>controller/block_allocator.h\<close>, locale \<open>block_source\<close>), \<open>Core_Local_Cache\<close>
    (\<open>base/core_local_cache.h\<close>), \<open>Block_Resolver\<close> (\<open>virtual_disk/block_resolver.h\<close>, locale \<open>block_table\<close>).
  \<^item> Control plane: \<open>Disk_Model\<close> (\<open>disk_model/disk_model.h\<close>), \<open>RW_Isolation\<close>, \<open>Profile_Guided\<close>, \<open>Control_Plane\<close>
    (\<open>scheduler/control_plane\<close>), \<open>Controller\<close> (\<open>controller/controller_agent.cc\<close>, \<open>controller_conn_handler.cc\<close>).
  \<^item> Data plane: \<open>Congestion\<close> and \<open>Data_Plane\<close> (\<open>scheduler/data_plane\<close>, locales \<open>read_scheduler\<close> and
    \<open>write_scheduler\<close> for the five policies).
  \<^item> Disk server: \<open>Counter\<close> (\<open>base/counter.cc\<close>, locale \<open>event_counter\<close>), \<open>T_Digest\<close> (\<open>src/lib/tdigest/TDigest.h\<close>),
    \<open>Disk_Monitor\<close> (\<open>disk_server/disk_monitor.h\<close>), \<open>Disk_Server\<close> (\<open>storage_server.cc\<close>, the three backends and
    \<open>disk_conn_handler.cc\<close>, locale \<open>block_store\<close>).
  \<^item> Communication: \<open>Msg\<close> (\<open>base/msg.h\<close>, locale \<open>wire_struct\<close> with one interpretation per struct), \<open>Vector_IO\<close>
    (\<open>base/io.cc\<close>, \<open>bindings/net.h\<close>), \<open>Rpc\<close> (\<open>rpc/rpc.cc\<close>).
  \<^item> Virtual disk: \<open>Virtual_Disk_Base\<close> (\<open>virtual_disk/virtual_disk_base.cc\<close>, \<open>virtual_disk_local.cc\<close>), \<open>Virtual_Disk\<close>
    (\<open>virtual_disk_remote.cc\<close>, \<open>utils/calibrated_time.cc\<close>), \<open>Volume\<close> (its correctness in the locale \<open>volume_net\<close>).
  \<^item> Composition: \<open>Cluster\<close> (a disk server and the controller), \<open>System\<close> (a volume, the controller and the disk servers,
    which discharge the contract of \<open>volume_net\<close>).
  \<^item> Runtime support: \<open>Blk_Dev\<close> (\<open>blk_dev\<close>), \<open>Slab\<close> and \<open>Mem_Hook\<close> (\<open>mem\<close>), \<open>Threads\<close> (\<open>bindings/thread.cc\<close>),
    \<open>Telemetry\<close> (\<open>telemetry/telemetry_stream.h\<close>).

  \<^bold>\<open>How the model corresponds to the code.\<close>
  Structs and classes are records whose fields are the members, enumerations are datatypes, and an
  operation is a function with the name of the method, which takes the object and returns it updated.
  Errors are values: \<open>Errno\<close> for \<open>std::expected\<close>, \<open>Runtime_error\<close> and \<open>Out_of_range\<close> for exceptions,
  \<open>Assertion\<close> for \<open>assert\<close> and \<open>BUG_ON\<close>, \<open>Null_pointer\<close> for the use of an empty pointer. Integers keep their width,
  as words or reduced naturals. Clock readings, random numbers, the core a section runs on and uninitialised memory
  are arguments, so that a theorem holds for all their values. An operation under a lock, or with
  preemption disabled, is one step; where the code interleaves several, the interleaving is an
  argument or a step relation, and the theorems hold for all of them.

  \<^bold>\<open>What the lemmas show.\<close>
  \<^item> Blocks: no block is handed out twice, by the allocator, through the caches, or over all replies of the controller;
    the resolver returns the last mapping and every replaced block is collected exactly once.
  \<^item> Storage: requests to a disk server act on an abstract disk; a sharded request is one transfer; any sequence of
    writes and reads on a volume of the whole cluster behaves as a disk, through messages, replication,
    refusals and retries.
  \<^item> Scheduling: modes are a partition of the allocated size, weights are distributions, writes avoid readers and
    reads prefer them, for every policy; rate limits stay in range, recover, and drop once per window.
  \<^item> Communication: every struct is read back from its bytes; a call returns the result of the handler on its own
    request; no wakeup of the sender is lost; partial transfers deliver every byte.
  \<^item> Monitoring: counters, latency buffers and digests account for every operation; the congestion state follows its
    abstract transition system.
  \<^item> Runtime support: objects of the slab allocator never overlap and keep their contents; the block device completes
    every request once; joining a thread touches no destroyed data and ends.
  \<^item> Lemmas named in the list of findings show behaviour that differs from what the code or its comments mean to do.

  \<^bold>\<open>Bounds and fuel.\<close>
  Loops recurse on their data. The loops that may run forever (\<open>reserve\<close> and \<open>get\<close> of the cache, the transfer
  and receive loops, \<open>split\<close>) are partial functions with None for not returning, and their returning is a
  theorem. A request on a remote volume retries through \<open>ProcessRequest\<close>, which takes fuel for the retries and
  for the rounds over the replicas. The theorem on volumes holds for every fuel of at least two and
  says that a run returns unless the servers stop accepting writes and the volume is not tied to one server.
  The only bounds on sequences are that 64-bit block pointers do not wrap.

  \<^bold>\<open>Not modelled.\<close>
  \<^item> What only calls other software: the set-up of ublk devices and signal handlers (\<open>blk_dev_agent.cc\<close>), connection set-up
    and listening (\<open>bindings/net.h\<close>, \<open>rpc.cc\<close>), timers, locks and RCU (\<open>bindings\<close>), parsing of JSON and of
    disk model files, the queries of device sizes in constructors of the backends.
  \<^item> Output: log messages, the text of errors (\<open>base/error.cc\<close>), the fields of telemetry records.
  \<^item> Code no part of the system calls: merging of digests and the cumulative distribution in \<open>TDigest.h\<close>, \<open>src/lib/stmpct\<close>,
    \<open>src/lib/ewma\<close>, the superseded \<open>scheduler/control_plane/rw_isolation.h\<close>.
  \<^item> Programs around the system: tests, benchmarks, samples, load generators, \<open>run.cc\<close> files, \<open>utils/pre_fill.cc\<close> and
    \<open>utils/storage_perf.cc\<close>, scripts and the Rust bindings.
  \<^item> Weak memory: steps are interleaved, and the relaxed atomic accesses of the code are taken as sequentially consistent.
\<close>

end
